(* ===== verification/Prelude.thy ===== *)
theory Prelude
  imports Main "HOL-Library.Word"
begin

text \<open>
  Shared vocabulary of the development: names for the machine integers of the C code,
  the byte strings it passes around, little lemmas on words, lists and byte memories that
  several components use, and the fact collections their automation is built on.
\<close>

unbundle bit_operations_syntax

subsection \<open>Machine integers\<close>

type_synonym u8 = "8 word"
type_synonym u16 = "16 word"
type_synonym u32 = "32 word"
type_synonym u64 = "64 word"

type_synonym bytes = "u8 list"

named_theorems layout \<open>how byte-level updates of a buffer or memory are read back\<close>
named_theorems frame \<open>what an operation leaves unchanged\<close>
named_theorems step_defs \<open>definitions of the operations of a component\<close>

subsection \<open>Words\<close>

text \<open>
  C adds byte-wide pieces that were shifted to disjoint positions; on disjoint bits addition
  is bitwise or.
\<close>

lemma plus_disjoint_bits:
  fixes a b :: "'a::len word"
  assumes "a AND b = 0"
  shows "a + b = a OR b"
  using assms by (simp add: disjunctive_add_eq_or)

lemma unat_u8_less [simp]: "unat (b :: u8) < 256"
  using unsigned_less [of b] by simp

lemma unat_u8_le [simp]: "unat (b :: u8) \<le> 255"
  using unat_u8_less [of b] by linarith

lemma unat_u16_less [simp]: "unat (b :: u16) < 65536"
  using unsigned_less [of b] by simp

lemma unat_u32_less [simp]: "unat (b :: u32) < 4294967296"
  using unsigned_less [of b] by simp

text \<open>Modular distance, the reading of \<^verbatim>\<open>uint32_t\<close> subtraction the timers rely on.\<close>

lemma unat_minus_u32:
  fixes a b :: u32
  shows "unat (a - b) = (if unat b \<le> unat a then unat a - unat b else 4294967296 + unat a - unat b)"
  by (auto simp: unat_sub_if' word_le_nat_alt)

end
