(* ===== verification/CaError.thy ===== *)
theory CaError
  imports Prelude
begin

text \<open>
  The result codes every component of the SDK returns
  (\<^verbatim>\<open>ca821x-api/include/ca821x_error.h\<close>) and their printed form
  (\<^verbatim>\<open>ca821x-api/source/ca821x_error.c\<close>).
  A C function that returns \<^verbatim>\<open>ca_error\<close> is a function returning this datatype, paired with
  the new state; \<open>ca_error_code\<close> gives the numeric values of the enumeration.
\<close>

unbundle bit_operations_syntax

datatype ca_error =
    CA_ERROR_SUCCESS
  | CA_ERROR_FAIL
  | CA_ERROR_UNKNOWN
  | CA_ERROR_INVALID
  | CA_ERROR_NO_ACCESS
  | CA_ERROR_INVALID_STATE
  | CA_ERROR_BUSY
  | CA_ERROR_INVALID_ARGS
  | CA_ERROR_NOT_HANDLED
  | CA_ERROR_NOT_FOUND
  | CA_ERROR_NO_BUFFER
  | CA_ERROR_TIMEOUT
  | CA_ERROR_ALREADY
  | CA_ERROR_NOT_IMPLEMENTED
  | CA_ERROR_SPI_WAIT_TIMEOUT
  | CA_ERROR_SPI_NACK_TIMEOUT
  | CA_ERROR_SPI_SCAN_IN_PROGRESS
  | CA_ERROR_SPI_SEND_EXCHANGE_FAIL

fun ca_error_code :: "ca_error \<Rightarrow> u8" where
  "ca_error_code CA_ERROR_SUCCESS = 0x00"
| "ca_error_code CA_ERROR_FAIL = 0x01"
| "ca_error_code CA_ERROR_UNKNOWN = 0x02"
| "ca_error_code CA_ERROR_INVALID = 0x03"
| "ca_error_code CA_ERROR_NO_ACCESS = 0x04"
| "ca_error_code CA_ERROR_INVALID_STATE = 0x05"
| "ca_error_code CA_ERROR_BUSY = 0x06"
| "ca_error_code CA_ERROR_INVALID_ARGS = 0x07"
| "ca_error_code CA_ERROR_NOT_HANDLED = 0x08"
| "ca_error_code CA_ERROR_NOT_FOUND = 0x09"
| "ca_error_code CA_ERROR_NO_BUFFER = 0x0A"
| "ca_error_code CA_ERROR_TIMEOUT = 0x0B"
| "ca_error_code CA_ERROR_ALREADY = 0x0C"
| "ca_error_code CA_ERROR_NOT_IMPLEMENTED = 0x0D"
| "ca_error_code CA_ERROR_SPI_WAIT_TIMEOUT = 0xA0"
| "ca_error_code CA_ERROR_SPI_NACK_TIMEOUT = 0xA1"
| "ca_error_code CA_ERROR_SPI_SCAN_IN_PROGRESS = 0xA2"
| "ca_error_code CA_ERROR_SPI_SEND_EXCHANGE_FAIL = 0xA3"

fun ca_error_str :: "ca_error \<Rightarrow> string" where
  "ca_error_str CA_ERROR_SUCCESS = ''SUCCESS''"
| "ca_error_str CA_ERROR_FAIL = ''FAIL''"
| "ca_error_str CA_ERROR_UNKNOWN = ''UNKNOWN''"
| "ca_error_str CA_ERROR_INVALID = ''INVALID''"
| "ca_error_str CA_ERROR_NO_ACCESS = ''NO_ACCESS''"
| "ca_error_str CA_ERROR_INVALID_STATE = ''INV_STATE''"
| "ca_error_str CA_ERROR_BUSY = ''BUSY''"
| "ca_error_str CA_ERROR_INVALID_ARGS = ''INV_ARGS''"
| "ca_error_str CA_ERROR_NOT_HANDLED = ''NOT_HANDLED''"
| "ca_error_str CA_ERROR_NOT_FOUND = ''NOT_FOUND''"
| "ca_error_str CA_ERROR_NO_BUFFER = ''NO_BUF''"
| "ca_error_str CA_ERROR_TIMEOUT = ''TIMEOUT''"
| "ca_error_str CA_ERROR_ALREADY = ''ALREADY''"
| "ca_error_str CA_ERROR_NOT_IMPLEMENTED = ''NOT_IMPLEMENTED''"
| "ca_error_str CA_ERROR_SPI_WAIT_TIMEOUT = ''SPI_WAIT''"
| "ca_error_str CA_ERROR_SPI_NACK_TIMEOUT = ''SPI_NACK''"
| "ca_error_str CA_ERROR_SPI_SCAN_IN_PROGRESS = ''SPI_SCAN''"
| "ca_error_str CA_ERROR_SPI_SEND_EXCHANGE_FAIL = ''SPI_SEND''"

text \<open>Codes and names identify errors; only success is zero, which the C code tests by truth value.\<close>

lemma ca_error_code_inject [simp]: "ca_error_code a = ca_error_code b \<longleftrightarrow> a = b"
  by (cases a; cases b) simp_all

lemma ca_error_code_zero [simp]: "ca_error_code e = 0 \<longleftrightarrow> e = CA_ERROR_SUCCESS"
  by (cases e) simp_all

lemma ca_error_str_inject: "ca_error_str a = ca_error_str b \<longleftrightarrow> a = b"
  by (cases a; cases b) simp_all

end
