(* ===== verification/CaTime.thy ===== *)
theory CaTime
  imports Prelude
begin

text \<open>
  Time values. \<^verbatim>\<open>cascoda-util/src/cascoda_time.c\<close> compares 32-bit millisecond counters that
  wrap around; \<^verbatim>\<open>posix/ca821x-posix/source/util/ca821x-posix-util.c\<close> subtracts and compares
  POSIX \<^verbatim>\<open>timespec\<close> values and derives the millisecond counter from them.
\<close>

unbundle bit_operations_syntax

subsection \<open>The wrapping millisecond counter\<close>

definition TIME_Cmp :: "u32 \<Rightarrow> u32 \<Rightarrow> int" where
  "TIME_Cmp aT1 aT2 =
     (let diff = aT1 - aT2
      in if diff = 0 then 0
         else if diff AND 0x80000000 \<noteq> 0 then -1
         else 1)"

text \<open>The top bit of the difference is its sign.\<close>

lemma top_bit_u32: "(w :: u32) AND 0x80000000 \<noteq> 0 \<longleftrightarrow> 2147483648 \<le> unat w"
proof -
  have "w AND 0x80000000 \<noteq> 0 \<longleftrightarrow> w AND 2 ^ 31 \<noteq> 0"
    by simp
  also have "\<dots> \<longleftrightarrow> bit w 31"
    by (simp only: and_exp_eq_0_iff_not_bit not_not)
  also have "\<dots> \<longleftrightarrow> bit (unat w) 31"
    by (simp add: bit_unsigned_iff)
  also have "\<dots> \<longleftrightarrow> odd (unat w div 2147483648)"
    by (simp add: bit_iff_odd [of "unat w"])
  also have "\<dots> \<longleftrightarrow> 2147483648 \<le> unat w"
  proof (cases "2147483648 \<le> unat w")
    case True
    then have "unat w div 2147483648 = 1"
      using unat_u32_less [of w] by (intro div_nat_eqI) simp_all
    with True show ?thesis by simp
  qed simp
  finally show ?thesis .
qed

lemma TIME_Cmp_alt:
  "TIME_Cmp a b = (if a = b then 0 else if 2147483648 \<le> unat (a - b) then -1 else 1)"
  by (simp add: TIME_Cmp_def Let_def top_bit_u32)

lemma TIME_Cmp_later:
  assumes "unat d < 2147483648" and "d \<noteq> 0"
  shows "TIME_Cmp (t + d) t = 1" and "TIME_Cmp t (t + d) = -1"
proof -
  show "TIME_Cmp (t + d) t = 1"
    using assms by (simp add: TIME_Cmp_alt)
  have "unat (- d) = 4294967296 - unat d"
    using unat_minus_u32 [of 0 d] assms(2) unat_gt_0 [of d] by simp
  then show "TIME_Cmp t (t + d) = -1"
    using assms by (simp add: TIME_Cmp_alt)
qed

text \<open>
  Comparing two counter values gives the order of the instants whenever they are less than
  half the counter's range apart, across a wrap of the counter too.
\<close>

theorem TIME_Cmp_window:
  assumes "unat d < 2147483648"
  shows "TIME_Cmp (t + d) t = (if d = 0 then 0 else 1)
       \<and> TIME_Cmp t (t + d) = (if d = 0 then 0 else -1)"
  using assms TIME_Cmp_later by (auto simp: TIME_Cmp_alt)

theorem TIME_Cmp_window_witness:
  "unat (20 :: u32) < 2147483648 \<and> TIME_Cmp (4294967290 + 20) 4294967290 = 1
     \<and> TIME_Cmp 4294967290 (4294967290 + 20) = -1"
  using TIME_Cmp_window [of 20 4294967290] by simp

subsection \<open>POSIX times\<close>

text \<open>
  \<^verbatim>\<open>struct timespec\<close>; its fields are signed 64-bit values whose sums and differences stay far
  from the limits, so they are integers here.
\<close>

record timespec =
  tv_sec :: int
  tv_nsec :: int

definition time_sub :: "timespec \<Rightarrow> timespec \<Rightarrow> timespec" where
  "time_sub t1 t2 =
     (let sec = tv_sec t1 - tv_sec t2; nsec = tv_nsec t1 - tv_nsec t2
      in if nsec < 0 then \<lparr>tv_sec = sec - 1, tv_nsec = nsec + 1000000000\<rparr>
         else \<lparr>tv_sec = sec, tv_nsec = nsec\<rparr>)"

definition time_cmp :: "timespec \<Rightarrow> timespec \<Rightarrow> int" where
  "time_cmp t1 t2 =
     (if tv_sec t1 = tv_sec t2 \<and> tv_nsec t1 = tv_nsec t2 then 0
      else if tv_sec t1 < tv_sec t2 then -1
      else if tv_sec t1 > tv_sec t2 then 1
      else if tv_nsec t1 < tv_nsec t2 then -1
      else if tv_nsec t1 > tv_nsec t2 then 1
      else 0)"

text \<open>
  \<open>curTime\<close> is the reading of the monotonic clock, \<open>sStartTime\<close> the reading at start-up. C's
  division truncates, which on the normalised, non-negative nanoseconds is \<open>div\<close>.
\<close>

definition TIME_ReadAbsoluteTime_posix :: "timespec \<Rightarrow> timespec \<Rightarrow> u32" where
  "TIME_ReadAbsoluteTime_posix sStartTime curTime =
     (let t = time_sub curTime sStartTime
      in word_of_int (tv_sec t * 1000) + word_of_int (tv_nsec t div 1000000))"

definition timespec_ok :: "timespec \<Rightarrow> bool" where
  "timespec_ok t \<longleftrightarrow> 0 \<le> tv_nsec t \<and> tv_nsec t < 1000000000"

definition nanos :: "timespec \<Rightarrow> int" where
  "nanos t = 1000000000 * tv_sec t + tv_nsec t"

lemma time_sub_ok: "timespec_ok t1 \<Longrightarrow> timespec_ok t2 \<Longrightarrow> timespec_ok (time_sub t1 t2)"
  by (auto simp: timespec_ok_def time_sub_def Let_def)

lemma nanos_time_sub: "nanos (time_sub t1 t2) = nanos t1 - nanos t2"
  by (simp add: nanos_def time_sub_def Let_def)

lemma time_cmp_nanos:
  assumes "timespec_ok t1" "timespec_ok t2"
  shows "time_cmp t1 t2 = sgn (nanos t1 - nanos t2)"
  using assms by (auto simp: time_cmp_def nanos_def timespec_ok_def sgn_if)

text \<open>
  On normalised times, the host's timeout tests measure real elapsed time: comparing the
  difference of two clock readings with a limit orders the nanoseconds between them.
\<close>

theorem timeout_test_exact:
  assumes "timespec_ok now" "timespec_ok start" "timespec_ok limit"
  shows "0 < time_cmp (time_sub now start) limit \<longleftrightarrow> nanos limit < nanos now - nanos start"
  using assms by (simp add: time_cmp_nanos time_sub_ok nanos_time_sub sgn_if)

theorem timeout_test_exact_witness:
  "0 < time_cmp (time_sub \<lparr>tv_sec = 12, tv_nsec = 5\<rparr> \<lparr>tv_sec = 10, tv_nsec = 999999999\<rparr>)
         \<lparr>tv_sec = 1, tv_nsec = 0\<rparr>"
  using timeout_test_exact [of "\<lparr>tv_sec = 12, tv_nsec = 5\<rparr>" "\<lparr>tv_sec = 10, tv_nsec = 999999999\<rparr>"
      "\<lparr>tv_sec = 1, tv_nsec = 0\<rparr>"]
  by (simp add: timespec_ok_def nanos_def)

text \<open>
  The millisecond counter of the host is the whole number of milliseconds since start-up,
  reduced modulo the 32-bit range.
\<close>

theorem TIME_ReadAbsoluteTime_posix_ms:
  assumes "timespec_ok start" "timespec_ok now"
  shows "TIME_ReadAbsoluteTime_posix start now = word_of_int ((nanos now - nanos start) div 1000000)"
proof -
  let ?t = "time_sub now start"
  have "nanos now - nanos start = tv_nsec ?t + tv_sec ?t * 1000 * 1000000"
    using nanos_time_sub [of now start] by (simp add: nanos_def)
  then have "(nanos now - nanos start) div 1000000 = (tv_nsec ?t + tv_sec ?t * 1000 * 1000000) div 1000000"
    by simp
  also have "\<dots> = tv_sec ?t * 1000 + tv_nsec ?t div 1000000"
    by simp
  finally show ?thesis
    by (simp add: TIME_ReadAbsoluteTime_posix_def Let_def)
qed

theorem TIME_ReadAbsoluteTime_posix_ms_witness:
  "TIME_ReadAbsoluteTime_posix \<lparr>tv_sec = 10, tv_nsec = 999999999\<rparr> \<lparr>tv_sec = 12, tv_nsec = 5000000\<rparr> = 1005"
  using TIME_ReadAbsoluteTime_posix_ms [of "\<lparr>tv_sec = 10, tv_nsec = 999999999\<rparr>" "\<lparr>tv_sec = 12, tv_nsec = 5000000\<rparr>"]
  by (simp add: timespec_ok_def nanos_def)

end
