(* ===== verification/Hash.thy ===== *)
theory Hash
  imports Prelude
begin

text \<open>
  The hashes of \<^verbatim>\<open>cascoda-util/src/cascoda_hash.c\<close>: FNV-1a in 32 and 64 bits and CRC-32
  with a sixteen-entry table. A buffer and its length are the list of its bytes; the 64-bit
  streaming hash also logs ten bytes of its input whatever the length, so it takes the readable
  memory at the pointer and its reads are checked.
\<close>

unbundle bit_operations_syntax

subsection \<open>FNV-1a\<close>

definition prime32 :: u32 where "prime32 = 16777619"
definition basis32 :: u32 where "basis32 = 2166136261"
definition prime64 :: u64 where "prime64 = 1099511628211"
definition basis64 :: u64 where "basis64 = 14695981039346656037"

fun fnv1a_32_loop :: "bytes \<Rightarrow> u32 \<Rightarrow> u32" where
  "fnv1a_32_loop [] hash = hash"
| "fnv1a_32_loop (d # ds) hash = fnv1a_32_loop ds ((ucast d XOR hash) * prime32)"

definition HASH_fnv1a_32 :: "bytes \<Rightarrow> u32" where
  "HASH_fnv1a_32 data = fnv1a_32_loop data basis32"

fun fnv1a_64_loop :: "bytes \<Rightarrow> u64 \<Rightarrow> u64" where
  "fnv1a_64_loop [] hash = hash"
| "fnv1a_64_loop (d # ds) hash = fnv1a_64_loop ds ((ucast d XOR hash) * prime64)"

text \<open>
  \<open>data\<close> is the memory that may be read at \<^verbatim>\<open>data_in\<close>. The first loop of the C function reads
  \<^verbatim>\<open>data[0..9]\<close> for the debug log, the second \<^verbatim>\<open>data[0..num_bytes-1]\<close>; a read past the memory
  is \<open>None\<close>.
\<close>

fun read_bytes :: "bytes \<Rightarrow> nat \<Rightarrow> bytes option" where
  "read_bytes data 0 = Some []"
| "read_bytes [] (Suc n) = None"
| "read_bytes (d # ds) (Suc n) = map_option ((#) d) (read_bytes ds n)"

definition HASH_fnv1a_64_stream :: "bytes \<Rightarrow> nat \<Rightarrow> u64 \<Rightarrow> u64 option" where
  "HASH_fnv1a_64_stream data num_bytes hash =
     (case read_bytes data 10 of
        None \<Rightarrow> None
      | Some _ \<Rightarrow> map_option (\<lambda>ds. fnv1a_64_loop ds hash) (read_bytes data num_bytes))"

definition HASH_fnv1a_64 :: "bytes \<Rightarrow> nat \<Rightarrow> u64 option" where
  "HASH_fnv1a_64 data num_bytes = HASH_fnv1a_64_stream data num_bytes basis64"

subsection \<open>CRC-32\<close>

definition tinf_crc32tab :: "u32 list" where
  "tinf_crc32tab =
     [0x00000000, 0x1db71064, 0x3b6e20c8, 0x26d930ac,
      0x76dc4190, 0x6b6b51f4, 0x4db26158, 0x5005713c,
      0xedb88320, 0xf00f9344, 0xd6d6a3e8, 0xcb61b38c,
      0x9b64c2b0, 0x86d3d2d4, 0xa00ae278, 0xbdbdf21c]"

definition crc_nibble :: "u32 \<Rightarrow> u32" where
  "crc_nibble crc = (tinf_crc32tab ! unat (crc AND 0x0f)) XOR drop_bit 4 crc"

fun HASH_CRC32_stream :: "bytes \<Rightarrow> u32 \<Rightarrow> u32" where
  "HASH_CRC32_stream [] crc = crc"
| "HASH_CRC32_stream (newByte # ds) crc =
     HASH_CRC32_stream ds (crc_nibble (crc_nibble (crc XOR ucast newByte)))"

definition HASH_CRC32 :: "bytes \<Rightarrow> u32" where
  "HASH_CRC32 data = NOT (HASH_CRC32_stream data 0xFFFFFFFF)"

subsection \<open>The bitwise CRC the table implements\<close>

text \<open>
  The abstract specification: division by the reflected polynomial \<open>0xEDB88320\<close>, one bit at a
  time, as in the definition of CRC-32.
\<close>

definition crc_bit :: "u32 \<Rightarrow> u32" where
  "crc_bit crc = drop_bit 1 crc XOR (if bit crc 0 then 0xedb88320 else 0)"

fun crc_bitwise :: "bytes \<Rightarrow> u32 \<Rightarrow> u32" where
  "crc_bitwise [] crc = crc"
| "crc_bitwise (b # bs) crc = crc_bitwise bs ((crc_bit ^^ 8) (crc XOR ucast b))"

text \<open>One bit step is linear, so four of them split into the table part and the shifted part.\<close>

lemma crc_bit_xor: "crc_bit (a XOR b) = crc_bit a XOR crc_bit b"
  by (simp add: crc_bit_def bit_xor_iff ac_simps)

lemma crc_bit_pow_xor: "(crc_bit ^^ n) (a XOR b) = (crc_bit ^^ n) a XOR (crc_bit ^^ n) b"
  by (induction n) (simp_all add: crc_bit_xor)

lemma crc_bit_pow_shift: "(\<And>i. i < n \<Longrightarrow> \<not> bit w i) \<Longrightarrow> (crc_bit ^^ n) w = drop_bit n w"
proof (induction n)
  case 0
  then show ?case by simp
next
  case (Suc n)
  then have eq: "(crc_bit ^^ n) w = drop_bit n w" and "\<not> bit w n"
    by simp_all
  then have "crc_bit (drop_bit n w) = drop_bit (Suc n) w"
    by (simp add: crc_bit_def bit_drop_bit_eq)
  with eq show ?case by simp
qed

lemma crc_table_all: "\<forall>i \<in> set [0..<16]. tinf_crc32tab ! i = (crc_bit ^^ 4) (of_nat i)"
  by code_simp

lemma mask_nibble: "(0x0f :: u32) = mask 4"
  by (simp add: mask_eq_exp_minus_1)

lemma crc_table_entry:
  "tinf_crc32tab ! unat (w AND 0x0f) = (crc_bit ^^ 4) (w AND 0x0f)"
proof -
  have "unat (w AND 0x0f) \<le> unat (0x0f :: u32)"
    by (rule word_and_le1 [unfolded word_le_nat_alt])
  then have "unat (w AND 0x0f) \<in> set [0..<16]"
    by simp
  then show ?thesis
    using crc_table_all by fastforce
qed

lemma crc_nibble_eq: "crc_nibble crc = (crc_bit ^^ 4) crc"
proof -
  let ?hi = "crc AND NOT (mask 4)"
  have "crc = (crc AND mask 4) XOR ?hi"
    by (auto simp: bit_eq_iff bit_simps)
  then have "(crc_bit ^^ 4) crc = (crc_bit ^^ 4) (crc AND mask 4) XOR (crc_bit ^^ 4) ?hi"
    by (metis crc_bit_pow_xor)
  also have "(crc_bit ^^ 4) ?hi = drop_bit 4 ?hi"
    by (rule crc_bit_pow_shift) (simp add: bit_simps)
  also have "drop_bit 4 ?hi = drop_bit 4 crc"
    by (auto simp: bit_eq_iff bit_simps dest: bit_imp_le_length)
  finally show ?thesis
    by (simp add: crc_nibble_def crc_table_entry mask_nibble [symmetric])
qed

lemma crc_two_nibbles: "crc_nibble (crc_nibble w) = (crc_bit ^^ 8) w"
proof -
  have "(crc_bit ^^ (4 + 4)) w = (crc_bit ^^ 4) ((crc_bit ^^ 4) w)"
    by (simp only: funpow_add o_apply)
  then show ?thesis
    by (simp add: crc_nibble_eq)
qed

lemma crc_stream_append:
  "HASH_CRC32_stream (xs @ ys) crc = HASH_CRC32_stream ys (HASH_CRC32_stream xs crc)"
  by (induction xs arbitrary: crc) simp_all

lemma read_bytes_eq: "read_bytes data n = (if n \<le> length data then Some (take n data) else None)"
  by (induction data n rule: read_bytes.induct) auto

lemma fnv1a_64_loop_append:
  "fnv1a_64_loop (xs @ ys) h = fnv1a_64_loop ys (fnv1a_64_loop xs h)"
  by (induction xs arbitrary: h) simp_all

lemma HASH_CRC32_stream_bitwise: "HASH_CRC32_stream data crc = crc_bitwise data crc"
  by (induction data crc rule: crc_bitwise.induct) (simp_all add: crc_two_nibbles del: funpow.simps)

subsection \<open>What the hashes compute\<close>

text \<open>
  C40: The table-driven CRC is the CRC-32 of its definition: division by the reflected polynomial,
  bit by bit, from all ones and complemented at the end; and it may be computed in pieces.
\<close>

theorem HASH_CRC32_reference:
  "HASH_CRC32 data = NOT (crc_bitwise data 0xFFFFFFFF)
     \<and> HASH_CRC32 (xs @ ys) = NOT (HASH_CRC32_stream ys (HASH_CRC32_stream xs 0xFFFFFFFF))"
  by (simp add: HASH_CRC32_def HASH_CRC32_stream_bitwise crc_stream_append [unfolded HASH_CRC32_stream_bitwise])

text \<open>
  The 64-bit FNV-1a hash of a buffer is defined, and then the same however the buffer is cut in
  two, when at least ten bytes are readable at each call; on a buffer of fewer than ten bytes the
  function reads past its end.
\<close>

theorem HASH_fnv1a_64_pieces:
  "HASH_fnv1a_64 data (length data) = (if length data < 10 then None else Some (fnv1a_64_loop data basis64))
   \<and> (10 \<le> length xs \<longrightarrow> 10 \<le> length ys \<longrightarrow>
        Option.bind (HASH_fnv1a_64 xs (length xs)) (HASH_fnv1a_64_stream ys (length ys))
          = HASH_fnv1a_64 (xs @ ys) (length (xs @ ys)))"
  by (simp add: HASH_fnv1a_64_def HASH_fnv1a_64_stream_def read_bytes_eq fnv1a_64_loop_append)

theorem HASH_fnv1a_64_pieces_witness:
  "HASH_fnv1a_64 [1, 2, 3] (length [1, 2, 3 :: u8]) = None
   \<and> Option.bind (HASH_fnv1a_64 (replicate 10 1) 10) (HASH_fnv1a_64_stream (replicate 10 2) 10)
       = HASH_fnv1a_64 (replicate 10 1 @ replicate 10 2) 20"
  using HASH_fnv1a_64_pieces [of "[1, 2, 3]" "replicate 10 1" "replicate 10 2"] by simp

end
