(* ===== verification/Endian.thy ===== *)
theory Endian
  imports Prelude
begin

text \<open>
  The byte-order helpers of \<^verbatim>\<open>ca821x-api/include/ca821x_endian.h\<close>. An output pointer is the
  list of the bytes from that address on; a \<open>PUT\<close> overwrites its first bytes. All six integer
  formats satisfy one contract, the locale \<open>int_codec\<close>.
\<close>

unbundle bit_operations_syntax

subsection \<open>Octets of a value\<close>

definition LS_BYTE :: "u16 \<Rightarrow> u8" where "LS_BYTE x = ucast (x AND 0xFF)"
definition MS_BYTE :: "u16 \<Rightarrow> u8" where "MS_BYTE x = ucast (drop_bit 8 x AND 0xFF)"

text \<open>\<^verbatim>\<open>LS0_BYTE\<close> takes a 16-bit parameter, so a 32-bit argument is truncated at the call.\<close>

definition LS0_BYTE :: "u32 \<Rightarrow> u8" where "LS0_BYTE x = (let x' = (ucast x :: u16) in ucast (x' AND 0xFF))"
definition LS1_BYTE :: "u32 \<Rightarrow> u8" where "LS1_BYTE x = ucast (drop_bit 8 x AND 0xFF)"
definition LS2_BYTE :: "u32 \<Rightarrow> u8" where "LS2_BYTE x = ucast (drop_bit 16 x AND 0xFF)"
definition LS3_BYTE :: "u32 \<Rightarrow> u8" where "LS3_BYTE x = ucast (drop_bit 24 x AND 0xFF)"

subsection \<open>Little endian\<close>

definition GETLE16 :: "bytes \<Rightarrow> u16" where
  "GETLE16 inp = ucast (((push_bit 8 (ucast (inp ! 1)) :: u32) AND 0xff00) OR (ucast (inp ! 0) AND 0x00ff))"

definition GETLE32 :: "bytes \<Rightarrow> u32" where
  "GETLE32 inp = push_bit 24 (ucast (inp ! 3)) + push_bit 16 (ucast (inp ! 2)) +
     push_bit 8 (ucast (inp ! 1)) + ucast (inp ! 0)"

definition GETLE64 :: "bytes \<Rightarrow> u64" where
  "GETLE64 inp = push_bit 56 (ucast (inp ! 7)) + push_bit 48 (ucast (inp ! 6)) +
     push_bit 40 (ucast (inp ! 5)) + push_bit 32 (ucast (inp ! 4)) +
     push_bit 24 (ucast (inp ! 3)) + push_bit 16 (ucast (inp ! 2)) +
     push_bit 8 (ucast (inp ! 1)) + ucast (inp ! 0)"

definition PUTLE16 :: "u16 \<Rightarrow> bytes \<Rightarrow> bytes" where
  "PUTLE16 x out = out[0 := ucast (x AND 0xff), 1 := ucast (drop_bit 8 x AND 0xff)]"

definition PUTLE32 :: "u32 \<Rightarrow> bytes \<Rightarrow> bytes" where
  "PUTLE32 x out = out[0 := ucast (x AND 0xff), 1 := ucast (drop_bit 8 x AND 0xff),
     2 := ucast (drop_bit 16 x AND 0xff), 3 := ucast (drop_bit 24 x AND 0xff)]"

definition PUTLE64 :: "u64 \<Rightarrow> bytes \<Rightarrow> bytes" where
  "PUTLE64 x out = out[0 := ucast (x AND 0xff), 1 := ucast (drop_bit 8 x AND 0xff),
     2 := ucast (drop_bit 16 x AND 0xff), 3 := ucast (drop_bit 24 x AND 0xff),
     4 := ucast (drop_bit 32 x AND 0xff), 5 := ucast (drop_bit 40 x AND 0xff),
     6 := ucast (drop_bit 48 x AND 0xff), 7 := ucast (drop_bit 56 x AND 0xff)]"

subsection \<open>Big endian\<close>

definition GETBE16 :: "bytes \<Rightarrow> u16" where
  "GETBE16 inp = ucast (((push_bit 8 (ucast (inp ! 0)) :: u32) AND 0xff00) OR (ucast (inp ! 1) AND 0x00ff))"

definition PUTBE16 :: "u16 \<Rightarrow> bytes \<Rightarrow> bytes" where
  "PUTBE16 x out = out[1 := ucast (x AND 0xff), 0 := ucast (drop_bit 8 x AND 0xff)]"

definition GETBE32 :: "bytes \<Rightarrow> u32" where
  "GETBE32 inp = push_bit 24 (ucast (inp ! 0)) + push_bit 16 (ucast (inp ! 1)) +
     push_bit 8 (ucast (inp ! 2)) + ucast (inp ! 3)"

definition GETBE64 :: "bytes \<Rightarrow> u64" where
  "GETBE64 inp = push_bit 56 (ucast (inp ! 0)) + push_bit 48 (ucast (inp ! 1)) +
     push_bit 40 (ucast (inp ! 2)) + push_bit 32 (ucast (inp ! 3)) +
     push_bit 24 (ucast (inp ! 4)) + push_bit 16 (ucast (inp ! 5)) +
     push_bit 8 (ucast (inp ! 6)) + ucast (inp ! 7)"

definition PUTBE32 :: "u32 \<Rightarrow> bytes \<Rightarrow> bytes" where
  "PUTBE32 x out = out[3 := ucast (x AND 0xff), 2 := ucast (drop_bit 8 x AND 0xff),
     1 := ucast (drop_bit 16 x AND 0xff), 0 := ucast (drop_bit 24 x AND 0xff)]"

definition PUTBE64 :: "u64 \<Rightarrow> bytes \<Rightarrow> bytes" where
  "PUTBE64 x out = out[7 := ucast (x AND 0xff), 6 := ucast (drop_bit 8 x AND 0xff),
     5 := ucast (drop_bit 16 x AND 0xff), 4 := ucast (drop_bit 24 x AND 0xff),
     3 := ucast (drop_bit 32 x AND 0xff), 2 := ucast (drop_bit 40 x AND 0xff),
     1 := ucast (drop_bit 48 x AND 0xff), 0 := ucast (drop_bit 56 x AND 0xff)]"

lemmas endian_defs [step_defs] =
  GETLE16_def GETLE32_def GETLE64_def PUTLE16_def PUTLE32_def PUTLE64_def
  GETBE16_def GETBE32_def GETBE64_def PUTBE16_def PUTBE32_def PUTBE64_def

subsection \<open>Values from octets\<close>

lemma octet_of_word: "(ucast (ucast (w AND 0xff) :: u8) :: 'a::len word) = take_bit 8 w"
proof -
  have "(0xff :: 'a word) = mask 8"
    by (simp add: mask_eq_exp_minus_1)
  then show ?thesis
    by (auto simp: bit_eq_iff bit_simps)
qed

lemma octet_step:
  "push_bit m (drop_bit m w) =
     push_bit (m + 8) (drop_bit (m + 8) w) + push_bit m (take_bit 8 (drop_bit m (w :: 'a::len word)))"
  using bits_ident [of 8 "drop_bit m w"]
  by (metis add.commute drop_bit_drop_bit push_bit_add push_bit_push_bit)

lemma octets_16: "push_bit 8 (take_bit 8 (drop_bit 8 x)) + take_bit 8 x = (x :: u16)"
proof -
  have "take_bit 8 (drop_bit 8 x) = drop_bit 8 x"
    by (auto simp: bit_eq_iff bit_simps dest: bit_imp_le_length)
  then show ?thesis
    by (simp add:  octet_step [of 0 x, symmetric, simplified])
qed

lemma octets_32: "push_bit 24 (take_bit 8 (drop_bit 24 x)) +
     push_bit 16 (take_bit 8 (drop_bit 16 x)) +
     push_bit 8 (take_bit 8 (drop_bit 8 x)) + take_bit 8 x = (x :: u32)"
proof -
  have "take_bit 8 (drop_bit 24 x) = drop_bit 24 x"
    by (auto simp: bit_eq_iff bit_simps dest: bit_imp_le_length)
  then show ?thesis
    by (simp add: octet_step [of 16 x, symmetric, simplified] octet_step [of 8 x, symmetric, simplified] octet_step [of 0 x, symmetric, simplified])
qed

lemma octets_64: "push_bit 56 (take_bit 8 (drop_bit 56 x)) +
     push_bit 48 (take_bit 8 (drop_bit 48 x)) +
     push_bit 40 (take_bit 8 (drop_bit 40 x)) +
     push_bit 32 (take_bit 8 (drop_bit 32 x)) +
     push_bit 24 (take_bit 8 (drop_bit 24 x)) +
     push_bit 16 (take_bit 8 (drop_bit 16 x)) +
     push_bit 8 (take_bit 8 (drop_bit 8 x)) + take_bit 8 x = (x :: u64)"
proof -
  have "take_bit 8 (drop_bit 56 x) = drop_bit 56 x"
    by (auto simp: bit_eq_iff bit_simps dest: bit_imp_le_length)
  then show ?thesis
    by (simp add: octet_step [of 48 x, symmetric, simplified] octet_step [of 40 x, symmetric, simplified] octet_step [of 32 x, symmetric, simplified] octet_step [of 24 x, symmetric, simplified] octet_step [of 16 x, symmetric, simplified] octet_step [of 8 x, symmetric, simplified] octet_step [of 0 x, symmetric, simplified])
qed

lemma octet_pair_16:
  "(ucast (((push_bit 8 (ucast h) :: u32) AND 0xff00) OR (ucast l AND 0x00ff)) :: u16)
     = push_bit 8 (ucast (h :: u8)) + ucast (l :: u8)"
proof -
  have m: "(0x00ff :: u32) = mask 8" "(0xff00 :: u32) = push_bit 8 (mask 8)"
    by (simp_all add: mask_eq_exp_minus_1)
  have "(push_bit 8 (ucast h) :: u16) AND ucast l = 0"
    by (auto simp: bit_eq_iff bit_simps dest: bit_imp_le_length)
  then have "push_bit 8 (ucast h) + ucast l = (push_bit 8 (ucast h) OR ucast l :: u16)"
    by (rule plus_disjoint_bits)
  also have "\<dots> = ucast (((push_bit 8 (ucast h) :: u32) AND 0xff00) OR (ucast l AND 0x00ff))"
    unfolding m by (auto simp: bit_eq_iff bit_simps dest: bit_imp_le_length)
  finally show ?thesis ..
qed

text \<open>The octets of a 32-bit value lie on disjoint bits.\<close>

lemma GETLE32_or: "GETLE32 (b0 # b1 # b2 # b3 # r) =
    push_bit 24 (ucast b3) OR push_bit 16 (ucast b2) OR push_bit 8 (ucast b1) OR ucast b0"
  unfolding GETLE32_def
  by (simp, subst disjunctive_add_eq_or, (auto simp: bit_eq_iff bit_simps dest: bit_imp_le_length)[1],
      subst disjunctive_add_eq_or, (auto simp: bit_eq_iff bit_simps dest: bit_imp_le_length)[1],
      subst disjunctive_add_eq_or, (auto simp: bit_eq_iff bit_simps dest: bit_imp_le_length)[1], simp add: or.assoc)

lemma GETLE32_and:
  assumes "length xs = 4" "length ys = 4"
  shows "GETLE32 (map2 (AND) xs ys) = GETLE32 xs AND GETLE32 ys"
proof -
  obtain a0 a1 a2 a3 b0 b1 b2 b3 where "xs = [a0, a1, a2, a3]" "ys = [b0, b1, b2, b3]"
    using assms by (auto simp: numeral_eq_Suc length_Suc_conv)
  moreover have "GETLE32 [a0 AND b0, a1 AND b1, a2 AND b2, a3 AND b3]
      = GETLE32 [a0, a1, a2, a3] AND GETLE32 [b0, b1, b2, b3]"
  proof (rule bit_eqI)
    fix n
    consider "n < (8 :: nat)" | "8 \<le> n" "n < 16" | "16 \<le> n" "n < 24" | "24 \<le> n"
      by linarith
    then show "bit (GETLE32 [a0 AND b0, a1 AND b1, a2 AND b2, a3 AND b3]) n
        = bit (GETLE32 [a0, a1, a2, a3] AND GETLE32 [b0, b1, b2, b3]) n"
      by cases (auto simp: GETLE32_or bit_simps dest: bit_imp_le_length)
  qed
  ultimately show ?thesis
    by simp
qed

text \<open>Two octets are their 16-bit value.\<close>

lemma PUTLE16_GETLE16: "PUTLE16 (GETLE16 [a, b]) [x, y] = [a, b]"
proof -
  have m: "(0xff :: u16) = mask 8" "(0xff :: u32) = mask 8" "(0xff00 :: u32) = push_bit 8 (mask 8)"
    by (simp_all add: mask_eq_exp_minus_1)
  have "(ucast (GETLE16 [a, b] AND 0xff) :: u8) = a"
    unfolding GETLE16_def m by (auto simp: bit_eq_iff bit_simps dest: bit_imp_le_length)
  moreover have "(ucast (drop_bit 8 (GETLE16 [a, b]) AND 0xff) :: u8) = b"
    unfolding GETLE16_def m by (auto simp: bit_eq_iff bit_simps dest: bit_imp_le_length)
  ultimately show ?thesis by (simp add: PUTLE16_def)
qed

lemma GETLE16_ones: "GETLE16 [a, b] = 0xFFFF \<longleftrightarrow> a = 0xFF \<and> b = 0xFF"
proof
  assume "GETLE16 [a, b] = 0xFFFF"
  then show "a = 0xFF \<and> b = 0xFF"
    using PUTLE16_GETLE16 [of a b 0 0] by (simp add: PUTLE16_def)
qed (simp add: GETLE16_def)

subsection \<open>The contract of a format\<close>

text \<open>
  \<open>width\<close> bytes hold a value: what is put is what is got, a put changes only its own bytes, and
  a get reads only them. The client lemmas are about fields of a larger buffer, at an offset.
\<close>

locale int_codec =
  fixes width :: nat
    and put :: "'w \<Rightarrow> bytes \<Rightarrow> bytes"
    and get :: "bytes \<Rightarrow> 'w"
  assumes put_length: "length (put x out) = length out"
    and get_put: "width \<le> length out \<Longrightarrow> get (put x out) = x"
    and put_frame: "drop width (put x out) = drop width out"
    and get_cong: "width \<le> length a \<Longrightarrow> width \<le> length b \<Longrightarrow> take width a = take width b \<Longrightarrow> get a = get b"
begin

lemma put_append: "width \<le> length out \<Longrightarrow> put x out = take width (put x out) @ drop width out"
  using put_frame [of x out] append_take_drop_id [of width "put x out"] by simp

lemma field_get_put:
  assumes "k + width \<le> length buf"
  shows "get (drop k (take k buf @ put x (drop k buf))) = x"
  using assms by (simp add: get_put)

lemma field_get_before:
  assumes "j + width \<le> k" "k \<le> length buf"
  shows "get (drop j (take k buf @ put x (drop k buf))) = get (drop j buf)"
proof (rule get_cong)
  show "take width (drop j (take k buf @ put x (drop k buf))) = take width (drop j buf)"
    using assms by (simp add: min_def take_drop)
qed (use assms in \<open>simp_all add: put_length\<close>)

lemma field_get_after:
  assumes "k + width \<le> j" "j + width \<le> length buf"
  shows "get (drop j (take k buf @ put x (drop k buf))) = get (drop j buf)"
proof -
  obtain m where j: "j = k + (width + m)"
    using assms(1) by (metis add.assoc le_Suc_ex)
  have "drop (width + m) (put x (drop k buf)) = drop (width + m) (drop k buf)"
    using put_frame [of x "drop k buf"] by (metis add.commute drop_drop)
  then show ?thesis
    using assms j by (simp add: add.commute)
qed

end

lemma nth_eq_of_take: "take n a = take n b \<Longrightarrow> i < n \<Longrightarrow> a ! i = b ! i"
  by (metis nth_take)

interpretation le16: int_codec 2 PUTLE16 GETLE16
proof unfold_locales
  fix x and out :: bytes
  assume l: "2 \<le> length out"
  then have "out \<noteq> []"
    by auto
  with l show "GETLE16 (PUTLE16 x out) = x"
    by (simp add: GETLE16_def PUTLE16_def octet_pair_16 octet_of_word octets_16)
next
  fix a b :: bytes
  assume "take 2 a = take 2 b"
  from nth_eq_of_take [OF this] show "GETLE16 a = GETLE16 b"
    by (simp add: GETLE16_def)
qed (simp_all add: PUTLE16_def)

interpretation be16: int_codec 2 PUTBE16 GETBE16
proof unfold_locales
  fix x and out :: bytes
  assume l: "2 \<le> length out"
  then have "out \<noteq> []"
    by auto
  with l show "GETBE16 (PUTBE16 x out) = x"
    by (simp add: GETBE16_def PUTBE16_def octet_pair_16 octet_of_word octets_16)
next
  fix a b :: bytes
  assume "take 2 a = take 2 b"
  from nth_eq_of_take [OF this] show "GETBE16 a = GETBE16 b"
    by (simp add: GETBE16_def)
qed (simp_all add: PUTBE16_def)

interpretation le32: int_codec 4 PUTLE32 GETLE32
proof unfold_locales
  fix x and out :: bytes
  assume l: "4 \<le> length out"
  then have "out \<noteq> []"
    by auto
  with l show "GETLE32 (PUTLE32 x out) = x"
    by (simp add: GETLE32_def PUTLE32_def octet_of_word octets_32)
next
  fix a b :: bytes
  assume "take 4 a = take 4 b"
  from nth_eq_of_take [OF this] show "GETLE32 a = GETLE32 b"
    by (simp add: GETLE32_def)
qed (simp_all add: PUTLE32_def)

interpretation be32: int_codec 4 PUTBE32 GETBE32
proof unfold_locales
  fix x and out :: bytes
  assume l: "4 \<le> length out"
  then have "out \<noteq> []"
    by auto
  with l show "GETBE32 (PUTBE32 x out) = x"
    by (simp add: GETBE32_def PUTBE32_def octet_of_word octets_32)
next
  fix a b :: bytes
  assume "take 4 a = take 4 b"
  from nth_eq_of_take [OF this] show "GETBE32 a = GETBE32 b"
    by (simp add: GETBE32_def)
qed (simp_all add: PUTBE32_def)

interpretation le64: int_codec 8 PUTLE64 GETLE64
proof unfold_locales
  fix x and out :: bytes
  assume l: "8 \<le> length out"
  then have "out \<noteq> []"
    by auto
  with l show "GETLE64 (PUTLE64 x out) = x"
    by (simp add: GETLE64_def PUTLE64_def octet_of_word octets_64)
next
  fix a b :: bytes
  assume "take 8 a = take 8 b"
  from nth_eq_of_take [OF this] show "GETLE64 a = GETLE64 b"
    by (simp add: GETLE64_def)
qed (simp_all add: PUTLE64_def)

interpretation be64: int_codec 8 PUTBE64 GETBE64
proof unfold_locales
  fix x and out :: bytes
  assume l: "8 \<le> length out"
  then have "out \<noteq> []"
    by auto
  with l show "GETBE64 (PUTBE64 x out) = x"
    by (simp add: GETBE64_def PUTBE64_def octet_of_word octets_64)
next
  fix a b :: bytes
  assume "take 8 a = take 8 b"
  from nth_eq_of_take [OF this] show "GETBE64 a = GETBE64 b"
    by (simp add: GETBE64_def)
qed (simp_all add: PUTBE64_def)

subsection \<open>Fields of a buffer\<close>

text \<open>
  A 32-bit little-endian field written at an offset of a buffer reads back as the value
  written, and every field that does not overlap it, before or after, reads as it did.
\<close>

theorem PUTLE32_field:
  fixes x :: u32
  assumes "k + 4 \<le> length buf"
  defines "buf' \<equiv> take k buf @ PUTLE32 x (drop k buf)"
  shows "GETLE32 (drop k buf') = x \<and> length buf' = length buf
     \<and> (\<forall>j. j + 4 \<le> k \<or> k + 4 \<le> j \<and> j + 4 \<le> length buf \<longrightarrow> GETLE32 (drop j buf') = GETLE32 (drop j buf))"
  unfolding buf'_def
  using le32.field_get_put [OF assms(1), of x] le32.field_get_before [of _ k buf x]
    le32.field_get_after [of k _ buf x] assms(1) by (auto simp: le32.put_length simp del: drop_append)

theorem PUTLE32_field_witness:
  "GETLE32 (drop 4 (take 4 [1, 2, 3, 4, 5, 6, 7, 8] @ PUTLE32 0xdeadbeef (drop 4 [1, 2, 3, 4, 5, 6, 7, 8]))) = 0xdeadbeef
   \<and> GETLE32 (take 4 [1, 2, 3, 4, 5, 6, 7, 8] @ PUTLE32 0xdeadbeef (drop 4 [1, 2, 3, 4, 5, 6, 7, 8]))
     = GETLE32 [1, 2, 3, 4, 5, 6, 7, 8]"
  using PUTLE32_field [of 4 "[1, 2, 3, 4, 5, 6, 7, 8]" "0xdeadbeef"] by auto

text \<open>
  All six formats give back the value they were given, and the big-endian bytes are the
  little-endian bytes in reverse.
\<close>

theorem endian_roundtrips:
  "GETLE16 (PUTLE16 h [0, 0]) = h \<and> GETBE16 (PUTBE16 h [0, 0]) = h \<and> PUTBE16 h [0, 0] = rev (PUTLE16 h [0, 0])
   \<and> GETLE32 (PUTLE32 w [0, 0, 0, 0]) = w \<and> GETBE32 (PUTBE32 w [0, 0, 0, 0]) = w
   \<and> PUTBE32 w [0, 0, 0, 0] = rev (PUTLE32 w [0, 0, 0, 0])
   \<and> GETLE64 (PUTLE64 d (replicate 8 0)) = d \<and> GETBE64 (PUTBE64 d (replicate 8 0)) = d
   \<and> PUTBE64 d (replicate 8 0) = rev (PUTLE64 d (replicate 8 0))"
  by (simp add: le16.get_put be16.get_put le32.get_put be32.get_put le64.get_put be64.get_put)
    (simp add: endian_defs numeral_eq_Suc)

end
