(* ===== verification/Tasklet.thy ===== *)
theory Tasklet
  imports CaError CaTime
begin

text \<open>
  The tasklet scheduler of \<^verbatim>\<open>cascoda-util/src/cascoda_tasklet.c\<close>: timed callbacks kept in a
  linked list threaded through the caller's own structures. The model keeps the pointers: memory
  maps an address to the structure stored there, \<open>next\<close> and the static head are addresses or
  \<open>None\<close>, and the loops follow them. The invariant ties the pointers to a list of addresses, and
  each operation is shown to be a list operation on it.
\<close>

subsection \<open>State\<close>

type_synonym tptr = nat

record ca_tasklet =
  callback :: nat
  tcontext :: nat
  nextp :: "tptr option"
  fireTime :: u32
  scheduled :: bool

text \<open>
  \<open>timer k\<close> is what the \<open>k\<close>-th call of \<^verbatim>\<open>TIME_ReadAbsoluteTime\<close> returns, \<open>reads\<close> counts the
  calls; \<open>app\<close> is the state of the program outside the scheduler, which callbacks change.
\<close>

record 'w sched =
  sTaskletHead :: "tptr option"
  tmem :: "tptr \<Rightarrow> ca_tasklet"
  timer :: "nat \<Rightarrow> u32"
  reads :: nat
  app :: 'w

definition read_time :: "'w sched \<Rightarrow> u32 \<times> 'w sched" where
  "read_time s = (timer s (reads s), s\<lparr>reads := Suc (reads s)\<rparr>)"

definition set_next :: "tptr \<Rightarrow> tptr option \<Rightarrow> 'w sched \<Rightarrow> 'w sched" where
  "set_next t n s = s\<lparr>tmem := (tmem s)(t := (tmem s t)\<lparr>nextp := n\<rparr>)\<rparr>"

definition set_scheduled :: "tptr \<Rightarrow> bool \<Rightarrow> 'w sched \<Rightarrow> 'w sched" where
  "set_scheduled t b s = s\<lparr>tmem := (tmem s)(t := (tmem s t)\<lparr>scheduled := b\<rparr>)\<rparr>"

text \<open>The pointer to a pointer \<^verbatim>\<open>prevn\<close>: the head variable or the \<open>next\<close> field of a tasklet.\<close>

datatype slot = HeadSlot | NextSlot tptr

fun write_slot :: "slot \<Rightarrow> tptr option \<Rightarrow> 'w sched \<Rightarrow> 'w sched" where
  "write_slot HeadSlot p s = s\<lparr>sTaskletHead := p\<rparr>"
| "write_slot (NextSlot t) p s = set_next t p s"

subsection \<open>Operations\<close>

definition GetTimeToEvent :: "u32 \<Rightarrow> u32 \<Rightarrow> u32" where
  "GetTimeToEvent start future = (let delta = future - start in if delta \<ge> 0x80000000 then 0 else delta)"

definition TASKLET_Init :: "tptr \<Rightarrow> nat \<Rightarrow> 'w sched \<Rightarrow> ca_error \<times> 'w sched" where
  "TASKLET_Init t cb s =
     (CA_ERROR_SUCCESS,
      s\<lparr>tmem := (tmem s)(t := \<lparr>callback = cb, tcontext = 0, nextp = None, fireTime = 0, scheduled = False\<rparr>)\<rparr>)"

definition TASKLET_IsQueued :: "tptr \<Rightarrow> 'w sched \<Rightarrow> bool" where
  "TASKLET_IsQueued t s = scheduled (tmem s t)"

text \<open>The search loop of \<^verbatim>\<open>TASKLET_ScheduleAbs\<close>; on a cyclic list it never returns.\<close>

partial_function (option) find_slot :: "'w sched \<Rightarrow> u32 \<Rightarrow> slot \<Rightarrow> tptr option \<Rightarrow> (slot \<times> tptr option) option" where
  "find_slot s aTimeAbs prevn cur =
     (case cur of
        None \<Rightarrow> Some (prevn, None)
      | Some c \<Rightarrow>
          if GetTimeToEvent (fireTime (tmem s c)) aTimeAbs = 0 then Some (prevn, Some c)
          else find_slot s aTimeAbs (NextSlot c) (nextp (tmem s c)))"

definition TASKLET_ScheduleAbs ::
  "tptr \<Rightarrow> u32 \<Rightarrow> u32 \<Rightarrow> nat \<Rightarrow> 'w sched \<Rightarrow> (ca_error \<times> 'w sched) option" where
  "TASKLET_ScheduleAbs t aTimeNow aTimeAbs aContext s =
     (if TASKLET_IsQueued t s then Some (CA_ERROR_ALREADY, s)
      else if GetTimeToEvent aTimeNow aTimeAbs = 0 \<and> aTimeNow \<noteq> aTimeAbs then Some (CA_ERROR_INVALID_ARGS, s)
      else
        let s1 = s\<lparr>tmem := (tmem s)(t := (tmem s t)\<lparr>fireTime := aTimeAbs, tcontext := aContext\<rparr>)\<rparr>
        in case find_slot s1 aTimeAbs HeadSlot (sTaskletHead s) of
             None \<Rightarrow> None
           | Some (prevn, cur) \<Rightarrow>
               Some (CA_ERROR_SUCCESS, set_scheduled t True (set_next t cur (write_slot prevn (Some t) s1))))"

definition TASKLET_ScheduleDelta :: "tptr \<Rightarrow> u32 \<Rightarrow> nat \<Rightarrow> 'w sched \<Rightarrow> (ca_error \<times> 'w sched) option" where
  "TASKLET_ScheduleDelta t aTimeDelta aContext s =
     (let (now, s1) = read_time s in TASKLET_ScheduleAbs t now (aTimeDelta + now) aContext s1)"

text \<open>Queries return the output parameter as an option: it is written only on success.\<close>

definition TASKLET_GetScheduledTime :: "tptr \<Rightarrow> 'w sched \<Rightarrow> ca_error \<times> u32 option" where
  "TASKLET_GetScheduledTime t s =
     (if \<not> TASKLET_IsQueued t s then (CA_ERROR_INVALID_STATE, None)
      else (CA_ERROR_SUCCESS, Some (fireTime (tmem s t))))"

definition TASKLET_GetScheduledTimeDelta :: "tptr \<Rightarrow> 'w sched \<Rightarrow> ca_error \<times> u32 option \<times> 'w sched" where
  "TASKLET_GetScheduledTimeDelta t s =
     (if \<not> TASKLET_IsQueued t s then (CA_ERROR_INVALID_STATE, None, s)
      else let (now, s1) = read_time s
           in (CA_ERROR_SUCCESS, Some (GetTimeToEvent now (fireTime (tmem s1 t))), s1))"

text \<open>The search loop of \<^verbatim>\<open>TASKLET_Cancel\<close>; reaching the end of the list fails the assertion.\<close>

partial_function (option) find_tasklet :: "'w sched \<Rightarrow> tptr \<Rightarrow> slot \<Rightarrow> tptr option \<Rightarrow> slot option" where
  "find_tasklet s t prevn cur =
     (case cur of
        None \<Rightarrow> None
      | Some c \<Rightarrow> if c = t then Some prevn else find_tasklet s t (NextSlot c) (nextp (tmem s c)))"

definition TASKLET_Cancel :: "tptr \<Rightarrow> 'w sched \<Rightarrow> (ca_error \<times> 'w sched) option" where
  "TASKLET_Cancel t s =
     (if \<not> TASKLET_IsQueued t s then Some (CA_ERROR_ALREADY, s)
      else case find_tasklet s t HeadSlot (sTaskletHead s) of
             None \<Rightarrow> None
           | Some prevn \<Rightarrow>
               Some (CA_ERROR_SUCCESS,
                     set_scheduled t False (set_next t None (write_slot prevn (nextp (tmem s t)) s))))"

definition TASKLET_GetTimeToNext :: "'w sched \<Rightarrow> ca_error \<times> u32 option \<times> 'w sched" where
  "TASKLET_GetTimeToNext s =
     (case sTaskletHead s of
        None \<Rightarrow> (CA_ERROR_NOT_FOUND, None, s)
      | Some h \<Rightarrow> let (now, s1) = read_time s
                  in (CA_ERROR_SUCCESS, Some (GetTimeToEvent now (fireTime (tmem s1 h))), s1))"

text \<open>
  \<open>cb\<close> runs the callback with the given number and context. The loop of \<^verbatim>\<open>TASKLET_Process\<close>
  takes the head while it is due; \<open>None\<close> is a run that does not return.
\<close>

partial_function (option) process_loop ::
  "(nat \<Rightarrow> nat \<Rightarrow> 'w sched \<Rightarrow> 'w sched) \<Rightarrow> ca_error \<Rightarrow> 'w sched \<Rightarrow> (ca_error \<times> 'w sched) option" where
  "process_loop cb error s =
     (case sTaskletHead s of
        None \<Rightarrow> Some (error, s)
      | Some t \<Rightarrow>
          (case TASKLET_GetTimeToNext s of (_, d, s1) \<Rightarrow>
             let delta = (case d of None \<Rightarrow> 1 | Some x \<Rightarrow> x)
             in if delta \<noteq> 0 then Some (error, s1)
                else (case TASKLET_Cancel t s1 of
                        None \<Rightarrow> None
                      | Some (_, s2) \<Rightarrow>
                          process_loop cb CA_ERROR_SUCCESS
                            (cb (callback (tmem s2 t)) (tcontext (tmem s2 t)) s2))))"

definition TASKLET_Process ::
  "(nat \<Rightarrow> nat \<Rightarrow> 'w sched \<Rightarrow> 'w sched) \<Rightarrow> 'w sched \<Rightarrow> (ca_error \<times> 'w sched) option" where
  "TASKLET_Process cb s = process_loop cb CA_ERROR_NOT_FOUND s"

declare find_slot.simps [code] find_tasklet.simps [code] process_loop.simps [code]

subsection \<open>The list behind the pointers\<close>

fun chain :: "(tptr \<Rightarrow> tptr option) \<Rightarrow> tptr option \<Rightarrow> tptr list \<Rightarrow> bool" where
  "chain n h [] \<longleftrightarrow> h = None"
| "chain n h (x # xs) \<longleftrightarrow> h = Some x \<and> chain n (n x) xs"

abbreviation nexts :: "'w sched \<Rightarrow> tptr \<Rightarrow> tptr option" where
  "nexts s t \<equiv> nextp (tmem s t)"

definition queue_inv :: "'w sched \<Rightarrow> tptr list \<Rightarrow> bool" where
  "queue_inv s xs \<longleftrightarrow> chain (nexts s) (sTaskletHead s) xs \<and> (\<forall>t. scheduled (tmem s t) \<longleftrightarrow> t \<in> set xs)"

lemma chain_upd [layout]: "t \<notin> set xs \<Longrightarrow> chain (n(t := p)) h xs = chain n h xs"
  by (induction xs arbitrary: h) auto

lemma chain_cong: "(\<And>x. x \<in> set xs \<Longrightarrow> n x = n' x) \<Longrightarrow> h = h' \<Longrightarrow> chain n h xs \<Longrightarrow> chain n' h' xs"
  by (induction xs arbitrary: h h') auto

lemma chain_append: "chain n h (xs @ y # ys) \<Longrightarrow> chain n (Some y) (y # ys)"
  by (induction xs arbitrary: h) auto

lemma chain_unique: "chain n h xs \<Longrightarrow> chain n h ys \<Longrightarrow> xs = ys"
  by (induction xs arbitrary: h ys) (case_tac ys; auto)+

lemma chain_distinct: "chain n h xs \<Longrightarrow> distinct xs"
proof (induction xs arbitrary: h)
  case (Cons x xs)
  have "x \<notin> set xs"
  proof
    assume "x \<in> set xs"
    then obtain us vs where xs: "xs = us @ x # vs"
      by (meson split_list)
    with Cons.prems have "chain n (Some x) (x # vs)" "chain n (Some x) (x # xs)"
      by (auto dest: chain_append)
    then have "x # vs = x # xs"
      by (rule chain_unique)
    with xs show False by simp
  qed
  with Cons show ?case by auto
qed simp

lemma queue_inv_distinct: "queue_inv s xs \<Longrightarrow> distinct xs"
  by (auto simp: queue_inv_def dest: chain_distinct)

lemma chain_hd: "chain n h xs \<Longrightarrow> h = (case xs of [] \<Rightarrow> None | y # _ \<Rightarrow> Some y)"
  by (cases xs) auto

lemma chain_some [simp]: "chain n h (y # ys) \<Longrightarrow> h = Some y"
  by simp

text \<open>
  Writing through the slot behind \<open>us\<close>: linking a new element in after \<open>us\<close>, and unlinking the
  element after \<open>us\<close>.
\<close>

definition slot_after :: "tptr list \<Rightarrow> slot \<Rightarrow> slot" where
  "slot_after us prevn = (if us = [] then prevn else NextSlot (last us))"

lemma chain_insert_after:
  assumes "chain n h (us @ vs)" "us \<noteq> []" "distinct (us @ vs)" "t \<notin> set (us @ vs)"
  shows "chain (n(last us := Some t, t := (case vs of [] \<Rightarrow> None | y # _ \<Rightarrow> Some y))) h (us @ t # vs)"
  using assms
proof (induction us arbitrary: h)
  case (Cons u us)
  show ?case
  proof (cases "us = []")
    case True
    with Cons.prems have vs: "chain n (n u) vs"
      by simp
    have "chain (n(u := Some t, t := (case vs of [] \<Rightarrow> None | y # _ \<Rightarrow> Some y))) (n u) vs"
      by (rule chain_cong [OF _ _ vs]) (use True Cons.prems in auto)
    with True Cons.prems show ?thesis
      by (simp add: chain_hd [OF vs] del: fun_upd_apply) (auto simp: fun_upd_apply)
  next
    case False
    with Cons show ?thesis
      by auto
  qed
qed simp

lemma chain_remove_after:
  assumes "chain n h (us @ t # vs)" "us \<noteq> []" "distinct (us @ t # vs)"
  shows "chain (n(last us := n t, t := None)) h (us @ vs)"
  using assms
proof (induction us arbitrary: h)
  case (Cons u us)
  show ?case
  proof (cases "us = []")
    case True
    with Cons.prems have vs: "chain n (n t) vs"
      by simp
    have "chain (n(u := n t, t := None)) (n t) vs"
      by (rule chain_cong [OF _ _ vs]) (use True Cons.prems in auto)
    with True Cons.prems show ?thesis
      by (simp add: fun_upd_same fun_upd_other del: fun_upd_apply)
  next
    case False
    with Cons show ?thesis
      by auto
  qed
qed simp

subsection \<open>The search loops\<close>

abbreviation before_new :: "'w sched \<Rightarrow> u32 \<Rightarrow> tptr \<Rightarrow> bool" where
  "before_new s aTimeAbs x \<equiv> GetTimeToEvent (fireTime (tmem s x)) aTimeAbs \<noteq> 0"

lemma find_slot_chain:
  assumes "chain (nexts s) cur xs"
  shows "find_slot s aTimeAbs prevn cur =
    Some (slot_after (takeWhile (before_new s aTimeAbs) xs) prevn,
          case dropWhile (before_new s aTimeAbs) xs of [] \<Rightarrow> None | y # _ \<Rightarrow> Some y)"
  using assms
proof (induction xs arbitrary: cur prevn)
  case Nil
  then show ?case
    by (simp add: find_slot.simps slot_after_def)
next
  case (Cons x xs)
  then show ?case
    by (auto simp: find_slot.simps [of s aTimeAbs prevn "Some x"] slot_after_def)
qed

lemma find_tasklet_chain:
  assumes "chain (nexts s) cur xs" "t \<in> set xs"
  shows "find_tasklet s t prevn cur = Some (slot_after (takeWhile (\<lambda>x. x \<noteq> t) xs) prevn)"
  using assms
proof (induction xs arbitrary: cur prevn)
  case (Cons x xs)
  then show ?case
    by (auto simp: find_tasklet.simps [of s t prevn "Some x"] slot_after_def)
qed simp

subsection \<open>State updates read back\<close>

lemma sched_fields [layout]:
  "sTaskletHead (set_next t p s) = sTaskletHead s"
  "sTaskletHead (set_scheduled t b s) = sTaskletHead s"
  "nexts (set_next t p s) = (nexts s)(t := p)"
  "nexts (set_scheduled t b s) = nexts s"
  "(\<lambda>x. scheduled (tmem (set_next t p s) x)) = (\<lambda>x. scheduled (tmem s x))"
  "(\<lambda>x. scheduled (tmem (set_scheduled t b s) x)) = (\<lambda>x. scheduled (tmem s x))(t := b)"
  by (auto simp: set_next_def set_scheduled_def)

lemma write_slot_fields [layout]:
  "sTaskletHead (write_slot q p s) = (case q of HeadSlot \<Rightarrow> p | NextSlot _ \<Rightarrow> sTaskletHead s)"
  "nexts (write_slot q p s) = (case q of HeadSlot \<Rightarrow> nexts s | NextSlot c \<Rightarrow> (nexts s)(c := p))"
  "(\<lambda>x. scheduled (tmem (write_slot q p s) x)) = (\<lambda>x. scheduled (tmem s x))"
  by (cases q; simp add: layout; auto simp: set_next_def)+

lemma payload_frame [frame]:
  "fireTime (tmem (set_next t p s) x) = fireTime (tmem s x)"
  "fireTime (tmem (set_scheduled t b s) x) = fireTime (tmem s x)"
  "fireTime (tmem (write_slot q p s) x) = fireTime (tmem s x)"
  "tcontext (tmem (set_next t p s) x) = tcontext (tmem s x)"
  "tcontext (tmem (set_scheduled t b s) x) = tcontext (tmem s x)"
  "tcontext (tmem (write_slot q p s) x) = tcontext (tmem s x)"
  "callback (tmem (set_next t p s) x) = callback (tmem s x)"
  "callback (tmem (set_scheduled t b s) x) = callback (tmem s x)"
  "callback (tmem (write_slot q p s) x) = callback (tmem s x)"
  "app (set_next t p s) = app s" "app (set_scheduled t b s) = app s" "app (write_slot q p s) = app s"
  "timer (set_next t p s) = timer s" "timer (set_scheduled t b s) = timer s" "timer (write_slot q p s) = timer s"
  "reads (set_next t p s) = reads s" "reads (set_scheduled t b s) = reads s" "reads (write_slot q p s) = reads s"
  by (cases q; simp add: set_next_def set_scheduled_def)+

subsection \<open>Scheduling is ordered insertion\<close>

text \<open>
  The list operation: the new tasklet goes before the first one that is not strictly earlier.
\<close>

definition insert_at :: "(tptr \<Rightarrow> bool) \<Rightarrow> tptr \<Rightarrow> tptr list \<Rightarrow> tptr list" where
  "insert_at P t xs = takeWhile P xs @ t # dropWhile P xs"

lemma set_insert_at [simp]: "set (insert_at P t xs) = insert t (set xs)"
  by (metis insert_at_def Un_insert_right list.simps(15) set_append takeWhile_dropWhile_id)

lemma queue_insert:
  assumes inv: "queue_inv s xs" and t: "t \<notin> set xs"
  shows "queue_inv (set_scheduled t True (set_next t (case dropWhile P xs of [] \<Rightarrow> None | y # _ \<Rightarrow> Some y)
           (write_slot (slot_after (takeWhile P xs) HeadSlot) (Some t) s))) (insert_at P t xs)"
proof -
  let ?us = "takeWhile P xs" and ?vs = "dropWhile P xs"
  have ch: "chain (nexts s) (sTaskletHead s) (?us @ ?vs)"
    and d: "distinct (?us @ ?vs)" and t': "t \<notin> set (?us @ ?vs)"
    using inv t by (simp_all add: queue_inv_def queue_inv_distinct [OF inv])
  have sch: "\<forall>x. scheduled (tmem s x) \<longleftrightarrow> x \<in> set xs"
    using inv by (simp add: queue_inv_def)
  have tv: "t \<notin> set ?vs"
    using t by (auto dest: set_dropWhileD)
  show ?thesis
  proof (cases "?us = []")
    case True
    then have vs: "chain (nexts s) (sTaskletHead s) ?vs"
      using ch by simp
    have "chain ((nexts s)(t := (case ?vs of [] \<Rightarrow> None | y # _ \<Rightarrow> Some y)))
            (case ?vs of [] \<Rightarrow> None | y # _ \<Rightarrow> Some y) ?vs"
      by (rule chain_cong [OF _ _ vs]) (use tv chain_hd [OF vs] in auto)
    moreover have "?vs = xs"
      using True takeWhile_dropWhile_id [of P xs] by simp
    ultimately show ?thesis
      using True sch tv
      unfolding queue_inv_def
      by (simp add: slot_after_def layout fun_cong [OF sched_fields(6)] insert_at_def)
  next
    case False
    have "set xs = set ?us \<union> set ?vs"
      by (metis set_append takeWhile_dropWhile_id)
    with chain_insert_after [OF ch False d t'] False sch show ?thesis
      unfolding queue_inv_def
      by (simp add: slot_after_def layout fun_cong [OF sched_fields(6)] insert_at_def)
  qed
qed

lemma queue_remove:
  assumes inv: "queue_inv s xs" and t: "t \<in> set xs"
  shows "queue_inv (set_scheduled t False (set_next t None
           (write_slot (slot_after (takeWhile (\<lambda>x. x \<noteq> t) xs) HeadSlot) (nexts s t) s))) (remove1 t xs)"
proof -
  let ?us = "takeWhile (\<lambda>x. x \<noteq> t) xs"
  obtain vs where xs: "xs = ?us @ t # vs"
    using t by (metis (mono_tags, lifting) dropWhile_eq_Cons_conv dropWhile_eq_Nil_conv neq_Nil_conv
        takeWhile_dropWhile_id)
  have d: "distinct (?us @ t # vs)" and ch: "chain (nexts s) (sTaskletHead s) (?us @ t # vs)"
    using inv queue_inv_distinct [OF inv] xs by (simp_all add: queue_inv_def)
  have rm: "remove1 t xs = ?us @ vs"
    using d by (subst xs) (simp add: remove1_append)
  have sch: "\<forall>x. scheduled (tmem s x) \<longleftrightarrow> x \<in> set (?us @ t # vs)"
    using inv xs by (simp add: queue_inv_def)
  show ?thesis
  proof (cases "?us = []")
    case True
    then have vs: "chain (nexts s) (nexts s t) vs"
      using ch by simp
    have "chain ((nexts s)(t := None)) (nexts s t) vs"
      by (rule chain_cong [OF _ _ vs]) (use d in auto)
    with True sch d rm show ?thesis
      unfolding queue_inv_def
      by (auto simp: slot_after_def layout fun_cong [OF sched_fields(6)])
  next
    case False
    from chain_remove_after [OF ch False d] False sch rm d show ?thesis
      unfolding queue_inv_def
      by (simp add: slot_after_def layout fun_cong [OF sched_fields(6)])
  qed
qed

definition same_payload :: "'w sched \<Rightarrow> 'w sched \<Rightarrow> tptr \<Rightarrow> bool" where
  "same_payload s s' x \<longleftrightarrow> fireTime (tmem s' x) = fireTime (tmem s x)
     \<and> tcontext (tmem s' x) = tcontext (tmem s x) \<and> callback (tmem s' x) = callback (tmem s x)"

definition same_world :: "'w sched \<Rightarrow> 'w sched \<Rightarrow> bool" where
  "same_world s s' \<longleftrightarrow> timer s' = timer s \<and> reads s' = reads s \<and> app s' = app s"

lemma takeWhile_insert_cong:
  assumes "t \<notin> set xs" "\<And>x. x \<noteq> t \<Longrightarrow> P x = Q x"
  shows "takeWhile P xs = takeWhile Q xs" "dropWhile P xs = dropWhile Q xs"
proof -
  have "x \<in> set xs \<Longrightarrow> P x = Q x" for x
    using assms by metis
  then show "takeWhile P xs = takeWhile Q xs" "dropWhile P xs = dropWhile Q xs"
    by (auto intro: takeWhile_cong dropWhile_cong)
qed

lemma ScheduleAbs_insert:
  assumes inv: "queue_inv s xs" and t: "t \<notin> set xs"
    and time: "GetTimeToEvent aTimeNow aTimeAbs \<noteq> 0 \<or> aTimeNow = aTimeAbs"
  obtains s' where "TASKLET_ScheduleAbs t aTimeNow aTimeAbs ctx s = Some (CA_ERROR_SUCCESS, s')"
    and "queue_inv s' (insert_at (before_new s aTimeAbs) t xs)"
    and "\<And>x. x \<noteq> t \<Longrightarrow> same_payload s s' x"
    and "fireTime (tmem s' t) = aTimeAbs" "tcontext (tmem s' t) = ctx"
    and "callback (tmem s' t) = callback (tmem s t)" "same_world s s'"
proof -
  define s1 where "s1 = s\<lparr>tmem := (tmem s)(t := (tmem s t)\<lparr>fireTime := aTimeAbs, tcontext := ctx\<rparr>)\<rparr>"
  have nx: "nexts s1 = nexts s" and sc: "(\<lambda>x. scheduled (tmem s1 x)) = (\<lambda>x. scheduled (tmem s x))"
    and hd: "sTaskletHead s1 = sTaskletHead s"
    by (auto simp: s1_def)
  have inv1: "queue_inv s1 xs"
    using inv fun_cong [OF sc] by (simp add: queue_inv_def nx hd)
  note same = takeWhile_insert_cong [OF t, of "before_new s1 aTimeAbs" "before_new s aTimeAbs"]
  let ?P = "before_new s aTimeAbs"
  let ?cur = "case dropWhile ?P xs of [] \<Rightarrow> None | y # _ \<Rightarrow> Some y"
  let ?s' = "set_scheduled t True (set_next t ?cur (write_slot (slot_after (takeWhile ?P xs) HeadSlot) (Some t) s1))"
  have "find_slot s1 aTimeAbs HeadSlot (sTaskletHead s) = Some (slot_after (takeWhile ?P xs) HeadSlot, ?cur)"
    using find_slot_chain [of s1 "sTaskletHead s" xs aTimeAbs HeadSlot] inv1 hd same
    by (simp add: queue_inv_def s1_def)
  then have "TASKLET_ScheduleAbs t aTimeNow aTimeAbs ctx s = Some (CA_ERROR_SUCCESS, ?s')"
    using inv t time by (auto simp: TASKLET_ScheduleAbs_def TASKLET_IsQueued_def queue_inv_def Let_def s1_def)
  moreover have "queue_inv ?s' (insert_at ?P t xs)"
    by (rule queue_insert [OF inv1 t])
  ultimately show thesis
    by (rule that) (simp_all add: same_payload_def same_world_def frame s1_def)
qed

lemma Cancel_remove:
  assumes inv: "queue_inv s xs" and t: "t \<in> set xs"
  obtains s' where "TASKLET_Cancel t s = Some (CA_ERROR_SUCCESS, s')"
    and "queue_inv s' (remove1 t xs)" "\<And>x. same_payload s s' x" "same_world s s'"
proof -
  let ?s' = "set_scheduled t False (set_next t None
      (write_slot (slot_after (takeWhile (\<lambda>x. x \<noteq> t) xs) HeadSlot) (nexts s t) s))"
  have "find_tasklet s t HeadSlot (sTaskletHead s) = Some (slot_after (takeWhile (\<lambda>x. x \<noteq> t) xs) HeadSlot)"
    using inv t by (auto simp: queue_inv_def intro: find_tasklet_chain)
  then have "TASKLET_Cancel t s = Some (CA_ERROR_SUCCESS, ?s')"
    using inv t by (simp add: TASKLET_Cancel_def TASKLET_IsQueued_def queue_inv_def)
  then show thesis
    by (rule that) (simp_all add: queue_remove [OF inv t] same_payload_def same_world_def frame)
qed

subsection \<open>Order of the queue\<close>

text \<open>
  Within half the counter's range of a base instant, the times have an order, and the queue is
  kept in it.
\<close>

definition ordered_from :: "u32 \<Rightarrow> u32 list \<Rightarrow> bool" where
  "ordered_from base fs \<longleftrightarrow>
     (\<forall>f \<in> set fs. unat (f - base) < 2147483648) \<and> sorted (map (\<lambda>f. unat (f - base)) fs)"

abbreviation fires :: "'w sched \<Rightarrow> tptr list \<Rightarrow> u32 list" where
  "fires s xs \<equiv> map (\<lambda>x. fireTime (tmem s x)) xs"

lemma GetTimeToEvent_0:
  "GetTimeToEvent start future = 0 \<longleftrightarrow> future = start \<or> 2147483648 \<le> unat (future - start)"
  by (auto simp: GetTimeToEvent_def Let_def word_le_nat_alt)

lemma GetTimeToEvent_window:
  assumes "unat (a - base) < 2147483648" "unat (b - base) < 2147483648"
  shows "unat (GetTimeToEvent a b) = unat (b - base) - unat (a - base)"
proof -
  have "unat (b - a) = (if unat (a - base) \<le> unat (b - base) then unat (b - base) - unat (a - base)
          else 4294967296 + unat (b - base) - unat (a - base))"
    using unat_minus_u32 [of "b - base" "a - base"] by simp
  with assms show ?thesis
    by (auto simp: GetTimeToEvent_def Let_def word_le_nat_alt split: if_splits)
qed

lemma sorted_insert_at:
  assumes "sorted (map f xs)"
  shows "sorted (map f (takeWhile (\<lambda>x. f x < k) xs) @ (k :: nat) # map f (dropWhile (\<lambda>x. f x < k) xs))"
  using assms
proof (induction xs)
  case (Cons x xs)
  show ?case
  proof (cases "f x < k")
    case True
    with Cons show ?thesis
      by (auto simp: sorted_append dest: set_takeWhileD set_dropWhileD)
  next
    case False
    with Cons.prems show ?thesis
      by (auto intro: order_trans)
  qed
qed simp

lemma fires_cong: "(\<And>x. x \<in> set xs \<Longrightarrow> same_payload s s' x) \<Longrightarrow> fires s' xs = fires s xs"
  by (auto simp: same_payload_def)

lemma before_new_window:
  assumes "unat (fireTime (tmem s x) - base) < 2147483648" "unat (aTimeAbs - base) < 2147483648"
  shows "before_new s aTimeAbs x \<longleftrightarrow> unat (fireTime (tmem s x) - base) < unat (aTimeAbs - base)"
  using GetTimeToEvent_window [OF assms] by (metis unat_eq_zero zero_less_diff neq0_conv)

lemma insert_at_window:
  assumes "ordered_from base (fires s xs)" "unat (aTimeAbs - base) < 2147483648"
  shows "insert_at (before_new s aTimeAbs) t xs
      = takeWhile (\<lambda>x. unat (fireTime (tmem s x) - base) < unat (aTimeAbs - base)) xs
        @ t # dropWhile (\<lambda>x. unat (fireTime (tmem s x) - base) < unat (aTimeAbs - base)) xs"
proof -
  have "x \<in> set xs \<Longrightarrow> unat (fireTime (tmem s x) - base) < 2147483648" for x
    using assms(1) by (auto simp: ordered_from_def)
  from before_new_window [OF this assms(2)] show ?thesis
    unfolding insert_at_def
    by (auto intro!: arg_cong2 [where f = append] takeWhile_cong dropWhile_cong)
qed

lemma ordered_insert:
  assumes ord: "ordered_from base (fires s xs)" and w: "unat (aTimeAbs - base) < 2147483648"
    and t: "t \<notin> set xs"
    and same: "\<And>x. x \<noteq> t \<Longrightarrow> same_payload s s' x" and ft: "fireTime (tmem s' t) = aTimeAbs"
  shows "ordered_from base (fires s' (insert_at (before_new s aTimeAbs) t xs))"
proof -
  let ?key = "\<lambda>x. unat (fireTime (tmem s x) - base)"
  have inw: "x \<in> set xs \<Longrightarrow> ?key x < 2147483648" for x
    using ord by (auto simp: ordered_from_def)
  have key': "x \<in> set xs \<Longrightarrow> unat (fireTime (tmem s' x) - base) = ?key x" for x
    using same [of x] t by (metis same_payload_def)
  note eq = insert_at_window [OF ord w, of t]
  have parts: "map (\<lambda>x. unat (fireTime (tmem s' x) - base)) (takeWhile P xs) = map ?key (takeWhile P xs)"
    "map (\<lambda>x. unat (fireTime (tmem s' x) - base)) (dropWhile P xs) = map ?key (dropWhile P xs)" for P
    by (auto intro!: key' dest: set_takeWhileD set_dropWhileD)
  have "sorted (map ?key xs)"
    using ord by (simp add: ordered_from_def comp_def)
  from sorted_insert_at [OF this, of "unat (aTimeAbs - base)"]
  have "sorted (map (\<lambda>x. unat (fireTime (tmem s' x) - base)) (insert_at (before_new s aTimeAbs) t xs))"
    unfolding eq by (simp only: map_append list.map ft parts)
  moreover have "\<forall>x \<in> set (insert_at (before_new s aTimeAbs) t xs). unat (fireTime (tmem s' x) - base) < 2147483648"
    using inw w ft key' by auto
  ultimately show ?thesis
    by (simp add: ordered_from_def comp_def)
qed

subsection \<open>Processing\<close>

text \<open>
  A callback that works on the program's own state and does not schedule or cancel: it is a function on
  \<open>app\<close>, and may look at which tasklets are in the queue.
\<close>

definition queued :: "'w sched \<Rightarrow> tptr set" where
  "queued s = {t. scheduled (tmem s t)}"

definition app_callback ::
  "(nat \<Rightarrow> nat \<Rightarrow> tptr set \<Rightarrow> 'w \<Rightarrow> 'w) \<Rightarrow> nat \<Rightarrow> nat \<Rightarrow> 'w sched \<Rightarrow> 'w sched" where
  "app_callback f c ctx s = s\<lparr>app := f c ctx (queued s) (app s)\<rparr>"

text \<open>The callbacks of \<open>xs\<close> one after another, each when its tasklet and those before it have left the
  queue and those behind it and \<open>rest\<close> are still there.\<close>

primrec run_all ::
  "(nat \<Rightarrow> nat \<Rightarrow> tptr set \<Rightarrow> 'w \<Rightarrow> 'w) \<Rightarrow> 'w sched \<Rightarrow> tptr list \<Rightarrow> tptr list \<Rightarrow> 'w \<Rightarrow> 'w" where
  "run_all f s rest [] w = w"
| "run_all f s rest (x # xs) w =
     run_all f s rest xs (f (callback (tmem s x)) (tcontext (tmem s x)) (set xs \<union> set rest) w)"

lemma run_all_cong:
  "(\<And>y. callback (tmem s y) = callback (tmem s' y)) \<Longrightarrow> (\<And>y. tcontext (tmem s y) = tcontext (tmem s' y)) \<Longrightarrow>
   run_all f s rest xs w = run_all f s' rest xs w"
  by (induction xs arbitrary: w) simp_all

lemma queued_inv: "queue_inv s xs \<Longrightarrow> queued s = set xs"
  by (auto simp: queue_inv_def queued_def)

lemma GetTimeToNext_head:
  "sTaskletHead s = Some h \<Longrightarrow> TASKLET_GetTimeToNext s =
     (CA_ERROR_SUCCESS, Some (GetTimeToEvent (timer s (reads s)) (fireTime (tmem s h))), s\<lparr>reads := Suc (reads s)\<rparr>)"
  by (simp add: TASKLET_GetTimeToNext_def read_time_def)

lemma process_step_due:
  assumes inv: "queue_inv s (x # xs)" and due: "GetTimeToEvent (timer s (reads s)) (fireTime (tmem s x)) = 0"
  obtains s2 where "process_loop cb e s = process_loop cb CA_ERROR_SUCCESS (cb (callback (tmem s x)) (tcontext (tmem s x)) s2)"
    and "queue_inv s2 xs" "\<And>y. same_payload s s2 y" "timer s2 = timer s" "app s2 = app s"
proof -
  define s1 where "s1 = s\<lparr>reads := Suc (reads s)\<rparr>"
  have q: "queue_inv s1 (x # xs)" and hd: "sTaskletHead s = Some x"
    using inv by (simp_all add: queue_inv_def s1_def)
  obtain s2 where c: "TASKLET_Cancel x s1 = Some (CA_ERROR_SUCCESS, s2)"
    and "queue_inv s2 (remove1 x (x # xs))"
    and pl: "\<And>y. same_payload s1 s2 y" and "same_world s1 s2"
    by (rule Cancel_remove [OF q, of x]) auto
  moreover have "\<And>y. same_payload s s2 y"
    using pl by (simp add: same_payload_def s1_def)
  moreover have "process_loop cb e s = process_loop cb CA_ERROR_SUCCESS (cb (callback (tmem s x)) (tcontext (tmem s x)) s2)"
    using hd due c pl [of x] GetTimeToNext_head [OF hd]
    by (subst process_loop.simps) (simp add: s1_def same_payload_def)
  ultimately show thesis
    by (intro that [of s2]) (simp_all add: same_world_def s1_def)
qed

lemma process_stop:
  assumes "sTaskletHead s = Some x" "GetTimeToEvent (timer s (reads s)) (fireTime (tmem s x)) \<noteq> 0"
  shows "process_loop cb e s = Some (e, s\<lparr>reads := Suc (reads s)\<rparr>)"
  using assms GetTimeToNext_head [OF assms(1)] by (subst process_loop.simps) simp

lemma process_loop_due:
  assumes "queue_inv s xs" "\<And>k. timer s k = now"
    and "ordered_from base (fires s xs)" "unat (now - base) < 2147483648"
  defines "is_due \<equiv> \<lambda>x. unat (fireTime (tmem s x) - base) \<le> unat (now - base)"
  shows "\<exists>s'. process_loop (app_callback f) e s = Some (if takeWhile is_due xs = [] then e else CA_ERROR_SUCCESS, s')
     \<and> queue_inv s' (dropWhile is_due xs) \<and> app s' = run_all f s (dropWhile is_due xs) (takeWhile is_due xs) (app s)"
  using assms(1-3) unfolding is_due_def
proof (induction xs arbitrary: s e)
  case Nil
  then show ?case
    by (subst process_loop.simps) (simp add: queue_inv_def)
next
  case (Cons x xs)
  have hd: "sTaskletHead s = Some x"
    using Cons.prems(1) by (simp add: queue_inv_def)
  have w: "unat (fireTime (tmem s x) - base) < 2147483648" and ord: "ordered_from base (fires s xs)"
    using Cons.prems(3) by (auto simp: ordered_from_def)
  have delta: "unat (GetTimeToEvent now (fireTime (tmem s x))) = unat (fireTime (tmem s x) - base) - unat (now - base)"
    by (rule GetTimeToEvent_window [OF assms(4) w])
  show ?case
  proof (cases "unat (fireTime (tmem s x) - base) \<le> unat (now - base)")
    case False
    then have "GetTimeToEvent now (fireTime (tmem s x)) \<noteq> 0"
      using delta by auto
    then show ?thesis
      using process_stop [OF hd] Cons.prems(1,2) False by (auto simp: queue_inv_def)
  next
    case True
    then have "GetTimeToEvent (timer s (reads s)) (fireTime (tmem s x)) = 0"
      using delta Cons.prems(2) by (simp add: unat_eq_zero)
    then obtain s2 where step: "process_loop (app_callback f) e s =
          process_loop (app_callback f) CA_ERROR_SUCCESS (app_callback f (callback (tmem s x)) (tcontext (tmem s x)) s2)"
      and s2: "queue_inv s2 xs" "\<And>y. same_payload s s2 y" "timer s2 = timer s" "app s2 = app s"
      using process_step_due [OF Cons.prems(1)] by metis
    let ?s3 = "app_callback f (callback (tmem s x)) (tcontext (tmem s x)) s2"
    have mem: "\<And>y. fireTime (tmem ?s3 y) = fireTime (tmem s y)" "\<And>y. callback (tmem ?s3 y) = callback (tmem s y)"
      "\<And>y. tcontext (tmem ?s3 y) = tcontext (tmem s y)"
      using s2(2) by (simp_all add: app_callback_def same_payload_def)
    have "queue_inv ?s3 xs" "\<And>k. timer ?s3 k = now" "ordered_from base (fires ?s3 xs)"
      using s2 ord mem Cons.prems(2) by (simp_all add: app_callback_def queue_inv_def)
    moreover have "app ?s3 = f (callback (tmem s x)) (tcontext (tmem s x)) (set xs) (app s)"
      using s2(4) queued_inv [OF s2(1)] by (simp add: app_callback_def)
    moreover have "set xs = set (takeWhile P xs) \<union> set (dropWhile P xs)" for P
      by (metis set_append takeWhile_dropWhile_id)
    moreover note run_all_cong [of s ?s3 f, OF mem(2,3) [symmetric]]
    ultimately show ?thesis
      using Cons.IH [of ?s3 CA_ERROR_SUCCESS] True step mem by simp
  qed
qed

lemma sorted_due_prefix:
  "sorted (map f xs) \<Longrightarrow>
     filter (\<lambda>x. f x \<le> (k :: nat)) xs = takeWhile (\<lambda>x. f x \<le> k) xs
     \<and> filter (\<lambda>x. \<not> f x \<le> k) xs = dropWhile (\<lambda>x. f x \<le> k) xs"
proof (induction xs)
  case (Cons x xs)
  show ?case
  proof (cases "f x \<le> k")
    case False
    with Cons.prems have "\<forall>y \<in> set (x # xs). \<not> f y \<le> k"
      by auto
    then show ?thesis
      by (auto simp: filter_empty_conv filter_id_conv)
  qed (use Cons in auto)
qed simp

text \<open>
  A tasklet that puts itself back at once: no number of rounds of the loop ends it.
\<close>

lemma requeue_round:
  assumes "queue_inv s []" "\<And>k. timer s k = now"
  obtains s' where "TASKLET_ScheduleDelta t 0 t s = Some (CA_ERROR_SUCCESS, s')"
    and "queue_inv s' [t]" "\<And>k. timer s' k = now" "fireTime (tmem s' t) = now" "tcontext (tmem s' t) = t"
proof -
  let ?s1 = "s\<lparr>reads := Suc (reads s)\<rparr>"
  have "queue_inv ?s1 []"
    using assms(1) by (simp add: queue_inv_def)
  then obtain s' where "TASKLET_ScheduleAbs t now now t ?s1 = Some (CA_ERROR_SUCCESS, s')"
      "queue_inv s' [t]" "fireTime (tmem s' t) = now" "tcontext (tmem s' t) = t" "same_world ?s1 s'"
    by (rule ScheduleAbs_insert [where t = t and aTimeNow = now and aTimeAbs = now and ctx = t])
       (auto simp: insert_at_def)
  with assms(2) show thesis
    by (intro that) (simp_all add: TASKLET_ScheduleDelta_def read_time_def same_world_def)
qed

lemma process_requeue_none:
  fixes s :: "'a sched"
  assumes "queue_inv s [t]" "\<And>k. timer s k = now" "fireTime (tmem s t) = now" "tcontext (tmem s t) = t"
  defines "requeue \<equiv> \<lambda>cb ctx s. case TASKLET_ScheduleDelta ctx 0 ctx s of Some (_, s') \<Rightarrow> s' | None \<Rightarrow> s"
  shows "process_loop requeue e s = None"
proof -
  define R where "R = (\<lambda>cb (e :: ca_error) (s :: 'a sched) (y :: ca_error \<times> 'a sched). cb = requeue \<and> queue_inv s [t]
    \<and> (\<forall>k. timer s k = now) \<and> fireTime (tmem s t) = now \<and> tcontext (tmem s t) = t)"
  have "\<not> R cb e s y" if "process_loop cb e s = Some y" for cb e s y
  proof (rule process_loop.raw_induct [where P = "\<lambda>cb e s y. \<not> R cb e s y", OF _ that], rule notI)
    fix loop cb e s y
    assume ih: "\<And>cb e s y. loop cb e s = Some y \<Longrightarrow> \<not> R cb e s y"
      and body: "(case sTaskletHead s of None \<Rightarrow> Some (e, s)
        | Some t \<Rightarrow> (case TASKLET_GetTimeToNext s of (_, d, s1) \<Rightarrow>
            let delta = (case d of None \<Rightarrow> 1 | Some x \<Rightarrow> x)
            in if delta \<noteq> 0 then Some (e, s1)
               else (case TASKLET_Cancel t s1 of None \<Rightarrow> None
                 | Some (_, s2) \<Rightarrow> loop cb CA_ERROR_SUCCESS (cb (callback (tmem s2 t)) (tcontext (tmem s2 t)) s2)))) = Some y"
      and "R cb e s y"
    then have cb: "cb = requeue" and prems: "queue_inv s [t]" "\<And>k. timer s k = now"
      "fireTime (tmem s t) = now" "tcontext (tmem s t) = t"
      by (auto simp: R_def)
    let ?s1 = "s\<lparr>reads := Suc (reads s)\<rparr>"
    have hd: "sTaskletHead s = Some t" and "queue_inv ?s1 [t]"
      using prems(1) by (simp_all add: queue_inv_def)
    then obtain s2 where c: "TASKLET_Cancel t ?s1 = Some (CA_ERROR_SUCCESS, s2)" and e2: "queue_inv s2 []"
      and pl: "same_payload ?s1 s2 t" and tm: "timer s2 = timer s"
      using Cancel_remove [of ?s1 "[t]" t] by (auto simp: same_world_def)
    have "\<And>k. timer s2 k = now"
      using tm prems(2) by simp
    with e2 obtain s3 where d: "TASKLET_ScheduleDelta t 0 t s2 = Some (CA_ERROR_SUCCESS, s3)"
      and s3: "queue_inv s3 [t]" "\<And>k. timer s3 k = now" "fireTime (tmem s3 t) = now" "tcontext (tmem s3 t) = t"
      by (rule requeue_round [where t = t]) blast
    have "tcontext (tmem s2 t) = t"
      using pl prems(4) by (simp add: same_payload_def)
    then have r: "requeue (callback (tmem s2 t)) (tcontext (tmem s2 t)) s2 = s3"
      using d by (simp add: requeue_def)
    have "GetTimeToEvent (timer s (reads s)) (fireTime (tmem s t)) = 0"
      using prems(2,3) by (simp add: GetTimeToEvent_def)
    with body have "loop cb CA_ERROR_SUCCESS s3 = Some y"
      using hd c r cb by (simp add: GetTimeToNext_head)
    moreover have "R cb CA_ERROR_SUCCESS s3 y"
      using cb s3 by (simp add: R_def)
    ultimately show False
      using ih by blast
  qed
  moreover have "R requeue e s y" for y
    using assms(1-4) by (simp add: R_def)
  ultimately show ?thesis
    by (metis option.exhaust)
qed

subsection \<open>What the scheduler promises\<close>

text \<open>A queue of two tasklets, due at 10 and 20, used by the witnesses below.\<close>

definition two_queued :: "nat sched" where
  "two_queued = \<lparr>sTaskletHead = Some 1,
     tmem = (\<lambda>_. \<lparr>callback = 0, tcontext = 0, nextp = None, fireTime = 0, scheduled = False\<rparr>)
       (1 := \<lparr>callback = 1, tcontext = 5, nextp = Some 2, fireTime = 10, scheduled = True\<rparr>,
        2 := \<lparr>callback = 2, tcontext = 6, nextp = None, fireTime = 20, scheduled = True\<rparr>),
     timer = (\<lambda>_. 15), reads = 0, app = 0\<rparr>"

lemma two_queued_ok:
  "queue_inv two_queued [1, 2]" "ordered_from 0 (fires two_queued [1, 2])" "timer two_queued k = 15"
  by (auto simp: two_queued_def queue_inv_def ordered_from_def)

text \<open>
  C38: Scheduling an idle tasklet for a time at most 0x7FFFFFFF milliseconds ahead succeeds and puts
  it into the queue at the place its fire time gives it, in front of every tasklet that is due at the
  same time or later; the queue stays in time order and the other tasklets keep their data. For a time
  further ahead the call returns \<open>CA_ERROR_INVALID_ARGS\<close> and changes nothing. (The times in the queue and
  the new one are taken to lie within half the counter's range of a base instant. The header asks for less than
  0x7FFFFFFF; the code accepts that value, too.)
\<close>

theorem TASKLET_ScheduleAbs_ordered:
  assumes "queue_inv s xs" "t \<notin> set xs"
    and "ordered_from base (fires s xs)" "unat (aTimeAbs - base) < 2147483648"
  defines "earlier \<equiv> \<lambda>x. unat (fireTime (tmem s x) - base) < unat (aTimeAbs - base)"
  shows "if unat (aTimeAbs - aTimeNow) \<le> 0x7FFFFFFF
     then \<exists>s'. TASKLET_ScheduleAbs t aTimeNow aTimeAbs ctx s = Some (CA_ERROR_SUCCESS, s')
       \<and> queue_inv s' (takeWhile earlier xs @ t # dropWhile earlier xs)
       \<and> ordered_from base (fires s' (takeWhile earlier xs @ t # dropWhile earlier xs))
       \<and> fireTime (tmem s' t) = aTimeAbs \<and> tcontext (tmem s' t) = ctx
       \<and> (\<forall>x. x = t \<or> same_payload s s' x)
     else TASKLET_ScheduleAbs t aTimeNow aTimeAbs ctx s = Some (CA_ERROR_INVALID_ARGS, s)"
proof (cases "unat (aTimeAbs - aTimeNow) \<le> 0x7FFFFFFF")
  case True
  then have "GetTimeToEvent aTimeNow aTimeAbs \<noteq> 0 \<or> aTimeNow = aTimeAbs"
    by (auto simp: GetTimeToEvent_0)
  then obtain s' where s': "TASKLET_ScheduleAbs t aTimeNow aTimeAbs ctx s = Some (CA_ERROR_SUCCESS, s')"
      "queue_inv s' (insert_at (before_new s aTimeAbs) t xs)" "\<And>x. x \<noteq> t \<Longrightarrow> same_payload s s' x"
      "fireTime (tmem s' t) = aTimeAbs" "tcontext (tmem s' t) = ctx"
    by (rule ScheduleAbs_insert [OF assms(1,2), where ctx = ctx]) blast
  have "insert_at (before_new s aTimeAbs) t xs = takeWhile earlier xs @ t # dropWhile earlier xs"
    by (rule insert_at_window [OF assms(3,4), folded earlier_def])
  with s' ordered_insert [OF assms(3,4,2) s'(3,4)] True show ?thesis
    by auto
next
  case False
  then have "GetTimeToEvent aTimeNow aTimeAbs = 0" "aTimeNow \<noteq> aTimeAbs"
    by (auto simp: GetTimeToEvent_0)
  moreover have "\<not> TASKLET_IsQueued t s"
    using assms(1,2) by (simp add: queue_inv_def TASKLET_IsQueued_def)
  ultimately show ?thesis
    using False by (simp add: TASKLET_ScheduleAbs_def)
qed

theorem TASKLET_ScheduleAbs_ordered_witness:
  "\<exists>s'. TASKLET_ScheduleAbs 3 12 20 7 two_queued = Some (CA_ERROR_SUCCESS, s') \<and> queue_inv s' [1, 3, 2]"
  using TASKLET_ScheduleAbs_ordered [OF two_queued_ok(1) _ two_queued_ok(2), of 3 20 12 7]
  by (auto simp: two_queued_def)

text \<open>
  Cancelling a queued tasklet takes exactly it out of the queue and leaves the order and the
  data of the rest; cancelling it again is refused with \<open>CA_ERROR_ALREADY\<close> and changes nothing.
\<close>

theorem TASKLET_Cancel_removes:
  assumes "queue_inv s xs" "t \<in> set xs"
  shows "\<exists>s'. TASKLET_Cancel t s = Some (CA_ERROR_SUCCESS, s') \<and> queue_inv s' (remove1 t xs)
     \<and> (\<forall>x. same_payload s s' x) \<and> TASKLET_Cancel t s' = Some (CA_ERROR_ALREADY, s')"
proof -
  obtain s' where s': "TASKLET_Cancel t s = Some (CA_ERROR_SUCCESS, s')" "queue_inv s' (remove1 t xs)"
      "\<And>x. same_payload s s' x"
    by (rule Cancel_remove [OF assms]) blast
  moreover have "\<not> scheduled (tmem s' t)"
    using s'(2) queue_inv_distinct [OF assms(1)] by (simp add: queue_inv_def)
  ultimately show ?thesis
    by (auto simp: TASKLET_Cancel_def TASKLET_IsQueued_def)
qed

theorem TASKLET_Cancel_removes_witness:
  "\<exists>s'. TASKLET_Cancel 1 two_queued = Some (CA_ERROR_SUCCESS, s') \<and> queue_inv s' [2]"
  using TASKLET_Cancel_removes [OF two_queued_ok(1), of 1] by auto

text \<open>
  C39: While the clock stands at \<open>now\<close> and the callbacks do not schedule or cancel, processing an
  ordered queue returns, and has run the callbacks of exactly the tasklets that are due, each once, with
  its own context, in the order of their fire times; when a callback runs, its tasklet has left the queue
  and those that are due after it are still in it; the later ones stay queued. It reports
  \<open>CA_ERROR_NOT_FOUND\<close> precisely when nothing was due. (A callback that puts its own tasklet back with no delay
  keeps it from returning, see below.)
\<close>

theorem TASKLET_Process_runs_due:
  assumes "queue_inv s xs" "\<And>k. timer s k = now"
    and "ordered_from base (fires s xs)" "unat (now - base) < 2147483648"
  defines "is_due \<equiv> \<lambda>x. unat (fireTime (tmem s x) - base) \<le> unat (now - base)"
  shows "\<exists>s'. TASKLET_Process (app_callback f) s =
       Some (if filter is_due xs = [] then CA_ERROR_NOT_FOUND else CA_ERROR_SUCCESS, s')
     \<and> queue_inv s' (filter (\<lambda>x. \<not> is_due x) xs)
     \<and> app s' = run_all f s (filter (\<lambda>x. \<not> is_due x) xs) (filter is_due xs) (app s)"
proof -
  have "filter is_due xs = takeWhile is_due xs \<and> filter (\<lambda>x. \<not> is_due x) xs = dropWhile is_due xs"
    using assms(3) unfolding is_due_def ordered_from_def by (intro sorted_due_prefix) (simp add: comp_def)
  then show ?thesis
    using process_loop_due [OF assms(1-4), of f CA_ERROR_NOT_FOUND, folded is_due_def]
    by (simp add: TASKLET_Process_def)
qed

theorem TASKLET_Process_runs_due_witness:
  "\<exists>s'. TASKLET_Process (app_callback (\<lambda>cb ctx q w. w + 100 * cb + ctx + 1000 * card q)) two_queued =
     Some (CA_ERROR_SUCCESS, s') \<and> queue_inv s' [2] \<and> app s' = 1105"
  using TASKLET_Process_runs_due [OF two_queued_ok(1,3,2), of "\<lambda>cb ctx q w. w + 100 * cb + ctx + 1000 * card q"]
  by (simp add: two_queued_def)

text \<open>
  A tasklet whose callback puts itself back with a delay of zero keeps \<open>TASKLET_Process\<close>
  from ever returning while the millisecond does not change.
\<close>

theorem TASKLET_Process_self_requeue_hangs:
  assumes "queue_inv s [t]" "\<And>k. timer s k = now" "fireTime (tmem s t) = now" "tcontext (tmem s t) = t"
  defines "requeue \<equiv> \<lambda>cb ctx s. case TASKLET_ScheduleDelta ctx 0 ctx s of Some (_, s') \<Rightarrow> s' | None \<Rightarrow> s"
  shows "TASKLET_Process requeue s = None"
  using process_requeue_none [of s t now CA_ERROR_NOT_FOUND] assms(1-4)
  by (simp add: TASKLET_Process_def requeue_def)

theorem TASKLET_Process_self_requeue_hangs_witness:
  "TASKLET_Process (\<lambda>cb ctx s. case TASKLET_ScheduleDelta ctx 0 ctx s of Some (_, s') \<Rightarrow> s' | None \<Rightarrow> s)
     \<lparr>sTaskletHead = Some 0,
      tmem = (\<lambda>p. \<lparr>callback = 1, tcontext = 0, nextp = None, fireTime = 7, scheduled = (p = 0)\<rparr>),
      timer = (\<lambda>_. 7), reads = 0, app = ()\<rparr> = None"
  by (rule TASKLET_Process_self_requeue_hangs [where t = 0 and now = 7]) (simp_all add: queue_inv_def)

end
