(* ===== verification/Flash.thy ===== *)
theory Flash
  imports CaError Endian
begin

text \<open>
  Flash memory. The interface \<^verbatim>\<open>cascoda-util/include/cascoda-util/cascoda_flash.h\<close> promises a NOR
  flash: a page erase sets every bit of the page, a write only clears bits. This theory states that
  contract as the locale \<open>nor_flash\<close> and models the two drivers that provide it: the file-backed one
  of \<^verbatim>\<open>posix/ca821x-posix/source/util/cascoda-flash.c\<close>, and
  \<^verbatim>\<open>baremetal/cascoda-bm-driver/source/cascoda_flash.c\<close> on top of the board support functions of
  \<^verbatim>\<open>baremetal/platform/chili2/port/source/cascoda_dataflash_m2351_secure.c\<close>. Addresses are
  naturals: every flash is far smaller than the range of \<^verbatim>\<open>uint32_t\<close>.
\<close>

unbundle bit_operations_syntax

subsection \<open>The promised memory\<close>

type_synonym flashmem = "nat \<Rightarrow> u8"

definition flash_read :: "flashmem \<Rightarrow> nat \<Rightarrow> nat \<Rightarrow> bytes" where
  "flash_read mem a n = map mem [a..<a + n]"

definition flash_write :: "nat \<Rightarrow> bytes \<Rightarrow> flashmem \<Rightarrow> flashmem" where
  "flash_write a bs mem = (\<lambda>i. if a \<le> i \<and> i < a + length bs then mem i AND bs ! (i - a) else mem i)"

definition flash_erase :: "nat \<Rightarrow> nat \<Rightarrow> flashmem \<Rightarrow> flashmem" where
  "flash_erase page a mem = (\<lambda>i. if i div page = a div page then 0xFF else mem i)"

lemma and_ff_u8 [simp]: "(0xFF :: u8) AND b = b" "b AND (0xFF :: u8) = b"
proof -
  have m: "(0xFF :: u8) = mask 8"
    by (simp add: mask_eq_exp_minus_1)
  show "(0xFF :: u8) AND b = b" "b AND (0xFF :: u8) = b"
    unfolding m by (auto simp: bit_eq_iff bit_simps dest: bit_imp_le_length)
qed

lemma length_flash_read [simp]: "length (flash_read mem a n) = n"
  by (simp add: flash_read_def)

lemma nth_flash_read [simp]: "i < n \<Longrightarrow> flash_read mem a n ! i = mem (a + i)"
  by (simp add: flash_read_def)

lemma flash_read_eqI: "(\<And>i. a \<le> i \<Longrightarrow> i < a + n \<Longrightarrow> m i = m' i) \<Longrightarrow> flash_read m a n = flash_read m' a n"
  by (simp add: flash_read_def)

lemma flash_write_nil [simp]: "flash_write a [] mem = mem"
  by (rule ext) (auto simp: flash_write_def)

lemma flash_write_outside [frame]: "i < a \<or> a + length bs \<le> i \<Longrightarrow> flash_write a bs mem i = mem i"
  by (auto simp: flash_write_def)

lemma flash_write_inside [layout]: "a \<le> i \<Longrightarrow> i < a + length bs \<Longrightarrow> flash_write a bs mem i = mem i AND bs ! (i - a)"
  by (simp add: flash_write_def)

lemma flash_write_append:
  "flash_write a (xs @ ys) mem = flash_write (a + length xs) ys (flash_write a xs mem)"
  by (rule ext) (auto simp: flash_write_def nth_append diff_diff_left)

lemma flash_write_pad: "flash_write a (bs @ replicate n 0xFF) mem = flash_write a bs mem"
  by (rule ext) (auto simp: flash_write_def nth_append)

subsection \<open>The contract\<close>

text \<open>
  \<open>view\<close> is the memory as the interface shows it; \<open>align\<close> the alignment a driver asks for. The
  laws are what the clients rely on: complete reads, writes that only clear bits and touch nothing
  else, erased pages.
\<close>

locale nor_flash =
  fixes rd :: "nat \<Rightarrow> nat \<Rightarrow> 's \<Rightarrow> nat \<times> bytes"
    and wr :: "nat \<Rightarrow> bytes \<Rightarrow> 's \<Rightarrow> nat \<times> 's"
    and er :: "nat \<Rightarrow> 's \<Rightarrow> ca_error \<times> 's"
    and view :: "'s \<Rightarrow> flashmem" and ready :: "'s \<Rightarrow> bool"
    and size page align :: nat
  assumes rd_law: "ready s \<Longrightarrow> align dvd a \<Longrightarrow> a + n \<le> size \<Longrightarrow> rd a n s = (n, flash_read (view s) a n)"
    and wr_law: "ready s \<Longrightarrow> align dvd a \<Longrightarrow> a + length bs \<le> size \<Longrightarrow>
      fst (wr a bs s) = length bs \<and> ready (snd (wr a bs s)) \<and>
      (\<forall>i < size. view (snd (wr a bs s)) i = flash_write a bs (view s) i)"
    and er_law: "ready s \<Longrightarrow> align dvd a \<Longrightarrow> a < size \<Longrightarrow>
      fst (er a s) = CA_ERROR_SUCCESS \<and> ready (snd (er a s)) \<and>
      (\<forall>i < size. view (snd (er a s)) i = flash_erase page a (view s) i)"
begin

lemma read_back:
  assumes "ready s" "align dvd a" "a + length bs \<le> size" "\<And>i. i < length bs \<Longrightarrow> view s (a + i) = 0xFF"
  shows "rd a (length bs) (snd (wr a bs s)) = (length bs, bs)"
proof -
  have "flash_read (view (snd (wr a bs s))) a (length bs) = bs"
    using wr_law [OF assms(1-3)] assms(3,4)
    by (intro nth_equalityI) (simp_all add: flash_write_def)
  with wr_law [OF assms(1-3)] show ?thesis
    by (simp add: rd_law [OF _ assms(2,3)])
qed

lemma only_clears:
  assumes "ready s" "align dvd a" "a + length bs \<le> size" "i < size" "bit (view (snd (wr a bs s)) i) k"
  shows "bit (view s i) k"
  using wr_law [OF assms(1-3)] assms(4,5) by (auto simp: flash_write_def bit_and_iff split: if_splits)

lemma read_elsewhere:
  assumes "ready s" "align dvd a" "a + length bs \<le> size"
    and "align dvd b" "b + n \<le> size" "b + n \<le> a \<or> a + length bs \<le> b"
  shows "rd b n (snd (wr a bs s)) = rd b n s"
proof -
  have "flash_read (view (snd (wr a bs s))) b n = flash_read (view s) b n"
    using wr_law [OF assms(1-3)] assms(5,6) by (intro flash_read_eqI) (auto simp: flash_write_def)
  with wr_law [OF assms(1-3)] show ?thesis
    by (simp add: rd_law assms)
qed

lemma erase_read:
  assumes "ready s" "align dvd a" "a < size" "page > 0" "page dvd b" "b div page = a div page"
    and "align dvd b" "b + page \<le> size"
  shows "rd b page (snd (er a s)) = (page, replicate page 0xFF)"
proof -
  have "flash_read (view (snd (er a s))) b page = replicate page 0xFF"
  proof (rule nth_equalityI)
    fix i assume "i < length (flash_read (view (snd (er a s))) b page)"
    then have i: "i < page" by simp
    then have "(b + i) div page = a div page"
      using assms(4,5,6) by (auto elim!: dvdE)
    with i assms(8) er_law [OF assms(1-3)] show "flash_read (view (snd (er a s))) b page ! i = replicate page 0xFF ! i"
      by (simp add: flash_erase_def)
  qed simp
  with er_law [OF assms(1-3)] show ?thesis
    by (simp add: rd_law assms)
qed

end

subsection \<open>The file-backed driver\<close>

text \<open>
  The file descriptor and the file it names. Reads stop at the end of the file; a write past the end
  leaves a hole of zeros. A read or write of a regular file that \<^verbatim>\<open>open\<close> accepted is complete.
\<close>

record posix_flash =
  flash_fd :: int
  contents :: bytes

definition FLASH_SIZE :: nat where "FLASH_SIZE = 0x40000"
definition FLASH_PAGE_SIZE :: nat where "FLASH_PAGE_SIZE = 0x800"
definition FLASH_PAGE_NUM :: nat where "FLASH_PAGE_NUM = 128"

definition file_write :: "nat \<Rightarrow> bytes \<Rightarrow> bytes \<Rightarrow> bytes" where
  "file_write a bs f = take a f @ replicate (a - length f) 0 @ bs @ drop (a + length bs) f"

definition posix_utilsFlashRead :: "nat \<Rightarrow> nat \<Rightarrow> posix_flash \<Rightarrow> nat \<times> bytes" where
  "posix_utilsFlashRead aAddress aSize s =
     (if 0 \<le> flash_fd s \<and> aAddress < FLASH_SIZE
      then (let aData = take aSize (drop aAddress (contents s)) in (length aData, aData))
      else (0, []))"

fun posix_write_loop :: "nat \<Rightarrow> nat \<Rightarrow> bytes \<Rightarrow> posix_flash \<Rightarrow> nat \<times> posix_flash" where
  "posix_write_loop aAddress index [] s = (index, s)"
| "posix_write_loop aAddress index (d # ds) s =
     (case posix_utilsFlashRead (aAddress + index) 1 s of
        (ret, byte) \<Rightarrow>
          if ret = 1
          then posix_write_loop aAddress (Suc index) ds (s\<lparr>contents := file_write (aAddress + index) [hd byte AND d] (contents s)\<rparr>)
          else (index, s))"

definition posix_utilsFlashWrite :: "nat \<Rightarrow> bytes \<Rightarrow> posix_flash \<Rightarrow> nat \<times> posix_flash" where
  "posix_utilsFlashWrite aAddress aData s =
     (if 0 \<le> flash_fd s \<and> aAddress < FLASH_SIZE then posix_write_loop aAddress 0 aData s else (0, s))"

definition posix_utilsFlashErasePage :: "nat \<Rightarrow> posix_flash \<Rightarrow> ca_error \<times> posix_flash" where
  "posix_utilsFlashErasePage aAddress s =
     (if \<not> 0 \<le> flash_fd s then (CA_ERROR_FAIL, s)
      else if \<not> aAddress < FLASH_SIZE then (CA_ERROR_INVALID_ARGS, s)
      else let address = unat (word_of_nat aAddress AND NOT (word_of_nat FLASH_PAGE_SIZE - 1) :: u32)
           in (CA_ERROR_SUCCESS, s\<lparr>contents := file_write address (replicate FLASH_PAGE_SIZE 0xFF) (contents s)\<rparr>))"

text \<open>
  \<^verbatim>\<open>utilsFlashInit\<close>: \<open>existing\<close> is the file found under the name, \<open>fd\<close> what \<^verbatim>\<open>open\<close> returned.
  The loop over the pages of a new file leaves at the first page whose erase does not fail.
\<close>

fun posix_create_loop :: "nat list \<Rightarrow> ca_error \<Rightarrow> posix_flash \<Rightarrow> ca_error \<times> posix_flash" where
  "posix_create_loop [] error s = (error, s)"
| "posix_create_loop (index # is) error s =
     (case posix_utilsFlashErasePage (index * FLASH_PAGE_SIZE) s of
        (error', s') \<Rightarrow> if error' = CA_ERROR_SUCCESS then (error', s') else posix_create_loop is error' s')"

definition posix_utilsFlashInit :: "bytes option \<Rightarrow> int \<Rightarrow> ca_error \<times> posix_flash" where
  "posix_utilsFlashInit existing fd =
     (let create = (existing = None);
          s = \<lparr>flash_fd = fd, contents = (case existing of None \<Rightarrow> [] | Some f \<Rightarrow> f)\<rparr>
      in if \<not> 0 \<le> fd then (CA_ERROR_FAIL, s)
         else if create then posix_create_loop [0..<FLASH_PAGE_NUM] CA_ERROR_SUCCESS s
         else (CA_ERROR_SUCCESS, s))"

definition posix_utilsFlashGetSize :: nat where
  "posix_utilsFlashGetSize = FLASH_SIZE"

lemmas posix_flash_defs = FLASH_SIZE_def FLASH_PAGE_SIZE_def FLASH_PAGE_NUM_def

definition posix_view :: "posix_flash \<Rightarrow> flashmem" where
  "posix_view s i = contents s ! i"

definition posix_ready :: "posix_flash \<Rightarrow> bool" where
  "posix_ready s \<longleftrightarrow> 0 \<le> flash_fd s \<and> length (contents s) = FLASH_SIZE"

lemma length_file_write [simp]: "a + length bs \<le> length f \<Longrightarrow> length (file_write a bs f) = length f"
  by (simp add: file_write_def)

lemma nth_file_write:
  "a + length bs \<le> length f \<Longrightarrow> i < length f \<Longrightarrow>
     file_write a bs f ! i = (if a \<le> i \<and> i < a + length bs then bs ! (i - a) else f ! i)"
  by (auto simp: file_write_def nth_append)

lemma posix_read_ready:
  "posix_ready s \<Longrightarrow> a + n \<le> FLASH_SIZE \<Longrightarrow> a < FLASH_SIZE \<or> n = 0 \<Longrightarrow>
     posix_utilsFlashRead a n s = (n, flash_read (posix_view s) a n)"
  by (auto simp: posix_utilsFlashRead_def posix_ready_def posix_view_def flash_read_def Let_def
      intro!: nth_equalityI)

lemma posix_write_loop_view:
  "posix_ready s \<Longrightarrow> a + k + length bs \<le> FLASH_SIZE \<Longrightarrow>
     fst (posix_write_loop a k bs s) = k + length bs \<and> posix_ready (snd (posix_write_loop a k bs s)) \<and>
     (\<forall>i < FLASH_SIZE. posix_view (snd (posix_write_loop a k bs s)) i = flash_write (a + k) bs (posix_view s) i)"
proof (induction bs arbitrary: k s)
  case (Cons d ds)
  let ?s' = "s\<lparr>contents := file_write (a + k) [posix_view s (a + k) AND d] (contents s)\<rparr>"
  have step: "posix_write_loop a k (d # ds) s = posix_write_loop a (Suc k) ds ?s'"
    using Cons.prems by (simp add: posix_read_ready flash_read_def)
  have ready: "posix_ready ?s'"
    using Cons.prems by (simp add: posix_ready_def)
  have one: "i < FLASH_SIZE \<Longrightarrow> posix_view ?s' i = flash_write (a + k) [d] (posix_view s) i" for i
    using Cons.prems by (cases "i = a + k") (auto simp: posix_view_def posix_ready_def nth_file_write flash_write_def)
  have "flash_write (a + k) (d # ds) m = flash_write (a + Suc k) ds (flash_write (a + k) [d] m)" for m
    using flash_write_append [of "a + k" "[d]" ds m] by simp
  with Cons.IH [OF ready, of "Suc k"] Cons.prems(2) one show ?case
    unfolding step by (simp add: flash_write_def)
qed simp

lemma page_start: "a < FLASH_SIZE \<Longrightarrow>
  unat (word_of_nat a AND NOT (word_of_nat FLASH_PAGE_SIZE - 1) :: u32) = a div FLASH_PAGE_SIZE * FLASH_PAGE_SIZE"
proof -
  assume a: "a < FLASH_SIZE"
  have "(word_of_nat FLASH_PAGE_SIZE - 1 :: u32) = mask 11"
    by (simp add: posix_flash_defs mask_eq_exp_minus_1)
  then have "(word_of_nat a AND NOT (word_of_nat FLASH_PAGE_SIZE - 1) :: u32) = push_bit 11 (drop_bit 11 (word_of_nat a))"
    by (auto simp: bit_eq_iff bit_simps)
  moreover have w: "unat (word_of_nat a :: u32) = a"
    using a by (simp add: posix_flash_defs unat_of_nat)
  moreover have "unat (push_bit 11 (drop_bit 11 (word_of_nat a :: u32))) = take_bit 32 (push_bit 11 (drop_bit 11 a))"
    using a by (simp only: unsigned_push_bit_eq unsigned_drop_bit_eq unsigned_of_nat)
      (simp add: take_bit_nat_eq_self posix_flash_defs)
  ultimately show ?thesis
    using a by (simp add: posix_flash_defs push_bit_eq_mult drop_bit_eq_div take_bit_eq_mod)
qed

lemma posix_write_ready:
  "posix_ready s \<Longrightarrow> a + length bs \<le> FLASH_SIZE \<Longrightarrow>
     fst (posix_utilsFlashWrite a bs s) = length bs \<and> posix_ready (snd (posix_utilsFlashWrite a bs s)) \<and>
     (\<forall>i < FLASH_SIZE. posix_view (snd (posix_utilsFlashWrite a bs s)) i = flash_write a bs (posix_view s) i)"
  using posix_write_loop_view [of s a 0 bs]
  by (cases bs; cases "a < FLASH_SIZE") (auto simp: posix_utilsFlashWrite_def posix_ready_def)

lemma same_page:
  assumes "0 < (p :: nat)"
  shows "i div p = a div p \<longleftrightarrow> a div p * p \<le> i \<and> i < a div p * p + p"
proof
  assume "i div p = a div p"
  then show "a div p * p \<le> i \<and> i < a div p * p + p"
    using div_times_less_eq_dividend [of i p] dividend_less_div_times [OF assms, of i] by simp
next
  assume "a div p * p \<le> i \<and> i < a div p * p + p"
  then show "i div p = a div p"
    by (intro div_nat_eqI) (simp_all add: mult.commute)
qed

lemma posix_erase_ready:
  assumes "posix_ready s" "a < FLASH_SIZE"
  shows "fst (posix_utilsFlashErasePage a s) = CA_ERROR_SUCCESS \<and> posix_ready (snd (posix_utilsFlashErasePage a s)) \<and>
    (\<forall>i < FLASH_SIZE. posix_view (snd (posix_utilsFlashErasePage a s)) i = flash_erase FLASH_PAGE_SIZE a (posix_view s) i)"
proof -
  let ?p = "a div FLASH_PAGE_SIZE * FLASH_PAGE_SIZE"
  have fit: "?p + FLASH_PAGE_SIZE \<le> FLASH_SIZE"
  proof -
    have "a div 2048 < 128"
      using assms(2) by (simp add: posix_flash_defs)
    then show ?thesis
      by (simp add: posix_flash_defs)
  qed
  have e: "posix_utilsFlashErasePage a s =
      (CA_ERROR_SUCCESS, s\<lparr>contents := file_write ?p (replicate FLASH_PAGE_SIZE 0xFF) (contents s)\<rparr>)"
    using assms page_start [OF assms(2)] by (simp add: posix_utilsFlashErasePage_def posix_ready_def)
  have rep: "?p \<le> i \<Longrightarrow> i < ?p + FLASH_PAGE_SIZE \<Longrightarrow> replicate FLASH_PAGE_SIZE (0xFF :: u8) ! (i - ?p) = 0xFF" for i
    by (rule nth_replicate) linarith
  have "0 < FLASH_PAGE_SIZE"
    by (simp add: posix_flash_defs)
  from same_page [OF this, of _ a] assms fit show ?thesis
    unfolding e posix_view_def by (simp add: posix_ready_def nth_file_write flash_erase_def rep)
qed

interpretation posix: nor_flash posix_utilsFlashRead posix_utilsFlashWrite posix_utilsFlashErasePage
  posix_view posix_ready FLASH_SIZE FLASH_PAGE_SIZE 1
proof unfold_locales
  fix s a n assume "posix_ready s" "a + n \<le> FLASH_SIZE"
  then show "posix_utilsFlashRead a n s = (n, flash_read (posix_view s) a n)"
    by (intro posix_read_ready) auto
qed (use posix_write_ready posix_erase_ready in blast)+

subsection \<open>The driver over the chip's flash controller\<close>

text \<open>
  The board's flash: the bounds of the data flash and of the loader region, and the page size. The
  vendor's \<^verbatim>\<open>FMC_Write\<close> (one word) and \<^verbatim>\<open>FMC_Erase\<close> (one page, zero for success) are arguments.
\<close>

record chip =
  DATA_FLASH_BASE :: nat
  FMC_APROM_END :: nat
  FMC_LDROM_BASE :: nat
  FMC_LDROM_END :: nat
  FMC_FLASH_PAGE_SIZE :: nat

record fmc =
  FMC_Write :: "nat \<Rightarrow> u32 \<Rightarrow> flashmem \<Rightarrow> flashmem"
  FMC_Erase :: "nat \<Rightarrow> flashmem \<Rightarrow> int \<times> flashmem"

definition isValidFlashAddr :: "chip \<Rightarrow> nat \<Rightarrow> bool" where
  "isValidFlashAddr c flashaddr \<longleftrightarrow> flashaddr mod 4 = 0 \<and>
     \<not> ((flashaddr < DATA_FLASH_BASE c \<or> flashaddr \<ge> FMC_APROM_END c) \<and>
        (flashaddr < FMC_LDROM_BASE c \<or> flashaddr \<ge> FMC_LDROM_END c))"

text \<open>\<open>datasize\<close> bytes of the buffer are programmed word by word; a word read from it is little endian.\<close>

definition BSP_FlashWriteInitial ::
  "chip \<Rightarrow> fmc \<Rightarrow> nat \<Rightarrow> bytes \<Rightarrow> nat \<Rightarrow> flashmem \<Rightarrow> ca_error \<times> flashmem" where
  "BSP_FlashWriteInitial c f startaddr data datasize mem =
     (if \<not> isValidFlashAddr c startaddr \<or> \<not> isValidFlashAddr c (startaddr + datasize)
      then (CA_ERROR_INVALID_ARGS, mem)
      else (CA_ERROR_SUCCESS,
            fold (\<lambda>i. FMC_Write f (startaddr + 4 * i) (GETLE32 (drop (4 * i) data))) [0..<(datasize + 3) div 4] mem))"

definition BSP_FlashErase :: "chip \<Rightarrow> fmc \<Rightarrow> nat \<Rightarrow> flashmem \<Rightarrow> ca_error \<times> flashmem" where
  "BSP_FlashErase c f startaddr mem =
     (let page = startaddr div FMC_FLASH_PAGE_SIZE c
      in if \<not> isValidFlashAddr c startaddr then (CA_ERROR_INVALID_ARGS, mem)
         else (case FMC_Erase f (FMC_FLASH_PAGE_SIZE c * page) mem of
                 (error, mem') \<Rightarrow> if error \<noteq> 0 then (CA_ERROR_FAIL, mem') else (CA_ERROR_SUCCESS, mem')))"

definition BSP_FlashRead :: "chip \<Rightarrow> nat \<Rightarrow> nat \<Rightarrow> flashmem \<Rightarrow> ca_error \<times> bytes option" where
  "BSP_FlashRead c startaddr datasize mem =
     (if \<not> isValidFlashAddr c startaddr \<or> \<not> isValidFlashAddr c (startaddr + datasize * 4)
      then (CA_ERROR_INVALID_ARGS, None)
      else (CA_ERROR_SUCCESS, Some (flash_read mem startaddr (datasize * 4))))"

definition FLASH_BUFSIZE :: nat where "FLASH_BUFSIZE = 4"

text \<open>The write loop: at most sixteen bytes at a time, padded to words with ones.\<close>

function bm_write_loop :: "chip \<Rightarrow> fmc \<Rightarrow> nat \<Rightarrow> bytes \<Rightarrow> flashmem \<Rightarrow> flashmem" where
  "bm_write_loop c f aAddress aData mem =
     (if aData = [] then mem
      else let byteLen = (if length aData > FLASH_BUFSIZE * 4 then FLASH_BUFSIZE * 4 else length aData);
               buffer = take byteLen aData @ replicate (FLASH_BUFSIZE * 4 - byteLen) 0xFF;
               alignLen = (byteLen + 4 - 1) div 4 * 4;
               (_, mem') = BSP_FlashWriteInitial c f aAddress buffer alignLen mem
           in bm_write_loop c f (aAddress + byteLen) (drop byteLen aData) mem')"
  by auto
termination
  by (relation "measure (\<lambda>(c, f, a, d, m). length d)") (auto simp: FLASH_BUFSIZE_def split: if_splits)

definition bm_utilsFlashWrite :: "chip \<Rightarrow> fmc \<Rightarrow> nat \<Rightarrow> bytes \<Rightarrow> flashmem \<Rightarrow> nat \<times> flashmem" where
  "bm_utilsFlashWrite c f aAddress aData mem =
     (length aData, bm_write_loop c f (aAddress + DATA_FLASH_BASE c) aData mem)"

function bm_read_loop :: "chip \<Rightarrow> nat \<Rightarrow> nat \<Rightarrow> flashmem \<Rightarrow> bytes" where
  "bm_read_loop c aAddress sizeLeft mem =
     (if sizeLeft = 0 then []
      else let byteLen = (if sizeLeft > FLASH_BUFSIZE * 4 then FLASH_BUFSIZE * 4 else sizeLeft);
               buffer = (case BSP_FlashRead c aAddress ((byteLen + 3) div 4) mem of
                           (_, None) \<Rightarrow> replicate (FLASH_BUFSIZE * 4) 0
                         | (_, Some d) \<Rightarrow> d @ replicate (FLASH_BUFSIZE * 4 - length d) 0)
           in take byteLen buffer @ bm_read_loop c (aAddress + byteLen) (sizeLeft - byteLen) mem)"
  by auto
termination
  by (relation "measure (\<lambda>(c, a, n, m). n)") (auto simp: FLASH_BUFSIZE_def split: if_splits)

declare bm_write_loop.simps [simp del] bm_read_loop.simps [simp del]

definition bm_utilsFlashRead :: "chip \<Rightarrow> nat \<Rightarrow> nat \<Rightarrow> flashmem \<Rightarrow> nat \<times> bytes" where
  "bm_utilsFlashRead c aAddress aSize mem = (aSize, bm_read_loop c (aAddress + DATA_FLASH_BASE c) aSize mem)"

definition bm_utilsFlashErasePage :: "chip \<Rightarrow> fmc \<Rightarrow> nat \<Rightarrow> flashmem \<Rightarrow> ca_error \<times> flashmem" where
  "bm_utilsFlashErasePage c f aAddress mem = BSP_FlashErase c f (DATA_FLASH_BASE c + aAddress) mem"

text \<open>What the vendor documents of its two functions, and a layout like the board's.\<close>

definition fmc_ok :: "chip \<Rightarrow> fmc \<Rightarrow> bool" where
  "fmc_ok c f \<longleftrightarrow>
     (\<forall>a w. FMC_Write f a w = flash_write a (PUTLE32 w [0, 0, 0, 0])) \<and>
     (\<forall>a mem. FMC_FLASH_PAGE_SIZE c dvd a \<longrightarrow> FMC_Erase f a mem = (0, flash_erase (FMC_FLASH_PAGE_SIZE c) a mem))"

definition chip_ok :: "chip \<Rightarrow> nat \<Rightarrow> bool" where
  "chip_ok c len \<longleftrightarrow> FMC_FLASH_PAGE_SIZE c > 0 \<and> 4 dvd FMC_FLASH_PAGE_SIZE c \<and>
     FMC_FLASH_PAGE_SIZE c dvd DATA_FLASH_BASE c \<and> 4 dvd len \<and> DATA_FLASH_BASE c + len < FMC_APROM_END c"

lemma fmc_word:
  assumes "4 \<le> length d"
  shows "PUTLE32 (GETLE32 d) [0, 0, 0, 0] = take 4 d"
proof -
  obtain b0 b1 b2 b3 r where d: "d = b0 # b1 # b2 # b3 # r"
    using assms by (auto simp: numeral_eq_Suc Suc_le_length_iff)
  have m: "(0xff :: u32) = mask 8"
    by (simp add: mask_eq_exp_minus_1)
  show ?thesis
    unfolding d PUTLE32_def GETLE32_or m
    by (auto simp: bit_eq_iff bit_simps dest: bit_imp_le_length)
qed

lemma fmc_words:
  assumes "fmc_ok c f"
  shows "4 * n \<le> length data \<Longrightarrow>
    fold (\<lambda>i. FMC_Write f (a + 4 * i) (GETLE32 (drop (4 * i) data))) [0..<n] mem = flash_write a (take (4 * n) data) mem"
proof (induction n)
  case (Suc n)
  then have "fold (\<lambda>i. FMC_Write f (a + 4 * i) (GETLE32 (drop (4 * i) data))) [0..<Suc n] mem
      = flash_write (a + 4 * n) (take 4 (drop (4 * n) data)) (flash_write a (take (4 * n) data) mem)"
    using assms by (simp add: fmc_ok_def fmc_word)
  also have "\<dots> = flash_write a (take (4 * n) data @ take 4 (drop (4 * n) data)) mem"
    using Suc.prems by (simp add: flash_write_append min_def)
  also have "take (4 * n) data @ take 4 (drop (4 * n) data) = take (4 * Suc n) data"
    by (metis add.commute mult_Suc_right take_add)
  finally show ?case .
qed simp

lemma valid_flash_addr:
  "chip_ok c len \<Longrightarrow> 4 dvd a \<Longrightarrow> a \<le> len \<Longrightarrow> isValidFlashAddr c (a + DATA_FLASH_BASE c)"
  unfolding chip_ok_def isValidFlashAddr_def
  by (metis (no_types, lifting) add_le_mono1 dvd_add dvd_eq_mod_eq_0 dvd_trans le_add2 le_trans linorder_not_le add.commute)

lemma word_fit: "4 dvd a \<Longrightarrow> 4 dvd len \<Longrightarrow> a + n \<le> len \<Longrightarrow> k \<le> n \<Longrightarrow> a + 4 * ((k + 3) div 4) \<le> (len :: nat)"
proof (elim dvdE)
  fix a' l' assume "a = 4 * a'" "len = 4 * l'" "a + n \<le> len" "k \<le> n"
  then have "k \<le> 4 * (l' - a')" "a' \<le> l'"
    by auto
  then have "(k + 3) div 4 \<le> l' - a'"
    by linarith
  with \<open>a' \<le> l'\<close> \<open>a = 4 * a'\<close> \<open>len = 4 * l'\<close> show "a + 4 * ((k + 3) div 4) \<le> len"
    by simp
qed

lemma bm_write_step:
  assumes "aData \<noteq> []" "k = min 16 (length aData)"
    and "BSP_FlashWriteInitial c f a (take k aData @ replicate (16 - k) 0xFF) ((k + 3) div 4 * 4) mem = (e, mem')"
  shows "bm_write_loop c f a aData mem = bm_write_loop c f (a + k) (drop k aData) mem'"
proof -
  have "(if length aData > FLASH_BUFSIZE * 4 then FLASH_BUFSIZE * 4 else length aData) = k"
    "FLASH_BUFSIZE * 4 = 16" "(k + 4 - 1) div 4 * 4 = (k + 3) div 4 * 4"
    using assms(2) by (auto simp: FLASH_BUFSIZE_def)
  then show ?thesis
    using assms(1,3) by (subst bm_write_loop.simps) (simp only: Let_def if_False prod.case)
qed

lemma bm_write_loop_eq:
  assumes "fmc_ok c f" "chip_ok c len"
  shows "4 dvd a \<Longrightarrow> a + length bs \<le> len \<Longrightarrow>
    bm_write_loop c f (a + DATA_FLASH_BASE c) bs mem = flash_write (a + DATA_FLASH_BASE c) bs mem"
proof (induction "length bs" arbitrary: a bs mem rule: less_induct)
  case less
  show ?case
  proof (cases "bs = []")
    case True
    then show ?thesis by (simp add: bm_write_loop.simps)
  next
    case False
    define k where "k = min 16 (length bs)"
    let ?w = "(k + 3) div 4"
    let ?buf = "take k bs @ replicate (16 - k) 0xFF"
    have k: "0 < k" "k \<le> 16" "k \<le> length bs" "4 * ?w \<le> 16" "k \<le> 4 * ?w"
      using False by (auto simp: k_def)
    have fit: "a + 4 * ?w \<le> len"
      by (rule word_fit [of a len "length bs"]) (use assms(2) less.prems k in \<open>auto simp: chip_ok_def\<close>)
    have "isValidFlashAddr c (a + DATA_FLASH_BASE c)" "isValidFlashAddr c (a + DATA_FLASH_BASE c + 4 * ?w)"
      using valid_flash_addr [OF assms(2), of a] valid_flash_addr [OF assms(2), of "a + 4 * ?w"] less.prems fit
      by (simp_all add: ac_simps)
    then have "BSP_FlashWriteInitial c f (a + DATA_FLASH_BASE c) ?buf (4 * ?w) mem
        = (CA_ERROR_SUCCESS, flash_write (a + DATA_FLASH_BASE c) (take (4 * ?w) ?buf) mem)"
      using fmc_words [OF assms(1), of ?w ?buf "a + DATA_FLASH_BASE c" mem] k
      by (simp add: BSP_FlashWriteInitial_def)
    also have "take (4 * ?w) ?buf = take k bs @ replicate (4 * ?w - k) 0xFF"
      using k by simp
    finally have w: "BSP_FlashWriteInitial c f (a + DATA_FLASH_BASE c) ?buf (4 * ?w) mem
        = (CA_ERROR_SUCCESS, flash_write (a + DATA_FLASH_BASE c) (take k bs) mem)"
      by (simp add: flash_write_pad)
    have len: "(if 16 < length bs then 16 else length bs) = k"
      by (simp add: k_def)
    have "bm_write_loop c f (a + DATA_FLASH_BASE c) bs mem
        = bm_write_loop c f (a + k + DATA_FLASH_BASE c) (drop k bs) (flash_write (a + DATA_FLASH_BASE c) (take k bs) mem)"
      using bm_write_step [OF False k_def, of c f "a + DATA_FLASH_BASE c" mem] w
      by (simp only: mult.commute [of _ 4] add.assoc add.commute [of k])
    also have "\<dots> = flash_write (a + k + DATA_FLASH_BASE c) (drop k bs) (flash_write (a + DATA_FLASH_BASE c) (take k bs) mem)"
    proof (cases "drop k bs = []")
      case True
      then show ?thesis by (simp add: bm_write_loop.simps)
    next
      case False
      then have "k = 16"
        by (auto simp: k_def)
      then show ?thesis
        using less.prems k by (intro less.hyps) auto
    qed
    also have "\<dots> = flash_write (a + DATA_FLASH_BASE c) bs mem"
      using flash_write_append [of "a + DATA_FLASH_BASE c" "take k bs" "drop k bs" mem] k
      by (simp add: ac_simps)
    finally show ?thesis .
  qed
qed

lemma bm_read_step:
  assumes "n \<noteq> 0" "k = min 16 n" "BSP_FlashRead c a ((k + 3) div 4) mem = (CA_ERROR_SUCCESS, Some d)" "k \<le> length d"
  shows "bm_read_loop c a n mem = take k d @ bm_read_loop c (a + k) (n - k) mem"
proof -
  have "(if n > FLASH_BUFSIZE * 4 then FLASH_BUFSIZE * 4 else n) = k" "FLASH_BUFSIZE * 4 = 16"
    using assms(2) by (auto simp: FLASH_BUFSIZE_def)
  then show ?thesis
    using assms(1,3,4) by (subst bm_read_loop.simps) (simp only: Let_def if_False prod.case option.case, simp)
qed

lemma take_flash_read: "k \<le> n \<Longrightarrow> take k (flash_read mem a n) = flash_read mem a k"
  by (intro nth_equalityI) simp_all

lemma flash_read_split: "flash_read mem a (m + n) = flash_read mem a m @ flash_read mem (a + m) n"
  by (intro nth_equalityI) (auto simp: nth_append)

lemma bm_read_loop_eq:
  assumes "chip_ok c len"
  shows "4 dvd a \<Longrightarrow> a + n \<le> len \<Longrightarrow>
    bm_read_loop c (a + DATA_FLASH_BASE c) n mem = flash_read mem (a + DATA_FLASH_BASE c) n"
proof (induction n arbitrary: a rule: less_induct)
  case (less n)
  show ?case
  proof (cases "n = 0")
    case True
    then show ?thesis by (simp add: bm_read_loop.simps flash_read_def)
  next
    case False
    define k where "k = min 16 n"
    have k: "0 < k" "k \<le> 16" "k \<le> n" "k \<le> 4 * ((k + 3) div 4)"
      using False by (auto simp: k_def)
    have fit: "a + 4 * ((k + 3) div 4) \<le> len"
      by (rule word_fit [of a len n]) (use assms less.prems k in \<open>auto simp: chip_ok_def\<close>)
    have "isValidFlashAddr c (a + DATA_FLASH_BASE c)" "isValidFlashAddr c (a + DATA_FLASH_BASE c + (k + 3) div 4 * 4)"
      using valid_flash_addr [OF assms, of a] valid_flash_addr [OF assms, of "a + 4 * ((k + 3) div 4)"] less.prems fit
      by (simp_all add: ac_simps)
    then have "bm_read_loop c (a + DATA_FLASH_BASE c) n mem
        = flash_read mem (a + DATA_FLASH_BASE c) k @ bm_read_loop c (a + DATA_FLASH_BASE c + k) (n - k) mem"
      using bm_read_step [OF False k_def, of c "a + DATA_FLASH_BASE c" mem] k
      by (simp add: BSP_FlashRead_def take_flash_read mult.commute)
    also have "bm_read_loop c (a + DATA_FLASH_BASE c + k) (n - k) mem = flash_read mem (a + DATA_FLASH_BASE c + k) (n - k)"
    proof (cases "n = k")
      case True
      then show ?thesis by (simp add: bm_read_loop.simps flash_read_def)
    next
      case False
      then have "k = 16"
        by (auto simp: k_def)
      then have "bm_read_loop c (a + 16 + DATA_FLASH_BASE c) (n - 16) mem = flash_read mem (a + 16 + DATA_FLASH_BASE c) (n - 16)"
        using less.prems k by (intro less.IH) auto
      with \<open>k = 16\<close> show ?thesis
        by (simp add: ac_simps)
    qed
    finally show ?thesis
      using k flash_read_split [of mem "a + DATA_FLASH_BASE c" k "n - k"] by simp
  qed
qed

text \<open>The driver's state: the board, its controller and the chip's memory.\<close>

record bm_flash =
  bchip :: chip
  bfmc :: fmc
  bmem :: flashmem

definition bm_ready :: "nat \<Rightarrow> nat \<Rightarrow> bm_flash \<Rightarrow> bool" where
  "bm_ready len page s \<longleftrightarrow> fmc_ok (bchip s) (bfmc s) \<and> chip_ok (bchip s) len \<and> FMC_FLASH_PAGE_SIZE (bchip s) = page"

definition bm_view :: "bm_flash \<Rightarrow> flashmem" where
  "bm_view s = (\<lambda>i. bmem s (i + DATA_FLASH_BASE (bchip s)))"

definition bm_rd :: "nat \<Rightarrow> nat \<Rightarrow> bm_flash \<Rightarrow> nat \<times> bytes" where
  "bm_rd a n s = bm_utilsFlashRead (bchip s) a n (bmem s)"

definition bm_wr :: "nat \<Rightarrow> bytes \<Rightarrow> bm_flash \<Rightarrow> nat \<times> bm_flash" where
  "bm_wr a bs s = (case bm_utilsFlashWrite (bchip s) (bfmc s) a bs (bmem s) of (n, m) \<Rightarrow> (n, s\<lparr>bmem := m\<rparr>))"

definition bm_er :: "nat \<Rightarrow> bm_flash \<Rightarrow> ca_error \<times> bm_flash" where
  "bm_er a s = (case bm_utilsFlashErasePage (bchip s) (bfmc s) a (bmem s) of (e, m) \<Rightarrow> (e, s\<lparr>bmem := m\<rparr>))"

lemma flash_read_shift: "flash_read (\<lambda>j. m (j + b)) a n = flash_read m (a + b) n"
  by (intro nth_equalityI) (simp_all add: add_ac)

lemma flash_write_shift: "flash_write (a + b) bs m (i + b) = flash_write a bs (\<lambda>j. m (j + b)) i"
  by (simp add: flash_write_def)

lemma flash_erase_shift: "p dvd b \<Longrightarrow> 0 < p \<Longrightarrow> flash_erase p (a + b) m (i + b) = flash_erase p a (\<lambda>j. m (j + b)) i"
  by (auto simp: flash_erase_def elim!: dvdE)

lemma bm_er_eq:
  assumes "fmc_ok c f" "chip_ok c len" "4 dvd a" "a < len"
  shows "bm_utilsFlashErasePage c f a mem = (CA_ERROR_SUCCESS, flash_erase (FMC_FLASH_PAGE_SIZE c) (a + DATA_FLASH_BASE c) mem)"
proof -
  let ?p = "FMC_FLASH_PAGE_SIZE c"
  have "isValidFlashAddr c (a + DATA_FLASH_BASE c)" "0 < ?p"
    using valid_flash_addr [OF assms(2,3)] assms(2,4) by (simp_all add: chip_ok_def)
  moreover have "flash_erase ?p (?p * ((a + DATA_FLASH_BASE c) div ?p)) mem = flash_erase ?p (a + DATA_FLASH_BASE c) mem"
    using \<open>0 < ?p\<close> by (simp add: flash_erase_def)
  ultimately show ?thesis
    using assms(1) by (simp add: bm_utilsFlashErasePage_def BSP_FlashErase_def fmc_ok_def add.commute)
qed

interpretation bm: nor_flash bm_rd bm_wr bm_er bm_view "bm_ready len page" len page 4 for len page
proof unfold_locales
  fix s a n assume "bm_ready len page s" "4 dvd a" "a + n \<le> len"
  then show "bm_rd a n s = (n, flash_read (bm_view s) a n)"
    by (simp add: bm_rd_def bm_utilsFlashRead_def bm_ready_def bm_read_loop_eq [of _ len] bm_view_def flash_read_shift)
next
  fix s a and bs :: bytes assume "bm_ready len page s" "4 dvd a" "a + length bs \<le> len"
  then show "fst (bm_wr a bs s) = length bs \<and> bm_ready len page (snd (bm_wr a bs s)) \<and>
      (\<forall>i < len. bm_view (snd (bm_wr a bs s)) i = flash_write a bs (bm_view s) i)"
    by (simp add: bm_wr_def bm_utilsFlashWrite_def bm_ready_def bm_write_loop_eq [of _ _ len] bm_view_def
        flash_write_shift)
next
  fix s a assume "bm_ready len page s" "4 dvd a" "a < len"
  moreover from this have "page dvd DATA_FLASH_BASE (bchip s)" "0 < page"
    by (auto simp: bm_ready_def chip_ok_def)
  ultimately show "fst (bm_er a s) = CA_ERROR_SUCCESS \<and> bm_ready len page (snd (bm_er a s)) \<and>
      (\<forall>i < len. bm_view (snd (bm_er a s)) i = flash_erase page a (bm_view s) i)"
    by (simp add: bm_er_def bm_ready_def bm_er_eq [of _ _ len] bm_view_def flash_erase_shift)
qed

subsection \<open>What the drivers guarantee\<close>

text \<open>
  C37: On the bare-metal driver, data written word-aligned over erased flash reads back, whatever
  its length, although the driver moves it in padded chunks of sixteen bytes through the flash
  controller; and no write sets a bit.
\<close>

theorem bm_flash_read_back:
  assumes "bm_ready len page s" "4 dvd a" "a + length bs \<le> len"
    and "\<And>i. i < length bs \<Longrightarrow> bmem s (a + i + DATA_FLASH_BASE (bchip s)) = 0xFF"
  shows "bm_rd a (length bs) (snd (bm_wr a bs s)) = (length bs, bs)
     \<and> (\<forall>i < len. \<forall>k. bit (bm_view (snd (bm_wr a bs s)) i) k \<longrightarrow> bit (bm_view s i) k)"
  using bm.read_back [OF assms(1-3)] bm.only_clears [OF assms(1-3)] assms(4) by (auto simp: bm_view_def)

definition demo_board :: bm_flash where
  "demo_board = \<lparr>bchip = \<lparr>DATA_FLASH_BASE = 4096, FMC_APROM_END = 10240, FMC_LDROM_BASE = 0,
       FMC_LDROM_END = 0, FMC_FLASH_PAGE_SIZE = 2048\<rparr>,
     bfmc = \<lparr>FMC_Write = (\<lambda>a w. flash_write a (PUTLE32 w [0, 0, 0, 0])), FMC_Erase = (\<lambda>a m. (0, flash_erase 2048 a m))\<rparr>,
     bmem = (\<lambda>_. 0xFF)\<rparr>"

lemma demo_board_ready: "bm_ready 4096 2048 demo_board"
  by (simp add: bm_ready_def fmc_ok_def chip_ok_def demo_board_def)

theorem bm_flash_read_back_witness:
  "bm_rd 8 (length [1, 2, 3 :: u8]) (snd (bm_wr 8 [1, 2, 3] demo_board)) = (length [1, 2, 3 :: u8], [1, 2, 3])"
  using bm_flash_read_back [OF demo_board_ready, of 8 "[1, 2, 3]"]
  by (simp add: demo_board_def)

text \<open>
  The bare-metal driver drops a write to an address that is not word aligned without a sign:
  the memory does not change and the call reports that every byte was written.
\<close>

theorem bm_flash_unaligned_lost:
  assumes "(a + DATA_FLASH_BASE c) mod 4 \<noteq> 0" "length bs \<le> 16"
  shows "bm_utilsFlashWrite c f a bs mem = (length bs, mem)"
proof (cases "bs = []")
  case False
  have "BSP_FlashWriteInitial c f (a + DATA_FLASH_BASE c) buf n mem = (CA_ERROR_INVALID_ARGS, mem)" for buf n
    using assms(1) by (simp add: BSP_FlashWriteInitial_def isValidFlashAddr_def)
  from bm_write_step [OF False refl this] assms(2) show ?thesis
    by (simp add: bm_utilsFlashWrite_def bm_write_loop.simps)
qed (simp add: bm_utilsFlashWrite_def bm_write_loop.simps)

theorem bm_flash_unaligned_lost_witness:
  "bm_utilsFlashWrite (bchip demo_board) (bfmc demo_board) 6 [0, 0] (\<lambda>_. 0xFF) = (length [0, 0 :: u8], \<lambda>_. 0xFF)"
  using bm_flash_unaligned_lost [of 6 "bchip demo_board" "[0, 0]" "bfmc demo_board" "\<lambda>_. 0xFF"]
  by (simp add: demo_board_def)

text \<open>
  Writing data over erased storage on the host reads back, a second area keeps what it held,
  and the pages of a file that was just created are \<^emph>\<open>not\<close> all erased: the loop that should erase
  every page stops after the first, so the new file is one page long.
\<close>

theorem posix_flash_write_and_create:
  assumes "posix_ready s" "a + length bs \<le> FLASH_SIZE" "\<And>i. i < length bs \<Longrightarrow> contents s ! (a + i) = 0xFF"
    and "b + n \<le> FLASH_SIZE" "b + n \<le> a \<or> a + length bs \<le> b" and "0 \<le> fd"
  shows "posix_utilsFlashRead a (length bs) (snd (posix_utilsFlashWrite a bs s)) = (length bs, bs)
     \<and> posix_utilsFlashRead b n (snd (posix_utilsFlashWrite a bs s)) = posix_utilsFlashRead b n s
     \<and> posix_utilsFlashInit None fd
         = (CA_ERROR_SUCCESS, \<lparr>flash_fd = fd, contents = replicate FLASH_PAGE_SIZE 0xFF\<rparr>)"
proof -
  have "[0..<FLASH_PAGE_NUM] = 0 # [1..<FLASH_PAGE_NUM]"
    by (simp add: posix_flash_defs upt_conv_Cons)
  moreover have "posix_utilsFlashErasePage 0 \<lparr>flash_fd = fd, contents = []\<rparr>
      = (CA_ERROR_SUCCESS, \<lparr>flash_fd = fd, contents = replicate FLASH_PAGE_SIZE 0xFF\<rparr>)"
    using assms(6) by (simp add: posix_utilsFlashErasePage_def file_write_def FLASH_SIZE_def)
  ultimately have "posix_utilsFlashInit None fd
      = (CA_ERROR_SUCCESS, \<lparr>flash_fd = fd, contents = replicate FLASH_PAGE_SIZE 0xFF\<rparr>)"
    using assms(6) by (simp add: posix_utilsFlashInit_def)
  then show ?thesis
    using posix.read_back [OF assms(1) _ assms(2)] posix.read_elsewhere [OF assms(1) _ assms(2) _ assms(4,5)] assms(3)
    by (simp add: posix_view_def)
qed

theorem posix_flash_write_and_create_witness:
  "posix_utilsFlashRead 4 (length [1, 2 :: u8])
     (snd (posix_utilsFlashWrite 4 [1, 2] \<lparr>flash_fd = 3, contents = replicate FLASH_SIZE 0xFF\<rparr>)) = (length [1, 2 :: u8], [1, 2])
   \<and> length (contents (snd (posix_utilsFlashInit None 3))) = 2048"
  using posix_flash_write_and_create [of "\<lparr>flash_fd = 3, contents = replicate FLASH_SIZE 0xFF\<rparr>" 4 "[1, 2]" 0 0 3]
  by (simp add: posix_ready_def posix_flash_defs)

end
