(* ===== verification/Settings.thy ===== *)
theory Settings
  imports Flash
begin

text \<open>
  The non-volatile settings store, \<^verbatim>\<open>cascoda-util/src/cascoda_settings.c\<close>: key-value records
  appended to a log in one half of the flash, and copied to the other half when it is full. This
  theory holds the code's operations over the memory that \<open>nor_flash\<close> promises; \<open>SettingsLog\<close>
  relates the memory to a list of records and the records to the values of each key.

  Addresses and sizes are naturals: flash areas are far below the range of \<^verbatim>\<open>uint32_t\<close>, and the one
  subtraction that could wrap is written with its modulus. 16-bit quantities keep their width.
\<close>

unbundle bit_operations_syntax

subsection \<open>State\<close>

text \<open>The two fields of \<^verbatim>\<open>struct ca_flash_info\<close> the store uses.\<close>

record geometry =
  numPages :: u8
  pageSize :: u16

text \<open>The flash, and the two variables kept behind \<^verbatim>\<open>utilsFlashSet...\<close> for each device.\<close>

record store =
  fmem :: flashmem
  base_address :: nat
  used_size :: nat

record settingsBlock =
  key :: u16
  flag :: u16
  blength :: u16
  reserved :: u16

definition kBlockAddBeginFlag :: u16 where "kBlockAddBeginFlag = 0x1"
definition kBlockAddCompleteFlag :: u16 where "kBlockAddCompleteFlag = 0x02"
definition kBlockDeleteFlag :: u16 where "kBlockDeleteFlag = 0x04"
definition kBlockIndex0Flag :: u16 where "kBlockIndex0Flag = 0x08"

definition kSettingsFlagSize :: nat where "kSettingsFlagSize = 4"
definition kSettingsInSwap :: u32 where "kSettingsInSwap = 0xbe5cc5ef"
definition kSettingsInUse :: u32 where "kSettingsInUse = 0xbe5cc5ee"
definition kSettingsNotUse :: u32 where "kSettingsNotUse = 0xbe5cc5ec"

definition SETTINGS_CONFIG_BASE_ADDRESS :: nat where "SETTINGS_CONFIG_BASE_ADDRESS = 0"

text \<open>The packed little-endian layout of a record header; its size is eight bytes.\<close>

definition block_bytes :: "settingsBlock \<Rightarrow> bytes" where
  "block_bytes b = PUTLE16 (key b) [0, 0] @ PUTLE16 (flag b) [0, 0] @ PUTLE16 (blength b) [0, 0] @ PUTLE16 (reserved b) [0, 0]"

definition bytes_block :: "bytes \<Rightarrow> settingsBlock" where
  "bytes_block d = \<lparr>key = GETLE16 d, flag = GETLE16 (drop 2 d), blength = GETLE16 (drop 4 d), reserved = GETLE16 (drop 6 d)\<rparr>"

definition sizeof_settingsBlock :: nat where "sizeof_settingsBlock = 8"

definition read_block :: "flashmem \<Rightarrow> nat \<Rightarrow> settingsBlock" where
  "read_block mem a = bytes_block (flash_read mem a sizeof_settingsBlock)"

definition read_flag :: "flashmem \<Rightarrow> nat \<Rightarrow> u32" where
  "read_flag mem a = GETLE32 (flash_read mem a kSettingsFlagSize)"

definition getAlignLength :: "u16 \<Rightarrow> u16" where
  "getAlignLength len = (len + 3) AND 0xfffc"

abbreviation alignLength :: "settingsBlock \<Rightarrow> nat" where
  "alignLength b \<equiv> unat (getAlignLength (blength b))"

definition settingsSize :: "geometry \<Rightarrow> nat" where
  "settingsSize g = (if numPages g > 1 then (unat (pageSize g) * unat (numPages g)) div 2 else unat (pageSize g))"

definition write_at :: "nat \<Rightarrow> bytes \<Rightarrow> store \<Rightarrow> store" where
  "write_at a bs s = s\<lparr>fmem := flash_write a bs (fmem s)\<rparr>"

subsection \<open>Areas\<close>

definition setSettingsFlag :: "nat \<Rightarrow> u32 \<Rightarrow> store \<Rightarrow> store" where
  "setSettingsFlag aBase aFlag s = write_at aBase (PUTLE32 aFlag [0, 0, 0, 0]) s"

text \<open>
  The erase loop of \<^verbatim>\<open>initSettings\<close>. A page size of zero makes the area empty and the loop is not
  entered; the second conjunct only lets the definition see that.
\<close>

function erase_loop :: "nat \<Rightarrow> nat \<Rightarrow> nat \<Rightarrow> flashmem \<Rightarrow> flashmem" where
  "erase_loop page limit address mem =
     (if address < limit \<and> 0 < page then erase_loop page limit (address + page) (flash_erase page address mem) else mem)"
  by auto
termination
  by (relation "measure (\<lambda>(page, limit, address, mem). limit - address)") auto

definition initSettings :: "geometry \<Rightarrow> nat \<Rightarrow> u32 \<Rightarrow> store \<Rightarrow> store" where
  "initSettings g aBase aFlag s =
     setSettingsFlag aBase aFlag
       (s\<lparr>fmem := erase_loop (unat (pageSize g)) (aBase + settingsSize g) aBase (fmem s)\<rparr>)"

text \<open>
  The inner loop of \<^verbatim>\<open>swapSettingsBlock\<close>: whether a complete, undeleted record with the index-0
  flag and the given key follows.
\<close>

definition block_live :: "settingsBlock \<Rightarrow> bool" where
  "block_live b \<longleftrightarrow> flag b AND kBlockAddCompleteFlag = 0 \<and> flag b AND kBlockDeleteFlag \<noteq> 0"

definition block_index0 :: "settingsBlock \<Rightarrow> bool" where
  "block_index0 b \<longleftrightarrow> flag b AND kBlockIndex0Flag = 0"

function superseded :: "flashmem \<Rightarrow> u16 \<Rightarrow> nat \<Rightarrow> nat \<Rightarrow> bool" where
  "superseded mem k limit address =
     (if address < limit then
        let block = read_block mem address
        in if block_live block \<and> block_index0 block \<and> key block = k then True
           else superseded mem k limit (address + (alignLength block + sizeof_settingsBlock))
      else False)"
  by auto
termination
  by (relation "measure (\<lambda>(mem, k, limit, address). limit - address)") (auto simp: sizeof_settingsBlock_def)

text \<open>
  The copy loop. Its 16-bit counter starts behind the header; a run that never ends, which a
  wrapping counter makes possible, is \<open>None\<close>.
\<close>

definition kCopyBufferSize :: u16 where "kCopyBufferSize = 256"

partial_function (option) copy_loop :: "nat \<Rightarrow> settingsBlock \<Rightarrow> u16 \<Rightarrow> store \<Rightarrow> store option" where
  "copy_loop start_address new_block bytes_copied_so_far s =
     (if bytes_copied_so_far < getAlignLength (blength new_block) then
        let remaining_bytes = getAlignLength (blength new_block) - bytes_copied_so_far + 8;
            amount_to_copy = (if kCopyBufferSize > remaining_bytes then remaining_bytes else kCopyBufferSize);
            copy_buffer = flash_read (fmem s) (start_address + unat bytes_copied_so_far) (unat amount_to_copy)
        in copy_loop start_address new_block (bytes_copied_so_far + amount_to_copy)
             (write_at (base_address s + used_size s + unat bytes_copied_so_far) copy_buffer s)
      else Some s)"

definition copy_block :: "nat \<Rightarrow> settingsBlock \<Rightarrow> store \<Rightarrow> store option" where
  "copy_block swapAddress new_block s =
     (case copy_loop (swapAddress - sizeof_settingsBlock) new_block 8
             (write_at (base_address s + used_size s) (block_bytes new_block) s) of
        None \<Rightarrow> None
      | Some s' \<Rightarrow> Some (s'\<lparr>used_size := used_size s' + (sizeof_settingsBlock + alignLength new_block)\<rparr>))"

text \<open>The outer loop; \<open>limit\<close> is the end of the used part of the old area.\<close>

partial_function (option) swap_loop :: "nat \<Rightarrow> nat \<Rightarrow> store \<Rightarrow> store option" where
  "swap_loop limit swapAddress s =
     (if swapAddress < limit then
        let new_block = read_block (fmem s) swapAddress;
            swapAddress1 = swapAddress + sizeof_settingsBlock;
            next = swapAddress1 + alignLength new_block
        in if block_live new_block then
             (if superseded (fmem s) (key new_block) limit next then swap_loop limit next s
              else case copy_block swapAddress1 new_block s of None \<Rightarrow> None | Some s' \<Rightarrow> swap_loop limit next s')
           else if flag new_block = 0xff then Some s
           else swap_loop limit next s
      else Some s)"

definition swapSettingsBlock :: "geometry \<Rightarrow> store \<Rightarrow> (nat \<times> store) option" where
  "swapSettingsBlock g s =
     (let oldBase = base_address s; usedSize = used_size s
      in if \<not> numPages g > 1 then Some ((settingsSize g + 2 ^ 32 - used_size s) mod 2 ^ 32, s)
         else
           let newBase = (if oldBase = SETTINGS_CONFIG_BASE_ADDRESS then oldBase + settingsSize g
                          else SETTINGS_CONFIG_BASE_ADDRESS);
               s1 = (initSettings g newBase kSettingsInSwap (s\<lparr>base_address := newBase\<rparr>))\<lparr>used_size := kSettingsFlagSize\<rparr>
           in case swap_loop (oldBase + usedSize) (oldBase + kSettingsFlagSize) s1 of
                None \<Rightarrow> None
              | Some s2 \<Rightarrow>
                  let s3 = setSettingsFlag oldBase kSettingsNotUse (setSettingsFlag (base_address s2) kSettingsInUse s2)
                  in Some ((settingsSize g + 2 ^ 32 - used_size s3) mod 2 ^ 32, s3))"

subsection \<open>Adding a record\<close>

text \<open>A \<^verbatim>\<open>struct settingBuffer\<close> is the list of the bytes it points to, at most 65535 of them.\<close>

type_synonym settingBuffer = bytes

definition vector_length :: "settingBuffer list \<Rightarrow> u16" where
  "vector_length aSetting = fold (\<lambda>v total_length. total_length + word_of_nat (length v)) aSetting 0"

text \<open>
  The loop that writes the buffers one after the other. The first word of each is padded with
  \<open>0xff\<close> in front, up to the word boundary, and behind when the buffer ends within it.
\<close>

primrec write_vector :: "settingBuffer list \<Rightarrow> nat \<Rightarrow> store \<Rightarrow> store" where
  "write_vector [] write_address s = s"
| "write_vector (v # vs) write_address s =
     (let headPadCount = write_address mod 4;
          headDataCount = min (4 - headPadCount) (length v);
          headPad = replicate headPadCount 0xff @ take headDataCount v
                    @ replicate (4 - headPadCount - headDataCount) 0xff;
          address1 = write_address - headPadCount;
          address2 = address1 + 4
      in write_vector vs (address2 + (length v - headDataCount))
           (write_at address2 (drop headDataCount v) (write_at address1 headPad s)))"

definition new_block :: "u16 \<Rightarrow> bool \<Rightarrow> u16 \<Rightarrow> u16 \<Rightarrow> settingsBlock" where
  "new_block aKey aIndex0 total_length stack =
     \<lparr>key = aKey,
      flag = (let f = 0xff; f1 = (if aIndex0 then f AND NOT kBlockIndex0Flag else f) in f1 AND NOT kBlockAddBeginFlag),
      blength = total_length, reserved = stack\<rparr>"

text \<open>
  The three steps of a write, between which power may fail: the header, the data, and the header
  again with the completion flag. \<open>stack\<close> is the unset field \<^verbatim>\<open>reserved\<close> of the header.
\<close>

definition add_begin :: "settingsBlock \<Rightarrow> store \<Rightarrow> store" where
  "add_begin block s = write_at (base_address s + used_size s) (block_bytes block) s"

definition add_data :: "settingBuffer list \<Rightarrow> store \<Rightarrow> store" where
  "add_data aSetting s = write_vector aSetting (base_address s + used_size s + sizeof_settingsBlock) s"

definition add_complete :: "settingsBlock \<Rightarrow> store \<Rightarrow> store" where
  "add_complete block s =
     (let block' = block\<lparr>flag := flag block AND NOT kBlockAddCompleteFlag\<rparr>;
          s1 = write_at (base_address s + used_size s) (block_bytes block') s
      in s1\<lparr>used_size := used_size s1 + (sizeof_settingsBlock + alignLength block')\<rparr>)"

definition addSettingVector ::
  "geometry \<Rightarrow> u16 \<Rightarrow> u16 \<Rightarrow> bool \<Rightarrow> settingBuffer list \<Rightarrow> store \<Rightarrow> (ca_error \<times> store) option" where
  "addSettingVector g stack aKey aIndex0 aSetting s =
     (let block = new_block aKey aIndex0 (vector_length aSetting) stack;
          need = alignLength block + sizeof_settingsBlock;
          write = (\<lambda>s. (CA_ERROR_SUCCESS, add_complete block (add_data aSetting (add_begin block s))))
      in if used_size s + need \<ge> settingsSize g
         then (case swapSettingsBlock g s of
                 None \<Rightarrow> None
               | Some (left, s1) \<Rightarrow> Some (if left \<ge> need then write s1 else (CA_ERROR_NO_BUFFER, s1)))
         else Some (write s))"

subsection \<open>Start-up\<close>

definition init_base :: "geometry \<Rightarrow> store \<Rightarrow> store" where
  "init_base g s =
     (let b0 = SETTINGS_CONFIG_BASE_ADDRESS + settingsSize g * 0; b1 = b0 + settingsSize g * 1
      in if read_flag (fmem s) b0 = kSettingsInUse then s\<lparr>base_address := b0\<rparr>
         else if read_flag (fmem s) b1 = kSettingsInUse then s\<lparr>base_address := b1\<rparr>
         else initSettings g b1 kSettingsInUse (s\<lparr>base_address := b1\<rparr>))"

function init_scan :: "geometry \<Rightarrow> flashmem \<Rightarrow> nat \<Rightarrow> nat \<Rightarrow> nat" where
  "init_scan g mem base used =
     (if used < settingsSize g then
        let block = read_block mem (base + used)
        in if flag block AND kBlockAddBeginFlag = 0
           then init_scan g mem base (used + (alignLength block + sizeof_settingsBlock))
           else used
      else used)"
  by auto
termination
  by (relation "measure (\<lambda>(g, mem, base, used). settingsSize g - used)") (auto simp: sizeof_settingsBlock_def)

definition caUtilSettingsInit :: "geometry \<Rightarrow> store \<Rightarrow> store" where
  "caUtilSettingsInit g s =
     (let s1 = init_base g s
      in s1\<lparr>used_size := init_scan g (fmem s1) (base_address s1) kSettingsFlagSize\<rparr>)"

definition caUtilSettingsBeginChange :: "store \<Rightarrow> ca_error \<times> store" where
  "caUtilSettingsBeginChange s = (CA_ERROR_SUCCESS, s)"

definition caUtilSettingsCommitChange :: "store \<Rightarrow> ca_error \<times> store" where
  "caUtilSettingsCommitChange s = (CA_ERROR_SUCCESS, s)"

definition caUtilSettingsAbandonChange :: "store \<Rightarrow> ca_error \<times> store" where
  "caUtilSettingsAbandonChange s = (CA_ERROR_SUCCESS, s)"

subsection \<open>Look-up\<close>

text \<open>
  The loop carries the outputs written so far: the result code and, once written, the address and
  the length.
\<close>

function relative_loop ::
  "flashmem \<Rightarrow> u16 \<Rightarrow> int \<Rightarrow> nat \<Rightarrow> nat \<Rightarrow> int \<Rightarrow> ca_error \<times> (nat \<times> u16) option \<Rightarrow> ca_error \<times> (nat \<times> u16) option" where
  "relative_loop mem aKey aIndex limit address index out =
     (if address < limit then
        let block = read_block mem address;
            next = address + (alignLength block + sizeof_settingsBlock)
        in if key block = aKey then
             let (index1, out1) = (if block_index0 block then (0, (CA_ERROR_NOT_FOUND, snd out)) else (index, out))
             in if block_live block then
                  relative_loop mem aKey aIndex limit next (index1 + 1)
                    (if index1 = aIndex
                     then (CA_ERROR_SUCCESS, Some (address + sizeof_settingsBlock, blength block))
                     else out1)
                else relative_loop mem aKey aIndex limit next index1 out1
           else relative_loop mem aKey aIndex limit next index out
      else out)"
  by auto
termination
  by (relation "measure (\<lambda>(mem, k, i, limit, address, index, out). limit - address)") (auto simp: sizeof_settingsBlock_def)

definition getRelativeAddress :: "u16 \<Rightarrow> int \<Rightarrow> store \<Rightarrow> ca_error \<times> (nat \<times> u16) option" where
  "getRelativeAddress aKey aIndex s =
     relative_loop (fmem s) aKey aIndex (base_address s + used_size s) (base_address s + kSettingsFlagSize) 0
       (CA_ERROR_NOT_FOUND, None)"

text \<open>
  \<open>hasValue\<close>: whether \<^verbatim>\<open>aValue\<close> is a pointer; \<open>valueLength\<close>: \<^verbatim>\<open>*aValueLength\<close>, if that is a
  pointer. The result has the bytes stored at \<^verbatim>\<open>aValue\<close> and the new \<^verbatim>\<open>*aValueLength\<close>.
\<close>

definition caUtilSettingsGet ::
  "u16 \<Rightarrow> int \<Rightarrow> bool \<Rightarrow> u16 option \<Rightarrow> store \<Rightarrow> ca_error \<times> bytes option \<times> u16 option" where
  "caUtilSettingsGet aKey aIndex hasValue valueLength s =
     (case getRelativeAddress aKey aIndex s of
        (CA_ERROR_SUCCESS, Some (address, readLength)) \<Rightarrow>
          (case valueLength of
             None \<Rightarrow> (CA_ERROR_SUCCESS, None, None)
           | Some n \<Rightarrow>
               if hasValue then
                 let readLength' = (if readLength > n then n else readLength)
                 in (CA_ERROR_SUCCESS, Some (flash_read (fmem s) address (unat readLength')), Some readLength')
               else (CA_ERROR_SUCCESS, None, Some readLength))
      | (error, _) \<Rightarrow> (error, None, valueLength))"

definition caUtilSettingsGetAddress :: "nat \<Rightarrow> u16 \<Rightarrow> int \<Rightarrow> store \<Rightarrow> ca_error \<times> (nat \<times> u16) option" where
  "caUtilSettingsGetAddress dataFlashBaseAddr aKey aIndex s =
     (case getRelativeAddress aKey aIndex s of
        (CA_ERROR_SUCCESS, Some (address, len)) \<Rightarrow> (CA_ERROR_SUCCESS, Some (address + dataFlashBaseAddr, len))
      | (error, _) \<Rightarrow> (error, None))"

subsection \<open>Changes\<close>

definition caUtilSettingsSet :: "geometry \<Rightarrow> u16 \<Rightarrow> u16 \<Rightarrow> bytes \<Rightarrow> store \<Rightarrow> (ca_error \<times> store) option" where
  "caUtilSettingsSet g stack aKey aValue s = addSettingVector g stack aKey True [aValue] s"

definition caUtilSettingsAddVector ::
  "geometry \<Rightarrow> u16 \<Rightarrow> u16 \<Rightarrow> settingBuffer list \<Rightarrow> store \<Rightarrow> (ca_error \<times> store) option" where
  "caUtilSettingsAddVector g stack aKey aVector s =
     (let index0 = (fst (caUtilSettingsGet aKey 0 False (Some 0) s) = CA_ERROR_NOT_FOUND)
      in addSettingVector g stack aKey index0 aVector s)"

definition caUtilSettingsAdd :: "geometry \<Rightarrow> u16 \<Rightarrow> u16 \<Rightarrow> bytes \<Rightarrow> store \<Rightarrow> (ca_error \<times> store) option" where
  "caUtilSettingsAdd g stack aKey aValue s =
     (let index0 = (fst (caUtilSettingsGet aKey 0 False (Some 0) s) = CA_ERROR_NOT_FOUND)
      in addSettingVector g stack aKey index0 [aValue] s)"

function delete_loop :: "u16 \<Rightarrow> int \<Rightarrow> nat \<Rightarrow> nat \<Rightarrow> int \<Rightarrow> ca_error \<Rightarrow> flashmem \<Rightarrow> ca_error \<times> flashmem" where
  "delete_loop aKey aIndex limit address index error mem =
     (if address < limit then
        let block = read_block mem address;
            next = address + (alignLength block + sizeof_settingsBlock)
        in if key block = aKey then
             let (index1, error1) = (if block_index0 block then (0, CA_ERROR_NOT_FOUND) else (index, error))
             in if block_live block then
                  let del = (aIndex = index1 \<or> aIndex = -1);
                      block1 = (if del then block\<lparr>flag := flag block AND NOT kBlockDeleteFlag\<rparr> else block);
                      mem1 = (if del then flash_write address (block_bytes block1) mem else mem);
                      shift = (index1 = 1 \<and> aIndex = 0);
                      block2 = (if shift then block1\<lparr>flag := flag block1 AND NOT kBlockIndex0Flag\<rparr> else block1);
                      mem2 = (if shift then flash_write address (block_bytes block2) mem1 else mem1)
                  in delete_loop aKey aIndex limit next (index1 + 1) (if del then CA_ERROR_SUCCESS else error1) mem2
                else delete_loop aKey aIndex limit next index1 error1 mem
           else delete_loop aKey aIndex limit next index error mem
      else (error, mem))"
  by auto
termination
  by (relation "measure (\<lambda>(k, i, limit, address, index, error, mem). limit - address)") (auto simp: sizeof_settingsBlock_def)

definition caUtilSettingsDelete :: "u16 \<Rightarrow> int \<Rightarrow> store \<Rightarrow> ca_error \<times> store" where
  "caUtilSettingsDelete aKey aIndex s =
     (case delete_loop aKey aIndex (base_address s + used_size s) (base_address s + kSettingsFlagSize) 0
             CA_ERROR_NOT_FOUND (fmem s) of
        (error, mem) \<Rightarrow> (error, s\<lparr>fmem := mem\<rparr>))"

definition caUtilSettingsWipe :: "geometry \<Rightarrow> store \<Rightarrow> store" where
  "caUtilSettingsWipe g s = caUtilSettingsInit g (initSettings g (base_address s) kSettingsInUse s)"

declare copy_loop.simps [code] swap_loop.simps [code]

declare erase_loop.simps [simp del] superseded.simps [simp del] init_scan.simps [simp del]
  relative_loop.simps [simp del] delete_loop.simps [simp del]

end
