(* ===== verification/SettingsLog.thy ===== *)
theory SettingsLog
  imports Settings
begin

text \<open>
  The settings store as a list of records. \<open>log_at\<close> reads an area of flash as a list of entries,
  \<open>vals\<close> gives the values that list holds for a key; the loops of \<open>Settings\<close> are functions on the
  entries, and each operation is a change of \<open>vals\<close>.
\<close>

unbundle bit_operations_syntax

subsection \<open>Headers in flash\<close>

definition block_and :: "settingsBlock \<Rightarrow> settingsBlock \<Rightarrow> settingsBlock" where
  "block_and b c = \<lparr>key = key b AND key c, flag = flag b AND flag c, blength = blength b AND blength c,
     reserved = reserved b AND reserved c\<rparr>"

definition blank_block :: settingsBlock where
  "blank_block = \<lparr>key = 0xFFFF, flag = 0xFFFF, blength = 0xFFFF, reserved = 0xFFFF\<rparr>"

lemma length_PUTLE16 [simp]: "length (PUTLE16 x out) = length out"
  by (rule le16.put_length)

lemma length_block_bytes [simp]: "length (block_bytes b) = 8"
  by (simp add: block_bytes_def)

lemma GETLE16_append: "length xs = 2 \<Longrightarrow> GETLE16 (xs @ ys) = GETLE16 xs"
  by (rule le16.get_cong) simp_all

lemma bytes_block_bytes [simp]: "bytes_block (block_bytes b) = b"
  by (simp add: bytes_block_def block_bytes_def GETLE16_append le16.get_put)

lemma GETLE16_and:
  assumes "2 \<le> length xs" "2 \<le> length ys"
  shows "GETLE16 (map2 (AND) xs ys) = GETLE16 xs AND GETLE16 ys"
proof -
  obtain a b xs' c d ys' where xs: "xs = a # b # xs'" and ys: "ys = c # d # ys'"
    using assms by (auto simp: numeral_eq_Suc Suc_le_length_iff)
  have m: "(0x00ff :: u32) = mask 8" "(0xff00 :: u32) = push_bit 8 (mask 8)"
    by (simp_all add: mask_eq_exp_minus_1)
  show ?thesis
    unfolding xs ys GETLE16_def m by (auto simp: bit_eq_iff bit_simps)
qed

lemma drop_map2: "drop n (map2 f xs ys) = map2 f (drop n xs) (drop n ys)"
  by (simp add: drop_map drop_zip)

lemma bytes_block_and:
  assumes "length xs = 8" "length ys = 8"
  shows "bytes_block (map2 (AND) xs ys) = block_and (bytes_block xs) (bytes_block ys)"
  using assms by (simp add: bytes_block_def block_and_def drop_map2 GETLE16_and)

lemma flash_read_write_same:
  "flash_read (flash_write a bs mem) a (length bs) = map2 (AND) (flash_read mem a (length bs)) bs"
  by (rule nth_equalityI) (simp_all add: flash_write_inside)

lemma read_block_write:
  "read_block (flash_write a (block_bytes c) mem) a = block_and (read_block mem a) c"
  using flash_read_write_same [of a "block_bytes c" mem]
  by (simp add: read_block_def sizeof_settingsBlock_def bytes_block_and)

lemma read_block_cong:
  "(\<And>i. a \<le> i \<Longrightarrow> i < a + 8 \<Longrightarrow> m i = m' i) \<Longrightarrow> read_block m a = read_block m' a"
  unfolding read_block_def sizeof_settingsBlock_def by (rule arg_cong [OF flash_read_eqI])

lemma read_block_blank:
  assumes "\<And>i. a \<le> i \<Longrightarrow> i < a + 8 \<Longrightarrow> mem i = 0xFF"
  shows "read_block mem a = blank_block"
proof -
  have "flash_read mem a 8 = replicate 8 0xFF"
    using assms by (intro nth_equalityI) simp_all
  then show ?thesis
    by (simp add: read_block_def sizeof_settingsBlock_def bytes_block_def blank_block_def GETLE16_def)
qed

lemma and_ffff [simp]: "(0xFFFF :: u16) AND w = w"
proof -
  have "(0xFFFF :: u16) = mask 16"
    by (simp add: mask_eq_exp_minus_1)
  then show ?thesis
    by (auto simp: bit_eq_iff bit_simps dest: bit_imp_le_length)
qed

lemma block_and_blank [simp]: "block_and blank_block b = b"
  by (simp add: block_and_def blank_block_def)

lemma block_and_flag [simp]:
  "block_and b (b\<lparr>flag := flag b AND w\<rparr>) = b\<lparr>flag := flag b AND w\<rparr>"
  by (cases b) (simp add: block_and_def and.left_commute [symmetric] flip: and.assoc)

subsection \<open>Flags and lengths\<close>

lemma flag_bits:
  "(f :: u16) AND kBlockAddBeginFlag = 0 \<longleftrightarrow> \<not> bit f 0"
  "f AND kBlockAddCompleteFlag = 0 \<longleftrightarrow> \<not> bit f 1"
  "f AND kBlockDeleteFlag = 0 \<longleftrightarrow> \<not> bit f 2"
  "f AND kBlockIndex0Flag = 0 \<longleftrightarrow> \<not> bit f 3"
  using and_exp_eq_0_iff_not_bit [of f 0] and_exp_eq_0_iff_not_bit [of f 1]
    and_exp_eq_0_iff_not_bit [of f 2] and_exp_eq_0_iff_not_bit [of f 3]
  by (simp_all add: kBlockAddBeginFlag_def kBlockAddCompleteFlag_def kBlockDeleteFlag_def kBlockIndex0Flag_def)

lemma block_live_bits: "block_live b \<longleftrightarrow> \<not> bit (flag b) 1 \<and> bit (flag b) 2"
  by (simp add: block_live_def flag_bits)

lemma block_index0_bits: "block_index0 b \<longleftrightarrow> \<not> bit (flag b) 3"
  by (simp add: block_index0_def flag_bits)

lemma getAlignLength_alt: "getAlignLength len = push_bit 2 (drop_bit 2 (len + 3))"
proof (rule bit_eqI)
  fix n
  have c: "(0xfffc :: u16) = push_bit 2 (mask 14)"
    by (simp add: mask_eq_exp_minus_1)
  show "bit (getAlignLength len) n = bit (push_bit 2 (drop_bit 2 (len + 3))) n"
  proof (cases "2 \<le> n")
    case True
    then obtain k where "n = k + 2"
      by (metis add.commute le_Suc_ex)
    then show ?thesis
      unfolding getAlignLength_def c by (auto simp: bit_simps dest: bit_imp_le_length)
  qed (auto simp: getAlignLength_def c bit_simps)
qed

lemma unat_push_bit_2: "unat (push_bit 2 (w :: u16)) = (4 * unat w) mod 65536"
  by (simp only: unsigned_push_bit_eq) (simp add: push_bit_eq_mult take_bit_eq_mod mult.commute)

lemma getAlignLength_eq:
  assumes "unat len \<le> 65532"
  shows "unat (getAlignLength len) = (unat len + 3) div 4 * 4"
proof -
  have "unat (len + 3) = unat len + 3"
    using assms by (subst unat_plus_if_size) (simp add: word_size)
  then have "unat (drop_bit 2 (len + 3)) = (unat len + 3) div 4"
    using assms by (simp only: unsigned_drop_bit_eq) (simp add: drop_bit_eq_div take_bit_eq_mod)
  then show ?thesis
    using assms by (simp add: getAlignLength_alt unat_push_bit_2 mult.commute)
qed

lemma getAlignLength_dvd: "4 dvd unat (getAlignLength len)"
proof -
  have "4 * n mod 65536 mod 4 = (0 :: nat)" for n
    by (simp add: mod_mod_cancel)
  then show ?thesis
    by (simp only: dvd_eq_mod_eq_0 getAlignLength_alt unat_push_bit_2)
qed

lemma getAlignLength_ge: "unat len \<le> 65532 \<Longrightarrow> unat len \<le> unat (getAlignLength len)"
  by (simp add: getAlignLength_eq)

subsection \<open>The log\<close>

type_synonym entry = "settingsBlock \<times> bytes"

definition entry_size :: "entry \<Rightarrow> nat" where
  "entry_size e = alignLength (fst e) + 8"

definition log_size :: "entry list \<Rightarrow> nat" where
  "log_size es = sum_list (map entry_size es)"

fun log_at :: "flashmem \<Rightarrow> nat \<Rightarrow> entry list \<Rightarrow> bool" where
  "log_at mem a [] \<longleftrightarrow> True"
| "log_at mem a (e # es) \<longleftrightarrow> read_block mem a = fst e \<and> flash_read mem (a + 8) (alignLength (fst e)) = snd e
     \<and> log_at mem (a + entry_size e) es"

abbreviation ekey :: "entry \<Rightarrow> u16" where "ekey e \<equiv> key (fst e)"
abbreviation elive :: "entry \<Rightarrow> bool" where "elive e \<equiv> block_live (fst e)"
abbreviation estart :: "entry \<Rightarrow> bool" where "estart e \<equiv> block_index0 (fst e)"

definition evalue :: "entry \<Rightarrow> bytes" where
  "evalue e = take (unat (blength (fst e))) (snd e)"

text \<open>
  The values of a key, oldest first: an index-0 record starts the list anew, a live record adds to it.
\<close>

fun vals :: "u16 \<Rightarrow> bytes list \<Rightarrow> entry list \<Rightarrow> bytes list" where
  "vals k acc [] = acc"
| "vals k acc (e # es) =
     (if ekey e = k
      then vals k ((if estart e then [] else acc) @ (if elive e then [evalue e] else [])) es
      else vals k acc es)"

text \<open>An entry as the code writes it: begun, and short enough for its aligned length not to wrap.\<close>

definition entry_ok :: "entry \<Rightarrow> bool" where
  "entry_ok e \<longleftrightarrow> unat (blength (fst e)) \<le> 65532 \<and> flag (fst e) AND kBlockAddBeginFlag = 0"

lemma log_size_simps [simp]:
  "log_size [] = 0" "log_size (e # es) = entry_size e + log_size es"
  "log_size (es @ fs) = log_size es + log_size fs"
  by (simp_all add: log_size_def)

lemma entry_size_pos [simp]: "0 < entry_size e"
  by (simp add: entry_size_def)

lemma entry_size_dvd: "4 dvd entry_size e"
  by (simp add: entry_size_def getAlignLength_dvd)

lemma log_size_dvd: "4 dvd log_size es"
  by (induction es) (simp_all add: entry_size_dvd)

lemma log_at_append: "log_at mem a (es @ fs) \<longleftrightarrow> log_at mem a es \<and> log_at mem (a + log_size es) fs"
  by (induction es arbitrary: a) (simp_all add: add.assoc)

lemma log_at_cong:
  "log_at m a es \<Longrightarrow> (\<And>i. a \<le> i \<Longrightarrow> i < a + log_size es \<Longrightarrow> m i = m' i) \<Longrightarrow> log_at m' a es"
proof (induction es arbitrary: a)
  case (Cons e es)
  have sz: "entry_size e = alignLength (fst e) + 8"
    by (simp add: entry_size_def)
  have "read_block m' a = read_block m a"
    by (rule read_block_cong) (use Cons.prems(2) sz in auto)
  moreover have "flash_read m' (a + 8) (alignLength (fst e)) = flash_read m (a + 8) (alignLength (fst e))"
    by (rule flash_read_eqI) (use Cons.prems(2) sz in auto)
  moreover have "log_at m' (a + entry_size e) es"
    by (rule Cons.IH) (use Cons.prems in auto)
  ultimately show ?case
    using Cons.prems(1) by simp
qed simp

lemma vals_append: "vals k acc (es @ fs) = vals k (vals k acc es) fs"
  by (induction es arbitrary: acc) simp_all

lemma vals_other: "(\<And>e. e \<in> set es \<Longrightarrow> ekey e \<noteq> k) \<Longrightarrow> vals k acc es = acc"
  by (induction es) simp_all

subsection \<open>The loops on the log\<close>

lemma superseded_log:
  "log_at mem a es \<Longrightarrow> superseded mem k (a + log_size es) a \<longleftrightarrow> (\<exists>e \<in> set es. elive e \<and> estart e \<and> ekey e = k)"
proof (induction es arbitrary: a)
  case Nil
  then show ?case by (simp add: superseded.simps)
next
  case (Cons e es)
  from Cons.prems have "superseded mem k (a + log_size (e # es)) a \<longleftrightarrow>
      (elive e \<and> estart e \<and> ekey e = k) \<or> superseded mem k (a + entry_size e + log_size es) (a + entry_size e)"
    by (subst superseded.simps) (auto simp: Let_def entry_size_def sizeof_settingsBlock_def add_ac)
  with Cons.IH [of "a + entry_size e"] Cons.prems show ?case
    by auto
qed

text \<open>What the look-up loop has found after reading the values \<open>acc\<close>.\<close>

definition found :: "flashmem \<Rightarrow> int \<Rightarrow> bytes list \<Rightarrow> ca_error \<times> (nat \<times> u16) option \<Rightarrow> bool" where
  "found mem i acc out \<longleftrightarrow>
     (if 0 \<le> i \<and> i < int (length acc)
      then \<exists>ad len. out = (CA_ERROR_SUCCESS, Some (ad, len)) \<and> flash_read mem ad (unat len) = acc ! nat i
      else fst out = CA_ERROR_NOT_FOUND)"

lemma relative_loop_log:
  "log_at mem a es \<Longrightarrow> (\<And>e. e \<in> set es \<Longrightarrow> entry_ok e) \<Longrightarrow> index = int (length acc) \<Longrightarrow> found mem i acc out \<Longrightarrow>
     found mem i (vals k acc es) (relative_loop mem k i (a + log_size es) a index out)"
proof (induction es arbitrary: a acc index out)
  case Nil
  then show ?case by (simp add: relative_loop.simps)
next
  case (Cons e es)
  let ?next = "a + entry_size e"
  let ?acc = "if estart e then [] else acc"
  let ?out1 = "if estart e then (CA_ERROR_NOT_FOUND, snd out) else out"
  let ?index1 = "if estart e then 0 else index"
  let ?v = "flash_read mem (a + 8) (unat (blength (fst e)))"
  have rb: "read_block mem a = fst e" and more: "log_at mem ?next es"
    using Cons.prems(1) by simp_all
  have "unat (blength (fst e)) \<le> alignLength (fst e)"
    using Cons.prems(2) by (simp add: entry_ok_def getAlignLength_ge)
  then have v: "evalue e = ?v"
    using Cons.prems(1) by (metis evalue_def log_at.simps(2) take_flash_read)
  have f1: "found mem i ?acc ?out1"
    using Cons.prems(4) by (auto simp: found_def)
  note step = relative_loop.simps [of mem k i "a + log_size (e # es)" a index out]
  show ?case
  proof (cases "ekey e = k")
    case False
    then have "relative_loop mem k i (a + log_size (e # es)) a index out
        = relative_loop mem k i (?next + log_size es) ?next index out"
      by (subst step) (simp add: rb Let_def entry_size_def sizeof_settingsBlock_def add_ac)
    with False Cons.IH [OF more] Cons.prems show ?thesis by simp
  next
    case True
    show ?thesis
    proof (cases "elive e")
      case False
      with True have "relative_loop mem k i (a + log_size (e # es)) a index out
          = relative_loop mem k i (?next + log_size es) ?next ?index1 ?out1"
        by (subst step) (simp add: rb Let_def entry_size_def sizeof_settingsBlock_def add_ac split del: if_split,
            simp split: if_split)
      moreover have "found mem i (vals k ?acc es) (relative_loop mem k i (?next + log_size es) ?next ?index1 ?out1)"
        by (rule Cons.IH [OF more]) (use Cons.prems f1 in auto)
      ultimately show ?thesis
        using True False by simp
    next
      case live: True
      let ?out2 = "if ?index1 = i then (CA_ERROR_SUCCESS, Some (a + 8, blength (fst e))) else ?out1"
      from True live have "relative_loop mem k i (a + log_size (e # es)) a index out
          = relative_loop mem k i (?next + log_size es) ?next (?index1 + 1) ?out2"
        by (subst step) (simp add: rb Let_def entry_size_def add_ac split del: if_split,
            simp add: sizeof_settingsBlock_def add_ac split: if_split)
      moreover have "found mem i (?acc @ [evalue e]) ?out2"
        using f1 Cons.prems(3) unfolding v by (auto simp: found_def nth_append)
      then have "found mem i (vals k (?acc @ [evalue e]) es)
          (relative_loop mem k i (?next + log_size es) ?next (?index1 + 1) ?out2)"
        by (intro Cons.IH [OF more]) (use Cons.prems in auto)
      ultimately show ?thesis
        using True live by simp
    qed
  qed
qed

subsection \<open>The invariant, and looking up\<close>

text \<open>
  \<open>es\<close> is the log of the current area: it fills the area up to the used size, and the rest of the
  area is erased.
\<close>

definition log_ok :: "geometry \<Rightarrow> store \<Rightarrow> entry list \<Rightarrow> bool" where
  "log_ok g s es \<longleftrightarrow> 4 dvd base_address s \<and> log_at (fmem s) (base_address s + 4) es \<and>
     used_size s = 4 + log_size es \<and> used_size s \<le> settingsSize g \<and>
     (\<forall>i. base_address s + used_size s \<le> i \<and> i < base_address s + settingsSize g \<longrightarrow> fmem s i = 0xFF) \<and>
     (\<forall>e \<in> set es. entry_ok e)"

lemma getRelativeAddress_log:
  assumes "log_ok g s es"
  shows "found (fmem s) i (vals k [] es) (getRelativeAddress k i s)"
proof -
  have e: "base_address s + used_size s = base_address s + 4 + log_size es"
    using assms by (simp add: log_ok_def)
  show ?thesis
    unfolding getRelativeAddress_def e kSettingsFlagSize_def
    by (rule relative_loop_log) (use assms in \<open>auto simp: log_ok_def found_def\<close>)
qed

lemma Get_found:
  assumes "log_ok g s es" "0 \<le> i" "i < int (length (vals k [] es))"
  defines "v \<equiv> vals k [] es ! nat i"
  shows "length v < 65536"
    and "caUtilSettingsGet k i True (Some n) s
      = (CA_ERROR_SUCCESS, Some (take (unat n) v), Some (min (word_of_nat (length v)) n))"
    and "caUtilSettingsGet k i False (Some n) s = (CA_ERROR_SUCCESS, None, Some (word_of_nat (length v)))"
    and "caUtilSettingsGet k i b None s = (CA_ERROR_SUCCESS, None, None)"
proof -
  from getRelativeAddress_log [OF assms(1), of i k] assms(2,3)
  obtain ad len where r: "getRelativeAddress k i s = (CA_ERROR_SUCCESS, Some (ad, len))"
    and v: "flash_read (fmem s) ad (unat len) = v"
    by (auto simp: found_def v_def)
  have l: "length v = unat len"
    using v by (metis length_flash_read)
  then show "length v < 65536"
    by simp
  have w: "word_of_nat (length v) = len"
    by (simp add: l)
  have "flash_read (fmem s) ad (unat (min len n)) = take (unat n) v"
  proof (cases "len \<le> n")
    case True
    then have "take (unat n) v = v"
      using l by (simp add: word_le_nat_alt)
    with True v show ?thesis by (simp add: min_def)
  next
    case False
    then have "unat n \<le> unat len"
      by (simp add: word_le_nat_alt)
    with False v show ?thesis
      by (metis min_def take_flash_read)
  qed
  moreover have "(if len > n then n else len) = min len n"
    by (auto simp: min_def)
  ultimately show "caUtilSettingsGet k i True (Some n) s
      = (CA_ERROR_SUCCESS, Some (take (unat n) v), Some (min (word_of_nat (length v)) n))"
    unfolding w by (simp add: caUtilSettingsGet_def r Let_def)
  show "caUtilSettingsGet k i False (Some n) s = (CA_ERROR_SUCCESS, None, Some (word_of_nat (length v)))"
    "caUtilSettingsGet k i b None s = (CA_ERROR_SUCCESS, None, None)"
    unfolding w by (simp_all add: caUtilSettingsGet_def r)
qed

lemma Get_not_found:
  assumes "log_ok g s es" "i < 0 \<or> int (length (vals k [] es)) \<le> i"
  shows "caUtilSettingsGet k i b n s = (CA_ERROR_NOT_FOUND, None, n)"
proof -
  have "fst (getRelativeAddress k i s) = CA_ERROR_NOT_FOUND"
    using getRelativeAddress_log [OF assms(1), of i k] assms(2) by (auto simp: found_def)
  then obtain out where "getRelativeAddress k i s = (CA_ERROR_NOT_FOUND, out)"
    by (metis prod.collapse)
  then show ?thesis
    by (simp add: caUtilSettingsGet_def)
qed

lemma Get_index0:
  assumes "log_ok g s es"
  shows "fst (caUtilSettingsGet k 0 False (Some 0) s) = CA_ERROR_NOT_FOUND \<longleftrightarrow> vals k [] es = []"
proof (cases "vals k [] es")
  case Nil
  then show ?thesis
    using Get_not_found [OF assms, of 0 k False "Some 0"] by simp
next
  case (Cons v vs)
  then show ?thesis
    using Get_found(3) [OF assms, of 0 k 0] by simp
qed

subsection \<open>Appending a record\<close>

text \<open>The address the next buffer of a vector is written to; each buffer is written where it should be.\<close>

definition vector_next :: "nat \<Rightarrow> settingBuffer \<Rightarrow> nat" where
  "vector_next a v = (if 4 \<le> a mod 4 + length v then a + length v else a - a mod 4 + 4)"

lemma flash_write_blanks: "flash_write a (replicate n 0xFF) mem = mem"
  by (rule ext) (auto simp: flash_write_def)

lemma flash_write_lead: "flash_write a (replicate n 0xFF @ bs) mem = flash_write (a + n) bs mem"
  by (simp add: flash_write_append flash_write_blanks)

lemma write_vector_Cons:
  "write_vector (v # vs) a s = write_vector vs (vector_next a v) (write_at a v s)"
proof -
  define p where "p = a mod 4"
  define h where "h = min (4 - p) (length v)"
  have p: "p < 4" "p \<le> a"
    by (auto simp: p_def)
  have "flash_write (a - p) (replicate p 0xFF @ take h v @ replicate (4 - p - h) 0xFF) mem = flash_write a (take h v) mem" for mem
    using p by (simp add: flash_write_lead flash_write_pad)
  moreover have "flash_write (a - p + 4) (drop h v) (flash_write a (take h v) mem) = flash_write a v mem" for mem
  proof (cases "4 - p \<le> length v")
    case True
    then have "a - p + 4 = a + length (take h v)"
      using p by (simp add: h_def)
    then show ?thesis
      using flash_write_append [of a "take h v" "drop h v" mem] by simp
  next
    case False
    then have "h = length v"
      by (simp add: h_def)
    then show ?thesis by simp
  qed
  moreover have "a - p + 4 + length v - h = vector_next a v"
    using p unfolding vector_next_def p_def [symmetric] by (auto simp: h_def)
  ultimately show ?thesis
    by (simp add: Let_def write_at_def p_def [symmetric] h_def [symmetric])
qed

lemma write_vector_single: "write_vector [v] a s = write_at a v s"
  by (simp only: write_vector_Cons write_vector.simps)

text \<open>A vector whose buffers, the last one apart, reach the next word boundary is written without gaps.\<close>

fun contiguous :: "nat \<Rightarrow> settingBuffer list \<Rightarrow> bool" where
  "contiguous off [] \<longleftrightarrow> True"
| "contiguous off [v] \<longleftrightarrow> True"
| "contiguous off (v # vs) \<longleftrightarrow> 4 \<le> off mod 4 + length v \<and> contiguous (off + length v) vs"

lemma write_at_append: "write_at a (xs @ ys) s = write_at (a + length xs) ys (write_at a xs s)"
  by (simp add: write_at_def flash_write_append)

lemma write_vector_contiguous:
  "contiguous a vs \<Longrightarrow> write_vector vs a s = write_at a (concat vs) s"
proof (induction a vs arbitrary: s rule: contiguous.induct)
  case (3 off v w vs)
  then show ?case
    by (simp only: contiguous.simps write_vector_Cons [of v] concat.simps(2) [of v] write_at_append)
       (simp only: vector_next_def if_True)
qed (simp_all add: write_vector_single write_at_def del: write_vector.simps(2))

lemma contiguous_shift: "4 dvd b \<Longrightarrow> contiguous (b + off) vs = contiguous off vs"
  by (induction off vs rule: contiguous.induct) (auto simp: add.assoc elim!: dvdE)

lemma vector_length_eq: "vector_length vs = word_of_nat (length (concat vs))"
proof -
  have "fold (\<lambda>v t. t + word_of_nat (length v)) vs (t :: u16) = t + word_of_nat (length (concat vs))" for t
    by (induction vs arbitrary: t) (simp_all add: add.assoc)
  then show ?thesis
    by (simp add: vector_length_def)
qed

lemma log_snoc:
  assumes ok: "log_ok g s es" and room: "used_size s + entry_size (b, d) \<le> settingsSize g"
    and b: "read_block mem (base_address s + used_size s) = b"
    and d: "flash_read mem (base_address s + used_size s + 8) (alignLength b) = d"
    and same: "\<And>i. i < base_address s + used_size s \<or> base_address s + used_size s + entry_size (b, d) \<le> i \<Longrightarrow> mem i = fmem s i"
    and e: "entry_ok (b, d)" and u: "u = used_size s + entry_size (b, d)"
  shows "log_ok g (s\<lparr>fmem := mem, used_size := u\<rparr>) (es @ [(b, d)])"
proof -
  have used: "base_address s + used_size s = base_address s + 4 + log_size es"
    using ok by (simp add: log_ok_def)
  have "log_at mem (base_address s + 4) es"
    by (rule log_at_cong [of "fmem s"]) (use ok same in \<open>auto simp: log_ok_def\<close>)
  then have "log_at mem (base_address s + 4) (es @ [(b, d)])"
    using b d unfolding used by (simp add: log_at_append)
  moreover have "mem i = 0xFF" if "base_address s + u \<le> i" "i < base_address s + settingsSize g" for i
    using same [of i] that u ok by (simp add: log_ok_def)
  ultimately show ?thesis
    using ok room e u by (auto simp: log_ok_def)
qed

lemma read_blank_data:
  assumes "\<And>i. p \<le> i \<Longrightarrow> i < p + n \<Longrightarrow> mem i = 0xFF" "length bs \<le> n"
  shows "flash_read (flash_write p bs mem) p n = bs @ replicate (n - length bs) 0xFF"
  using assms by (intro nth_equalityI) (auto simp: flash_write_def nth_append)

lemma flag_values:
  "bit kBlockAddBeginFlag n \<longleftrightarrow> n = 0" "bit kBlockAddCompleteFlag n \<longleftrightarrow> n = 1"
  "bit kBlockDeleteFlag n \<longleftrightarrow> n = 2" "bit kBlockIndex0Flag n \<longleftrightarrow> n = 3"
  using bit_exp_iff [where 'a = "16 word", of 0 n] bit_exp_iff [where 'a = "16 word", of 1 n]
    bit_exp_iff [where 'a = "16 word", of 2 n] bit_exp_iff [where 'a = "16 word", of 3 n]
  by (auto simp: kBlockAddBeginFlag_def kBlockAddCompleteFlag_def kBlockDeleteFlag_def kBlockIndex0Flag_def)

lemma and_not_flag_bit [simp]: "bit (f AND NOT kBlockAddCompleteFlag) n \<longleftrightarrow> bit f n \<and> n \<noteq> 1"
  "bit (f AND NOT kBlockDeleteFlag) n \<longleftrightarrow> bit f n \<and> n \<noteq> 2"
  "bit (f AND NOT kBlockIndex0Flag) n \<longleftrightarrow> bit f n \<and> n \<noteq> 3"
  "bit (f AND NOT kBlockAddBeginFlag) n \<longleftrightarrow> bit f n \<and> n \<noteq> 0"
  by (auto simp: bit_simps flag_values dest: bit_imp_le_length)

lemma ff_bits: "bit (0xff :: u16) n \<longleftrightarrow> n < 8"
proof -
  have "(0xff :: u16) = mask 8"
    by (simp add: mask_eq_exp_minus_1)
  moreover have "bit (mask 8 :: u16) n \<longleftrightarrow> n < 8"
    by (subst bit_mask_iff) auto
  ultimately show ?thesis
    by metis
qed

definition completed :: "settingsBlock \<Rightarrow> settingsBlock" where
  "completed b = b\<lparr>flag := flag b AND NOT kBlockAddCompleteFlag\<rparr>"

lemma completed_simps [simp]:
  "key (completed b) = key b" "blength (completed b) = blength b" "reserved (completed b) = reserved b"
  "flag (completed b) = flag b AND NOT kBlockAddCompleteFlag"
  by (simp_all add: completed_def)

lemma new_block_fields:
  "key (new_block k i0 l st) = k" "blength (new_block k i0 l st) = l"
  "block_index0 (completed (new_block k i0 l st)) \<longleftrightarrow> i0" "block_live (completed (new_block k i0 l st))"
  "block_index0 (new_block k i0 l st) \<longleftrightarrow> i0" "\<not> block_live (new_block k i0 l st)"
  "flag (completed (new_block k i0 l st)) AND kBlockAddBeginFlag = 0"
  "flag (new_block k i0 l st) AND kBlockAddBeginFlag = 0"
  by (simp_all add: new_block_def block_index0_bits block_live_bits flag_bits ff_bits Let_def)

text \<open>The record a write leaves behind: the data, filled up with ones.\<close>

definition record_of :: "settingsBlock \<Rightarrow> bytes \<Rightarrow> entry" where
  "record_of b bs = (b, bs @ replicate (alignLength b - length bs) 0xFF)"

lemma record_of_simps [simp]: "fst (record_of b bs) = b" "entry_size (record_of b bs) = alignLength b + 8"
  by (simp_all add: record_of_def entry_size_def)

lemma evalue_record_of: "unat (blength b) = length bs \<Longrightarrow> evalue (record_of b bs) = bs"
  by (simp add: evalue_def record_of_def)

lemma add_record:
  assumes ok: "log_ok g s es" and b: "b = new_block k i0 (vector_length vs) st"
    and len: "length (concat vs) \<le> 65532" and contig: "contiguous 0 vs"
    and room: "used_size s + (alignLength b + 8) \<le> settingsSize g"
  shows "log_ok g (add_complete b (add_data vs (add_begin b s))) (es @ [record_of (completed b) (concat vs)])"
    and "base_address (add_complete b (add_data vs (add_begin b s))) = base_address s"
    and "\<And>i. i < base_address s + used_size s \<or> base_address s + used_size s + (alignLength b + 8) \<le> i \<Longrightarrow>
          fmem (add_complete b (add_data vs (add_begin b s))) i = fmem s i"
proof -
  let ?p = "base_address s + used_size s" and ?bs = "concat vs" and ?b' = "completed b"
  let ?m1 = "flash_write ?p (block_bytes b) (fmem s)"
  let ?m2 = "flash_write (?p + 8) ?bs ?m1"
  let ?m3 = "flash_write ?p (block_bytes ?b') ?m2"
  have bl: "unat (blength b) = length ?bs"
    using len by (simp add: b new_block_fields vector_length_eq unat_of_nat)
  then have fit: "length ?bs \<le> alignLength b"
    using getAlignLength_ge [of "blength b"] len by simp
  have blank: "fmem s i = 0xFF" if "?p \<le> i" "i < ?p + 8 + alignLength b" for i
    using ok room that by (auto simp: log_ok_def)
  have "4 dvd ?p + 8"
    using ok log_size_dvd [of es] by (auto simp: log_ok_def)
  then have "contiguous (?p + 8) vs"
    using contiguous_shift [of "?p + 8" 0 vs] contig by simp
  then have mem: "add_complete b (add_data vs (add_begin b s))
      = s\<lparr>fmem := ?m3, used_size := used_size s + (8 + alignLength b)\<rparr>"
    by (simp add: add_complete_def add_data_def add_begin_def write_at_def write_vector_contiguous
        completed_def sizeof_settingsBlock_def Let_def)
  have "read_block ?m1 ?p = b"
    using blank by (simp add: read_block_write read_block_blank)
  moreover have "read_block ?m2 ?p = read_block ?m1 ?p"
    by (rule read_block_cong) (simp add: flash_write_outside)
  ultimately have hdr: "read_block ?m3 ?p = ?b'"
    by (simp add: read_block_write completed_def)
  have "flash_read ?m3 (?p + 8) (alignLength b) = flash_read ?m2 (?p + 8) (alignLength b)"
    by (rule flash_read_eqI) (simp add: flash_write_outside)
  also have "\<dots> = ?bs @ replicate (alignLength b - length ?bs) 0xFF"
    by (rule read_blank_data) (use blank fit in \<open>auto simp: flash_write_outside\<close>)
  finally have dat: "flash_read ?m3 (?p + 8) (alignLength ?b') = snd (record_of ?b' ?bs)"
    by (simp add: record_of_def)
  show outside: "fmem (add_complete b (add_data vs (add_begin b s))) i = fmem s i"
    if "i < ?p \<or> ?p + (alignLength b + 8) \<le> i" for i
    using that fit unfolding mem by (auto simp: flash_write_outside)
  have e: "entry_ok (record_of ?b' ?bs)"
    using bl len new_block_fields(7) [of k i0 "vector_length vs" st] by (simp add: entry_ok_def b)
  show "log_ok g (add_complete b (add_data vs (add_begin b s))) (es @ [record_of ?b' ?bs])"
    unfolding mem record_of_def
    by (rule log_snoc [OF ok]) (use room hdr dat outside e in \<open>auto simp: record_of_def entry_size_def mem\<close>)
  show "base_address (add_complete b (add_data vs (add_begin b s))) = base_address s"
    by (simp add: mem)
qed

subsection \<open>Deleting\<close>

definition clear_flag :: "u16 \<Rightarrow> entry \<Rightarrow> entry" where
  "clear_flag w e = ((fst e)\<lparr>flag := flag (fst e) AND NOT w\<rparr>, snd e)"

fun delete_entries :: "u16 \<Rightarrow> int \<Rightarrow> int \<Rightarrow> ca_error \<Rightarrow> entry list \<Rightarrow> ca_error \<times> entry list" where
  "delete_entries k i index err [] = (err, [])"
| "delete_entries k i index err (e # es) =
     (if ekey e = k then
        let index1 = (if estart e then 0 else index); err1 = (if estart e then CA_ERROR_NOT_FOUND else err)
        in if elive e then
             let del = (i = index1 \<or> i = -1);
                 e1 = (if del then clear_flag kBlockDeleteFlag e else e);
                 e2 = (if index1 = 1 \<and> i = 0 then clear_flag kBlockIndex0Flag e1 else e1)
             in apsnd ((#) e2) (delete_entries k i (index1 + 1) (if del then CA_ERROR_SUCCESS else err1) es)
           else apsnd ((#) e) (delete_entries k i index1 err1 es)
      else apsnd ((#) e) (delete_entries k i index err es))"

lemma clear_flag_simps [simp]:
  "ekey (clear_flag w e) = ekey e" "blength (fst (clear_flag w e)) = blength (fst e)" "snd (clear_flag w e) = snd e"
  "entry_size (clear_flag w e) = entry_size e" "evalue (clear_flag w e) = evalue e"
  "flag (fst (clear_flag w e)) = flag (fst e) AND NOT w"
  by (simp_all add: clear_flag_def entry_size_def evalue_def)

lemma clear_flag_status [simp]:
  "\<not> elive (clear_flag kBlockDeleteFlag e)" "estart (clear_flag kBlockDeleteFlag e) = estart e"
  "elive (clear_flag kBlockIndex0Flag e) = elive e" "estart (clear_flag kBlockIndex0Flag e)"
  by (simp_all add: block_live_bits block_index0_bits)

lemma entry_ok_clear: "entry_ok e \<Longrightarrow> entry_ok (clear_flag w e)"
  by (auto simp: entry_ok_def flag_bits bit_simps)

lemma delete_entries_ok:
  "\<forall>e \<in> set es. entry_ok e \<Longrightarrow> \<forall>e \<in> set (snd (delete_entries k i index err es)). entry_ok e"
  by (induction es arbitrary: index err) (simp_all add: Let_def entry_ok_clear)

lemma delete_entries_size [simp]: "log_size (snd (delete_entries k i index err es)) = log_size es"
  by (induction k i index err es rule: delete_entries.induct) (auto simp: Let_def)

lemma flag_write:
  assumes "read_block mem a = fst e"
  shows "read_block (flash_write a (block_bytes (fst (clear_flag w e))) mem) a = fst (clear_flag w e)"
  using assms by (simp add: read_block_write clear_flag_def)

text \<open>One step of the loop: the header is written at most twice, and nothing else changes.\<close>

lemma delete_loop_step:
  assumes "read_block mem a = fst e" "entry_size e + n = m"
  obtains mem' e' err' index'
  where "delete_loop k i (a + m) a index err mem = delete_loop k i (a + entry_size e + n) (a + entry_size e) index' err' mem'"
    and "\<And>es. delete_entries k i index err (e # es) = apsnd ((#) e') (delete_entries k i index' err' es)"
    and "read_block mem' a = fst e'" "snd e' = snd e" "blength (fst e') = blength (fst e)"
    and "\<And>j. j < a \<or> a + 8 \<le> j \<Longrightarrow> mem' j = mem j"
proof -
  have lim: "a < a + m" "a + m = a + entry_size e + n"
    using assms(2) entry_size_pos [of e] by linarith+
  note step = delete_loop.simps [of k i "a + m" a index err mem]
  have nxt: "a + (alignLength (fst e) + sizeof_settingsBlock) = a + entry_size e"
    by (simp add: entry_size_def sizeof_settingsBlock_def)
  define index1 where "index1 = (if ekey e = k \<and> estart e then 0 else index)"
  define err1 where "err1 = (if ekey e = k \<and> estart e then CA_ERROR_NOT_FOUND else err)"
  show thesis
  proof (cases "ekey e = k \<and> elive e")
    case False
    then have "delete_loop k i (a + m) a index err mem = delete_loop k i (a + entry_size e + n) (a + entry_size e) index1 err1 mem"
      using assms(1) lim by (subst step) (auto simp: Let_def nxt index1_def err1_def add.assoc)
    with False show thesis
      by (intro that [of index1 err1 mem e]) (auto simp: index1_def err1_def Let_def assms(1))
  next
    case True
    define del where "del = (i = index1 \<or> i = -1)"
    define shift where "shift = (index1 = 1 \<and> i = 0)"
    define e1 where "e1 = (if del then clear_flag kBlockDeleteFlag e else e)"
    define e2 where "e2 = (if shift then clear_flag kBlockIndex0Flag e1 else e1)"
    define m1 where "m1 = (if del then flash_write a (block_bytes (fst e1)) mem else mem)"
    define m2 where "m2 = (if shift then flash_write a (block_bytes (fst e2)) m1 else m1)"
    have r1: "read_block m1 a = fst e1"
      using flag_write [OF assms(1)] assms(1) by (simp add: m1_def e1_def)
    have r2: "read_block m2 a = fst e2"
      using flag_write [OF r1] r1 by (simp add: m2_def e2_def)
    have "delete_loop k i (a + m) a index err mem =
        delete_loop k i (a + entry_size e + n) (a + entry_size e) (index1 + 1) (if del then CA_ERROR_SUCCESS else err1) m2"
      using True assms(1) lim
      by (subst step) (simp add: Let_def nxt index1_def err1_def del_def shift_def e1_def e2_def m1_def m2_def
          clear_flag_def add.assoc; auto)
    moreover have "delete_entries k i index err (e # es) =
        apsnd ((#) e2) (delete_entries k i (index1 + 1) (if del then CA_ERROR_SUCCESS else err1) es)" for es
      using True by (simp add: Let_def index1_def err1_def del_def shift_def e1_def e2_def)
    moreover have "m2 j = mem j" if "j < a \<or> a + 8 \<le> j" for j
      using that by (auto simp: m1_def m2_def flash_write_outside)
    ultimately show thesis
      by (intro that [of "index1 + 1" "if del then CA_ERROR_SUCCESS else err1" m2 e2])
         (use r2 in \<open>auto simp: e1_def e2_def\<close>)
  qed
qed

lemma delete_loop_log:
  "log_at mem a es \<Longrightarrow>
     \<exists>mem'. delete_loop k i (a + log_size es) a index err mem = (fst (delete_entries k i index err es), mem')
       \<and> log_at mem' a (snd (delete_entries k i index err es)) \<and> (\<forall>j. j < a \<or> a + log_size es \<le> j \<longrightarrow> mem' j = mem j)"
proof (induction es arbitrary: a index err mem)
  case Nil
  then show ?case by (simp add: delete_loop.simps)
next
  case (Cons e es)
  have "read_block mem a = fst e" "entry_size e + log_size es = log_size (e # es)"
    using Cons.prems by simp_all
  then obtain mem1 e' err' index' where
    step: "delete_loop k i (a + log_size (e # es)) a index err mem
        = delete_loop k i (a + entry_size e + log_size es) (a + entry_size e) index' err' mem1"
    and ent: "delete_entries k i index err (e # es) = apsnd ((#) e') (delete_entries k i index' err' es)"
    and e': "read_block mem1 a = fst e'" "snd e' = snd e" "blength (fst e') = blength (fst e)"
    and same: "\<And>j. j < a \<or> a + 8 \<le> j \<Longrightarrow> mem1 j = mem j"
    by (rule delete_loop_step [where k = k and i = i and index = index and err = err]) blast
  have sz: "entry_size e = alignLength (fst e) + 8" "entry_size e' = entry_size e"
    using e'(3) by (simp_all add: entry_size_def)
  have "log_at mem1 (a + entry_size e) es"
    by (rule log_at_cong [of mem]) (use Cons.prems same sz in auto)
  from Cons.IH [OF this, of index' err'] obtain mem2 where
    m2: "delete_loop k i (a + entry_size e + log_size es) (a + entry_size e) index' err' mem1
        = (fst (delete_entries k i index' err' es), mem2)"
    "log_at mem2 (a + entry_size e) (snd (delete_entries k i index' err' es))"
    "\<forall>j. j < a + entry_size e \<or> a + entry_size e + log_size es \<le> j \<longrightarrow> mem2 j = mem1 j"
    by blast
  have "read_block mem2 a = read_block mem1 a"
    by (rule read_block_cong) (use m2(3) sz in auto)
  moreover have "flash_read mem2 (a + 8) (alignLength (fst e')) = flash_read mem (a + 8) (alignLength (fst e))"
    unfolding e'(3) by (rule flash_read_eqI) (use m2(3) same sz in auto)
  ultimately have "log_at mem2 a (snd (delete_entries k i index err (e # es)))"
    using m2(2) e' sz Cons.prems unfolding ent by simp
  moreover have "\<forall>j. j < a \<or> a + log_size (e # es) \<le> j \<longrightarrow> mem2 j = mem j"
    using m2(3) same sz by auto
  ultimately show ?case
    unfolding step m2(1) ent by auto
qed

text \<open>The list of values without the one at an index; with index -1, without any.\<close>

definition removed :: "int \<Rightarrow> 'a list \<Rightarrow> 'a list" where
  "removed i xs = (if i = -1 then [] else if 0 \<le> i then take (nat i) xs @ drop (Suc (nat i)) xs else xs)"

definition hits :: "int \<Rightarrow> 'a list \<Rightarrow> bool" where
  "hits i xs \<longleftrightarrow> i = -1 \<and> xs \<noteq> [] \<or> 0 \<le> i \<and> i < int (length xs)"

lemma removed_Nil [simp]: "removed i [] = []"
  by (simp add: removed_def)

lemma hits_Nil [simp]: "\<not> hits i []"
  by (simp add: hits_def)

lemma removed_snoc:
  "removed i (xs @ [v]) = (if i = int (length xs) \<or> i = -1 then removed i xs else removed i xs @ [v])"
proof (cases "0 \<le> i")
  case True
  then obtain n where "i = int n"
    by (rule nonneg_int_cases)
  then show ?thesis
    by (cases n "length xs" rule: linorder_cases) (simp_all add: removed_def)
qed (simp add: removed_def)

lemma removed_single: "length xs = 1 \<Longrightarrow> removed 0 xs = []"
  by (simp add: removed_def)

lemma hits_snoc: "hits i (xs @ [v]) \<longleftrightarrow> hits i xs \<or> i = int (length xs) \<or> i = -1"
  by (auto simp: hits_def)

lemma vals_delete_other: "k' \<noteq> k \<Longrightarrow> vals k' acc (snd (delete_entries k i index err es)) = vals k' acc es"
  by (induction es arbitrary: index err acc) (simp_all add: Let_def)

lemma vals_delete:
  "index = int (length acc) \<Longrightarrow> err = (if hits i acc then CA_ERROR_SUCCESS else CA_ERROR_NOT_FOUND) \<Longrightarrow>
     vals k (removed i acc) (snd (delete_entries k i index err es)) = removed i (vals k acc es) \<and>
     fst (delete_entries k i index err es) = (if hits i (vals k acc es) then CA_ERROR_SUCCESS else CA_ERROR_NOT_FOUND)"
proof (induction es arbitrary: acc index err)
  case (Cons e es)
  let ?acc = "if estart e then [] else acc" and ?index1 = "if estart e then 0 else index"
  let ?err1 = "if estart e then CA_ERROR_NOT_FOUND else err"
  have 1: "?index1 = int (length ?acc)" "?err1 = (if hits i ?acc then CA_ERROR_SUCCESS else CA_ERROR_NOT_FOUND)"
    using Cons.prems by simp_all
  show ?case
  proof (cases "ekey e = k")
    case False
    with Cons.IH [OF Cons.prems] show ?thesis by simp
  next
    case key: True
    show ?thesis
    proof (cases "elive e")
      case False
      with Cons.IH [OF 1] key show ?thesis by (simp split: if_splits)
    next
      case True
      define del where "del \<longleftrightarrow> i = ?index1 \<or> i = -1"
      define e1 where "e1 = (if del then clear_flag kBlockDeleteFlag e else e)"
      define e2 where "e2 = (if ?index1 = 1 \<and> i = 0 then clear_flag kBlockIndex0Flag e1 else e1)"
      have dels: "delete_entries k i index err (e # es) =
          apsnd ((#) e2) (delete_entries k i (?index1 + 1) (if del then CA_ERROR_SUCCESS else ?err1) es)"
        using True key by (simp add: Let_def e2_def e1_def del_def; auto)
      have e2: "ekey e2 = k" "evalue e2 = evalue e" "elive e2 \<longleftrightarrow> \<not> del"
        "estart e2 \<longleftrightarrow> estart e \<or> ?index1 = 1 \<and> i = 0"
        using True key by (auto simp: e2_def e1_def)
      have "(if estart e2 then [] else removed i acc) @ (if elive e2 then [evalue e2] else [])
          = removed i (?acc @ [evalue e])"
        using 1(1) e2 removed_single [of ?acc] by (auto simp: removed_snoc del_def split: if_splits)
      moreover have "(if del then CA_ERROR_SUCCESS else ?err1)
          = (if hits i (?acc @ [evalue e]) then CA_ERROR_SUCCESS else CA_ERROR_NOT_FOUND)"
        using 1 by (auto simp: hits_snoc del_def)
      moreover have "?index1 + 1 = int (length (?acc @ [evalue e]))"
        using 1(1) by simp
      ultimately show ?thesis
        using Cons.IH [of "?index1 + 1" "?acc @ [evalue e]" "if del then CA_ERROR_SUCCESS else ?err1"] key True e2(1)
        unfolding dels by simp
    qed
  qed
qed simp

lemma Delete_log:
  fixes k :: u16 and i :: int
  assumes ok: "log_ok g s es"
  defines "d \<equiv> delete_entries k i 0 CA_ERROR_NOT_FOUND es"
  obtains mem where "caUtilSettingsDelete k i s = (fst d, s\<lparr>fmem := mem\<rparr>)" "log_ok g (s\<lparr>fmem := mem\<rparr>) (snd d)"
    and "\<And>j. j < base_address s + 4 \<or> base_address s + used_size s \<le> j \<Longrightarrow> mem j = fmem s j"
proof -
  have lim: "base_address s + used_size s = base_address s + 4 + log_size es"
    using ok by (simp add: log_ok_def)
  obtain mem where m: "delete_loop k i (base_address s + used_size s) (base_address s + 4) 0 CA_ERROR_NOT_FOUND (fmem s) = (fst d, mem)"
    "log_at mem (base_address s + 4) (snd d)"
    "\<forall>j. j < base_address s + 4 \<or> base_address s + used_size s \<le> j \<longrightarrow> mem j = fmem s j"
    using delete_loop_log [of "fmem s" "base_address s + 4" es k i 0 CA_ERROR_NOT_FOUND] ok
    unfolding lim d_def by (auto simp: log_ok_def)
  have "\<forall>e \<in> set (snd d). entry_ok e"
    unfolding d_def by (rule delete_entries_ok) (use ok in \<open>simp add: log_ok_def\<close>)
  then have "log_ok g (s\<lparr>fmem := mem\<rparr>) (snd d)"
    using ok m(2,3) by (simp add: log_ok_def d_def)
  with m show thesis
    by (intro that [of mem]) (auto simp: caUtilSettingsDelete_def kSettingsFlagSize_def)
qed

subsection \<open>Start-up\<close>

text \<open>
  The state of the two areas' flags that start-up relies on: the current one is in use, and the
  first one is not when the current one is the second.
\<close>

definition active :: "geometry \<Rightarrow> store \<Rightarrow> bool" where
  "active g s \<longleftrightarrow> read_flag (fmem s) (base_address s) = kSettingsInUse \<and>
     (base_address s = 0 \<or> base_address s = settingsSize g \<and> read_flag (fmem s) 0 \<noteq> kSettingsInUse)"

definition geom_ok :: "geometry \<Rightarrow> bool" where
  "geom_ok g \<longleftrightarrow> numPages g > 1 \<and> pageSize g > 0 \<and> unat (pageSize g) dvd settingsSize g \<and>
     4 dvd settingsSize g \<and> 0 < settingsSize g"

lemma read_flag_cong: "(\<And>i. a \<le> i \<Longrightarrow> i < a + 4 \<Longrightarrow> m i = m' i) \<Longrightarrow> read_flag m a = read_flag m' a"
  unfolding read_flag_def kSettingsFlagSize_def by (rule arg_cong [OF flash_read_eqI])

lemma read_flag_write: "read_flag (flash_write a (PUTLE32 f [0, 0, 0, 0]) mem) a = read_flag mem a AND f"
proof -
  have "length (PUTLE32 f [0, 0, 0, 0]) = 4"
    by (simp add: le32.put_length)
  then have "flash_read (flash_write a (PUTLE32 f [0, 0, 0, 0]) mem) a 4
      = map2 (AND) (flash_read mem a 4) (PUTLE32 f [0, 0, 0, 0])"
    using flash_read_write_same [of a "PUTLE32 f [0, 0, 0, 0]" mem] by (simp only:)
  then show ?thesis
    by (simp add: read_flag_def kSettingsFlagSize_def GETLE32_and le32.put_length le32.get_put)
qed

lemma read_flag_blank: "(\<And>i. a \<le> i \<Longrightarrow> i < a + 4 \<Longrightarrow> mem i = 0xFF) \<Longrightarrow> read_flag mem a = 0xFFFFFFFF"
proof -
  assume "\<And>i. a \<le> i \<Longrightarrow> i < a + 4 \<Longrightarrow> mem i = 0xFF"
  then have "flash_read mem a 4 = replicate 4 0xFF"
    by (intro nth_equalityI) simp_all
  then show ?thesis
    by (simp add: read_flag_def kSettingsFlagSize_def GETLE32_def)
qed

lemma init_scan_log:
  "log_at mem (base + u) es \<Longrightarrow> \<forall>e \<in> set es. entry_ok e \<Longrightarrow> u + log_size es \<le> settingsSize g \<Longrightarrow>
     4 dvd u \<Longrightarrow> 4 dvd settingsSize g \<Longrightarrow>
     (\<And>i. base + u + log_size es \<le> i \<Longrightarrow> i < base + settingsSize g \<Longrightarrow> mem i = 0xFF) \<Longrightarrow>
     init_scan g mem base u = u + log_size es"
proof (induction es arbitrary: u)
  case Nil
  show ?case
  proof (cases "u < settingsSize g")
    case True
    with Nil.prems(4,5) have "u + 4 \<le> settingsSize g"
      by (auto elim!: dvdE)
    with Nil.prems(6) have "mem (base + u + 2) = 0xFF" "mem (base + u + 3) = 0xFF"
      by simp_all
    then have "flag (read_block mem (base + u)) = 0xFFFF"
      by (simp add: read_block_def bytes_block_def sizeof_settingsBlock_def GETLE16_def add.assoc)
    then show ?thesis
      using True by (subst init_scan.simps) (simp add: kBlockAddBeginFlag_def)
  qed (simp add: init_scan.simps)
next
  case (Cons e es)
  have "u < settingsSize g"
    using Cons.prems(3) entry_size_pos [of e] unfolding log_size_simps by linarith
  moreover have "flag (read_block mem (base + u)) AND kBlockAddBeginFlag = 0"
    using Cons.prems(1,2) by (simp add: entry_ok_def)
  ultimately have "init_scan g mem base u = init_scan g mem base (u + entry_size e)"
    using Cons.prems(1) by (subst init_scan.simps) (simp add: Let_def entry_size_def sizeof_settingsBlock_def)
  also have "\<dots> = u + entry_size e + log_size es"
    by (rule Cons.IH) (use Cons.prems entry_size_dvd [of e] in \<open>auto simp: add.assoc\<close>)
  finally show ?case by simp
qed

text \<open>Start-up on the memory of a running store finds exactly its base address and used size.\<close>

lemma Init_log:
  assumes "log_ok g s es" "active g s" "4 dvd settingsSize g"
  shows "caUtilSettingsInit g (s\<lparr>base_address := x, used_size := y\<rparr>) = s"
proof -
  have "init_scan g (fmem s) (base_address s) 4 = 4 + log_size es"
    by (rule init_scan_log) (use assms in \<open>auto simp: log_ok_def\<close>)
  moreover have "init_base g (s\<lparr>base_address := x, used_size := y\<rparr>) = s\<lparr>used_size := y\<rparr>"
    using assms(2) by (auto simp: init_base_def active_def SETTINGS_CONFIG_BASE_ADDRESS_def)
  ultimately show ?thesis
    using assms(1) by (simp add: caUtilSettingsInit_def kSettingsFlagSize_def log_ok_def)
qed

end
