(* ===== verification/SettingsSwap.thy ===== *)
theory SettingsSwap
  imports SettingsLog
begin

text \<open>
  Copying the log to the other area, \<^verbatim>\<open>swapSettingsBlock\<close>, and the properties of the store's
  operations that follow: what a set, an add, a delete, a look-up and a restart do to the values of
  every key, with and without a swap.
\<close>

unbundle bit_operations_syntax

subsection \<open>Erasing an area\<close>

lemma page_fits: "page dvd a \<Longrightarrow> page dvd limit \<Longrightarrow> a < limit \<Longrightarrow> a + page \<le> (limit :: nat)"
proof -
  assume "page dvd a" "page dvd limit" "a < limit"
  then obtain k l where kl: "a = page * k" "limit = page * l"
    by (auto elim!: dvdE)
  with \<open>a < limit\<close> have "page * Suc k \<le> page * l"
    by (intro mult_le_mono2) simp
  with kl show ?thesis
    by simp
qed

lemma erase_loop_eq:
  "0 < page \<Longrightarrow> page dvd a \<Longrightarrow> page dvd limit \<Longrightarrow>
     erase_loop page limit a mem i = (if a \<le> i \<and> i < limit then 0xFF else mem i)"
proof (induction page limit a mem rule: erase_loop.induct)
  case (1 page limit a mem)
  show ?case
  proof (cases "a < limit")
    case False
    then show ?thesis
      by (auto simp: erase_loop.simps)
  next
    case True
    have "flash_erase page a mem i = (if a \<le> i \<and> i < a + page then 0xFF else mem i)"
      using same_page [of page i a] 1(2,3) by (simp add: flash_erase_def)
    moreover have "a + page \<le> limit"
      using 1(3,4) True by (rule page_fits)
    moreover have "erase_loop page limit a mem i = (if a + page \<le> i \<and> i < limit then 0xFF else flash_erase page a mem i)"
      using 1(1) [OF conjI [OF True 1(2)]] 1(2-4) True by (subst erase_loop.simps) simp
    ultimately show ?thesis
      using True by auto
  qed
qed

lemma initSettings_log:
  fixes s :: store and f :: u32
  assumes "geom_ok g" "unat (pageSize g) dvd b" "4 dvd b"
  defines "s' \<equiv> (initSettings g b f s)\<lparr>base_address := b, used_size := 4\<rparr>"
  shows "log_ok g s' []" "read_flag (fmem s') b = f"
    and "\<And>i. i < b \<or> b + settingsSize g \<le> i \<Longrightarrow> fmem s' i = fmem s i"
proof -
  have p: "0 < unat (pageSize g)" "unat (pageSize g) dvd b + settingsSize g" "4 \<le> settingsSize g"
    using assms(1,2) dvd_imp_le [of 4 "settingsSize g"] by (auto simp: geom_ok_def word_less_nat_alt)
  let ?m = "erase_loop (unat (pageSize g)) (b + settingsSize g) b (fmem s)"
  have m: "?m i = (if b \<le> i \<and> i < b + settingsSize g then 0xFF else fmem s i)" for i
    by (rule erase_loop_eq [OF p(1) assms(2) p(2)])
  have s': "s' = s\<lparr>fmem := flash_write b (PUTLE32 f [0, 0, 0, 0]) ?m, base_address := b, used_size := 4\<rparr>"
    by (simp add: s'_def initSettings_def setSettingsFlag_def write_at_def)
  have out: "fmem s' i = ?m i" if "i < b \<or> b + 4 \<le> i" for i
    using that by (auto simp: s' flash_write_outside le32.put_length)
  show "log_ok g s' []"
    using out m assms(3) p(3) by (simp add: log_ok_def s' flash_write_outside le32.put_length)
  have "read_flag ?m b = 0xFFFFFFFF"
    by (rule read_flag_blank) (use m p(3) in simp)
  moreover have "(0xFFFFFFFF :: u32) AND f = f"
  proof -
    have m: "(0xFFFFFFFF :: u32) = mask 32"
      by (simp add: mask_eq_exp_minus_1)
    show ?thesis
      unfolding m by (rule bit_eqI) (auto simp: bit_and_iff bit_mask_iff dest: bit_imp_le_length)
  qed
  ultimately show "read_flag (fmem s') b = f"
    by (simp add: s' read_flag_write)
  show "fmem s' i = fmem s i" if "i < b \<or> b + settingsSize g \<le> i" for i
    using out [of i] m [of i] that p(3) by auto
qed

subsection \<open>Copying a record\<close>

text \<open>
  The copy loop moves the rest of a record behind its header in pieces of 256 bytes, but stops once
  its counter reaches the aligned length, eight bytes early: \<open>copied_amount r\<close> is how much of \<open>r\<close>
  bytes it moves. Nothing is left behind exactly when \<open>r\<close> leaves no remainder, or one above eight,
  modulo 256.
\<close>

function copied_amount :: "nat \<Rightarrow> nat" where
  "copied_amount r = (if r \<le> 8 then 0 else min r 256 + copied_amount (r - min r 256))"
  by auto
termination
  by (relation "measure id") auto

declare copied_amount.simps [simp del]

definition copies_all :: "nat \<Rightarrow> bool" where
  "copies_all r \<longleftrightarrow> r mod 256 = 0 \<or> 8 < r mod 256"

lemma copied_amount_small: "r \<le> 8 \<Longrightarrow> copied_amount r = 0" "8 < r \<Longrightarrow> r \<le> 256 \<Longrightarrow> copied_amount r = r"
  by (simp_all add: copied_amount.simps)

lemma copied_amount_le: "copied_amount r \<le> r"
  by (induction r rule: copied_amount.induct) (subst copied_amount.simps, auto)

lemma copied_amount_all: "copies_all r \<Longrightarrow> copied_amount r = r"
proof (induction r rule: copied_amount.induct)
  case (1 r)
  show ?case
  proof (cases "r \<le> 8")
    case True
    with 1(2) have "r = 0"
      by (auto simp: copies_all_def)
    then show ?thesis
      by (simp add: copied_amount_small)
  next
    case False
    have "copies_all (r - min r 256)"
      using 1(2) by (cases "256 \<le> r") (simp_all add: copies_all_def le_mod_geq min_def)
    with 1(1) [OF False] False show ?thesis
      by (subst copied_amount.simps) simp
  qed
qed

definition copyable :: "settingsBlock \<Rightarrow> bool" where
  "copyable b \<longleftrightarrow> copies_all (alignLength b) \<and> alignLength b + 8 < 65536"

text \<open>The record as it arrives in the other area.\<close>

definition copied :: "entry \<Rightarrow> entry" where
  "copied e = (let al = alignLength (fst e); n = copied_amount al
     in (fst e, take n (snd e) @ replicate (al - n) 0xFF))"

lemma fst_copied [simp]: "fst (copied e) = fst e" "entry_size (copied e) = entry_size e"
  by (simp_all add: copied_def Let_def entry_size_def)

lemma copied_id: "copyable (fst e) \<Longrightarrow> length (snd e) = alignLength (fst e) \<Longrightarrow> copied e = e"
  by (cases e) (simp add: copied_def copyable_def copied_amount_all)

lemma write_at_fields [simp]:
  "base_address (write_at a bs s) = base_address s" "used_size (write_at a bs s) = used_size s"
  "fmem (write_at a bs s) = flash_write a bs (fmem s)"
  by (simp_all add: write_at_def)

lemma copy_loop_all:
  assumes "alignLength b + 8 < 65536"
  shows "8 \<le> unat c \<Longrightarrow> unat c + r = alignLength b + 8 \<Longrightarrow>
    start + unat c + r \<le> base_address s + used_size s + unat c \<or>
      base_address s + used_size s + unat c + r \<le> start + unat c \<Longrightarrow>
    copy_loop start b c s
      = Some (write_at (base_address s + used_size s + unat c) (flash_read (fmem s) (start + unat c) (copied_amount r)) s)"
proof (induction r arbitrary: c s rule: less_induct)
  case (less r)
  let ?al = "getAlignLength (blength b)" and ?d = "base_address s + used_size s"
  show ?case
  proof (cases "r \<le> 8")
    case True
    then have "\<not> c < ?al"
      using less.prems(2) by (simp add: word_less_nat_alt)
    with True show ?thesis
      by (subst copy_loop.simps) (simp add: write_at_def flash_read_def copied_amount_small)
  next
    case False
    then have lt: "c < ?al" and le: "unat c \<le> unat ?al"
      using less.prems(2) by (simp_all add: word_less_nat_alt)
    define n where "n = (if 256 > ?al - c + 8 then ?al - c + 8 else 256)"
    have "unat (?al - c) = unat ?al - unat c"
      using le by (simp add: unat_sub word_le_nat_alt)
    moreover have "unat ?al + 8 - unat c = r" "r < 65536"
      using less.prems(1,2) assms by simp_all
    ultimately have rem: "unat (?al - c + 8) = r"
      using less.prems(1,2) le assms by (subst unat_plus_if_size) (simp add: word_size)
    then have n: "unat n = min r 256"
      by (simp add: n_def word_less_nat_alt min_def)
    have cn: "unat (c + n) = unat c + min r 256"
      using n less.prems(2) assms by (subst unat_plus_if_size) (auto simp: word_size)
    let ?s1 = "write_at (?d + unat c) (flash_read (fmem s) (start + unat c) (min r 256)) s"
    have step: "copy_loop start b c s = copy_loop start b (c + n) ?s1"
    proof -
      have "(if kCopyBufferSize > ?al - c + 8 then ?al - c + 8 else kCopyBufferSize) = n"
        by (simp add: n_def kCopyBufferSize_def)
      then show ?thesis
        by (subst copy_loop.simps) (simp only: Let_def lt if_True n)
    qed
    let ?n = "copied_amount (r - min r 256)"
    have keep: "flash_read (fmem ?s1) (start + unat c + min r 256) ?n
        = flash_read (fmem s) (start + unat c + min r 256) ?n"
    proof (rule flash_read_eqI)
      fix i assume i: "start + unat c + min r 256 \<le> i" "i < start + unat c + min r 256 + ?n"
      then have "i < start + unat c + r"
        using copied_amount_le [of "r - min r 256"] by linarith
      with i less.prems(3) show "fmem ?s1 i = fmem s i"
        by (auto simp: flash_write_outside)
    qed
    have all: "write_at (?d + unat c + min r 256) (flash_read (fmem s) (start + unat c + min r 256) ?n) ?s1
        = write_at (?d + unat c) (flash_read (fmem s) (start + unat c) (copied_amount r)) s"
      using write_at_append [of "?d + unat c" "flash_read (fmem s) (start + unat c) (min r 256)"
          "flash_read (fmem s) (start + unat c + min r 256) ?n" s]
        flash_read_split [of "fmem s" "start + unat c" "min r 256" ?n] copied_amount.simps [of r] False
      by simp
    have "copy_loop start b (c + n) ?s1 = Some (write_at (base_address ?s1 + used_size ?s1 + unat (c + n))
        (flash_read (fmem ?s1) (start + unat (c + n)) ?n) ?s1)"
      by (rule less.IH) (use False less.prems cn in auto)
    then show ?thesis
      unfolding step cn add.assoc [symmetric] using keep all by simp
  qed
qed

lemma copy_block_log:
  assumes ok: "log_ok g s ns" and e: "entry_ok e" "alignLength (fst e) + 8 < 65536"
    and src: "read_block (fmem s) a = fst e" "flash_read (fmem s) (a + 8) (alignLength (fst e)) = snd e"
    and room: "used_size s + entry_size e \<le> settingsSize g"
    and disj: "a + entry_size e \<le> base_address s \<or> base_address s + settingsSize g \<le> a"
  obtains s' where "copy_block (a + 8) (fst e) s = Some s'" "log_ok g s' (ns @ [copied e])"
    "base_address s' = base_address s" "used_size s' = used_size s + entry_size e"
    "\<And>i. i < base_address s + used_size s \<or> base_address s + settingsSize g \<le> i \<Longrightarrow> fmem s' i = fmem s i"
proof -
  let ?d = "base_address s + used_size s" and ?al = "alignLength (fst e)"
  let ?n = "copied_amount ?al"
  have sz: "entry_size e = ?al + 8" and n: "?n \<le> ?al"
    by (simp_all add: entry_size_def copied_amount_le)
  let ?s1 = "write_at ?d (block_bytes (fst e)) s"
  have "flash_read (fmem ?s1) (a + 8) ?al = snd e"
    using src(2) flash_read_eqI [of "a + 8" ?al "fmem ?s1" "fmem s"] disj room sz by (auto simp: flash_write_outside)
  then have src1: "flash_read (fmem ?s1) (a + 8) ?n = take ?n (snd e)"
    using take_flash_read [OF n] by metis
  let ?m = "flash_write (?d + 8) (take ?n (snd e)) (fmem ?s1)"
  have c: "copy_block (a + 8) (fst e) s = Some (s\<lparr>fmem := ?m, used_size := used_size s + entry_size e\<rparr>)"
  proof -
    have "copy_loop a (fst e) 8 ?s1 = Some (write_at (?d + 8) (flash_read (fmem ?s1) (a + 8) ?n) ?s1)"
      using copy_loop_all [OF e(2), of 8 ?al a ?s1] disj room sz by auto
    then show ?thesis
      unfolding src1 by (simp add: copy_block_def sizeof_settingsBlock_def write_at_def sz add.commute)
  qed
  have len: "length (take ?n (snd e)) = ?n"
    using src(2) n by (metis length_flash_read length_take min.absorb2)
  have blank: "fmem s i = 0xFF" if "?d \<le> i" "i < ?d + 8 + ?al" for i
    using ok room sz that by (auto simp: log_ok_def)
  have "read_block (fmem ?s1) ?d = fst e"
    using blank by (simp add: read_block_write read_block_blank)
  moreover have "read_block ?m ?d = read_block (fmem ?s1) ?d"
    by (rule read_block_cong) (simp add: flash_write_outside)
  ultimately have hdr: "read_block ?m ?d = fst e"
    by simp
  have dat: "flash_read ?m (?d + 8) ?al = snd (copied e)"
    using read_blank_data [of "?d + 8" ?al "fmem ?s1" "take ?n (snd e)"] blank len n
    by (simp add: flash_write_outside copied_def Let_def)
  have out: "?m i = fmem s i" if "i < ?d \<or> ?d + entry_size e \<le> i" for i
    using that len n sz by (auto simp: flash_write_outside)
  have ce: "(fst e, snd (copied e)) = copied e"
    by (simp add: copied_def Let_def)
  have "log_ok g (s\<lparr>fmem := ?m, used_size := used_size s + entry_size e\<rparr>) (ns @ [(fst e, snd (copied e))])"
    by (rule log_snoc [OF ok]) (use room hdr dat out e sz in \<open>auto simp: entry_size_def entry_ok_def\<close>)
  with c ce show thesis
    by (intro that [of "s\<lparr>fmem := ?m, used_size := used_size s + entry_size e\<rparr>"]) (use room out in auto)
qed

subsection \<open>Which records are copied\<close>

fun kept :: "entry list \<Rightarrow> entry list" where
  "kept [] = []"
| "kept (e # es) =
     (if elive e \<and> \<not> (\<exists>x \<in> set es. elive x \<and> estart x \<and> ekey x = ekey e) then e # kept es else kept es)"

lemma kept_subset: "e \<in> set (kept es) \<Longrightarrow> e \<in> set es \<and> elive e"
  by (induction es) (auto split: if_splits)

lemma kept_size: "log_size (kept es) \<le> log_size es"
  by (induction es) auto

definition other_area :: "store \<Rightarrow> geometry \<Rightarrow> nat \<Rightarrow> nat \<Rightarrow> bool" where
  "other_area s g a limit \<longleftrightarrow> limit \<le> base_address s \<or> base_address s + settingsSize g \<le> a"

lemma swap_loop_log:
  "log_at (fmem s) a es \<Longrightarrow> log_ok g s ns \<Longrightarrow> \<forall>e \<in> set es. entry_ok e \<Longrightarrow> \<forall>e \<in> set (kept es). alignLength (fst e) + 8 < 65536 \<Longrightarrow>
   used_size s + log_size es \<le> settingsSize g \<Longrightarrow> other_area s g a (a + log_size es) \<Longrightarrow>
   \<exists>s'. swap_loop (a + log_size es) a s = Some s' \<and> log_ok g s' (ns @ map copied (kept es)) \<and> base_address s' = base_address s \<and>
     (\<forall>i. i < base_address s + used_size s \<or> base_address s + settingsSize g \<le> i \<longrightarrow> fmem s' i = fmem s i)"
proof (induction es arbitrary: a s ns)
  case Nil
  then show ?case
    by (subst swap_loop.simps) simp
next
  case (Cons e es)
  let ?next = "a + entry_size e"
  have hd: "read_block (fmem s) a = fst e" "flash_read (fmem s) (a + 8) (alignLength (fst e)) = snd e"
    and tl: "log_at (fmem s) ?next es"
    using Cons.prems(1) by simp_all
  have nxt: "a + sizeof_settingsBlock + alignLength (fst e) = ?next" and a8: "a + sizeof_settingsBlock = a + 8"
    by (simp_all add: entry_size_def sizeof_settingsBlock_def)
  define L where "L = a + log_size (e # es)"
  have lim: "a < L" "L = ?next + log_size es"
    using entry_size_pos [of e] by (simp_all add: L_def del: entry_size_pos)
  have sup: "superseded (fmem s) (ekey e) L ?next \<longleftrightarrow> (\<exists>x \<in> set es. elive x \<and> estart x \<and> ekey x = ekey e)"
    unfolding lim(2) by (rule superseded_log [OF tl])
  have "bit (0xff :: u16) 0 \<and> \<not> bit (flag (fst e)) 0"
    using Cons.prems(3) by (simp add: entry_ok_def flag_bits ff_bits)
  then have noff: "flag (fst e) \<noteq> 0xff"
    by metis
  note step = swap_loop.simps [of L a s]
  have oth: "L \<le> base_address s \<or> base_address s + settingsSize g \<le> a"
    using Cons.prems(6) by (simp add: other_area_def L_def)
  show ?case
  proof (cases "elive e \<and> \<not> (\<exists>x \<in> set es. elive x \<and> estart x \<and> ekey x = ekey e)")
    case False
    then have "swap_loop L a s = swap_loop L ?next s"
      using lim(1) sup noff by (subst step) (auto simp: Let_def hd(1) nxt)
    moreover have "kept (e # es) = kept es"
      using False by auto
    moreover have "other_area s g ?next (?next + log_size es)"
      using oth lim(2) by (auto simp: other_area_def)
    ultimately show ?thesis
      unfolding L_def [symmetric] using Cons.IH [OF tl Cons.prems(2)] Cons.prems(3-5)
      by (simp only: lim(2) kept.simps) simp
  next
    case True
    then have keep: "kept (e # es) = e # kept es"
      by simp
    have "entry_ok e" "alignLength (fst e) + 8 < 65536"
      using Cons.prems(3,4) keep by simp_all
    moreover have "used_size s + entry_size e \<le> settingsSize g"
      "a + entry_size e \<le> base_address s \<or> base_address s + settingsSize g \<le> a"
      using Cons.prems(5) oth lim(2) by auto
    ultimately obtain s1 where c: "copy_block (a + 8) (fst e) s = Some s1" "log_ok g s1 (ns @ [copied e])"
        "base_address s1 = base_address s" "used_size s1 = used_size s + entry_size e"
        "\<And>i. i < base_address s + used_size s \<or> base_address s + settingsSize g \<le> i \<Longrightarrow> fmem s1 i = fmem s i"
      by (rule copy_block_log [OF Cons.prems(2) _ _ hd]) blast
    have st: "swap_loop L a s = swap_loop L ?next s1"
      using True lim(1) sup c(1) by (subst step) (auto simp: Let_def hd(1) nxt [unfolded sizeof_settingsBlock_def] sizeof_settingsBlock_def)
    have "log_at (fmem s1) ?next es"
      by (rule log_at_cong [OF tl]) (use oth lim(2) c(5) in auto)
    then have "\<exists>s'. swap_loop (?next + log_size es) ?next s1 = Some s' \<and> log_ok g s' ((ns @ [copied e]) @ map copied (kept es)) \<and>
        base_address s' = base_address s1 \<and>
        (\<forall>i. i < base_address s1 + used_size s1 \<or> base_address s1 + settingsSize g \<le> i \<longrightarrow> fmem s' i = fmem s1 i)"
      by (rule Cons.IH) (use c Cons.prems(3-5) keep oth lim(2) in \<open>auto simp: other_area_def\<close>)
    with c(3-5) show ?thesis
      unfolding L_def [symmetric] st keep lim(2) [symmetric] by auto
  qed
qed

text \<open>
  The swap decides by live index-0 records only, while a look-up is also reset by deleted ones. A
  deleted index-0 record that hides older live records, with no live one after it, is forgotten by
  the swap and uncovers them.
\<close>

definition hiding :: "u16 \<Rightarrow> entry list \<Rightarrow> bool" where
  "hiding k es \<longleftrightarrow> (\<exists>us e vs. es = us @ e # vs \<and> ekey e = k \<and> estart e \<and> \<not> elive e \<and>
     (\<exists>x \<in> set us. elive x \<and> ekey x = k) \<and> \<not> (\<exists>y \<in> set vs. elive y \<and> estart y \<and> ekey y = k))"

lemma vals_filter: "vals k acc es = vals k acc (filter (\<lambda>e. ekey e = k) es)"
  by (induction es arbitrary: acc) simp_all

lemma kept_snoc: "filter (\<lambda>e. ekey e = k) (kept (es @ [e])) =
    (if ekey e = k \<and> elive e \<and> estart e then [e]
     else filter (\<lambda>e. ekey e = k) (kept es) @ (if ekey e = k \<and> elive e then [e] else []))"
proof (induction es)
  case (Cons x xs)
  show ?case
  proof (cases "ekey x = k")
    case False
    with Cons show ?thesis by simp
  next
    case key: True
    show ?thesis
    proof (cases "ekey e = k \<and> elive e \<and> estart e")
      case True
      then have "\<exists>y \<in> set (xs @ [e]). elive y \<and> estart y \<and> ekey y = ekey x"
        using key by simp
      then have "kept ((x # xs) @ [e]) = kept (xs @ [e])"
        by (simp only: append_Cons kept.simps) simp
      with Cons True show ?thesis by simp
    next
      case False
      then have "(\<exists>y \<in> set (xs @ [e]). elive y \<and> estart y \<and> ekey y = ekey x) \<longleftrightarrow>
          (\<exists>y \<in> set xs. elive y \<and> estart y \<and> ekey y = ekey x)"
        using key by auto
      then have "kept ((x # xs) @ [e]) = (if elive x \<and> \<not> (\<exists>y \<in> set xs. elive y \<and> estart y \<and> ekey y = ekey x)
          then x # kept (xs @ [e]) else kept (xs @ [e]))"
        by (simp only: append_Cons kept.simps)
      moreover have "filter (\<lambda>e. ekey e = k) (kept (xs @ [e])) =
          filter (\<lambda>e. ekey e = k) (kept xs) @ (if ekey e = k \<and> elive e then [e] else [])"
        using Cons False by simp
      ultimately show ?thesis
        using False key by (simp only: filter.simps kept.simps if_False split: if_split) simp
    qed
  qed
qed simp

lemma hiding_snoc:
  assumes "hiding k es" "\<not> (ekey e = k \<and> elive e \<and> estart e)"
  shows "hiding k (es @ [e])"
proof -
  obtain us x vs where x: "es = us @ x # vs" "ekey x = k" "estart x" "\<not> elive x"
      "\<exists>x \<in> set us. elive x \<and> ekey x = k" "\<not> (\<exists>y \<in> set vs. elive y \<and> estart y \<and> ekey y = k)"
    using assms(1) unfolding hiding_def by blast
  have "es @ [e] = us @ x # (vs @ [e])" "\<not> (\<exists>y \<in> set (vs @ [e]). elive y \<and> estart y \<and> ekey y = k)"
    using x(1,6) assms(2) by auto
  with x(2-5) show ?thesis
    unfolding hiding_def by blast
qed

lemma vals_kept: "\<not> hiding k es \<Longrightarrow> vals k [] (kept es) = vals k [] es"
proof (induction es rule: rev_induct)
  case (snoc e es)
  have V: "vals k [] (es @ [e]) = vals k (vals k [] es) [e]"
    by (rule vals_append)
  have W: "vals k [] (kept (es @ [e])) = vals k [] (filter (\<lambda>e. ekey e = k) (kept (es @ [e])))"
    by (rule vals_filter)
  consider "ekey e = k \<and> elive e \<and> estart e" | "ekey e = k \<and> estart e \<and> \<not> elive e"
    | "ekey e \<noteq> k \<or> \<not> estart e"
    by blast
  then show ?case
  proof cases
    case 1
    then show ?thesis
      unfolding V W kept_snoc by simp
  next
    case 2
    have "\<not> (\<exists>x \<in> set es. elive x \<and> ekey x = k)"
      using snoc.prems 2 unfolding hiding_def by (metis empty_iff empty_set)
    then have "filter (\<lambda>e. ekey e = k) (kept es) = []"
      using kept_subset by (auto simp: filter_empty_conv)
    with 2 show ?thesis
      unfolding V W kept_snoc by simp
  next
    case 3
    then have "\<not> hiding k es"
      using snoc.prems hiding_snoc by blast
    then have IH: "vals k [] (kept es) = vals k [] es"
      by (rule snoc.IH)
    from 3 show ?thesis
      unfolding V W kept_snoc by (auto simp: vals_append IH simp flip: vals_filter)
  qed
qed simp

subsection \<open>The swap\<close>

lemma log_ok_flag_write:
  assumes "log_ok g s es" "length bs = 4" "a + 4 \<le> base_address s + 4 \<or> base_address s + settingsSize g \<le> a"
  shows "log_ok g (write_at a bs s) es"
proof -
  have out: "flash_write a bs (fmem s) i = fmem s i" if "base_address s + 4 \<le> i" "i < base_address s + settingsSize g" for i
    using that assms(2,3) by (auto simp: flash_write_outside)
  have "log_at (flash_write a bs (fmem s)) (base_address s + 4) es"
    by (rule log_at_cong [of "fmem s"]) (use assms(1) out in \<open>auto simp: log_ok_def\<close>)
  then show ?thesis
    using assms(1) out by (auto simp: log_ok_def write_at_def)
qed

text \<open>The area the log moves to, and the store when copying begins.\<close>

definition other_base :: "geometry \<Rightarrow> store \<Rightarrow> nat" where
  "other_base g s = (if base_address s = 0 then settingsSize g else 0)"

definition swap_begun :: "geometry \<Rightarrow> store \<Rightarrow> store" where
  "swap_begun g s = (initSettings g (other_base g s) kSettingsInSwap (s\<lparr>base_address := other_base g s\<rparr>))
     \<lparr>used_size := kSettingsFlagSize\<rparr>"

lemma swapSettingsBlock_eq:
  assumes "active g s" "numPages g > 1"
  shows "swapSettingsBlock g s = (case swap_loop (base_address s + used_size s) (base_address s + kSettingsFlagSize) (swap_begun g s) of
      None \<Rightarrow> None
    | Some s2 \<Rightarrow>
        let s3 = setSettingsFlag (base_address s) kSettingsNotUse (setSettingsFlag (base_address s2) kSettingsInUse s2)
        in Some ((settingsSize g + 2 ^ 32 - used_size s3) mod 2 ^ 32, s3))"
proof -
  have "(if base_address s = SETTINGS_CONFIG_BASE_ADDRESS then base_address s + settingsSize g
      else SETTINGS_CONFIG_BASE_ADDRESS) = other_base g s"
    by (simp add: other_base_def SETTINGS_CONFIG_BASE_ADDRESS_def)
  then show ?thesis
    using assms(2) unfolding swapSettingsBlock_def Let_def swap_begun_def by (simp only: not_True_eq_False if_False)
qed

lemma other_base:
  assumes "active g s" "geom_ok g"
  shows "base_address s = 0 \<and> other_base g s = settingsSize g \<or> base_address s = settingsSize g \<and> other_base g s = 0"
    "4 \<le> settingsSize g" "unat (pageSize g) dvd other_base g s" "4 dvd other_base g s"
  using assms dvd_imp_le [of 4 "settingsSize g"] by (auto simp: other_base_def active_def geom_ok_def)

lemma swap_begun:
  assumes ok: "log_ok g s es" and act: "active g s" and geo: "geom_ok g"
  shows "base_address (swap_begun g s) = other_base g s" "used_size (swap_begun g s) = 4" "log_ok g (swap_begun g s) []"
    "read_flag (fmem (swap_begun g s)) (other_base g s) = kSettingsInSwap"
    "\<And>i. i < other_base g s \<or> other_base g s + settingsSize g \<le> i \<Longrightarrow> fmem (swap_begun g s) i = fmem s i"
proof -
  have s1: "swap_begun g s = (initSettings g (other_base g s) kSettingsInSwap s)\<lparr>base_address := other_base g s, used_size := 4\<rparr>"
    by (simp add: swap_begun_def initSettings_def setSettingsFlag_def write_at_def kSettingsFlagSize_def)
  note i = initSettings_log [OF geo other_base(3,4) [OF act geo], where f = kSettingsInSwap and s = s, folded s1]
  show "base_address (swap_begun g s) = other_base g s" "used_size (swap_begun g s) = 4"
    by (simp_all add: s1)
  show "log_ok g (swap_begun g s) []" "read_flag (fmem (swap_begun g s)) (other_base g s) = kSettingsInSwap"
    "\<And>i. i < other_base g s \<or> other_base g s + settingsSize g \<le> i \<Longrightarrow> fmem (swap_begun g s) i = fmem s i"
    by (fact i)+
qed

lemma swap_copies:
  assumes ok: "log_ok g s es" and act: "active g s" and geo: "geom_ok g"
    and copy: "\<forall>e \<in> set (kept es). alignLength (fst e) + 8 < 65536"
  obtains s2 where
    "swap_loop (base_address s + used_size s) (base_address s + kSettingsFlagSize) (swap_begun g s) = Some s2"
    "log_ok g s2 (map copied (kept es))" "base_address s2 = other_base g s"
    "\<forall>i. i < other_base g s + 4 \<or> other_base g s + settingsSize g \<le> i \<longrightarrow> fmem s2 i = fmem (swap_begun g s) i"
proof -
  define A where "A = base_address s"
  define s1 where "s1 = swap_begun g s"
  note AB = other_base(1) [OF act geo, folded A_def]
  note i = swap_begun [OF ok act geo, folded s1_def]
  have used: "A + used_size s = A + 4 + log_size es" and fits: "4 + log_size es \<le> settingsSize g"
    and eok: "\<forall>e \<in> set es. entry_ok e" and log: "log_at (fmem s) (A + 4) es"
    using ok by (simp_all add: log_ok_def A_def)
  have oldlog: "log_at (fmem s1) (A + 4) es"
  proof (rule log_at_cong [OF log])
    fix j assume "A + 4 \<le> j" "j < A + 4 + log_size es"
    with AB fits show "fmem s j = fmem s1 j"
      by (intro i(5) [symmetric]) linarith
  qed
  have "other_area s1 g (A + 4) (A + 4 + log_size es)"
    using AB fits by (auto simp: other_area_def i)
  from swap_loop_log [OF oldlog i(3) eok copy _ this] obtain s2 where
    "swap_loop (A + used_size s) (A + 4) s1 = Some s2" "log_ok g s2 (map copied (kept es))" "base_address s2 = other_base g s"
      "\<forall>j. j < other_base g s + 4 \<or> other_base g s + settingsSize g \<le> j \<longrightarrow> fmem s2 j = fmem s1 j"
    using fits by (auto simp: i(1,2) used)
  then show thesis
    by (intro that [of s2]) (simp_all add: A_def s1_def kSettingsFlagSize_def)
qed

lemma swap_log:
  assumes ok: "log_ok g s es" and act: "active g s" and geo: "geom_ok g" and small: "settingsSize g < 2 ^ 32"
    and copy: "\<forall>e \<in> set (kept es). alignLength (fst e) + 8 < 65536"
  obtains s' where "swapSettingsBlock g s = Some (settingsSize g - used_size s', s')" "log_ok g s' (map copied (kept es))" "active g s'"
proof -
  define A where "A = base_address s"
  define B where "B = other_base g s"
  note AB = other_base(1) [OF act geo, folded A_def B_def] and size = other_base(2) [OF act geo]
  obtain s2 where s2: "swap_loop (A + used_size s) (A + kSettingsFlagSize) (swap_begun g s) = Some s2"
    "log_ok g s2 (map copied (kept es))" "base_address s2 = B"
    "\<forall>i. i < B + 4 \<or> B + settingsSize g \<le> i \<longrightarrow> fmem s2 i = fmem (swap_begun g s) i"
    unfolding A_def B_def by (rule swap_copies [OF ok act geo copy])
  let ?f1 = "PUTLE32 kSettingsInUse [0, 0, 0, 0]" and ?f2 = "PUTLE32 kSettingsNotUse [0, 0, 0, 0]"
  define s3 where "s3 = write_at A ?f2 (write_at B ?f1 s2)"
  have len: "length ?f1 = 4" "length ?f2 = 4"
    by (simp_all add: le32.put_length)
  have pages: "numPages g > 1"
    using geo by (simp add: geom_ok_def)
  have "swapSettingsBlock g s = Some ((settingsSize g + 2 ^ 32 - used_size s3) mod 2 ^ 32, s3)"
    unfolding swapSettingsBlock_eq [OF act pages] A_def [symmetric] s2(1)
    by (simp only: s2 option.case s3_def setSettingsFlag_def Let_def)
  moreover have log3: "log_ok g s3 (map copied (kept es))"
    unfolding s3_def by (intro log_ok_flag_write) (use s2 AB size len in auto)
  moreover have "(settingsSize g + 2 ^ 32 - used_size s3) mod 2 ^ 32 = settingsSize g - used_size s3"
  proof -
    have "used_size s3 \<le> settingsSize g"
      using log3 by (simp add: log_ok_def)
    then have "settingsSize g + 2 ^ 32 - used_size s3 = 2 ^ 32 + (settingsSize g - used_size s3)"
      by simp
    moreover have "settingsSize g - used_size s3 < 2 ^ 32"
      using small by linarith
    ultimately show ?thesis
      by (metis mod_add_self1 mod_less)
  qed
  moreover have "active g s3"
  proof -
    have f2: "read_flag (fmem s2) B = kSettingsInSwap"
      using swap_begun(4) [OF ok act geo] read_flag_cong [of B "fmem s2" "fmem (swap_begun g s)"] s2(4) by (simp add: B_def)
    have "read_flag (fmem s3) B = read_flag (flash_write B ?f1 (fmem s2)) B"
      unfolding s3_def by (rule read_flag_cong) (use AB size len in \<open>auto simp: flash_write_outside\<close>)
    also have "\<dots> = kSettingsInUse"
      by (simp add: read_flag_write f2 kSettingsInUse_def kSettingsInSwap_def)
    finally have B: "read_flag (fmem s3) B = kSettingsInUse" .
    have "read_flag (fmem s3) A = read_flag (flash_write B ?f1 (fmem s2)) A AND kSettingsNotUse"
      by (simp add: s3_def read_flag_write)
    then have "\<not> bit (read_flag (fmem s3) A) 1"
      by (simp add: bit_and_iff kSettingsNotUse_def)
    moreover have "bit kSettingsInUse 1"
      by (simp add: kSettingsInUse_def)
    ultimately have "read_flag (fmem s3) A \<noteq> kSettingsInUse"
      by metis
    with B AB s2(3) show ?thesis
      by (auto simp: active_def s3_def)
  qed
  ultimately show thesis
    by (intro that) auto
qed

text \<open>A swap changes no key's values if every copied record is copied whole and nothing hides.\<close>

definition swappable :: "entry list \<Rightarrow> bool" where
  "swappable es \<longleftrightarrow> (\<forall>e \<in> set (kept es). copyable (fst e)) \<and> (\<forall>k. \<not> hiding k es)"

lemma log_at_length: "log_at mem a es \<Longrightarrow> e \<in> set es \<Longrightarrow> length (snd e) = alignLength (fst e)"
  by (induction es arbitrary: a) auto

lemma swappable_swap:
  assumes "log_ok g s es" "swappable es"
  shows "map copied (kept es) = kept es" "\<forall>e \<in> set (kept es). alignLength (fst e) + 8 < 65536"
proof -
  have "copied e = e" if "e \<in> set (kept es)" for e
    using that assms kept_subset [OF that] log_at_length [of "fmem s" "base_address s + 4" es e]
    by (intro copied_id) (auto simp: swappable_def log_ok_def)
  then show "map copied (kept es) = kept es"
    by (simp add: map_idI)
  show "\<forall>e \<in> set (kept es). alignLength (fst e) + 8 < 65536"
    using assms(2) by (simp add: swappable_def copyable_def)
qed

subsection \<open>Adding records, with and without a swap\<close>

lemma add_active:
  assumes "active g s" "base_address s' = base_address s"
    and "\<And>i. i < base_address s + 4 \<Longrightarrow> fmem s' i = fmem s i"
  shows "active g s'"
proof -
  have "read_flag (fmem s') (base_address s) = read_flag (fmem s) (base_address s)"
    by (rule read_flag_cong) (use assms(3) in auto)
  moreover have "read_flag (fmem s') 0 = read_flag (fmem s) 0"
    by (rule read_flag_cong) (use assms(3) in auto)
  ultimately show ?thesis
    using assms(1,2) by (simp add: active_def)
qed

text \<open>Adding a record where there is room.\<close>

lemma append_record:
  assumes ok: "log_ok g s es" and act: "active g s"
    and len: "length (concat vs) \<le> 65532" and contig: "contiguous 0 vs"
    and b: "b = new_block k i0 (vector_length vs) st" and room: "used_size s + (alignLength b + 8) \<le> settingsSize g"
  obtains e where "log_ok g (add_complete b (add_data vs (add_begin b s))) (es @ [e])"
    "active g (add_complete b (add_data vs (add_begin b s)))"
    "ekey e = k" "elive e" "estart e = i0" "evalue e = concat vs"
proof -
  note a = add_record [OF ok b len contig room]
  have "unat (vector_length vs) = length (concat vs)"
    using len by (simp add: vector_length_eq unat_of_nat)
  moreover have "4 \<le> used_size s"
    using ok by (simp add: log_ok_def)
  then have "active g (add_complete b (add_data vs (add_begin b s)))"
    by (intro add_active [OF act a(2)] a(3)) auto
  ultimately show thesis
    using a(1) by (intro that [of "record_of (completed b) (concat vs)"])
      (simp_all add: b new_block_fields evalue_record_of)
qed

text \<open>The room a record takes.\<close>

lemma record_size:
  assumes "length (concat vs) \<le> 65532"
  shows "alignLength (new_block k i0 (vector_length vs) st) + 8 = (length (concat vs) + 3) div 4 * 4 + 8"
proof -
  have "unat (vector_length vs) = length (concat vs)"
    using assms by (simp add: vector_length_eq unat_of_nat)
  then show ?thesis
    using getAlignLength_eq [of "vector_length vs"] assms by (simp add: new_block_fields)
qed

end
