(* ===== verification/SettingsStore.thy ===== *)
theory SettingsStore
  imports SettingsSwap
begin

text \<open>
  The settings store as its users see it: \<open>holds g s m\<close> says that the flash holds, for each key
  \<open>k\<close>, the list of values \<open>m k\<close>. The properties below give the effect of every operation of
  \<^verbatim>\<open>cascoda-util/include/cascoda-util/cascoda_settings.h\<close> on \<open>m\<close>, and the places where the code
  departs from that contract.
\<close>

unbundle bit_operations_syntax

subsection \<open>The abstract store\<close>

definition holds :: "geometry \<Rightarrow> store \<Rightarrow> entry list \<Rightarrow> (u16 \<Rightarrow> bytes list) \<Rightarrow> bool" where
  "holds g s es m \<longleftrightarrow> log_ok g s es \<and> active g s \<and> geom_ok g \<and> settingsSize g < 2 ^ 32 \<and> (\<forall>k. m k = vals k [] es)"

text \<open>
  The witnesses start from a flash of two pages of 64 bytes whose first page was just set up.
\<close>

definition demo_geometry :: geometry where
  "demo_geometry = \<lparr>numPages = 2, pageSize = 64\<rparr>"

definition demo_store :: store where
  "demo_store = (initSettings demo_geometry 0 kSettingsInUse \<lparr>fmem = (\<lambda>_. 0xFF), base_address = 0, used_size = 0\<rparr>)
     \<lparr>base_address := 0, used_size := 4\<rparr>"

lemma demo_size [simp]: "settingsSize demo_geometry = 64"
  by (simp add: settingsSize_def demo_geometry_def)

lemma demo_geom_ok: "geom_ok demo_geometry"
  by (simp add: geom_ok_def) (simp add: demo_geometry_def)

lemma demo_holds: "holds demo_geometry demo_store [] (\<lambda>_. [])"
proof -
  note i = initSettings_log [OF demo_geom_ok, of 0, where f = kSettingsInUse and s = "\<lparr>fmem = (\<lambda>_. 0xFF), base_address = 0, used_size = 0\<rparr>",
      folded demo_store_def]
  have "base_address demo_store = 0"
    by (simp add: demo_store_def)
  then show ?thesis
    using i(1,2) demo_geom_ok by (simp add: holds_def active_def)
qed

lemma swappable_Nil [simp]: "swappable []"
  by (simp add: swappable_def hiding_def)

subsection \<open>Set and add\<close>

text \<open>
  What a swap makes of the values: only the last complete record with the index-0 flag and those after it
  are copied, whether or not a deleted one is in between, and not every record is copied whole.
\<close>

definition after_swap :: "entry list \<Rightarrow> u16 \<Rightarrow> bytes list" where
  "after_swap es k = vals k [] (map copied (kept es))"

abbreviation short_records :: "entry list \<Rightarrow> bool" where
  "short_records es \<equiv> \<forall>e \<in> set (kept es). unat (blength (fst e)) \<le> 65524"

lemma short_record_size: "unat (blength b) \<le> 65524 \<Longrightarrow> alignLength b + 8 < 65536"
  using getAlignLength_eq [of "blength b"] by (simp add: div_le_mono [of _ 65527 4, simplified] le_less_trans)

lemma after_swap_faithful:
  assumes "holds g s es m" "swappable es"
  shows "after_swap es = m"
  using assms swappable_swap(1) [of g s es] vals_kept [of _ es]
  by (auto simp: after_swap_def holds_def swappable_def)

lemma log_size_copied: "log_size (map copied es) = log_size es"
  by (induction es) simp_all

lemma swap_holds:
  assumes "holds g s es m" "short_records es"
  obtains s' where "swapSettingsBlock g s = Some (settingsSize g - used_size s', s')"
    "holds g s' (map copied (kept es)) (after_swap es)" "used_size s' = 4 + log_size (kept es)"
proof -
  have a: "log_ok g s es" "active g s" "geom_ok g" "settingsSize g < 2 ^ 32"
    using assms(1) by (simp_all add: holds_def)
  have "\<forall>e \<in> set (kept es). alignLength (fst e) + 8 < 65536"
    using assms(2) short_record_size by blast
  from swap_log [OF a this] obtain s' where s': "swapSettingsBlock g s = Some (settingsSize g - used_size s', s')"
    "log_ok g s' (map copied (kept es))" "active g s'" by blast
  then show thesis
    using a by (intro that [of s']) (simp_all add: holds_def after_swap_def log_ok_def log_size_copied)
qed

text \<open>
  What adding a value \<open>v\<close> to \<open>m\<close> gives: if it fits, at once; if it does not, after a swap; or
  \<open>CA_ERROR_NO_BUFFER\<close> when it does not fit after the swap either.
\<close>

definition record_room :: "bytes \<Rightarrow> nat" where
  "record_room v = (length v + 3) div 4 * 4 + 8"

definition added ::
  "geometry \<Rightarrow> store \<Rightarrow> entry list \<Rightarrow> (u16 \<Rightarrow> bytes list) \<Rightarrow> bytes \<Rightarrow>
     ((u16 \<Rightarrow> bytes list) \<Rightarrow> u16 \<Rightarrow> bytes list) \<Rightarrow> (ca_error \<times> (u16 \<Rightarrow> bytes list))" where
  "added g s es m v upd =
     (if used_size s + record_room v < settingsSize g then (CA_ERROR_SUCCESS, upd m)
      else if 4 + log_size (kept es) + record_room v \<le> settingsSize g then (CA_ERROR_SUCCESS, upd (after_swap es))
      else (CA_ERROR_NO_BUFFER, after_swap es))"

lemma add_holds:
  assumes "holds g s es m" "short_records es" "length (concat vs) \<le> 65532" "contiguous 0 vs"
  shows "\<exists>s' es'. addSettingVector g st k i0 vs s =
      Some (fst (added g s es m (concat vs) (\<lambda>m. m(k := (if i0 then [] else m k) @ [concat vs]))), s') \<and>
    holds g s' es' (snd (added g s es m (concat vs) (\<lambda>m. m(k := (if i0 then [] else m k) @ [concat vs]))))"
proof -
  define b where "b = new_block k i0 (vector_length vs) st"
  have need: "alignLength b + 8 = record_room (concat vs)"
    unfolding b_def record_room_def by (rule record_size [OF assms(3)])
  have adds: "\<exists>es'. holds g (add_complete b (add_data vs (add_begin b t))) es' (n(k := (if i0 then [] else n k) @ [concat vs]))"
    if t: "holds g t fs n" "used_size t + record_room (concat vs) \<le> settingsSize g" for t fs n
  proof -
    have a: "log_ok g t fs" "active g t" "geom_ok g" "settingsSize g < 2 ^ 32" and n: "\<And>k. n k = vals k [] fs"
      using t(1) by (simp_all add: holds_def)
    obtain e where e: "log_ok g (add_complete b (add_data vs (add_begin b t))) (fs @ [e])"
      "active g (add_complete b (add_data vs (add_begin b t)))"
      "ekey e = k" "elive e" "estart e = i0" "evalue e = concat vs"
      by (rule append_record [OF a(1,2) assms(3,4) b_def]) (use t(2) need in simp, blast)
    have "(n(k := (if i0 then [] else n k) @ [concat vs])) k' = vals k' [] (fs @ [e])" for k'
      using e(3-6) n by (simp add: vals_append)
    with e(1,2) a show ?thesis
      by (intro exI [of _ "fs @ [e]"]) (simp add: holds_def)
  qed
  have def: "addSettingVector g st k i0 vs s =
     (if settingsSize g \<le> used_size s + record_room (concat vs)
      then (case swapSettingsBlock g s of None \<Rightarrow> None
            | Some (left, s1) \<Rightarrow>
                Some (if record_room (concat vs) \<le> left
                      then (CA_ERROR_SUCCESS, add_complete b (add_data vs (add_begin b s1))) else (CA_ERROR_NO_BUFFER, s1)))
      else Some (CA_ERROR_SUCCESS, add_complete b (add_data vs (add_begin b s))))"
    unfolding need [symmetric] by (simp add: addSettingVector_def b_def [symmetric] sizeof_settingsBlock_def Let_def)
  show ?thesis
  proof (cases "used_size s + record_room (concat vs) < settingsSize g")
    case True
    with adds [OF assms(1)] show ?thesis
      by (auto simp: def added_def)
  next
    case False
    obtain s1 where s1: "swapSettingsBlock g s = Some (settingsSize g - used_size s1, s1)"
      "holds g s1 (map copied (kept es)) (after_swap es)" "used_size s1 = 4 + log_size (kept es)"
      by (rule swap_holds [OF assms(1,2)])
    have "used_size s1 \<le> settingsSize g"
      using s1(2) by (simp add: holds_def log_ok_def)
    then have fit: "record_room (concat vs) \<le> settingsSize g - used_size s1 \<longleftrightarrow>
        4 + log_size (kept es) + record_room (concat vs) \<le> settingsSize g"
      using s1(3) by linarith
    show ?thesis
      using False s1 adds [OF s1(2)] fit by (auto simp: def added_def)
  qed
qed

text \<open>
  C1: \<open>caUtilSettingsSet\<close> returns. When the record fits into the area, the key then has exactly the value given and
  every other key its values. When it does not, the log is swapped, and the same holds of what the
  swap leaves; if the record does not fit then either, and only then, the code is \<open>CA_ERROR_NO_BUFFER\<close>,
  and the store is what the swap left. A swap leaves the values as they were if every kept record
  is copied whole and no deleted record hides older ones. (The records a swap would keep are taken to be at most 65524 bytes long.)
\<close>

theorem caUtilSettingsSet_replaces:
  fixes k :: u16
  assumes "holds g s es m" "short_records es" "length v \<le> 65532"
  defines "r \<equiv> added g s es m v (\<lambda>m. m(k := [v]))"
  shows "(\<exists>s' es'. caUtilSettingsSet g st k v s = Some (fst r, s') \<and> holds g s' es' (snd r)) \<and>
    (swappable es \<longrightarrow> after_swap es = m)"
  using add_holds [OF assms(1,2), of "[v]" st k True] after_swap_faithful [OF assms(1)] assms(3)
  by (simp add: caUtilSettingsSet_def r_def)

theorem caUtilSettingsSet_replaces_witness:
  "\<exists>s' es'. caUtilSettingsSet demo_geometry 0 7 [1, 2, 3] demo_store = Some (CA_ERROR_SUCCESS, s') \<and>
     holds demo_geometry s' es' ((\<lambda>_. [])(7 := [[1, 2, 3]]))"
  using caUtilSettingsSet_replaces [OF demo_holds, of "[1, 2, 3]" 0 7]
  by (simp add: added_def record_room_def) (simp add: demo_store_def)

text \<open>
  C2: \<open>caUtilSettingsAddVector\<close> adds the concatenation of its buffers as one more value of the key,
  behind the ones there are, and changes no other key, when every buffer but the last reaches the
  next word boundary of the flash; as with a set, after a swap it adds to what the swap
  leaves (or starts the list of a key that had no value), and \<open>CA_ERROR_NO_BUFFER\<close> comes exactly when
  the record does not fit after the swap either.
  \<open>caUtilSettingsAdd\<close> does the same for a single buffer of any length.
\<close>

theorem caUtilSettingsAddVector_appends:
  fixes k :: u16
  assumes "holds g s es m" "short_records es" "length (concat vs) \<le> 65532" "contiguous 0 vs"
  defines "r \<equiv> added g s es m (concat vs) (\<lambda>n. n(k := (if m k = [] then [] else n k) @ [concat vs]))"
  shows "(\<exists>s' es'. caUtilSettingsAddVector g st k vs s = Some (fst r, s') \<and> holds g s' es' (snd r)) \<and>
    caUtilSettingsAdd g st k (concat vs) s = caUtilSettingsAddVector g st k [concat vs] s \<and>
    (swappable es \<longrightarrow> after_swap es = m)"
proof -
  have "fst (caUtilSettingsGet k 0 False (Some 0) s) = CA_ERROR_NOT_FOUND \<longleftrightarrow> m k = []"
    using assms(1) Get_index0 [of g s es k] by (simp add: holds_def)
  then show ?thesis
    using add_holds [OF assms(1-4), of st k "m k = []"] after_swap_faithful [OF assms(1)]
    by (simp only: r_def caUtilSettingsAddVector_def caUtilSettingsAdd_def Let_def simp_thms) blast
qed

theorem caUtilSettingsAddVector_appends_witness:
  "\<exists>s' es'. caUtilSettingsAddVector demo_geometry 0 7 [[1, 2, 3, 4], [5]] demo_store = Some (CA_ERROR_SUCCESS, s') \<and>
     holds demo_geometry s' es' ((\<lambda>_. [])(7 := [[1, 2, 3, 4, 5]]))"
  using caUtilSettingsAddVector_appends [OF demo_holds, of "[[1, 2, 3, 4], [5]]" 0 7]
  by (simp add: added_def record_room_def after_swap_def) (simp add: demo_store_def)

subsection \<open>Get and delete\<close>

text \<open>
  C3: \<open>caUtilSettingsGet\<close> finds the value at an index of the key's list, and nothing at any other
  index. It copies as much as the buffer takes. The length it stores is the length of the value only
  when no buffer was given or the buffer was large enough; otherwise it is the buffer's.
\<close>

theorem caUtilSettingsGet_finds:
  assumes "holds g s es m"
  shows "(0 \<le> i \<and> i < int (length (m k)) \<longrightarrow>
      caUtilSettingsGet k i True (Some n) s
        = (CA_ERROR_SUCCESS, Some (take (unat n) (m k ! nat i)), Some (min (word_of_nat (length (m k ! nat i))) n)) \<and>
      caUtilSettingsGet k i False (Some n) s = (CA_ERROR_SUCCESS, None, Some (word_of_nat (length (m k ! nat i)))) \<and>
      length (m k ! nat i) < 65536)
    \<and> (i < 0 \<or> int (length (m k)) \<le> i \<longrightarrow> caUtilSettingsGet k i b n' s = (CA_ERROR_NOT_FOUND, None, n'))"
  using assms Get_found(1,2,3) [of g s es i k] Get_not_found [of g s es i k b n'] by (auto simp: holds_def)

theorem caUtilSettingsGet_finds_witness:
  "caUtilSettingsGet 7 0 True (Some 10) demo_store = (CA_ERROR_NOT_FOUND, None, Some 10)"
  using caUtilSettingsGet_finds [OF demo_holds, where i = 0 and k = 7 and b = True and n' = "Some 10"] by simp

text \<open>
  C4: \<open>caUtilSettingsDelete\<close> takes the value at an index out of the key's list, or with index -1
  all of them, moves the later ones up, leaves every other key alone, and reports
  \<open>CA_ERROR_NOT_FOUND\<close> exactly when there was no such value.
\<close>

theorem caUtilSettingsDelete_removes:
  assumes "holds g s es m"
  shows "\<exists>s' es'. caUtilSettingsDelete k i s = (if hits i (m k) then CA_ERROR_SUCCESS else CA_ERROR_NOT_FOUND, s')
    \<and> holds g s' es' (m(k := removed i (m k)))"
proof -
  have a: "log_ok g s es" "active g s" and m: "\<And>k. m k = vals k [] es"
    using assms by (simp_all add: holds_def)
  obtain mem where d: "caUtilSettingsDelete k i s = (fst (delete_entries k i 0 CA_ERROR_NOT_FOUND es), s\<lparr>fmem := mem\<rparr>)"
    "log_ok g (s\<lparr>fmem := mem\<rparr>) (snd (delete_entries k i 0 CA_ERROR_NOT_FOUND es))"
    "\<And>j. j < base_address s + 4 \<or> base_address s + used_size s \<le> j \<Longrightarrow> mem j = fmem s j"
    by (rule Delete_log [OF a(1), where k = k and i = i]) blast
  have "active g (s\<lparr>fmem := mem\<rparr>)"
    by (rule add_active [OF a(2)]) (use d(3) in auto)
  moreover have "vals k' [] (snd (delete_entries k i 0 CA_ERROR_NOT_FOUND es)) = (m(k := removed i (m k))) k'" for k'
    using vals_delete [of 0 "[]" CA_ERROR_NOT_FOUND i k es] vals_delete_other [of k' k] m by simp
  ultimately show ?thesis
    using d(1,2) assms vals_delete [of 0 "[]" CA_ERROR_NOT_FOUND i k es] m [of k]
    by (intro exI [of _ "s\<lparr>fmem := mem\<rparr>"] exI [of _ "snd (delete_entries k i 0 CA_ERROR_NOT_FOUND es)"])
       (simp add: holds_def)
qed

theorem caUtilSettingsDelete_removes_witness:
  "\<exists>s' es'. caUtilSettingsDelete 7 0 demo_store = (CA_ERROR_NOT_FOUND, s') \<and> holds demo_geometry s' es' (\<lambda>_. [])"
  using caUtilSettingsDelete_removes [OF demo_holds, of 7 0] by (simp add: fun_upd_def)

subsection \<open>Start-up and wiping\<close>

lemma Init_holds: "holds g s es m \<Longrightarrow> caUtilSettingsInit g (s\<lparr>base_address := x, used_size := y\<rparr>) = s"
  unfolding holds_def geom_ok_def by (rule Init_log) auto

lemma initSettings_holds:
  assumes "geom_ok g" "settingsSize g < 2 ^ 32" "b = 0 \<or> b = settingsSize g \<and> read_flag (fmem s) 0 \<noteq> kSettingsInUse"
  shows "holds g ((initSettings g b kSettingsInUse s)\<lparr>base_address := b, used_size := 4\<rparr>) [] (\<lambda>_. [])"
proof -
  have b: "unat (pageSize g) dvd b" "4 dvd b" and "4 \<le> settingsSize g"
    using assms(1,3) dvd_imp_le [of 4 "settingsSize g"] by (auto simp: geom_ok_def)
  note i = initSettings_log [OF assms(1) b, where f = kSettingsInUse and s = s]
  have "read_flag (fmem ((initSettings g b kSettingsInUse s)\<lparr>base_address := b, used_size := 4\<rparr>)) 0 = read_flag (fmem s) 0"
    if "b = settingsSize g"
    using that \<open>4 \<le> settingsSize g\<close> i(3) by (intro read_flag_cong) auto
  with i(1,2) assms show ?thesis
    by (auto simp: holds_def active_def)
qed

text \<open>
  C5: After a restart, start-up reads from the flash alone exactly the state the store was in; on a
  blank flash of at least two pages it makes an empty store, and wiping a store makes it empty.
\<close>

theorem caUtilSettingsInit_recovers:
  assumes "holds g s es m"
  shows "caUtilSettingsInit g (s\<lparr>base_address := x, used_size := y\<rparr>) = s
     \<and> holds g (caUtilSettingsWipe g s) [] (\<lambda>_. [])
     \<and> holds g (caUtilSettingsInit g \<lparr>fmem = (\<lambda>_. 0xFF), base_address = x, used_size = y\<rparr>) [] (\<lambda>_. [])"
proof (intro conjI)
  have a: "log_ok g s es" "active g s" "geom_ok g" "settingsSize g < 2 ^ 32"
    using assms by (simp_all add: holds_def)
  show "caUtilSettingsInit g (s\<lparr>base_address := x, used_size := y\<rparr>) = s"
    by (rule Init_holds [OF assms])
  let ?w = "initSettings g (base_address s) kSettingsInUse s"
  have w: "holds g (?w\<lparr>base_address := base_address s, used_size := 4\<rparr>) [] (\<lambda>_. [])"
    by (rule initSettings_holds) (use a in \<open>auto simp: active_def\<close>)
  have "?w = ?w\<lparr>base_address := base_address s, used_size := 4\<rparr>\<lparr>base_address := base_address ?w, used_size := used_size ?w\<rparr>"
    by simp
  then have "caUtilSettingsWipe g s = ?w\<lparr>base_address := base_address s, used_size := 4\<rparr>"
    unfolding caUtilSettingsWipe_def by (metis Init_holds [OF w])
  with w show "holds g (caUtilSettingsWipe g s) [] (\<lambda>_. [])"
    by simp
  let ?blank = "\<lparr>fmem = (\<lambda>_. 0xFF), base_address = x, used_size = y\<rparr>" and ?S = "settingsSize g"
  let ?t = "initSettings g ?S kSettingsInUse (?blank\<lparr>base_address := ?S\<rparr>)"
  have blank: "read_flag (\<lambda>_. 0xFF) p \<noteq> kSettingsInUse" for p
    using read_flag_blank [of p "\<lambda>_. 0xFF"] by (simp add: kSettingsInUse_def)
  have t: "holds g (?t\<lparr>base_address := ?S, used_size := 4\<rparr>) [] (\<lambda>_. [])"
    by (rule initSettings_holds) (use a blank in simp_all)
  have "init_base g ?blank = ?t"
    using blank by (simp add: init_base_def SETTINGS_CONFIG_BASE_ADDRESS_def Let_def)
  moreover have "base_address ?t = ?S"
    by (simp add: initSettings_def setSettingsFlag_def)
  moreover have "init_scan g (fmem ?t) ?S 4 = 4 + log_size []"
    by (rule init_scan_log) (use t a in \<open>auto simp: holds_def log_ok_def geom_ok_def\<close>)
  ultimately have "caUtilSettingsInit g ?blank = ?t\<lparr>base_address := ?S, used_size := 4\<rparr>"
    by (simp add: caUtilSettingsInit_def kSettingsFlagSize_def)
  with t show "holds g (caUtilSettingsInit g ?blank) [] (\<lambda>_. [])"
    by simp
qed

theorem caUtilSettingsInit_recovers_witness:
  "caUtilSettingsInit demo_geometry (demo_store\<lparr>base_address := 99, used_size := 99\<rparr>) = demo_store"
  using caUtilSettingsInit_recovers [OF demo_holds, of 99 99] by simp

text \<open>
  On a flash of one page there is no second area, yet start-up on a blank flash looks for one,
  takes the address behind the page as the base and sets the store up outside the flash.
\<close>

theorem caUtilSettingsInit_single_page:
  assumes "\<not> numPages g > 1"
  shows "base_address (caUtilSettingsInit g \<lparr>fmem = (\<lambda>_. 0xFF), base_address = x, used_size = y\<rparr>) = unat (pageSize g)"
proof -
  have blank: "read_flag (\<lambda>_. 0xFF) p \<noteq> kSettingsInUse" for p
    using read_flag_blank [of p "\<lambda>_. 0xFF"] by (simp add: kSettingsInUse_def)
  with assms show ?thesis
    by (simp add: caUtilSettingsInit_def init_base_def SETTINGS_CONFIG_BASE_ADDRESS_def Let_def
        initSettings_def setSettingsFlag_def settingsSize_def)
qed

theorem caUtilSettingsInit_single_page_witness:
  "base_address (caUtilSettingsInit \<lparr>numPages = 1, pageSize = 2048\<rparr> \<lparr>fmem = (\<lambda>_. 0xFF), base_address = 0, used_size = 0\<rparr>)
    = 2048"
  by (subst caUtilSettingsInit_single_page) simp_all

subsection \<open>What a swap loses and uncovers\<close>

definition scrub :: "bytes \<Rightarrow> bytes" where
  "scrub v = (if length v \<le> 8 then replicate (length v) 0xFF else v)"

lemma evalue_copied:
  assumes "length (snd e) = alignLength (fst e)" "unat (blength (fst e)) \<le> 256"
  shows "evalue (copied e) = scrub (evalue e)"
proof -
  let ?l = "unat (blength (fst e))" and ?al = "alignLength (fst e)"
  have al: "?al = (?l + 3) div 4 * 4" "?l \<le> ?al"
    using getAlignLength_eq [of "blength (fst e)"] getAlignLength_ge [of "blength (fst e)"] assms(2) by simp_all
  have len: "length (evalue e) = ?l"
    using assms(1) al(2) by (simp add: evalue_def)
  show ?thesis
  proof (cases "?l \<le> 8")
    case True
    then have "(?l + 3) div 4 \<le> 11 div 4"
      by (intro div_le_mono) simp
    then have "?al \<le> 8"
      using al(1) by simp
    then have "snd (copied e) = replicate ?al 0xFF"
      by (simp add: copied_def copied_amount_small)
    with True len al(2) show ?thesis
      by (simp add: scrub_def evalue_def min_def)
  next
    case False
    then have "12 div 4 \<le> (?l + 3) div 4" "(?l + 3) div 4 \<le> 259 div 4"
      using assms(2) by (intro div_le_mono; simp)+
    then have "8 < ?al" "?al \<le> 256"
      using al(1) by simp_all
    then have "snd (copied e) = snd e"
      using assms(1) by (simp add: copied_def copied_amount_small)
    with False len show ?thesis
      by (simp add: scrub_def evalue_def)
  qed
qed

lemma vals_map_copied:
  "(\<And>e. e \<in> set es \<Longrightarrow> evalue (copied e) = f (evalue e)) \<Longrightarrow> vals k (map f acc) (map copied es) = map f (vals k acc es)"
proof (induction es arbitrary: acc)
  case (Cons e es)
  have "map f ((if estart e then [] else acc) @ (if elive e then [evalue e] else []))
      = (if estart e then [] else map f acc) @ (if elive e then [f (evalue e)] else [])"
    by simp
  then show ?case
    using Cons.IH [of "(if estart e then [] else acc) @ (if elive e then [evalue e] else [])"] Cons.IH [of acc] Cons.prems
    by (simp split: if_splits)
qed simp

lemma swap_scrubs:
  assumes "holds g s es m" "\<forall>e \<in> set es. unat (blength (fst e)) \<le> 256"
  obtains s' where "swapSettingsBlock g s = Some (settingsSize g - used_size s', s')"
    "holds g s' (map copied (kept es)) (\<lambda>k. map scrub (vals k [] (kept es)))"
proof -
  have a: "log_ok g s es" "active g s" "geom_ok g" "settingsSize g < 2 ^ 32"
    using assms(1) by (simp_all add: holds_def)
  have fits: "alignLength (fst e) + 8 < 65536" if "e \<in> set es" for e
    using getAlignLength_eq [of "blength (fst e)"] assms(2) that by fastforce
  obtain s' where s': "swapSettingsBlock g s = Some (settingsSize g - used_size s', s')"
      "log_ok g s' (map copied (kept es))" "active g s'"
    using swap_log [OF a] fits kept_subset by blast
  have "evalue (copied e) = scrub (evalue e)" if "e \<in> set (kept es)" for e
    using kept_subset [OF that] assms(2) a(1) log_at_length by (intro evalue_copied) (auto simp: log_ok_def)
  then have "vals k [] (map copied (kept es)) = map scrub (vals k [] (kept es))" for k
    using vals_map_copied [of "kept es" scrub k "[]"] by simp
  with s' a show thesis
    by (intro that) (simp_all add: holds_def)
qed

text \<open>
  C6: Running out of room makes the store copy its log, and the copy is not faithful: every value of
  up to eight bytes reads as erased flash afterwards, with its length kept, while the values of nine
  to 256 bytes survive.
\<close>

theorem swapSettingsBlock_short_values:
  assumes "holds g s es m" "\<forall>e \<in> set es. unat (blength (fst e)) \<le> 256" "\<forall>k. \<not> hiding k es"
  shows "\<exists>left s' es'. swapSettingsBlock g s = Some (left, s') \<and> holds g s' es' (\<lambda>k. map scrub (m k))"
proof -
  obtain s' where "swapSettingsBlock g s = Some (settingsSize g - used_size s', s')"
    "holds g s' (map copied (kept es)) (\<lambda>k. map scrub (vals k [] (kept es)))"
    by (rule swap_scrubs [OF assms(1,2)])
  moreover have "vals k [] (kept es) = m k" for k
    using assms(1,3) vals_kept [of k es] by (simp add: holds_def)
  ultimately show ?thesis
    by auto
qed

lemma demo_set: "\<exists>s e. holds demo_geometry s [e] ((\<lambda>_. [])(7 := [[1, 2, 3]])) \<and> unat (blength (fst e)) = 3"
proof -
  let ?b = "new_block 7 True (vector_length [[1, 2, 3]]) 0"
  let ?s = "add_complete ?b (add_data [[1, 2, 3]] (add_begin ?b demo_store))" and ?e = "record_of (completed ?b) [1, 2, 3]"
  have l: "blength ?b = 3" "alignLength ?b = 4"
    by (simp_all add: vector_length_def new_block_def getAlignLength_def)
  have a: "log_ok demo_geometry demo_store []" "active demo_geometry demo_store" "used_size demo_store = 4"
    using demo_holds by (simp_all add: holds_def log_ok_def)
  note r = add_record [OF a(1) refl, where k = 7 and ?i0.0 = True and vs = "[[1, 2, 3]]" and st = 0]
  have "active demo_geometry ?s"
    by (rule add_active [OF a(2)]) (use r l a(3) in auto)
  moreover have "log_ok demo_geometry ?s [?e]"
    using r(1) l a(3) by simp
  moreover have "vals k [] [?e] = ((\<lambda>_. [])(7 := [[1, 2, 3]])) k" for k
    using l by (simp add: new_block_fields evalue_record_of)
  ultimately show ?thesis
    using demo_geom_ok l by (intro exI [of _ ?s] exI [of _ ?e]) (simp add: holds_def)
qed

theorem swapSettingsBlock_short_values_witness:
  "\<exists>s left s' es es'. holds demo_geometry s es ((\<lambda>_. [])(7 := [[1, 2, 3]])) \<and>
     swapSettingsBlock demo_geometry s = Some (left, s') \<and>
     holds demo_geometry s' es' (\<lambda>k. map scrub (((\<lambda>_. [])(7 := [[1, 2, 3]])) k)) \<and> scrub [1, 2, 3] = [0xFF, 0xFF, 0xFF]"
proof -
  obtain s e where s: "holds demo_geometry s [e] ((\<lambda>_. [])(7 := [[1, 2, 3]]))" "unat (blength (fst e)) = 3"
    using demo_set by blast
  have "\<forall>k. \<not> hiding k [e]"
    by (auto simp: hiding_def Cons_eq_append_conv)
  with swapSettingsBlock_short_values [OF s(1)] s(2) obtain left s' es' where
    "swapSettingsBlock demo_geometry s = Some (left, s')"
    "holds demo_geometry s' es' (\<lambda>k. map scrub (((\<lambda>_. [])(7 := [[1, 2, 3]])) k))"
    by auto
  moreover have "scrub [1, 2, 3] = [0xFF, 0xFF, 0xFF]"
    by (simp add: scrub_def)
  ultimately show ?thesis
    using s(1) by blast
qed

lemma vals_live_ne:
  "\<forall>e \<in> set es. elive e \<Longrightarrow> acc \<noteq> [] \<or> (\<exists>x \<in> set es. ekey x = k) \<Longrightarrow> vals k acc es \<noteq> []"
  by (induction es arbitrary: acc) auto

lemma kept_live: "x \<in> set es \<Longrightarrow> elive x \<Longrightarrow> ekey x = k \<Longrightarrow> \<exists>y \<in> set (kept es). ekey y = k"
  by (induction es arbitrary: x) auto

text \<open>
  C7: A swap can bring deleted values back: whenever a key without values still has a complete,
  undeleted record in the log, hidden by a deleted first record of the key, the key has a value
  after the swap.
\<close>

theorem swapSettingsBlock_uncovers:
  assumes "holds g s es m" "\<forall>e \<in> set es. unat (blength (fst e)) \<le> 256"
    and "m k = []" "x \<in> set es" "elive x" "ekey x = k"
  shows "\<exists>left s' es' m'. swapSettingsBlock g s = Some (left, s') \<and> holds g s' es' m' \<and> m' k \<noteq> []"
proof -
  obtain s' where s': "swapSettingsBlock g s = Some (settingsSize g - used_size s', s')"
    "holds g s' (map copied (kept es)) (\<lambda>k. map scrub (vals k [] (kept es)))"
    by (rule swap_scrubs [OF assms(1,2)])
  have "vals k [] (kept es) \<noteq> []"
    using kept_live [OF assms(4-6)] kept_subset by (intro vals_live_ne) blast+
  with s' show ?thesis
    by blast
qed

text \<open>The scenario: two values added, a set, and the set value deleted.\<close>

lemma delete_scenario:
  assumes "ekey A = k" "ekey B = k" "ekey C = k" "elive A" "elive B" "elive C" "estart A" "\<not> estart B" "estart C"
  shows "snd (delete_entries k 0 0 CA_ERROR_NOT_FOUND [A, B, C])
    = [clear_flag kBlockDeleteFlag A, clear_flag kBlockIndex0Flag B, clear_flag kBlockDeleteFlag C]"
  using assms by simp

lemma demo_add:
  assumes "log_ok demo_geometry s es" "active demo_geometry s" "used_size s \<le> 40"
  obtains s' e where "log_ok demo_geometry s' (es @ [e])" "active demo_geometry s'" "used_size s' = used_size s + 12"
    "ekey e = 7" "elive e" "estart e = i0" "evalue e = [v]" "unat (blength (fst e)) = 1"
proof -
  let ?b = "new_block 7 i0 (vector_length [[v]]) 0"
  let ?s = "add_complete ?b (add_data [[v]] (add_begin ?b s))" and ?e = "record_of (completed ?b) [v]"
  have l: "blength ?b = 1" "alignLength ?b = 4"
    by (simp_all add: vector_length_def new_block_def getAlignLength_def)
  note r = add_record [OF assms(1) refl, where k = 7 and ?i0.0 = i0 and vs = "[[v]]" and st = 0]
  have ok: "log_ok demo_geometry ?s (es @ [?e])"
    using r(1) l assms(3) by simp
  moreover have "active demo_geometry ?s"
    using assms(1) by (intro add_active [OF assms(2)]) (use r l assms(3) in \<open>auto simp: log_ok_def\<close>)
  moreover have "used_size ?s = used_size s + 12"
    using ok assms(1) l by (simp add: log_ok_def)
  ultimately show thesis
    using l by (intro that [of ?s ?e]) (simp_all add: new_block_fields evalue_record_of)
qed

theorem swapSettingsBlock_uncovers_witness:
  "\<exists>s es m left s' es' m'. holds demo_geometry s es m \<and> m 7 = [] \<and>
     swapSettingsBlock demo_geometry s = Some (left, s') \<and> holds demo_geometry s' es' m' \<and> m' 7 \<noteq> []"
proof -
  have a: "log_ok demo_geometry demo_store []" "active demo_geometry demo_store" "used_size demo_store = 4"
    using demo_holds by (simp_all add: holds_def log_ok_def)
  obtain s1 A where 1: "log_ok demo_geometry s1 ([] @ [A])" "active demo_geometry s1" "used_size s1 = used_size demo_store + 12"
    "ekey A = 7" "elive A" "estart A = True" "evalue A = [1]" "unat (blength (fst A)) = 1"
    by (rule demo_add [OF a(1,2), of "True" 1]) (use a(3) in simp, blast)
  obtain s2 B where 2: "log_ok demo_geometry s2 (([] @ [A]) @ [B])" "active demo_geometry s2" "used_size s2 = used_size s1 + 12"
    "ekey B = 7" "elive B" "estart B = False" "evalue B = [2]" "unat (blength (fst B)) = 1"
    by (rule demo_add [OF 1(1,2), of "False" 2]) (use 1(3) a(3) in simp, blast)
  obtain s3 C where 3: "log_ok demo_geometry s3 ((([] @ [A]) @ [B]) @ [C])" "active demo_geometry s3"
    "ekey C = 7" "elive C" "estart C = True" "evalue C = [3]" "unat (blength (fst C)) = 1"
    by (rule demo_add [OF 2(1,2), of "True" 3]) (use 1(3) 2(3) a(3) in simp, blast)
  let ?es = "[clear_flag kBlockDeleteFlag A, clear_flag kBlockIndex0Flag B, clear_flag kBlockDeleteFlag C]"
  have d: "snd (delete_entries 7 0 0 CA_ERROR_NOT_FOUND ((([] @ [A]) @ [B]) @ [C])) = ?es"
    using delete_scenario [of A 7 B C] 1 2 3 by simp
  obtain mem where m: "log_ok demo_geometry (s3\<lparr>fmem := mem\<rparr>) ?es"
    "\<And>j. j < base_address s3 + 4 \<Longrightarrow> mem j = fmem s3 j"
  proof (rule Delete_log [OF 3(1), where k = 7 and i = 0])
    fix mem
    assume "log_ok demo_geometry (s3\<lparr>fmem := mem\<rparr>)
        (snd (delete_entries 7 0 0 CA_ERROR_NOT_FOUND ((([] @ [A]) @ [B]) @ [C])))"
      and "\<And>j. j < base_address s3 + 4 \<or> base_address s3 + used_size s3 \<le> j \<Longrightarrow> mem j = fmem s3 j"
    then show thesis
      using d by (intro that [of mem]) simp_all
  qed
  have "active demo_geometry (s3\<lparr>fmem := mem\<rparr>)"
    by (rule add_active [OF 3(2)]) (use m(2) in auto)
  with m(1) have h: "holds demo_geometry (s3\<lparr>fmem := mem\<rparr>) ?es (\<lambda>k. vals k [] ?es)"
    using demo_geom_ok by (simp add: holds_def)
  have "vals 7 [] ?es = []"
    using 3 by simp
  moreover have "\<exists>left s' es' m'. swapSettingsBlock demo_geometry (s3\<lparr>fmem := mem\<rparr>) = Some (left, s')
      \<and> holds demo_geometry s' es' m' \<and> m' 7 \<noteq> []"
    by (rule swapSettingsBlock_uncovers [OF h, where x = "clear_flag kBlockIndex0Flag B"])
       (use 1 2 3 in \<open>simp_all\<close>)
  ultimately show ?thesis
    using h by blast
qed

subsection \<open>Gaps in vectors\<close>

text \<open>
  A vector of two one-byte buffers is stored wrongly: the record is two bytes long and its
  second byte stays erased, while the second buffer lands behind the record, in the place of the
  next record's header.
\<close>

theorem caUtilSettingsAddVector_gap:
  assumes "holds g s es m" "used_size s + 16 \<le> settingsSize g"
  shows "\<exists>s'. caUtilSettingsAddVector g st k [[a], [b]] s = Some (CA_ERROR_SUCCESS, s')
    \<and> used_size s' = used_size s + 12
    \<and> flash_read (fmem s') (base_address s + used_size s + 8) 2 = [a, 0xFF]
    \<and> fmem s' (base_address s + used_size s') = b"
proof -
  let ?i0 = "fst (caUtilSettingsGet k 0 False (Some 0) s) = CA_ERROR_NOT_FOUND"
  define h where "h = new_block k ?i0 2 st"
  let ?p = "base_address s + used_size s"
  have ok: "log_ok g s es"
    using assms(1) by (simp add: holds_def)
  have al: "alignLength h = 4"
    by (simp add: h_def new_block_def getAlignLength_def)
  have "4 dvd ?p + 8"
    using ok log_size_dvd [of es] by (auto simp: log_ok_def)
  then have nx: "vector_next (?p + 8) [a] = ?p + 12"
    by (simp add: vector_next_def dvd_eq_mod_eq_0)
  have blank: "fmem s i = 0xFF" if "?p \<le> i" "i < ?p + 16" for i
    using ok assms(2) that by (auto simp: log_ok_def)
  let ?s' = "add_complete h (add_data [[a], [b]] (add_begin h s))"
  have r: "caUtilSettingsAddVector g st k [[a], [b]] s = Some (CA_ERROR_SUCCESS, ?s')"
    using assms(2) al by (simp add: caUtilSettingsAddVector_def addSettingVector_def vector_length_def
        h_def [symmetric] sizeof_settingsBlock_def Let_def)
  have s': "?s' = s\<lparr>fmem := flash_write ?p (block_bytes (completed h)) (flash_write (?p + 12) [b]
      (flash_write (?p + 8) [a] (flash_write ?p (block_bytes h) (fmem s)))), used_size := used_size s + 12\<rparr>"
    using al nx by (simp add: add_complete_def add_data_def add_begin_def write_at_def write_vector_Cons
        completed_def sizeof_settingsBlock_def Let_def del: write_vector.simps(2))
  have "flash_read (fmem ?s') (?p + 8) 2 = [a, 0xFF]"
    using blank unfolding s' by (simp add: flash_read_def upt_conv_Cons flash_write_def)
  moreover have "fmem ?s' (base_address s + used_size ?s') = b"
    using blank unfolding s' by (simp add: flash_write_def)
  ultimately show ?thesis
    using r s' by auto
qed

theorem caUtilSettingsAddVector_gap_witness:
  "\<exists>s'. caUtilSettingsAddVector demo_geometry 0 7 [[1], [2]] demo_store = Some (CA_ERROR_SUCCESS, s')
    \<and> flash_read (fmem s') (base_address demo_store + used_size demo_store + 8) 2 = [1, 0xFF]"
  using caUtilSettingsAddVector_gap [OF demo_holds, of 0 7 1 2] by (auto simp: demo_store_def)

end
