(* ===== verification/SettingsPower.thy ===== *)
theory SettingsPower
  imports SettingsStore
begin

text \<open>
  Power failures while a value is set, \<^verbatim>\<open>caUtilSettingsSet\<close> of
  \<^verbatim>\<open>cascoda-util/src/cascoda_settings.c\<close>. The operations of \<open>Settings\<close> are given once more with
  the flash operations they make, in the order they make them; \<open>set_trace_is_set\<close> ties them to the
  code's model. A power failure keeps a prefix of these operations, and a restart starts from the
  flash this prefix leaves.
\<close>

unbundle bit_operations_syntax

subsection \<open>The flash operations of a set\<close>

datatype flash_op = Erase nat nat | Program nat bytes

fun do_op :: "flash_op \<Rightarrow> flashmem \<Rightarrow> flashmem" where
  "do_op (Erase page a) mem = flash_erase page a mem"
| "do_op (Program a bs) mem = flash_write a bs mem"

function erase_trace :: "nat \<Rightarrow> nat \<Rightarrow> nat \<Rightarrow> flash_op list" where
  "erase_trace page limit address =
     (if address < limit \<and> 0 < page then Erase page address # erase_trace page limit (address + page) else [])"
  by auto
termination
  by (relation "measure (\<lambda>(page, limit, address). limit - address)") auto

declare erase_trace.simps [simp del]

definition init_trace :: "geometry \<Rightarrow> nat \<Rightarrow> u32 \<Rightarrow> flash_op list" where
  "init_trace g aBase aFlag =
     erase_trace (unat (pageSize g)) (aBase + settingsSize g) aBase @ [Program aBase (PUTLE32 aFlag [0, 0, 0, 0])]"

partial_function (option) copy_trace :: "nat \<Rightarrow> settingsBlock \<Rightarrow> u16 \<Rightarrow> store \<Rightarrow> (flash_op list \<times> store) option" where
  "copy_trace start_address nb bytes_copied_so_far s =
     (if bytes_copied_so_far < getAlignLength (blength nb) then
        let remaining_bytes = getAlignLength (blength nb) - bytes_copied_so_far + 8;
            amount_to_copy = (if kCopyBufferSize > remaining_bytes then remaining_bytes else kCopyBufferSize);
            copy_buffer = flash_read (fmem s) (start_address + unat bytes_copied_so_far) (unat amount_to_copy);
            a = base_address s + used_size s + unat bytes_copied_so_far
        in Option.bind (copy_trace start_address nb (bytes_copied_so_far + amount_to_copy) (write_at a copy_buffer s))
             (\<lambda>(ws, s'). Some (Program a copy_buffer # ws, s'))
      else Some ([], s))"

definition copy_block_trace :: "nat \<Rightarrow> settingsBlock \<Rightarrow> store \<Rightarrow> (flash_op list \<times> store) option" where
  "copy_block_trace swapAddress nb s =
     (let a = base_address s + used_size s
      in case copy_trace (swapAddress - sizeof_settingsBlock) nb 8 (write_at a (block_bytes nb) s) of
           None \<Rightarrow> None
         | Some (ws, s') \<Rightarrow> Some (Program a (block_bytes nb) # ws,
                               s'\<lparr>used_size := used_size s' + (sizeof_settingsBlock + alignLength nb)\<rparr>))"

partial_function (option) swap_loop_trace :: "nat \<Rightarrow> nat \<Rightarrow> store \<Rightarrow> (flash_op list \<times> store) option" where
  "swap_loop_trace limit swapAddress s =
     (if swapAddress < limit then
        let nb = read_block (fmem s) swapAddress;
            swapAddress1 = swapAddress + sizeof_settingsBlock;
            next = swapAddress1 + alignLength nb
        in if block_live nb then
             (if superseded (fmem s) (key nb) limit next then swap_loop_trace limit next s
              else case copy_block_trace swapAddress1 nb s of
                     None \<Rightarrow> None
                   | Some (ws, s') \<Rightarrow>
                       Option.bind (swap_loop_trace limit next s') (\<lambda>(vs, s''). Some (ws @ vs, s'')))
           else if flag nb = 0xff then Some ([], s)
           else swap_loop_trace limit next s
      else Some ([], s))"

definition swap_trace :: "geometry \<Rightarrow> store \<Rightarrow> (flash_op list \<times> nat \<times> store) option" where
  "swap_trace g s =
     (let oldBase = base_address s; usedSize = used_size s
      in if \<not> numPages g > 1 then Some ([], (settingsSize g + 2 ^ 32 - used_size s) mod 2 ^ 32, s)
         else
           let newBase = (if oldBase = SETTINGS_CONFIG_BASE_ADDRESS then oldBase + settingsSize g
                          else SETTINGS_CONFIG_BASE_ADDRESS);
               s1 = (initSettings g newBase kSettingsInSwap (s\<lparr>base_address := newBase\<rparr>))\<lparr>used_size := kSettingsFlagSize\<rparr>
           in case swap_loop_trace (oldBase + usedSize) (oldBase + kSettingsFlagSize) s1 of
                None \<Rightarrow> None
              | Some (ws, s2) \<Rightarrow>
                  let s3 = setSettingsFlag oldBase kSettingsNotUse (setSettingsFlag (base_address s2) kSettingsInUse s2)
                  in Some (init_trace g newBase kSettingsInSwap @ ws @
                             [Program (base_address s2) (PUTLE32 kSettingsInUse [0, 0, 0, 0]),
                              Program oldBase (PUTLE32 kSettingsNotUse [0, 0, 0, 0])],
                           (settingsSize g + 2 ^ 32 - used_size s3) mod 2 ^ 32, s3))"

primrec vector_trace :: "settingBuffer list \<Rightarrow> nat \<Rightarrow> flash_op list" where
  "vector_trace [] write_address = []"
| "vector_trace (v # vs) write_address =
     (let headPadCount = write_address mod 4;
          headDataCount = min (4 - headPadCount) (length v);
          headPad = replicate headPadCount 0xff @ take headDataCount v
                    @ replicate (4 - headPadCount - headDataCount) 0xff;
          address1 = write_address - headPadCount;
          address2 = address1 + 4
      in Program address1 headPad # Program address2 (drop headDataCount v)
           # vector_trace vs (address2 + (length v - headDataCount)))"

definition add_trace :: "settingsBlock \<Rightarrow> settingBuffer list \<Rightarrow> store \<Rightarrow> flash_op list" where
  "add_trace block aSetting s =
     (let a = base_address s + used_size s
      in [Program a (block_bytes block)] @ vector_trace aSetting (a + sizeof_settingsBlock) @
         [Program a (block_bytes (block\<lparr>flag := flag block AND NOT kBlockAddCompleteFlag\<rparr>))])"

definition set_trace ::
  "geometry \<Rightarrow> u16 \<Rightarrow> u16 \<Rightarrow> bytes \<Rightarrow> store \<Rightarrow> (flash_op list \<times> ca_error \<times> store) option" where
  "set_trace g stack aKey aValue s =
     (let block = new_block aKey True (vector_length [aValue]) stack;
          need = alignLength block + sizeof_settingsBlock;
          write = (\<lambda>ws s. (ws @ add_trace block [aValue] s,
                           CA_ERROR_SUCCESS, add_complete block (add_data [aValue] (add_begin block s))))
      in if used_size s + need \<ge> settingsSize g
         then (case swap_trace g s of
                 None \<Rightarrow> None
               | Some (ws, left, s1) \<Rightarrow> Some (if left \<ge> need then write ws s1 else (ws, CA_ERROR_NO_BUFFER, s1)))
         else Some (write [] s))"

text \<open>
  The flash after a power failure that let the first \<open>n\<close> operations happen, and the store a restart
  makes of a flash, where the two variables of the store start at 0.
\<close>

definition cut_off :: "nat \<Rightarrow> flash_op list \<Rightarrow> flashmem \<Rightarrow> flashmem" where
  "cut_off n ws mem = fold do_op (take n ws) mem"

definition restart :: "geometry \<Rightarrow> flashmem \<Rightarrow> store" where
  "restart g mem = caUtilSettingsInit g \<lparr>fmem = mem, base_address = 0, used_size = 0\<rparr>"

subsection \<open>The traces are those of the operations\<close>

lemma erase_trace_effect: "fold do_op (erase_trace page limit a) mem = erase_loop page limit a mem"
proof (induction page limit a arbitrary: mem rule: erase_trace.induct)
  case (1 page limit a)
  then show ?case
    by (subst erase_trace.simps, subst erase_loop.simps) simp
qed

lemma init_trace_effect: "fold do_op (init_trace g b f) (fmem s) = fmem (initSettings g b f (s\<lparr>base_address := x\<rparr>))"
  by (simp add: init_trace_def erase_trace_effect initSettings_def setSettingsFlag_def)

text \<open>What a trace touches.\<close>

definition within :: "nat \<Rightarrow> nat \<Rightarrow> flash_op list \<Rightarrow> bool" where
  "within lo hi ws \<longleftrightarrow> (\<forall>w \<in> set ws. \<exists>a bs. w = Program a bs \<and> lo \<le> a \<and> a + length bs \<le> hi)"

lemma within_outside:
  "within lo hi ws \<Longrightarrow> i < lo \<or> hi \<le> i \<Longrightarrow> fold do_op (take n ws) mem i = mem i"
proof (induction ws arbitrary: n mem)
  case (Cons w ws)
  then obtain a bs where w: "w = Program a bs" "lo \<le> a" "a + length bs \<le> hi" and "within lo hi ws"
    by (auto simp: within_def)
  then have "fold do_op (take m ws) (flash_write a bs mem) i = flash_write a bs mem i" for m
    using Cons by blast
  with w Cons.prems(2) show ?case
    by (cases n) (auto simp: flash_write_outside)
qed simp

lemma within_mono: "within lo hi ws \<Longrightarrow> lo' \<le> lo \<Longrightarrow> hi \<le> hi' \<Longrightarrow> within lo' hi' ws"
  unfolding within_def by (meson le_trans)

lemma within_simps [simp]:
  "within lo hi []" "within lo hi (Program a bs # ws) \<longleftrightarrow> lo \<le> a \<and> a + length bs \<le> hi \<and> within lo hi ws"
  "within lo hi (us @ ws) \<longleftrightarrow> within lo hi us \<and> within lo hi ws"
  by (auto simp: within_def)

definition traced :: "nat \<Rightarrow> nat \<Rightarrow> flash_op list \<Rightarrow> store \<Rightarrow> store \<Rightarrow> bool" where
  "traced lo hi ws s s' \<longleftrightarrow> fmem s' = fold do_op ws (fmem s) \<and> base_address s' = base_address s \<and> within lo hi ws"

text \<open>A piece of the copy ends inside the record, whatever the 16-bit counter does.\<close>

lemma copy_piece_fits:
  fixes c al :: u16
  assumes "c < al"
  defines "r \<equiv> al - c + 8"
  shows "unat c + unat (if kCopyBufferSize > r then r else kCopyBufferSize) \<le> 8 + unat al"
proof -
  have "unat r \<le> unat (al - c) + 8"
    by (simp add: r_def unat_plus_if_size)
  moreover have "unat (al - c) = unat al - unat c"
    using assms(1) by (simp add: unat_sub word_less_nat_alt word_le_nat_alt)
  moreover have "unat (if kCopyBufferSize > r then r else kCopyBufferSize) \<le> unat r"
    by (simp add: word_le_nat_alt [symmetric] not_less)
  ultimately show ?thesis
    using assms(1) by (simp add: word_less_nat_alt)
qed

lemma copy_trace_sound:
  "copy_trace start b c s = Some r \<Longrightarrow>
     copy_loop start b c s = Some (snd r) \<and> used_size (snd r) = used_size s \<and>
     traced (base_address s + used_size s) (base_address s + used_size s + 8 + alignLength b) (fst r) s (snd r)"
proof (erule copy_trace.raw_induct [rotated])
  fix f start and b :: settingsBlock and c and s :: store and r
  let ?P = "\<lambda>start b c s r. copy_loop start b c s = Some (snd r) \<and> used_size (snd r) = used_size s \<and>
     traced (base_address s + used_size s) (base_address s + used_size s + 8 + alignLength b) (fst r) s (snd r)"
  assume IH: "\<And>start b c s r. f start b c s = Some r \<Longrightarrow> ?P start b c s r"
  let ?al = "getAlignLength (blength b)"
  define rem where "rem = ?al - c + 8"
  define n where "n = (if kCopyBufferSize > rem then rem else kCopyBufferSize)"
  define buf where "buf = flash_read (fmem s) (start + unat c) (unat n)"
  define a where "a = base_address s + used_size s + unat c"
  assume "(if c < ?al then let remaining_bytes = ?al - c + 8;
              amount_to_copy = (if kCopyBufferSize > remaining_bytes then remaining_bytes else kCopyBufferSize);
              copy_buffer = flash_read (fmem s) (start + unat c) (unat amount_to_copy);
              a = base_address s + used_size s + unat c
          in Option.bind (f start b (c + amount_to_copy) (write_at a copy_buffer s))
               (\<lambda>(ws, s'). Some (Program a copy_buffer # ws, s'))
        else Some ([], s)) = Some r"
  then have body: "(if c < ?al then Option.bind (f start b (c + n) (write_at a buf s))
      (\<lambda>(ws, s'). Some (Program a buf # ws, s')) else Some ([], s)) = Some r"
    by (simp only: Let_def rem_def n_def buf_def a_def)
  have step: "copy_loop start b c s = (if c < ?al then copy_loop start b (c + n) (write_at a buf s) else Some s)"
    by (subst copy_loop.simps) (simp only: Let_def rem_def n_def buf_def a_def)
  show "?P start b c s r"
  proof (cases "c < ?al")
    case False
    with body step show ?thesis
      by (auto simp: traced_def)
  next
    case True
    with body obtain ws s' where r: "f start b (c + n) (write_at a buf s) = Some (ws, s')" "r = (Program a buf # ws, s')"
      by (auto simp: bind_eq_Some_conv)
    have "unat c + unat n \<le> 8 + unat ?al"
      unfolding n_def rem_def by (rule copy_piece_fits [OF True])
    then have "a + length buf \<le> base_address s + used_size s + 8 + unat ?al"
      by (simp add: a_def buf_def)
    with IH [OF r(1)] True step r(2) show ?thesis
      by (auto simp: traced_def a_def)
  qed
qed

lemma copy_trace_complete: "copy_loop start b c s = Some s' \<Longrightarrow> \<exists>ws. copy_trace start b c s = Some (ws, s')"
proof (erule copy_loop.raw_induct [rotated])
  fix f start and b :: settingsBlock and c and s :: store and s'
  assume IH: "\<And>start b c s s'. f start b c s = Some s' \<Longrightarrow> \<exists>ws. copy_trace start b c s = Some (ws, s')"
  assume "(if c < getAlignLength (blength b) then let remaining_bytes = getAlignLength (blength b) - c + 8;
              amount_to_copy = (if kCopyBufferSize > remaining_bytes then remaining_bytes else kCopyBufferSize);
              copy_buffer = flash_read (fmem s) (start + unat c) (unat amount_to_copy)
          in f start b (c + amount_to_copy) (write_at (base_address s + used_size s + unat c) copy_buffer s)
        else Some s) = Some s'"
  then show "\<exists>ws. copy_trace start b c s = Some (ws, s')"
    by (subst copy_trace.simps) (auto simp: Let_def simp del: unat_eq_zero split: if_split_asm dest!: IH)
qed

lemma copy_block_trace_sound:
  assumes "copy_block_trace p b s = Some (ws, s')"
  shows "copy_block p b s = Some s'" "used_size s' = used_size s + (8 + alignLength b)"
    "traced (base_address s + used_size s) (base_address s + used_size s') ws s s'"
proof -
  let ?a = "base_address s + used_size s"
  obtain vs t where c: "copy_trace (p - sizeof_settingsBlock) b 8 (write_at ?a (block_bytes b) s) = Some (vs, t)"
    "ws = Program ?a (block_bytes b) # vs" "s' = t\<lparr>used_size := used_size t + (8 + alignLength b)\<rparr>"
    using assms by (auto simp: copy_block_trace_def Let_def sizeof_settingsBlock_def split: option.splits)
  note d = copy_trace_sound [OF c(1)]
  show "copy_block p b s = Some s'" "used_size s' = used_size s + (8 + alignLength b)"
    using d c(3) by (simp_all add: copy_block_def sizeof_settingsBlock_def)
  show "traced ?a (base_address s + used_size s') ws s s'"
    using d c(2,3) by (auto simp: traced_def elim!: within_mono)
qed

lemma copy_block_trace_complete: "copy_block p b s = Some s' \<Longrightarrow> \<exists>ws. copy_block_trace p b s = Some (ws, s')"
  by (auto simp: copy_block_def copy_block_trace_def Let_def split: option.splits dest!: copy_trace_complete)

lemma traced_Nil [simp]: "traced lo hi [] s s"
  by (simp add: traced_def)

lemma traced_append:
  assumes "traced lo mid us s s'" "traced lo' hi ws s' s''" "lo \<le> lo'" "mid \<le> hi"
  shows "traced lo hi (us @ ws) s s''"
  using assms within_mono [of lo mid us lo hi] within_mono [of lo' hi ws lo hi] by (auto simp: traced_def)

lemma swap_loop_trace_sound:
  "swap_loop_trace L p s = Some r \<Longrightarrow>
     swap_loop L p s = Some (snd r) \<and> used_size s \<le> used_size (snd r) \<and>
     traced (base_address s + used_size s) (base_address s + used_size (snd r)) (fst r) s (snd r)"
proof (erule swap_loop_trace.raw_induct [rotated])
  fix f L p and s :: store and r
  let ?P = "\<lambda>L p s r. swap_loop L p s = Some (snd r) \<and> used_size s \<le> used_size (snd r) \<and>
     traced (base_address s + used_size s) (base_address s + used_size (snd r)) (fst r) s (snd r)"
  assume IH: "\<And>L p s r. f L p s = Some r \<Longrightarrow> ?P L p s r"
  define nb where "nb = read_block (fmem s) p"
  define p1 where "p1 = p + sizeof_settingsBlock"
  define nx where "nx = p1 + alignLength nb"
  assume "(if p < L then let new_block = read_block (fmem s) p; swapAddress1 = p + sizeof_settingsBlock;
              next = swapAddress1 + alignLength new_block
            in if block_live new_block then
                 (if superseded (fmem s) (key new_block) L next then f L next s
                  else case copy_block_trace swapAddress1 new_block s of None \<Rightarrow> None
                       | Some (ws, s') \<Rightarrow> Option.bind (f L next s') (\<lambda>(vs, s''). Some (ws @ vs, s'')))
               else if flag new_block = 0xff then Some ([], s) else f L next s
          else Some ([], s)) = Some r"
  then have body: "(if p < L then if block_live nb then
                 (if superseded (fmem s) (key nb) L nx then f L nx s
                  else case copy_block_trace p1 nb s of None \<Rightarrow> None
                       | Some (ws, s') \<Rightarrow> Option.bind (f L nx s') (\<lambda>(vs, s''). Some (ws @ vs, s'')))
               else if flag nb = 0xff then Some ([], s) else f L nx s
          else Some ([], s)) = Some r"
    by (simp only: Let_def nb_def p1_def nx_def)
  have step: "swap_loop L p s = (if p < L then if block_live nb then
                 (if superseded (fmem s) (key nb) L nx then swap_loop L nx s
                  else case copy_block p1 nb s of None \<Rightarrow> None | Some s' \<Rightarrow> swap_loop L nx s')
               else if flag nb = 0xff then Some s else swap_loop L nx s
          else Some s)"
    by (subst swap_loop.simps) (simp only: Let_def nb_def p1_def nx_def)
  show "?P L p s r"
  proof (cases "p < L \<and> block_live nb \<and> \<not> superseded (fmem s) (key nb) L nx")
    case False
    with body step IH show ?thesis
      by (auto split: if_splits)
  next
    case True
    with body obtain us s1 vs s2 where r: "copy_block_trace p1 nb s = Some (us, s1)" "f L nx s1 = Some (vs, s2)" "r = (us @ vs, s2)"
      by (auto simp: bind_eq_Some_conv split: option.splits)
    note c = copy_block_trace_sound [OF r(1)] and i = IH [OF r(2)]
    have "traced (base_address s + used_size s) (base_address s + used_size s2) (us @ vs) s s2"
      by (rule traced_append [OF c(3)]) (use i c in \<open>auto simp: traced_def\<close>)
    with True step c i r(3) show ?thesis
      by simp
  qed
qed

lemma swap_loop_trace_complete: "swap_loop L p s = Some s' \<Longrightarrow> \<exists>ws. swap_loop_trace L p s = Some (ws, s')"
proof (erule swap_loop.raw_induct [rotated])
  fix f L p and s :: store and s'
  assume IH: "\<And>L p s s'. f L p s = Some s' \<Longrightarrow> \<exists>ws. swap_loop_trace L p s = Some (ws, s')"
  assume "(if p < L then let new_block = read_block (fmem s) p; swapAddress1 = p + sizeof_settingsBlock;
              next = swapAddress1 + alignLength new_block
            in if block_live new_block then
                 (if superseded (fmem s) (key new_block) L next then f L next s
                  else case copy_block swapAddress1 new_block s of None \<Rightarrow> None | Some s' \<Rightarrow> f L next s')
               else if flag new_block = 0xff then Some s else f L next s
          else Some s) = Some s'"
  then show "\<exists>ws. swap_loop_trace L p s = Some (ws, s')"
    by (subst swap_loop_trace.simps)
       (auto simp: Let_def split: if_split_asm option.split_asm dest!: IH copy_block_trace_complete)
qed

lemma vector_trace_effect: "fold do_op (vector_trace vs a) (fmem s) = fmem (write_vector vs a s)"
proof (induction vs arbitrary: a s)
  case (Cons v vs)
  show ?case
    by (simp add: Let_def Cons flip: write_at_fields(3) del: write_at_fields(3))
qed simp

lemma add_trace_effect: "fold do_op (add_trace b vs s) (fmem s) = fmem (add_complete b (add_data vs (add_begin b s)))"
proof -
  have fields: "base_address (write_vector vs a t) = base_address t \<and> used_size (write_vector vs a t) = used_size t" for a t
    by (induction vs arbitrary: a t) (simp_all add: Let_def)
  have "fold do_op (vector_trace vs a) (flash_write p bs (fmem s)) = fmem (write_vector vs a (write_at p bs s))" for a p bs
    using vector_trace_effect [of vs a "write_at p bs s"] by simp
  then show ?thesis
    by (simp add: add_trace_def add_begin_def add_data_def add_complete_def Let_def fields)
qed

subsection \<open>Cutting off the swap\<close>

definition recovers :: "geometry \<Rightarrow> flashmem \<Rightarrow> (u16 \<Rightarrow> bytes list) \<Rightarrow> bool" where
  "recovers g mem m \<longleftrightarrow> (\<exists>es. holds g (restart g mem) es m)"

lemma recoversI: "holds g s es m \<Longrightarrow> recovers g (fmem s) m"
proof -
  assume h: "holds g s es m"
  have "restart g (fmem s) = caUtilSettingsInit g (s\<lparr>base_address := 0, used_size := 0\<rparr>)"
    by (cases s) (simp add: restart_def)
  with h Init_holds [OF h, of 0 0] show ?thesis
    unfolding recovers_def by metis
qed

text \<open>What happens in the other area does not matter as long as its flag does not say in use.\<close>

lemma other_area_holds:
  assumes h: "holds g s es m"
    and same: "\<And>i. i < other_base g s \<or> other_base g s + settingsSize g \<le> i \<Longrightarrow> mem i = fmem s i"
    and flag: "other_base g s = 0 \<Longrightarrow> read_flag mem 0 \<noteq> kSettingsInUse"
  shows "recovers g mem m"
proof -
  have a: "log_ok g s es" "active g s" "geom_ok g" "settingsSize g < 2 ^ 32" and m: "\<forall>k. m k = vals k [] es"
    using h by (simp_all add: holds_def)
  note b = other_base [OF a(2,3)]
  have own: "mem i = fmem s i" if "base_address s \<le> i" "i < base_address s + settingsSize g" for i
    by (rule same) (use that b(1) in linarith)
  have fits: "4 + log_size es \<le> settingsSize g"
    using a(1) by (simp add: log_ok_def)
  have "log_at mem (base_address s + 4) es"
    by (rule log_at_cong [of "fmem s"]) (use a(1) own fits in \<open>auto simp: log_ok_def\<close>)
  then have "log_ok g (s\<lparr>fmem := mem\<rparr>) es"
    using a(1) own by (auto simp: log_ok_def)
  moreover have "read_flag mem (base_address s) = read_flag (fmem s) (base_address s)"
    by (rule read_flag_cong) (use own b(2) in auto)
  then have "active g (s\<lparr>fmem := mem\<rparr>)"
    using a(2) b(1,2) flag by (auto simp: active_def)
  ultimately have "holds g (s\<lparr>fmem := mem\<rparr>) es m"
    using a m by (simp add: holds_def)
  from recoversI [OF this] show ?thesis
    by simp
qed

lemma ff_not_in_use: "mem a = 0xFF \<Longrightarrow> read_flag mem a \<noteq> kSettingsInUse"
proof
  assume m: "mem a = 0xFF" and f: "read_flag mem a = kSettingsInUse"
  have "read_flag mem a = GETLE32 [mem a, mem (a + 1), mem (a + 2), mem (a + 3)]"
    by (simp add: read_flag_def kSettingsFlagSize_def flash_read_def numeral_eq_Suc upt_conv_Cons)
  moreover have "bit (GETLE32 [x, y, z, w]) 0 \<longleftrightarrow> bit x 0" for x y z w
    unfolding GETLE32_or [of x y z w "[]"] by (simp add: bit_simps)
  moreover have "bit (0xFF :: u8) 0" "\<not> bit kSettingsInUse 0"
    by (simp_all add: kSettingsInUse_def)
  ultimately show False
    using m f by metis
qed

lemma erase_trace_cut:
  assumes "0 < page" "page dvd a" "page dvd limit"
  shows "i < a \<or> limit \<le> i \<Longrightarrow> fold do_op (take n (erase_trace page limit a)) mem i = mem i"
    and "0 < n \<Longrightarrow> a < limit \<Longrightarrow> fold do_op (take n (erase_trace page limit a)) mem a = 0xFF"
proof -
  have keep: "mem j = 0xFF \<Longrightarrow> fold do_op (take n (erase_trace page limit a)) mem j = 0xFF" for j n a mem
  proof (induction page limit a arbitrary: n mem rule: erase_trace.induct)
    case (1 page limit a)
    then show ?case
      by (subst erase_trace.simps) (auto simp: take_Cons flash_erase_def split: nat.split)
  qed
  have step: "flash_erase page a mem i = (if a \<le> i \<and> i < a + page then 0xFF else mem i)" if "page dvd a" for a i mem
    using same_page [of page i a] assms(1) that by (simp add: flash_erase_def)
  show "i < a \<or> limit \<le> i \<Longrightarrow> fold do_op (take n (erase_trace page limit a)) mem i = mem i"
    using assms
  proof (induction page limit a arbitrary: n mem rule: erase_trace.induct)
    case (1 page limit a)
    show ?case
    proof (cases "a < limit \<and> 0 < n")
      case False
      then show ?thesis
        by (subst erase_trace.simps) auto
    next
      case True
      then obtain n' where n: "n = Suc n'"
        by (cases n) auto
      have "a + page \<le> limit"
        using 1 True page_fits by blast
      moreover have "flash_erase page a mem i = mem i"
        using same_page [of page i a] 1 \<open>a + page \<le> limit\<close> by (auto simp: flash_erase_def)
      moreover have "fold do_op (take n' (erase_trace page limit (a + page))) (flash_erase page a mem) i = flash_erase page a mem i"
        by (rule "1.IH") (use 1 True calculation(1) in auto)
      ultimately show ?thesis
        using True 1(3) by (subst erase_trace.simps) (simp add: n)
    qed
  qed
  show "0 < n \<Longrightarrow> a < limit \<Longrightarrow> fold do_op (take n (erase_trace page limit a)) mem a = 0xFF"
    using assms(1,2) by (subst erase_trace.simps) (auto simp: take_Cons keep step split: nat.split)
qed

lemma init_trace_cut:
  assumes ok: "log_ok g s es" and act: "active g s" and geo: "geom_ok g"
  defines "B \<equiv> other_base g s" and "ws \<equiv> init_trace g (other_base g s) kSettingsInSwap"
  shows "i < B \<or> B + settingsSize g \<le> i \<Longrightarrow> cut_off n ws (fmem s) i = fmem s i"
    and "B = 0 \<Longrightarrow> read_flag (cut_off n ws (fmem s)) 0 \<noteq> kSettingsInUse"
proof -
  let ?E = "erase_trace (unat (pageSize g)) (B + settingsSize g) B" and ?F = "PUTLE32 kSettingsInSwap [0, 0, 0, 0]"
  note b = other_base [OF act geo, folded B_def]
  have page: "0 < unat (pageSize g)" "unat (pageSize g) dvd B + settingsSize g"
    using geo b(3) by (auto simp: geom_ok_def word_less_nat_alt)
  note e = erase_trace_cut [OF page(1) b(3) page(2)]
  have ws: "ws = ?E @ [Program B ?F]"
    by (simp add: ws_def init_trace_def B_def)
  have split: "cut_off n ws (fmem s) =
      (if n \<le> length ?E then fold do_op (take n ?E) (fmem s) else fmem (swap_begun g s))"
  proof -
    have "take n ws = ws" if "\<not> n \<le> length ?E"
      using that by (simp add: ws)
    then show ?thesis
      using init_trace_effect [of g B kSettingsInSwap s B]
      by (simp add: cut_off_def swap_begun_def ws_def [folded B_def, symmetric] B_def [symmetric]) (simp add: ws)
  qed
  show "cut_off n ws (fmem s) i = fmem s i" if "i < B \<or> B + settingsSize g \<le> i"
    unfolding split using that e(1) [OF that] swap_begun(5) [OF ok act geo, folded B_def] by auto
  show "read_flag (cut_off n ws (fmem s)) 0 \<noteq> kSettingsInUse" if "B = 0"
  proof (cases "n \<le> length ?E")
    case False
    then show ?thesis
      unfolding split using that swap_begun(4) [OF ok act geo, folded B_def] by (simp add: kSettingsInSwap_def kSettingsInUse_def)
  next
    case True
    show ?thesis
    proof (cases "n = 0")
      case True
      then show ?thesis
        using act that b(1,2) by (auto simp: active_def cut_off_def)
    next
      case False
      then have "fold do_op (take n ?E) (fmem s) B = 0xFF"
        using b(2) by (intro e(2)) auto
      with True that show ?thesis
        unfolding split by (auto dest: ff_not_in_use)
    qed
  qed
qed

lemma cut_off_append:
  "cut_off n (us @ ws) mem = (if n \<le> length us then cut_off n us mem else cut_off (n - length us) ws (fold do_op us mem))"
  by (simp add: cut_off_def)

lemma cut_off_all: "length ws \<le> n \<Longrightarrow> cut_off n ws mem = fold do_op ws mem"
  by (simp add: cut_off_def)

lemma swap_trace_cut:
  assumes h: "holds g s es m" and short: "short_records es"
  obtains ws s' where "swap_trace g s = Some (ws, settingsSize g - used_size s', s')"
    "swapSettingsBlock g s = Some (settingsSize g - used_size s', s')" "fmem s' = fold do_op ws (fmem s)"
    "holds g s' (map copied (kept es)) (after_swap es)" "used_size s' = 4 + log_size (kept es)"
    "\<forall>n. recovers g (cut_off n ws (fmem s)) m \<or> recovers g (cut_off n ws (fmem s)) (after_swap es)"
proof -
  have a: "log_ok g s es" "active g s" "geom_ok g" "settingsSize g < 2 ^ 32"
    using h by (simp_all add: holds_def)
  define A where "A = base_address s"
  define B where "B = other_base g s"
  define s1 where "s1 = swap_begun g s"
  note b = other_base [OF a(2,3), folded A_def B_def] and s1 = swap_begun [OF a(1-3), folded s1_def B_def]
  have pages: "numPages g > 1"
    using a(3) by (simp add: geom_ok_def)
  have "\<forall>e \<in> set (kept es). alignLength (fst e) + 8 < 65536"
    using short short_record_size by blast
  from swap_copies [OF a(1-3) this] obtain s2 where s2:
    "swap_loop (A + used_size s) (A + kSettingsFlagSize) s1 = Some s2" "log_ok g s2 (map copied (kept es))"
    "base_address s2 = B" "\<forall>i. i < B + 4 \<or> B + settingsSize g \<le> i \<longrightarrow> fmem s2 i = fmem s1 i"
    unfolding A_def B_def s1_def by blast
  obtain vs where vs: "swap_loop_trace (A + used_size s) (A + kSettingsFlagSize) s1 = Some (vs, s2)"
    using swap_loop_trace_complete [OF s2(1)] by blast
  have tr: "fmem s2 = fold do_op vs (fmem s1)" "within (B + 4) (B + settingsSize g) vs"
  proof -
    have "used_size s2 \<le> settingsSize g"
      using s2(2) by (simp add: log_ok_def)
    then show "fmem s2 = fold do_op vs (fmem s1)" "within (B + 4) (B + settingsSize g) vs"
      using swap_loop_trace_sound [OF vs] s1(1,2) by (auto simp: traced_def elim!: within_mono)
  qed
  obtain s3 where s3: "swapSettingsBlock g s = Some (settingsSize g - used_size s3, s3)"
    "holds g s3 (map copied (kept es)) (after_swap es)" "used_size s3 = 4 + log_size (kept es)"
    by (rule swap_holds [OF h short])
  let ?I = "init_trace g B kSettingsInSwap"
  let ?P1 = "Program B (PUTLE32 kSettingsInUse [0, 0, 0, 0])" and ?P2 = "Program A (PUTLE32 kSettingsNotUse [0, 0, 0, 0])"
  let ?ws = "?I @ vs @ [?P1, ?P2]"
  have I: "fold do_op ?I (fmem s) = fmem s1"
    using init_trace_effect [of g B kSettingsInSwap s B] by (simp add: s1_def swap_begun_def B_def)
  have nb: "(if A = SETTINGS_CONFIG_BASE_ADDRESS then A + settingsSize g else SETTINGS_CONFIG_BASE_ADDRESS) = B"
    by (simp add: A_def B_def other_base_def SETTINGS_CONFIG_BASE_ADDRESS_def)
  have s3': "s3 = setSettingsFlag A kSettingsNotUse (setSettingsFlag B kSettingsInUse s2)"
    using s3(1) s2(1,3) unfolding swapSettingsBlock_eq [OF a(2) pages] A_def [symmetric] s1_def [symmetric]
    by (simp add: Let_def)
  have "swap_trace g s = Some (?ws, (settingsSize g + 2 ^ 32 - used_size s3) mod 2 ^ 32, s3)"
    using pages vs unfolding swap_trace_def Let_def A_def [symmetric] nb
    by (simp add: s2(3) s3' s1_def swap_begun_def B_def [symmetric])
  moreover have "(settingsSize g + 2 ^ 32 - used_size s3) mod 2 ^ 32 = settingsSize g - used_size s3"
  proof -
    have "swapSettingsBlock g s = Some ((settingsSize g + 2 ^ 32 - used_size s3) mod 2 ^ 32, s3)"
      using s2(1,3) unfolding swapSettingsBlock_eq [OF a(2) pages] A_def [symmetric] s1_def [symmetric]
      by (simp add: Let_def s3')
    with s3(1) show ?thesis
      by simp
  qed
  moreover have fold: "fmem s3 = fold do_op ?ws (fmem s)"
    by (simp add: I tr(1) s3' setSettingsFlag_def)
  moreover have "recovers g (cut_off n ?ws (fmem s)) m \<or> recovers g (cut_off n ?ws (fmem s)) (after_swap es)" for n
  proof -
    consider "n \<le> length ?I" | "length ?I < n" "n \<le> length ?I + length vs" | "n = length ?I + length vs + 1"
      | "length ?I + length vs + 2 \<le> n"
      by linarith
    then show ?thesis
    proof cases
      case 1
      then have "recovers g (cut_off n ?ws (fmem s)) m"
        using init_trace_cut [OF a(1-3), where n = n, folded B_def]
        by (intro other_area_holds [OF h, folded B_def]) (simp_all add: cut_off_append)
      then show ?thesis ..
    next
      case 2
      let ?m = "fold do_op (take (n - length ?I) vs) (fmem s1)"
      have m: "cut_off n ?ws (fmem s) = ?m"
        using 2 by (simp add: cut_off_def I)
      have out: "?m i = fmem s1 i" if "i < B + 4 \<or> B + settingsSize g \<le> i" for i
        by (rule within_outside [OF tr(2) that])
      have "recovers g ?m m"
      proof (rule other_area_holds [OF h, folded B_def])
        show "?m i = fmem s i" if "i < B \<or> B + settingsSize g \<le> i" for i
          using that out [of i] s1(5) [of i] by auto
        have "read_flag ?m B = read_flag (fmem s1) B"
          by (rule read_flag_cong) (use out in auto)
        then show "read_flag ?m 0 \<noteq> kSettingsInUse" if "B = 0"
          using that s1(4) by (simp add: kSettingsInSwap_def kSettingsInUse_def)
      qed
      with m show ?thesis
        by simp
    next
      case 3
      define t where "t = setSettingsFlag B kSettingsInUse s2"
      have m: "cut_off n ?ws (fmem s) = fmem t"
        using 3 by (simp add: cut_off_def I tr(1) t_def setSettingsFlag_def)
      have len: "length (PUTLE32 kSettingsInUse [0, 0, 0, 0]) = 4"
        by (simp add: le32.put_length)
      show ?thesis
      proof (cases "B = 0")
        case True
        have "log_ok g t (map copied (kept es))"
          unfolding t_def setSettingsFlag_def by (rule log_ok_flag_write [OF s2(2)]) (use len s2(3) in auto)
        moreover have "read_flag (fmem t) 0 = kSettingsInUse"
        proof -
          have "read_flag (fmem s2) B = read_flag (fmem s1) B"
            by (rule read_flag_cong) (use s2(4) in auto)
          then show ?thesis
            using True s1(4) by (simp add: t_def setSettingsFlag_def read_flag_write kSettingsInUse_def kSettingsInSwap_def)
        qed
        then have "active g t"
          using True s2(3) by (simp add: active_def t_def setSettingsFlag_def)
        ultimately have "holds g t (map copied (kept es)) (after_swap es)"
          using a s3(2) by (simp add: holds_def)
        from recoversI [OF this] m show ?thesis
          by simp
      next
        case False
        have "recovers g (fmem t) m"
        proof (rule other_area_holds [OF h, folded B_def])
          show "fmem t i = fmem s i" if "i < B \<or> B + settingsSize g \<le> i" for i
            using that b(2) len s2(4) s1(5) [of i] by (auto simp: t_def setSettingsFlag_def flash_write_outside)
        qed (use False in simp)
        with m show ?thesis
          by simp
      qed
    next
      case 4
      then have "cut_off n ?ws (fmem s) = fmem s3"
        unfolding fold by (intro cut_off_all) simp
      with recoversI [OF s3(2)] show ?thesis
        by simp
    qed
  qed
  ultimately show thesis
    using s3 by (intro that [of ?ws s3]) auto
qed

subsection \<open>Cutting off the record\<close>

lemma data_trace_cut:
  assumes "4 dvd a" "i < a \<or> a + (length v + 3) div 4 * 4 \<le> i"
  shows "cut_off n (vector_trace [v] a) mem i = mem i"
proof -
  let ?h = "min 4 (length v)"
  let ?P1 = "Program a (take ?h v @ replicate (4 - ?h) 0xFF)" and ?P2 = "Program (a + 4) (drop ?h v)"
  have t: "vector_trace [v] a = [?P1, ?P2]"
    using assms(1) by (simp add: Let_def dvd_eq_mod_eq_0)
  have out: "\<not> (a \<le> i \<and> i < a + length v)"
    using assms(2) by linarith
  have 1: "do_op ?P1 mem i = mem i" for mem
  proof -
    have "do_op ?P1 mem = flash_write a (take ?h v) mem"
      using flash_write_pad [of a "take ?h v" "4 - ?h" mem] by simp
    with out show ?thesis
      by (auto simp: flash_write_outside)
  qed
  have 2: "do_op ?P2 mem i = mem i" for mem
    using out by (cases "4 \<le> length v") (auto simp: flash_write_outside)
  show ?thesis
    unfolding cut_off_def t using 1 2 by (simp add: take_Cons split: nat.split)
qed

text \<open>A record whose header is there and whose data is not complete hides the values before it.\<close>

lemma begun_recovers:
  assumes h: "holds g s es m" and len: "length v \<le> 65532" and room: "used_size s + record_room v \<le> settingsSize g"
    and b: "b = new_block k True (vector_length [v]) st"
    and mem: "\<And>i. i < base_address s + used_size s + 8 \<or> base_address s + used_size s + record_room v \<le> i \<Longrightarrow>
       mem i = flash_write (base_address s + used_size s) (block_bytes b) (fmem s) i"
  shows "recovers g mem (m(k := []))"
proof -
  have a: "log_ok g s es" "active g s" "geom_ok g" "settingsSize g < 2 ^ 32" and m: "\<forall>k. m k = vals k [] es"
    using h by (simp_all add: holds_def)
  let ?p = "base_address s + used_size s"
  have al: "alignLength b + 8 = record_room v"
    using record_size [of "[v]"] len by (simp add: b record_room_def)
  let ?d = "flash_read mem (?p + 8) (alignLength b)"
  let ?t = "s\<lparr>fmem := mem, used_size := used_size s + entry_size (b, ?d)\<rparr>"
  have blank: "fmem s i = 0xFF" if "?p \<le> i" "i < ?p + 8" for i
    using a(1) room al that by (auto simp: log_ok_def)
  have 1: "log_ok g ?t (es @ [(b, ?d)])"
  proof (rule log_snoc [OF a(1)])
    have "read_block mem ?p = read_block (flash_write ?p (block_bytes b) (fmem s)) ?p"
      by (rule read_block_cong) (use mem in simp)
    then show "read_block mem ?p = b"
      using blank by (simp add: read_block_write read_block_blank)
    show "mem i = fmem s i" if "i < ?p \<or> ?p + entry_size (b, ?d) \<le> i" for i
      using that mem [of i] al by (auto simp: flash_write_outside entry_size_def)
    show "entry_ok (b, ?d)"
      using len by (simp add: entry_ok_def b new_block_fields vector_length_eq unat_of_nat)
  qed (use room al in \<open>simp_all add: entry_size_def\<close>)
  have 2: "active g ?t"
    by (rule add_active [OF a(2)]) (use a(1) mem in \<open>auto simp: log_ok_def flash_write_outside\<close>)
  have "vals k' [] (es @ [(b, ?d)]) = (m(k := [])) k'" for k'
    using m by (simp add: vals_append b new_block_fields)
  with 1 2 a have "holds g ?t (es @ [(b, ?d)]) (m(k := []))"
    by (simp add: holds_def)
  from recoversI [OF this] show ?thesis
    by simp
qed

lemma add_trace_cut:
  assumes h: "holds g s es m" and len: "length v \<le> 65532" and room: "used_size s + record_room v \<le> settingsSize g"
    and b: "b = new_block k True (vector_length [v]) st"
  shows "length (add_trace b [v] s) = 4"
    and "recovers g (cut_off n (add_trace b [v] s) (fmem s)) (if n = 0 then m else if n < 4 then m(k := []) else m(k := [v]))"
proof -
  have a: "log_ok g s es" "active g s" "geom_ok g" "settingsSize g < 2 ^ 32" and m: "\<forall>k. m k = vals k [] es"
    using h by (simp_all add: holds_def)
  let ?p = "base_address s + used_size s" and ?ws = "add_trace b [v] s"
  show len4: "length ?ws = 4"
    by (simp add: add_trace_def Let_def)
  consider "n = 0" | "0 < n" "n < 4" | "4 \<le> n"
    by linarith
  then show "recovers g (cut_off n ?ws (fmem s)) (if n = 0 then m else if n < 4 then m(k := []) else m(k := [v]))"
  proof cases
    case 1
    with recoversI [OF h] show ?thesis
      by (simp add: cut_off_def)
  next
    case 2
    let ?V = "vector_trace [v] (?p + 8)"
    have "length ?V = 2"
      by (simp add: Let_def)
    then have "cut_off n ?ws (fmem s) = cut_off (n - 1) ?V (flash_write ?p (block_bytes b) (fmem s))"
      using 2 by (cases n) (simp_all add: cut_off_def add_trace_def sizeof_settingsBlock_def Let_def del: vector_trace.simps)
    moreover have "4 dvd ?p + 8"
      using a(1) log_size_dvd [of es] by (auto simp: log_ok_def)
    then have "cut_off (n - 1) ?V (flash_write ?p (block_bytes b) (fmem s)) i = flash_write ?p (block_bytes b) (fmem s) i"
      if "i < ?p + 8 \<or> ?p + record_room v \<le> i" for i
      using that by (intro data_trace_cut) (auto simp: record_room_def)
    ultimately have "recovers g (cut_off n ?ws (fmem s)) (m(k := []))"
      by (intro begun_recovers [OF h len room b]) simp
    with 2 show ?thesis
      by simp
  next
    case 3
    let ?t = "add_complete b (add_data [v] (add_begin b s))"
    have "cut_off n ?ws (fmem s) = fmem ?t"
      using 3 len4 cut_off_all [of ?ws n] add_trace_effect [of b "[v]" s] by simp
    moreover obtain e where e: "log_ok g ?t (es @ [e])" "active g ?t" "ekey e = k" "elive e" "estart e" "evalue e = v"
      by (rule append_record [OF a(1,2) _ _ b]) (use len room record_size [of "[v]"] in \<open>simp_all add: b record_room_def\<close>)
    have "vals k' [] (es @ [e]) = (m(k := [v])) k'" for k'
      using e(3-6) m by (simp add: vals_append)
    with e(1,2) a have "holds g ?t (es @ [e]) (m(k := [v]))"
      by (simp add: holds_def)
    from recoversI [OF this] have "recovers g (fmem ?t) (m(k := [v]))" .
    ultimately show ?thesis
      using 3 by simp
  qed
qed

text \<open>
  C8: Power may fail at any point of a set, that is, after any number of the flash writes and page
  erases that the call makes, swap included (a single write or erase is taken to happen or not to
  happen). The restarted store is sound. Every other key has its values, or those a swap
  leaves of them; the key being set has its old values, or the new one, or none: if the record fits without
  a swap, the old values are gone from the first of the four writes on, and the new value is there
  only after the last, since the unfinished record already starts the key's list anew. Conditions are
  those of a set.
\<close>

theorem caUtilSettingsSet_power_failure:
  fixes k :: u16
  assumes "holds g s es m" "short_records es" "length v \<le> 65532"
  shows "\<exists>ws e s'. set_trace g st k v s = Some (ws, e, s') \<and> caUtilSettingsSet g st k v s = Some (e, s') \<and>
    fmem s' = fold do_op ws (fmem s) \<and>
    (\<forall>n. \<exists>m0 \<in> {m, after_swap es}. \<exists>m' \<in> {m0, m0(k := []), m0(k := [v])}. recovers g (cut_off n ws (fmem s)) m') \<and>
    (used_size s + record_room v < settingsSize g \<longrightarrow> length ws = 4 \<and>
       (\<forall>n. recovers g (cut_off n ws (fmem s)) (if n = 0 then m else if n < 4 then m(k := []) else m(k := [v]))))"
proof -
  define b where "b = new_block k True (vector_length [v]) st"
  have need: "alignLength b + sizeof_settingsBlock = record_room v"
    using record_size [of "[v]"] assms(3) by (simp add: b_def record_room_def sizeof_settingsBlock_def)
  let ?add = "\<lambda>t. add_complete b (add_data [v] (add_begin b t))"
  have code: "caUtilSettingsSet g st k v s = (if used_size s + record_room v \<ge> settingsSize g
      then (case swapSettingsBlock g s of None \<Rightarrow> None
            | Some (left, s1) \<Rightarrow> Some (if left \<ge> record_room v then (CA_ERROR_SUCCESS, ?add s1) else (CA_ERROR_NO_BUFFER, s1)))
      else Some (CA_ERROR_SUCCESS, ?add s))"
    unfolding need [symmetric] by (simp add: caUtilSettingsSet_def addSettingVector_def b_def [symmetric] Let_def)
  have trace: "set_trace g st k v s = (if used_size s + record_room v \<ge> settingsSize g
      then (case swap_trace g s of None \<Rightarrow> None
            | Some (ws, left, s1) \<Rightarrow> Some (if left \<ge> record_room v then (ws @ add_trace b [v] s1, CA_ERROR_SUCCESS, ?add s1)
                                          else (ws, CA_ERROR_NO_BUFFER, s1)))
      else Some (add_trace b [v] s, CA_ERROR_SUCCESS, ?add s))"
    unfolding need [symmetric] by (simp add: set_trace_def b_def [symmetric] Let_def)
  show ?thesis
  proof (cases "used_size s + record_room v < settingsSize g")
    case True
    then have "used_size s + record_room v \<le> settingsSize g"
      by simp
    note c = add_trace_cut [OF assms(1,3) this b_def]
    have "\<exists>m0 \<in> {m, after_swap es}. \<exists>m' \<in> {m0, m0(k := []), m0(k := [v])}.
        recovers g (cut_off n (add_trace b [v] s) (fmem s)) m'" for n
      using c(2) [of n] by (auto split: if_split_asm)
    with True c show ?thesis
      by (simp add: code trace add_trace_effect)
  next
    case False
    obtain ws s1 where w: "swap_trace g s = Some (ws, settingsSize g - used_size s1, s1)"
      "swapSettingsBlock g s = Some (settingsSize g - used_size s1, s1)" "fmem s1 = fold do_op ws (fmem s)"
      "holds g s1 (map copied (kept es)) (after_swap es)" "used_size s1 = 4 + log_size (kept es)"
      "\<forall>n. recovers g (cut_off n ws (fmem s)) m \<or> recovers g (cut_off n ws (fmem s)) (after_swap es)"
      by (rule swap_trace_cut [OF assms(1,2)])
    show ?thesis
    proof (cases "record_room v \<le> settingsSize g - used_size s1")
      case room: False
      have "\<exists>m0 \<in> {m, after_swap es}. \<exists>m' \<in> {m0, m0(k := []), m0(k := [v])}. recovers g (cut_off n ws (fmem s)) m'" for n
        using w(6) by blast
      with False room w(1-3) show ?thesis
        by (simp add: code trace)
    next
      case room: True
      have "used_size s1 + record_room v \<le> settingsSize g"
        using room w(4) by (auto simp: holds_def log_ok_def record_room_def)
      note c = add_trace_cut [OF w(4) assms(3) this b_def]
      have cut: "cut_off n (ws @ add_trace b [v] s1) (fmem s) = (if n \<le> length ws then cut_off n ws (fmem s)
          else cut_off (n - length ws) (add_trace b [v] s1) (fmem s1))" for n
        by (simp add: cut_off_append w(3))
      have "\<exists>m0 \<in> {m, after_swap es}. \<exists>m' \<in> {m0, m0(k := []), m0(k := [v])}.
          recovers g (cut_off n (ws @ add_trace b [v] s1) (fmem s)) m'" for n
        using w(6) c(2) [of "n - length ws"] unfolding cut by (auto split: if_split_asm)
      moreover have "fmem (?add s1) = fold do_op (ws @ add_trace b [v] s1) (fmem s)"
        using add_trace_effect [of b "[v]" s1] w(3) by simp
      ultimately show ?thesis
        using False room w(1,2) by (simp add: code trace)
    qed
  qed
qed

theorem caUtilSettingsSet_power_failure_witness:
  "\<exists>ws e s'. set_trace demo_geometry 0 7 [1, 2, 3] demo_store = Some (ws, e, s') \<and>
     caUtilSettingsSet demo_geometry 0 7 [1, 2, 3] demo_store = Some (e, s') \<and>
     recovers demo_geometry (cut_off 2 ws (fmem demo_store)) ((\<lambda>_. [])(7 := [])) \<and>
     recovers demo_geometry (cut_off 4 ws (fmem demo_store)) ((\<lambda>_. [])(7 := [[1, 2, 3]]))"
proof -
  have room: "used_size demo_store + record_room [1, 2, 3] < settingsSize demo_geometry"
    by (simp add: record_room_def) (simp add: demo_store_def)
  obtain ws e s' where w: "set_trace demo_geometry 0 7 [1, 2, 3] demo_store = Some (ws, e, s')"
    "caUtilSettingsSet demo_geometry 0 7 [1, 2, 3] demo_store = Some (e, s')"
    and n: "\<forall>n. recovers demo_geometry (cut_off n ws (fmem demo_store))
        (if n = 0 then (\<lambda>_. []) else if n < 4 then (\<lambda>_. [])(7 := []) else (\<lambda>_. [])(7 := [[1, 2, 3]]))"
    using caUtilSettingsSet_power_failure [OF demo_holds, of "[1, 2, 3]" 0 7] room by auto
  from n [rule_format, of 2] n [rule_format, of 4] w show ?thesis
    by auto
qed

end
