(* ===== verification/MacMsg.thy ===== *)
theory MacMsg
  imports CaError Endian
begin

text \<open>
  The messages between host and radio (\<^verbatim>\<open>ca821x-api/include/mac_messages.h\<close>,
  \<^verbatim>\<open>ieee_802_15_4.h\<close>, \<^verbatim>\<open>hwme_tdme.h\<close>) and the device structure of
  \<^verbatim>\<open>ca821x_api.h\<close>. Every member of a message structure is an octet or an array of octets, so a
  structure is its packed bytes; \<open>T_bytes\<close> lays a structure out and \<open>get_T\<close> reads it back. The
  part number the build selects (\<^verbatim>\<open>CASCODA_CA_VER\<close>) is a parameter \<open>v\<close>, so
  that every \<^verbatim>\<open>#if\<close> branch of the code is a branch of the model.
\<close>

unbundle bit_operations_syntax

subsection \<open>Part number, status codes, command ids\<close>

datatype ca_ver = CA8210 | CA8211 | CA8212

type_synonym ca_mac_status = u8

abbreviation MAC_SUCCESS :: u8 where "MAC_SUCCESS \<equiv> 0x00"
abbreviation MAC_FRAME_TOO_LONG :: u8 where "MAC_FRAME_TOO_LONG \<equiv> 0xE5"
abbreviation MAC_INVALID_PARAMETER :: u8 where "MAC_INVALID_PARAMETER \<equiv> 0xE8"
abbreviation MAC_NO_BEACON :: u8 where "MAC_NO_BEACON \<equiv> 0xEA"
abbreviation MAC_LIMIT_REACHED :: u8 where "MAC_LIMIT_REACHED \<equiv> 0xFA"
abbreviation MAC_SYSTEM_ERROR :: u8 where "MAC_SYSTEM_ERROR \<equiv> 0xFF"
abbreviation TDME_SUCCESS :: u8 where "TDME_SUCCESS \<equiv> 0x00"

abbreviation MAC_MODE_NO_ADDR :: u8 where "MAC_MODE_NO_ADDR \<equiv> 0x00"
abbreviation MAC_MODE_SHORT_ADDR :: u8 where "MAC_MODE_SHORT_ADDR \<equiv> 0x02"
abbreviation MAC_MODE_LONG_ADDR :: u8 where "MAC_MODE_LONG_ADDR \<equiv> 0x03"
abbreviation MAC_BROADCAST_ADDRESS :: u16 where "MAC_BROADCAST_ADDRESS \<equiv> 0xFFFF"

abbreviation ACTIVE_SCAN :: u8 where "ACTIVE_SCAN \<equiv> 0x01"
abbreviation PASSIVE_SCAN :: u8 where "PASSIVE_SCAN \<equiv> 0x02"

abbreviation aMaxPHYPacketSize :: nat where "aMaxPHYPacketSize \<equiv> 127"
abbreviation aMaxBeaconPayloadLength :: nat where "aMaxBeaconPayloadLength \<equiv> 52"
abbreviation MAX_ATTRIBUTE_SIZE :: nat where "MAX_ATTRIBUTE_SIZE \<equiv> 250"
abbreviation MAX_HWME_ATTRIBUTE_SIZE :: nat where "MAX_HWME_ATTRIBUTE_SIZE \<equiv> 16"
abbreviation MAX_TDME_ATTRIBUTE_SIZE :: nat where "MAX_TDME_ATTRIBUTE_SIZE \<equiv> 2"

abbreviation SPI_S2M :: u8 where "SPI_S2M \<equiv> 0x20"
abbreviation SPI_SYN :: u8 where "SPI_SYN \<equiv> 0x40"
abbreviation SPI_IDLE :: u8 where "SPI_IDLE \<equiv> 0xFF"
abbreviation SPI_NACK :: u8 where "SPI_NACK \<equiv> 0xF0"
abbreviation SPI_MCPS_DATA_REQUEST :: u8 where "SPI_MCPS_DATA_REQUEST \<equiv> 0x00"
abbreviation SPI_MCPS_PURGE_REQUEST :: u8 where "SPI_MCPS_PURGE_REQUEST \<equiv> 0x41"
abbreviation SPI_MCPS_DATA_INDICATION :: u8 where "SPI_MCPS_DATA_INDICATION \<equiv> 0x20"
abbreviation SPI_MCPS_DATA_CONFIRM :: u8 where "SPI_MCPS_DATA_CONFIRM \<equiv> 0x21"
abbreviation SPI_MCPS_PURGE_CONFIRM :: u8 where "SPI_MCPS_PURGE_CONFIRM \<equiv> 0x62"
abbreviation SPI_PCPS_DATA_REQUEST :: u8 where "SPI_PCPS_DATA_REQUEST \<equiv> 0x07"
abbreviation SPI_PCPS_DATA_CONFIRM :: u8 where "SPI_PCPS_DATA_CONFIRM \<equiv> 0x38"
abbreviation SPI_PCPS_DATA_INDICATION :: u8 where "SPI_PCPS_DATA_INDICATION \<equiv> 0x28"
abbreviation SPI_MLME_ASSOCIATE_REQUEST :: u8 where "SPI_MLME_ASSOCIATE_REQUEST \<equiv> 0x02"
abbreviation SPI_MLME_ASSOCIATE_RESPONSE :: u8 where "SPI_MLME_ASSOCIATE_RESPONSE \<equiv> 0x03"
abbreviation SPI_MLME_DISASSOCIATE_REQUEST :: u8 where "SPI_MLME_DISASSOCIATE_REQUEST \<equiv> 0x04"
abbreviation SPI_MLME_GET_REQUEST :: u8 where "SPI_MLME_GET_REQUEST \<equiv> 0x45"
abbreviation SPI_MLME_ORPHAN_RESPONSE :: u8 where "SPI_MLME_ORPHAN_RESPONSE \<equiv> 0x06"
abbreviation SPI_MLME_RESET_REQUEST :: u8 where "SPI_MLME_RESET_REQUEST \<equiv> 0x47"
abbreviation SPI_MLME_RX_ENABLE_REQUEST :: u8 where "SPI_MLME_RX_ENABLE_REQUEST \<equiv> 0x48"
abbreviation SPI_MLME_SCAN_REQUEST :: u8 where "SPI_MLME_SCAN_REQUEST \<equiv> 0x09"
abbreviation SPI_MLME_SET_REQUEST :: u8 where "SPI_MLME_SET_REQUEST \<equiv> 0x4A"
abbreviation SPI_MLME_START_REQUEST :: u8 where "SPI_MLME_START_REQUEST \<equiv> 0x4B"
abbreviation SPI_MLME_SYNC_REQUEST :: u8 where "SPI_MLME_SYNC_REQUEST \<equiv> 0x0C"
abbreviation SPI_MLME_ASSOCIATE_INDICATION :: u8 where "SPI_MLME_ASSOCIATE_INDICATION \<equiv> 0x23"
abbreviation SPI_MLME_ASSOCIATE_CONFIRM :: u8 where "SPI_MLME_ASSOCIATE_CONFIRM \<equiv> 0x24"
abbreviation SPI_MLME_DISASSOCIATE_INDICATION :: u8 where "SPI_MLME_DISASSOCIATE_INDICATION \<equiv> 0x25"
abbreviation SPI_MLME_DISASSOCIATE_CONFIRM :: u8 where "SPI_MLME_DISASSOCIATE_CONFIRM \<equiv> 0x26"
abbreviation SPI_MLME_BEACON_NOTIFY_INDICATION :: u8 where "SPI_MLME_BEACON_NOTIFY_INDICATION \<equiv> 0x27"
abbreviation SPI_MLME_GET_CONFIRM :: u8 where "SPI_MLME_GET_CONFIRM \<equiv> 0x68"
abbreviation SPI_MLME_ORPHAN_INDICATION :: u8 where "SPI_MLME_ORPHAN_INDICATION \<equiv> 0x29"
abbreviation SPI_MLME_RESET_CONFIRM :: u8 where "SPI_MLME_RESET_CONFIRM \<equiv> 0x6A"
abbreviation SPI_MLME_RX_ENABLE_CONFIRM :: u8 where "SPI_MLME_RX_ENABLE_CONFIRM \<equiv> 0x6B"
abbreviation SPI_MLME_SCAN_CONFIRM :: u8 where "SPI_MLME_SCAN_CONFIRM \<equiv> 0x2C"
abbreviation SPI_MLME_COMM_STATUS_INDICATION :: u8 where "SPI_MLME_COMM_STATUS_INDICATION \<equiv> 0x2D"
abbreviation SPI_MLME_SET_CONFIRM :: u8 where "SPI_MLME_SET_CONFIRM \<equiv> 0x6E"
abbreviation SPI_MLME_START_CONFIRM :: u8 where "SPI_MLME_START_CONFIRM \<equiv> 0x6F"
abbreviation SPI_MLME_SYNC_LOSS_INDICATION :: u8 where "SPI_MLME_SYNC_LOSS_INDICATION \<equiv> 0x30"
abbreviation SPI_MLME_IE_NOTIFY_INDICATION :: u8 where "SPI_MLME_IE_NOTIFY_INDICATION \<equiv> 0x22"
abbreviation SPI_MLME_POLL_INDICATION :: u8 where "SPI_MLME_POLL_INDICATION \<equiv> 0x31"
abbreviation SPI_HWME_SET_REQUEST :: u8 where "SPI_HWME_SET_REQUEST \<equiv> 0x4E"
abbreviation SPI_HWME_GET_REQUEST :: u8 where "SPI_HWME_GET_REQUEST \<equiv> 0x4F"
abbreviation SPI_HWME_HAES_REQUEST :: u8 where "SPI_HWME_HAES_REQUEST \<equiv> 0x50"
abbreviation SPI_HWME_SET_CONFIRM :: u8 where "SPI_HWME_SET_CONFIRM \<equiv> 0x72"
abbreviation SPI_HWME_GET_CONFIRM :: u8 where "SPI_HWME_GET_CONFIRM \<equiv> 0x73"
abbreviation SPI_HWME_HAES_CONFIRM :: u8 where "SPI_HWME_HAES_CONFIRM \<equiv> 0x74"
abbreviation SPI_HWME_WAKEUP_INDICATION :: u8 where "SPI_HWME_WAKEUP_INDICATION \<equiv> 0x35"
abbreviation SPI_TDME_SETSFR_REQUEST :: u8 where "SPI_TDME_SETSFR_REQUEST \<equiv> 0x51"
abbreviation SPI_TDME_GETSFR_REQUEST :: u8 where "SPI_TDME_GETSFR_REQUEST \<equiv> 0x52"
abbreviation SPI_TDME_TESTMODE_REQUEST :: u8 where "SPI_TDME_TESTMODE_REQUEST \<equiv> 0x53"
abbreviation SPI_TDME_SET_REQUEST :: u8 where "SPI_TDME_SET_REQUEST \<equiv> 0x54"
abbreviation SPI_TDME_TXPKT_REQUEST :: u8 where "SPI_TDME_TXPKT_REQUEST \<equiv> 0x55"
abbreviation SPI_TDME_LOTLK_REQUEST :: u8 where "SPI_TDME_LOTLK_REQUEST \<equiv> 0x56"
abbreviation SPI_TDME_SETSFR_CONFIRM :: u8 where "SPI_TDME_SETSFR_CONFIRM \<equiv> 0x77"
abbreviation SPI_TDME_GETSFR_CONFIRM :: u8 where "SPI_TDME_GETSFR_CONFIRM \<equiv> 0x78"
abbreviation SPI_TDME_TESTMODE_CONFIRM :: u8 where "SPI_TDME_TESTMODE_CONFIRM \<equiv> 0x79"
abbreviation SPI_TDME_SET_CONFIRM :: u8 where "SPI_TDME_SET_CONFIRM \<equiv> 0x7A"
abbreviation SPI_TDME_TXPKT_CONFIRM :: u8 where "SPI_TDME_TXPKT_CONFIRM \<equiv> 0x7B"
abbreviation SPI_TDME_RXPKT_INDICATION :: u8 where "SPI_TDME_RXPKT_INDICATION \<equiv> 0x3C"
abbreviation SPI_TDME_EDDET_INDICATION :: u8 where "SPI_TDME_EDDET_INDICATION \<equiv> 0x3D"
abbreviation SPI_TDME_ERROR_INDICATION :: u8 where "SPI_TDME_ERROR_INDICATION \<equiv> 0x3E"
abbreviation SPI_TDME_LOTLK_CONFIRM :: u8 where "SPI_TDME_LOTLK_CONFIRM \<equiv> 0x7F"

text \<open>The poll request and its confirm became asynchronous on the CA-8212.\<close>

fun SPI_MLME_POLL_REQUEST :: "ca_ver \<Rightarrow> u8" where
  "SPI_MLME_POLL_REQUEST CA8212 = 0x32"
| "SPI_MLME_POLL_REQUEST _ = 0x4D"

fun SPI_MLME_POLL_CONFIRM :: "ca_ver \<Rightarrow> u8" where
  "SPI_MLME_POLL_CONFIRM CA8212 = 0x33"
| "SPI_MLME_POLL_CONFIRM _ = 0x71"

definition ca821x_get_sync_response_id :: "ca_ver \<Rightarrow> u8 \<Rightarrow> u8" where
  "ca821x_get_sync_response_id v cmdid =
     (if cmdid = SPI_MCPS_PURGE_REQUEST then SPI_MCPS_PURGE_CONFIRM
      else if cmdid = SPI_MLME_GET_REQUEST then SPI_MLME_GET_CONFIRM
      else if cmdid = SPI_MLME_RESET_REQUEST then SPI_MLME_RESET_CONFIRM
      else if cmdid = SPI_MLME_RX_ENABLE_REQUEST then SPI_MLME_RX_ENABLE_CONFIRM
      else if cmdid = SPI_MLME_SET_REQUEST then SPI_MLME_SET_CONFIRM
      else if cmdid = SPI_MLME_START_REQUEST then SPI_MLME_START_CONFIRM
      else if v \<noteq> CA8212 \<and> cmdid = SPI_MLME_POLL_REQUEST v then SPI_MLME_POLL_CONFIRM v
      else if cmdid = SPI_HWME_SET_REQUEST then SPI_HWME_SET_CONFIRM
      else if cmdid = SPI_HWME_GET_REQUEST then SPI_HWME_GET_CONFIRM
      else if cmdid = SPI_HWME_HAES_REQUEST then SPI_HWME_HAES_CONFIRM
      else if cmdid = SPI_TDME_SETSFR_REQUEST then SPI_TDME_SETSFR_CONFIRM
      else if cmdid = SPI_TDME_GETSFR_REQUEST then SPI_TDME_GETSFR_CONFIRM
      else if cmdid = SPI_TDME_TESTMODE_REQUEST then SPI_TDME_TESTMODE_CONFIRM
      else if cmdid = SPI_TDME_SET_REQUEST then SPI_TDME_SET_CONFIRM
      else if cmdid = SPI_TDME_TXPKT_REQUEST then SPI_TDME_TXPKT_CONFIRM
      else if cmdid = SPI_TDME_LOTLK_REQUEST then SPI_TDME_LOTLK_CONFIRM
      else 0)"

subsection \<open>Message structures\<close>

record FullAddr =
  AddressMode :: u8
  PANId :: bytes
  Address :: bytes

record MacAddr =
  ma_AddressMode :: u8
  ma_Address :: bytes

record SecSpec =
  SecurityLevel :: u8
  KeyIdMode :: u8
  KeySource :: bytes
  KeyIndex :: u8

record PanDescriptor =
  Coord :: FullAddr
  LogicalChannel :: u8
  SuperframeSpec :: bytes
  GTSPermit :: u8
  LinkQuality :: u8
  TimeStamp :: bytes
  SecurityFailure :: u8
  Security :: SecSpec

text \<open>Sizes of the C structures, which have no padding.\<close>

abbreviation sizeof_FullAddr :: nat where "sizeof_FullAddr \<equiv> 1 + 2 + 8"
abbreviation sizeof_SecSpec :: nat where "sizeof_SecSpec \<equiv> 1 + 1 + 8 + 1"

definition wf_FullAddr :: "FullAddr \<Rightarrow> bool" where
  "wf_FullAddr a \<longleftrightarrow> length (PANId a) = 2 \<and> length (Address a) = 8"

definition wf_SecSpec :: "SecSpec \<Rightarrow> bool" where
  "wf_SecSpec s \<longleftrightarrow> length (KeySource s) = 8"

definition FullAddr_bytes :: "FullAddr \<Rightarrow> bytes" where
  "FullAddr_bytes a = AddressMode a # PANId a @ Address a"

definition get_FullAddr :: "bytes \<Rightarrow> FullAddr" where
  "get_FullAddr p = \<lparr>AddressMode = p ! 0, PANId = take 2 (drop 1 p), Address = take 8 (drop 3 p)\<rparr>"

definition SecSpec_bytes :: "SecSpec \<Rightarrow> bytes" where
  "SecSpec_bytes s = SecurityLevel s # KeyIdMode s # KeySource s @ [KeyIndex s]"

definition get_SecSpec :: "bytes \<Rightarrow> SecSpec" where
  "get_SecSpec p =
     \<lparr>SecurityLevel = p ! 0, KeyIdMode = p ! 1, KeySource = take 8 (drop 2 p), KeyIndex = p ! 10\<rparr>"

lemma length_FullAddr_bytes [simp]: "wf_FullAddr a \<Longrightarrow> length (FullAddr_bytes a) = 11"
  by (simp add: wf_FullAddr_def FullAddr_bytes_def)

lemma length_SecSpec_bytes [simp]: "wf_SecSpec s \<Longrightarrow> length (SecSpec_bytes s) = 11"
  by (simp add: wf_SecSpec_def SecSpec_bytes_def)

lemma get_FullAddr_bytes [simp]: "wf_FullAddr a \<Longrightarrow> get_FullAddr (FullAddr_bytes a @ r) = a"
  by (simp add: wf_FullAddr_def FullAddr_bytes_def get_FullAddr_def)

lemma get_SecSpec_bytes [simp]: "wf_SecSpec s \<Longrightarrow> get_SecSpec (SecSpec_bytes s @ r) = s"
  by (simp add: wf_SecSpec_def SecSpec_bytes_def get_SecSpec_def nth_append)

text \<open>
  A request under construction: the command id, the length octet, and the payload octets written
  so far. All requests fill their payload front to back, so the written octets are a prefix of the
  payload; what follows is uninitialised. A received message has the whole payload union.
\<close>

record mac_msg =
  CommandId :: u8
  Length :: u8
  PData :: bytes

abbreviation payload_size :: nat where "payload_size \<equiv> 254"

definition wf_msg :: "mac_msg \<Rightarrow> bool" where
  "wf_msg m \<longleftrightarrow> length (PData m) = payload_size"

text \<open>A request is complete when its length octet counts exactly the octets that were written.\<close>

definition complete :: "mac_msg \<Rightarrow> bool" where
  "complete c \<longleftrightarrow> unat (Length c) = length (PData c) \<and> length (PData c) \<le> payload_size"

subsection \<open>The device structure\<close>

text \<open>
  \<^verbatim>\<open>struct ca821x_api_callbacks\<close> has one slot for each indication and asynchronous confirm,
  and the generic one. A function pointer is a handle of type \<open>'cb\<close>; what calling it does
  is a parameter of the operations that call it.
\<close>

datatype callback =
    MCPS_DATA_indication | MCPS_DATA_confirm | PCPS_DATA_indication | PCPS_DATA_confirm
  | MLME_POLL_indication | MLME_POLL_confirm | MLME_IE_NOTIFY_indication
  | MLME_ASSOCIATE_indication | MLME_ASSOCIATE_confirm
  | MLME_DISASSOCIATE_indication | MLME_DISASSOCIATE_confirm
  | MLME_BEACON_NOTIFY_indication | MLME_ORPHAN_indication | MLME_SCAN_confirm
  | MLME_COMM_STATUS_indication | MLME_SYNC_LOSS_indication | HWME_WAKEUP_indication
  | TDME_RXPKT_indication | TDME_EDDET_indication | TDME_ERROR_indication

record ('cb, 'e) ca821x_dev =
  app_context :: "'e option"
  exchange_context :: "'e option"
  callbacks :: "callback \<Rightarrow> 'cb option"
  generic_dispatch :: "'cb option"
  extaddr :: bytes
  shortaddr :: u16
  lqi_mode :: u8
  MAC_MPW :: u8
  blacklist :: "MacAddr list"

abbreviation HWME_LQIMODE_CS :: u8 where "HWME_LQIMODE_CS \<equiv> 0x00"
abbreviation HWME_LQIMODE_ED :: u8 where "HWME_LQIMODE_ED \<equiv> 0x01"

text \<open>
  \<open>n\<close> is \<^verbatim>\<open>CASCODA_MAC_BLACKLIST\<close>, the number of blacklist entries, 0 when the feature
  is off. The loops over the list use an octet as index, so it is at most 255.
\<close>

definition ca821x_api_init ::
  "ca_ver \<Rightarrow> nat \<Rightarrow> ('cb, 'e) ca821x_dev option \<Rightarrow> ca_error \<times> ('cb, 'e) ca821x_dev option" where
  "ca821x_api_init v n pDeviceRef =
     (case pDeviceRef of
        None \<Rightarrow> (CA_ERROR_INVALID_ARGS, None)
      | Some _ \<Rightarrow>
          let zeroed = \<lparr>app_context = None, exchange_context = None, callbacks = (\<lambda>_. None),
                        generic_dispatch = None, extaddr = replicate 8 0, shortaddr = 0,
                        lqi_mode = 0, MAC_MPW = 0,
                        blacklist = replicate n \<lparr>ma_AddressMode = 0, ma_Address = replicate 8 0\<rparr>\<rparr>
          in (CA_ERROR_SUCCESS,
              Some (if v = CA8210 then zeroed\<lparr>shortaddr := 0xFFFF, lqi_mode := HWME_LQIMODE_CS\<rparr>
                    else zeroed)))"

end
