(* ===== verification/ApiRequest.thy ===== *)
theory ApiRequest
  imports MacMsg "HOL-Library.Monad_Syntax"
begin

text \<open>
  The MCPS, PCPS and MLME requests of \<^verbatim>\<open>ca821x-api/source/ca821x_api.c\<close>. Each is split at
  the call of \<^verbatim>\<open>ca821x_api_downstream\<close>: \<open>X_cmd\<close> builds the message, \<open>X\<close>
  sends it and reads the confirm. The transport below is a parameter, an action on the device
  structure; \<open>None\<close> as the result of a request is an access outside a buffer.
\<close>

unbundle bit_operations_syntax

subsection \<open>The transport\<close>

text \<open>
  \<open>downstream c r d\<close> sends \<open>c\<close>; \<open>r\<close> is the response buffer as it was before the
  call (\<open>None\<close> for a null pointer), and the result has its contents afterwards. \<open>stack\<close>
  is what an uninitialised local message holds.
\<close>

record ('cb, 'e) target =
  downstream :: "mac_msg \<Rightarrow> mac_msg option \<Rightarrow> ('cb, 'e) ca821x_dev \<Rightarrow>
                   ca_error \<times> mac_msg \<times> ('cb, 'e) ca821x_dev"
  stack :: mac_msg

definition send_async ::
  "('cb, 'e) target \<Rightarrow> mac_msg \<Rightarrow> ('cb, 'e) ca821x_dev \<Rightarrow> ca_mac_status \<times> ('cb, 'e) ca821x_dev" where
  "send_async T c d =
     (case downstream T c None d of (err, _, d') \<Rightarrow>
        (if err \<noteq> CA_ERROR_SUCCESS then MAC_SYSTEM_ERROR else MAC_SUCCESS, d'))"

text \<open>A synchronous request: the transport succeeds and the response has the expected id, or there
  is no response.\<close>

definition send_sync ::
  "('cb, 'e) target \<Rightarrow> mac_msg \<Rightarrow> mac_msg \<Rightarrow> u8 \<Rightarrow> ('cb, 'e) ca821x_dev \<Rightarrow>
     mac_msg option \<times> ('cb, 'e) ca821x_dev" where
  "send_sync T c buf cnf d =
     (case downstream T c (Some buf) d of (err, r, d') \<Rightarrow>
        (if err \<noteq> CA_ERROR_SUCCESS then None else if CommandId r \<noteq> cnf then None else Some r, d'))"

text \<open>\<^verbatim>\<open>memcpy(dst, src, n)\<close> into the remaining \<open>room\<close> of a buffer, from an object of
  known extent.\<close>

definition copy :: "nat \<Rightarrow> bytes \<Rightarrow> nat \<Rightarrow> bytes option" where
  "copy room src n = (if n \<le> room \<and> n \<le> length src then Some (take n src) else None)"

lemma copy_Some [simp]: "n \<le> room \<Longrightarrow> n \<le> length src \<Longrightarrow> copy room src n = Some (take n src)"
  by (simp add: copy_def)

lemma copy_eq_Some: "copy room src n = Some b \<longleftrightarrow> n \<le> room \<and> n \<le> length src \<and> b = take n src"
  by (auto simp: copy_def)

text \<open>The tail of every request with a security specification: without security only the level
  octet is sent and the length shrinks.\<close>

fun set_security :: "SecSpec option \<Rightarrow> u8 \<Rightarrow> u8 \<times> bytes" where
  "set_security None len = (len - (of_nat sizeof_SecSpec - 1), [0])"
| "set_security (Some s) len =
     (if SecurityLevel s = 0 then (len - (of_nat sizeof_SecSpec - 1), [0])
      else (len, SecSpec_bytes s))"

text \<open>The data request counts up instead.\<close>

fun append_security :: "SecSpec option \<Rightarrow> u8 \<Rightarrow> u8 \<times> bytes" where
  "append_security None len = (len + 1, [0])"
| "append_security (Some s) len =
     (if SecurityLevel s = 0 then (len + 1, [0])
      else (len + of_nat sizeof_SecSpec, SecSpec_bytes s))"

definition wf_sec :: "SecSpec option \<Rightarrow> bool" where
  "wf_sec p \<longleftrightarrow> (case p of None \<Rightarrow> True | Some s \<Rightarrow> wf_SecSpec s)"

text \<open>The octets a security specification occupies.\<close>

definition sec_bytes :: "SecSpec option \<Rightarrow> bytes" where
  "sec_bytes p = snd (set_security p 0)"

lemma set_security_eq:
  "set_security p len = (len - of_nat (sizeof_SecSpec - length (sec_bytes p)), sec_bytes p)"
  if "wf_sec p"
  using that by (cases p) (auto simp: sec_bytes_def wf_sec_def)

lemma append_security_eq:
  "append_security p len = (len + of_nat (length (sec_bytes p)), sec_bytes p)" if "wf_sec p"
  using that by (cases p) (auto simp: sec_bytes_def wf_sec_def)

lemma length_sec_bytes:
  "wf_sec p \<Longrightarrow> length (sec_bytes p) = 1 \<or> length (sec_bytes p) = 11"
  by (cases p) (auto simp: sec_bytes_def wf_sec_def)

subsection \<open>MCPS and PCPS\<close>

abbreviation TXOPT0_SCH :: u8 where "TXOPT0_SCH \<equiv> 0x08"
abbreviation TXOPT0_SPECIFIC_CHANNEL :: u8 where "TXOPT0_SPECIFIC_CHANNEL \<equiv> 0x10"
abbreviation TXOPT1_2015_FRAME :: u8 where "TXOPT1_2015_FRAME \<equiv> 0x01"

text \<open>Integers stored through a pointer are little endian, as on every supported host.\<close>

definition host16 :: "u16 \<Rightarrow> bytes" where "host16 x = PUTLE16 x [0, 0]"
definition host32 :: "u32 \<Rightarrow> bytes" where "host32 x = PUTLE32 x [0, 0, 0, 0]"

lemma length_host [simp]: "length (host16 x) = 2" "length (host32 y) = 4"
  by (simp_all add: host16_def host32_def PUTLE16_def PUTLE32_def)

text \<open>Both forms of the data request end with the frame and its security specification. They may
  use the whole payload union; \<open>buf\<close> is what it holds already.\<close>

definition data_tail :: "bytes \<Rightarrow> u8 \<Rightarrow> u8 \<Rightarrow> bytes \<Rightarrow> SecSpec option \<Rightarrow> mac_msg option" where
  "data_tail buf len MsduLength pMsdu pSecurity =
     do {
       msdu \<leftarrow> copy (payload_size - length buf) pMsdu (unat MsduLength);
       let (len, sec) = append_security pSecurity len;
       _ \<leftarrow> copy (payload_size - length (buf @ msdu)) sec (length sec);
       Some \<lparr>CommandId = SPI_MCPS_DATA_REQUEST, Length = len, PData = buf @ msdu @ sec\<rparr>
     }"

text \<open>Up to the CA-8211.\<close>

definition MCPS_DATA_request_cmd ::
  "u8 \<Rightarrow> FullAddr \<Rightarrow> u8 \<Rightarrow> bytes \<Rightarrow> u8 \<Rightarrow> u8 \<Rightarrow> SecSpec option \<Rightarrow> mac_msg option" where
  "MCPS_DATA_request_cmd SrcAddrMode DstAddr MsduLength pMsdu MsduHandle TxOptions pSecurity =
     (let fixed = SrcAddrMode # FullAddr_bytes DstAddr @ [MsduLength, MsduHandle, TxOptions]
      in data_tail fixed (of_nat (length fixed) + MsduLength) MsduLength pMsdu pSecurity)"

definition MCPS_DATA_request ::
  "('cb, 'e) target \<Rightarrow> u8 \<Rightarrow> FullAddr \<Rightarrow> u8 \<Rightarrow> bytes \<Rightarrow> u8 \<Rightarrow> u8 \<Rightarrow> SecSpec option \<Rightarrow>
     ('cb, 'e) ca821x_dev \<Rightarrow> (ca_mac_status \<times> ('cb, 'e) ca821x_dev) option" where
  "MCPS_DATA_request T SrcAddrMode DstAddr MsduLength pMsdu MsduHandle TxOptions pSecurity d =
     do {
       c \<leftarrow> MCPS_DATA_request_cmd SrcAddrMode DstAddr MsduLength pMsdu MsduHandle TxOptions pSecurity;
       Some (send_async T c d)
     }"

text \<open>The CA-8212 request: scheduling parameters, channel and information elements come before the
  frame, when the options ask for them.\<close>

definition data_params :: "u8 \<Rightarrow> u32 \<Rightarrow> u16 \<Rightarrow> u8 \<Rightarrow> u8 \<Rightarrow> u8 \<times> bytes" where
  "data_params opt0 SchTimestamp SchPeriod TxChannel len =
     (let (len, sch) = (if opt0 AND TXOPT0_SCH \<noteq> 0
                        then (len + (4 + 2), host32 SchTimestamp @ host16 SchPeriod) else (len, []));
          (len, chan) = (if opt0 AND TXOPT0_SPECIFIC_CHANNEL \<noteq> 0
                         then (len + 1, [TxChannel]) else (len, []))
      in (len, sch @ chan))"

definition data_ies :: "u8 \<Rightarrow> u8 \<Rightarrow> u8 \<Rightarrow> bytes \<Rightarrow> bytes \<Rightarrow> nat \<Rightarrow> u8 \<Rightarrow> (u8 \<times> bytes) option" where
  "data_ies opt1 HeaderIELength PayloadIELength pHeaderIEList pPayloadIEList room len =
     (if opt1 AND TXOPT1_2015_FRAME \<noteq> 0
      then do {
        hie \<leftarrow> copy room pHeaderIEList (unat HeaderIELength);
        pie \<leftarrow> copy (room - length hie) pPayloadIEList (unat PayloadIELength);
        Some (len + (HeaderIELength + PayloadIELength), hie @ pie)
      }
      else Some (len, []))"

definition MCPS_DATA_request_8212_cmd ::
  "u8 \<Rightarrow> FullAddr \<Rightarrow> u8 \<Rightarrow> u8 \<Rightarrow> u8 \<Rightarrow> bytes \<Rightarrow> u8 \<Rightarrow> u8 \<times> u8 \<Rightarrow> u32 \<Rightarrow> u16 \<Rightarrow> u8 \<Rightarrow> bytes \<Rightarrow> bytes \<Rightarrow>
     SecSpec option \<Rightarrow> mac_msg option" where
  "MCPS_DATA_request_8212_cmd SrcAddrMode DstAddr HeaderIELength PayloadIELength MsduLength pMsdu
       MsduHandle pTxOptions SchTimestamp SchPeriod TxChannel pHeaderIEList pPayloadIEList pSecurity =
     do {
       let (opt0, opt1) = pTxOptions;
       let fixed = SrcAddrMode # FullAddr_bytes DstAddr @
                   [HeaderIELength, PayloadIELength, MsduLength, MsduHandle, opt0, opt1];
       let (len, params) = data_params opt0 SchTimestamp SchPeriod TxChannel
                             (of_nat (length fixed) + MsduLength);
       (len, ies) \<leftarrow> data_ies opt1 HeaderIELength PayloadIELength pHeaderIEList pPayloadIEList
                       (payload_size - length (fixed @ params)) len;
       data_tail (fixed @ params @ ies) len MsduLength pMsdu pSecurity
     }"

definition MCPS_DATA_request_8212 ::
  "('cb, 'e) target \<Rightarrow> u8 \<Rightarrow> FullAddr \<Rightarrow> u8 \<Rightarrow> u8 \<Rightarrow> u8 \<Rightarrow> bytes \<Rightarrow> u8 \<Rightarrow> u8 \<times> u8 \<Rightarrow> u32 \<Rightarrow> u16 \<Rightarrow> u8 \<Rightarrow>
     bytes \<Rightarrow> bytes \<Rightarrow> SecSpec option \<Rightarrow> ('cb, 'e) ca821x_dev \<Rightarrow>
     (ca_mac_status \<times> ('cb, 'e) ca821x_dev) option" where
  "MCPS_DATA_request_8212 T SrcAddrMode DstAddr HeaderIELength PayloadIELength MsduLength pMsdu
       MsduHandle pTxOptions SchTimestamp SchPeriod TxChannel pHeaderIEList pPayloadIEList pSecurity d =
     do {
       c \<leftarrow> MCPS_DATA_request_8212_cmd SrcAddrMode DstAddr HeaderIELength PayloadIELength MsduLength
             pMsdu MsduHandle pTxOptions SchTimestamp SchPeriod TxChannel pHeaderIEList pPayloadIEList
             pSecurity;
       Some (send_async T c d)
     }"

definition MCPS_PURGE_request_sync ::
  "('cb, 'e) target \<Rightarrow> u8 \<Rightarrow> ('cb, 'e) ca821x_dev \<Rightarrow> ca_mac_status \<times> u8 \<times> ('cb, 'e) ca821x_dev" where
  "MCPS_PURGE_request_sync T MsduHandle d =
     (case send_sync T \<lparr>CommandId = SPI_MCPS_PURGE_REQUEST, Length = 1, PData = [MsduHandle]\<rparr>
             (stack T) SPI_MCPS_PURGE_CONFIRM d of
        (None, d') \<Rightarrow> (MAC_SYSTEM_ERROR, MsduHandle, d')
      | (Some r, d') \<Rightarrow> (PData r ! 1, PData r ! 0, d'))"

definition PCPS_DATA_request_8211_cmd :: "u8 \<Rightarrow> u8 \<Rightarrow> u8 \<Rightarrow> bytes \<Rightarrow> mac_msg option" where
  "PCPS_DATA_request_8211_cmd PsduHandle TxOpts PsduLength pPsdu =
     do {
       psdu \<leftarrow> copy aMaxPHYPacketSize pPsdu (unat PsduLength);
       Some \<lparr>CommandId = SPI_PCPS_DATA_REQUEST,
             Length = PsduLength + (of_nat (3 + aMaxPHYPacketSize) - of_nat aMaxPHYPacketSize),
             PData = [PsduHandle, TxOpts, PsduLength] @ psdu\<rparr>
     }"

definition PCPS_DATA_request_8211 ::
  "('cb, 'e) target \<Rightarrow> u8 \<Rightarrow> u8 \<Rightarrow> u8 \<Rightarrow> bytes \<Rightarrow> ('cb, 'e) ca821x_dev \<Rightarrow>
     (ca_mac_status \<times> ('cb, 'e) ca821x_dev) option" where
  "PCPS_DATA_request_8211 T PsduHandle TxOpts PsduLength pPsdu d =
     (if unat PsduLength > aMaxPHYPacketSize then Some (MAC_FRAME_TOO_LONG, d)
      else do {
        c \<leftarrow> PCPS_DATA_request_8211_cmd PsduHandle TxOpts PsduLength pPsdu;
        Some (send_async T c d)
      })"

definition PCPS_DATA_request_8212_cmd ::
  "u8 \<Rightarrow> u8 \<Rightarrow> u8 \<Rightarrow> bytes \<Rightarrow> u32 \<Rightarrow> u16 \<Rightarrow> mac_msg option" where
  "PCPS_DATA_request_8212_cmd PsduHandle TxOpts PsduLength pPsdu SchTimestamp SchPeriod =
     do {
       let len = PsduLength + 2;
       let (len, sch) = (if TxOpts AND TXOPT0_SCH \<noteq> 0
                         then (len + 4 + 2, host32 SchTimestamp @ host16 SchPeriod) else (len, []));
       psdu \<leftarrow> copy (7 + aMaxPHYPacketSize - length (sch @ [PsduLength])) pPsdu (unat PsduLength);
       Some \<lparr>CommandId = SPI_PCPS_DATA_REQUEST, Length = len + 1,
             PData = [PsduHandle, TxOpts] @ sch @ [PsduLength] @ psdu\<rparr>
     }"

definition PCPS_DATA_request_8212 ::
  "('cb, 'e) target \<Rightarrow> u8 \<Rightarrow> u8 \<Rightarrow> u8 \<Rightarrow> bytes \<Rightarrow> u32 \<Rightarrow> u16 \<Rightarrow> ('cb, 'e) ca821x_dev \<Rightarrow>
     (ca_mac_status \<times> ('cb, 'e) ca821x_dev) option" where
  "PCPS_DATA_request_8212 T PsduHandle TxOpts PsduLength pPsdu SchTimestamp SchPeriod d =
     (if unat PsduLength > aMaxPHYPacketSize then Some (MAC_FRAME_TOO_LONG, d)
      else do {
        c \<leftarrow> PCPS_DATA_request_8212_cmd PsduHandle TxOpts PsduLength pPsdu SchTimestamp SchPeriod;
        Some (send_async T c d)
      })"

subsection \<open>MLME\<close>

definition MLME_ASSOCIATE_request_cmd :: "u8 \<Rightarrow> FullAddr \<Rightarrow> u8 \<Rightarrow> SecSpec option \<Rightarrow> mac_msg" where
  "MLME_ASSOCIATE_request_cmd Channel DstAddr CapabilityInfo pSecurity =
     (let size = 1 + sizeof_FullAddr + 1 + sizeof_SecSpec;
          (len, sec) = set_security pSecurity (of_nat size)
      in \<lparr>CommandId = SPI_MLME_ASSOCIATE_REQUEST, Length = len,
          PData = Channel # FullAddr_bytes DstAddr @ CapabilityInfo # sec\<rparr>)"

definition MLME_ASSOCIATE_request ::
  "('cb, 'e) target \<Rightarrow> u8 \<Rightarrow> FullAddr \<Rightarrow> u8 \<Rightarrow> SecSpec option \<Rightarrow> ('cb, 'e) ca821x_dev \<Rightarrow>
     ca_mac_status \<times> ('cb, 'e) ca821x_dev" where
  "MLME_ASSOCIATE_request T Channel DstAddr CapabilityInfo pSecurity d =
     send_async T (MLME_ASSOCIATE_request_cmd Channel DstAddr CapabilityInfo pSecurity) d"

definition MLME_ASSOCIATE_response_cmd :: "bytes \<Rightarrow> u16 \<Rightarrow> u8 \<Rightarrow> SecSpec option \<Rightarrow> mac_msg option" where
  "MLME_ASSOCIATE_response_cmd pDeviceAddress AssocShortAddress Status pSecurity =
     do {
       let (len, sec) = set_security pSecurity (of_nat (8 + 2 + 1 + sizeof_SecSpec));
       addr \<leftarrow> copy 8 pDeviceAddress 8;
       Some \<lparr>CommandId = SPI_MLME_ASSOCIATE_RESPONSE, Length = len,
             PData = addr @ [LS_BYTE AssocShortAddress, MS_BYTE AssocShortAddress, Status] @ sec\<rparr>
     }"

definition MLME_ASSOCIATE_response ::
  "('cb, 'e) target \<Rightarrow> bytes \<Rightarrow> u16 \<Rightarrow> u8 \<Rightarrow> SecSpec option \<Rightarrow> ('cb, 'e) ca821x_dev \<Rightarrow>
     (ca_mac_status \<times> ('cb, 'e) ca821x_dev) option" where
  "MLME_ASSOCIATE_response T pDeviceAddress AssocShortAddress Status pSecurity d =
     do {
       c \<leftarrow> MLME_ASSOCIATE_response_cmd pDeviceAddress AssocShortAddress Status pSecurity;
       Some (send_async T c d)
     }"

definition MLME_DISASSOCIATE_request_cmd :: "FullAddr \<Rightarrow> u8 \<Rightarrow> u8 \<Rightarrow> SecSpec option \<Rightarrow> mac_msg" where
  "MLME_DISASSOCIATE_request_cmd DevAddr DisassociateReason TxIndirect pSecurity =
     (let (len, sec) = set_security pSecurity (of_nat (sizeof_FullAddr + 1 + 1 + sizeof_SecSpec))
      in \<lparr>CommandId = SPI_MLME_DISASSOCIATE_REQUEST, Length = len,
          PData = FullAddr_bytes DevAddr @ DisassociateReason # TxIndirect # sec\<rparr>)"

definition MLME_DISASSOCIATE_request ::
  "('cb, 'e) target \<Rightarrow> FullAddr \<Rightarrow> u8 \<Rightarrow> u8 \<Rightarrow> SecSpec option \<Rightarrow> ('cb, 'e) ca821x_dev \<Rightarrow>
     ca_mac_status \<times> ('cb, 'e) ca821x_dev" where
  "MLME_DISASSOCIATE_request T DevAddr DisassociateReason TxIndirect pSecurity d =
     send_async T (MLME_DISASSOCIATE_request_cmd DevAddr DisassociateReason TxIndirect pSecurity) d"

text \<open>The attribute is copied to the caller; the confirm says how long it is, and the copy starts
  at offset 4 of the payload.\<close>

definition MLME_GET_request_sync ::
  "('cb, 'e) target \<Rightarrow> u8 \<Rightarrow> u8 \<Rightarrow> ('cb, 'e) ca821x_dev \<Rightarrow>
     (ca_mac_status \<times> (u8 \<times> bytes) option \<times> ('cb, 'e) ca821x_dev) option" where
  "MLME_GET_request_sync T PIBAttribute PIBAttributeIndex d =
     (case send_sync T \<lparr>CommandId = SPI_MLME_GET_REQUEST, Length = 2,
                        PData = [PIBAttribute, PIBAttributeIndex]\<rparr>
             (stack T) SPI_MLME_GET_CONFIRM d of
        (None, d') \<Rightarrow> Some (MAC_SYSTEM_ERROR, None, d')
      | (Some r, d') \<Rightarrow>
          let status = PData r ! 0; len = PData r ! 3 in
          if status = MAC_SUCCESS
          then do {
            val \<leftarrow> copy payload_size (drop 4 (PData r)) (unat len);
            Some (status, Some (len, val), d')
          }
          else Some (status, None, d'))"

definition MLME_ORPHAN_response_cmd :: "bytes \<Rightarrow> u16 \<Rightarrow> u8 \<Rightarrow> SecSpec option \<Rightarrow> mac_msg option" where
  "MLME_ORPHAN_response_cmd pOrphanAddress ShortAddress AssociatedMember pSecurity =
     do {
       addr \<leftarrow> copy 8 pOrphanAddress 8;
       let (len, sec) = set_security pSecurity (of_nat (8 + 2 + 1 + sizeof_SecSpec));
       Some \<lparr>CommandId = SPI_MLME_ORPHAN_RESPONSE, Length = len,
             PData = addr @ [LS_BYTE ShortAddress, MS_BYTE ShortAddress, AssociatedMember] @ sec\<rparr>
     }"

definition MLME_ORPHAN_response ::
  "('cb, 'e) target \<Rightarrow> bytes \<Rightarrow> u16 \<Rightarrow> u8 \<Rightarrow> SecSpec option \<Rightarrow> ('cb, 'e) ca821x_dev \<Rightarrow>
     (ca_mac_status \<times> ('cb, 'e) ca821x_dev) option" where
  "MLME_ORPHAN_response T pOrphanAddress ShortAddress AssociatedMember pSecurity d =
     do {
       c \<leftarrow> MLME_ORPHAN_response_cmd pOrphanAddress ShortAddress AssociatedMember pSecurity;
       Some (send_async T c d)
     }"

text \<open>The CA-8210 host code mirrors the short address of the radio, which a reset clears.\<close>

definition MLME_RESET_request_sync ::
  "ca_ver \<Rightarrow> ('cb, 'e) target \<Rightarrow> u8 \<Rightarrow> ('cb, 'e) ca821x_dev \<Rightarrow>
     ca_mac_status \<times> ('cb, 'e) ca821x_dev" where
  "MLME_RESET_request_sync v T SetDefaultPIB d =
     (case send_sync T \<lparr>CommandId = SPI_MLME_RESET_REQUEST, Length = 1, PData = [SetDefaultPIB]\<rparr>
             (stack T) SPI_MLME_RESET_CONFIRM d of
        (None, d') \<Rightarrow> (MAC_SYSTEM_ERROR, d')
      | (Some r, d') \<Rightarrow>
          let status = PData r ! 0 in
          (status,
           if v = CA8210 \<and> SetDefaultPIB \<noteq> 0 \<and> status = MAC_SUCCESS
           then d'\<lparr>shortaddr := 0xFFFF\<rparr> else d'))"

definition octets32 :: "u32 \<Rightarrow> bytes" where
  "octets32 x = [LS0_BYTE x, LS1_BYTE x, LS2_BYTE x, LS3_BYTE x]"

definition MLME_RX_ENABLE_request_cmd :: "u8 \<Rightarrow> u32 \<Rightarrow> u32 \<Rightarrow> mac_msg" where
  "MLME_RX_ENABLE_request_cmd DeferPermit RxOnTime RxOnDuration =
     \<lparr>CommandId = SPI_MLME_RX_ENABLE_REQUEST, Length = of_nat (1 + 4 + 4),
      PData = DeferPermit # octets32 RxOnTime @ octets32 RxOnDuration\<rparr>"

definition MLME_RX_ENABLE_request_sync ::
  "('cb, 'e) target \<Rightarrow> u8 \<Rightarrow> u32 \<Rightarrow> u32 \<Rightarrow> ('cb, 'e) ca821x_dev \<Rightarrow>
     ca_mac_status \<times> ('cb, 'e) ca821x_dev" where
  "MLME_RX_ENABLE_request_sync T DeferPermit RxOnTime RxOnDuration d =
     (case send_sync T (MLME_RX_ENABLE_request_cmd DeferPermit RxOnTime RxOnDuration)
             (stack T) SPI_MLME_RX_ENABLE_CONFIRM d of
        (None, d') \<Rightarrow> (MAC_SYSTEM_ERROR, d')
      | (Some r, d') \<Rightarrow> (PData r ! 0, d'))"

definition MLME_SCAN_request_cmd :: "u8 \<Rightarrow> u32 \<Rightarrow> u8 \<Rightarrow> SecSpec option \<Rightarrow> mac_msg" where
  "MLME_SCAN_request_cmd ScanType ScanChannels ScanDuration pSecurity =
     (let (len, sec) = set_security pSecurity (of_nat (1 + 4 + 1 + sizeof_SecSpec))
      in \<lparr>CommandId = SPI_MLME_SCAN_REQUEST, Length = len,
          PData = ScanType # octets32 ScanChannels @ ScanDuration # sec\<rparr>)"

definition MLME_SCAN_request ::
  "('cb, 'e) target \<Rightarrow> u8 \<Rightarrow> u32 \<Rightarrow> u8 \<Rightarrow> SecSpec option \<Rightarrow> ('cb, 'e) ca821x_dev \<Rightarrow>
     ca_mac_status \<times> ('cb, 'e) ca821x_dev" where
  "MLME_SCAN_request T ScanType ScanChannels ScanDuration pSecurity d =
     send_async T (MLME_SCAN_request_cmd ScanType ScanChannels ScanDuration pSecurity) d"

definition MLME_SET_request_cmd :: "u8 \<Rightarrow> u8 \<Rightarrow> u8 \<Rightarrow> bytes \<Rightarrow> mac_msg option" where
  "MLME_SET_request_cmd PIBAttribute PIBAttributeIndex PIBAttributeLength pPIBAttributeValue =
     do {
       val \<leftarrow> copy MAX_ATTRIBUTE_SIZE pPIBAttributeValue (unat PIBAttributeLength);
       Some \<lparr>CommandId = SPI_MLME_SET_REQUEST,
             Length = of_nat (3 + MAX_ATTRIBUTE_SIZE) - of_nat MAX_ATTRIBUTE_SIZE + PIBAttributeLength,
             PData = [PIBAttribute, PIBAttributeIndex, PIBAttributeLength] @ val\<rparr>
     }"

abbreviation macShortAddress :: u8 where "macShortAddress \<equiv> 0x53"
abbreviation nsIEEEAddress :: u8 where "nsIEEEAddress \<equiv> 0xFF"

text \<open>The CA-8210 host code mirrors both addresses; it reads two or eight octets of the value,
  whatever its stated length.\<close>

definition mirror_address ::
  "u8 \<Rightarrow> bytes \<Rightarrow> ('cb, 'e) ca821x_dev \<Rightarrow> ('cb, 'e) ca821x_dev option" where
  "mirror_address PIBAttribute pPIBAttributeValue d =
     (if PIBAttribute = macShortAddress
      then do {
        b \<leftarrow> copy 2 pPIBAttributeValue 2;
        Some (d\<lparr>shortaddr := GETLE16 b\<rparr>)
      }
      else if PIBAttribute = nsIEEEAddress
      then do {
        b \<leftarrow> copy 8 pPIBAttributeValue 8;
        Some (d\<lparr>extaddr := b\<rparr>)
      }
      else Some d)"

definition MLME_SET_request_sync ::
  "ca_ver \<Rightarrow> ('cb, 'e) target \<Rightarrow> u8 \<Rightarrow> u8 \<Rightarrow> u8 \<Rightarrow> bytes \<Rightarrow> ('cb, 'e) ca821x_dev \<Rightarrow>
     (ca_mac_status \<times> ('cb, 'e) ca821x_dev) option" where
  "MLME_SET_request_sync v T PIBAttribute PIBAttributeIndex PIBAttributeLength pPIBAttributeValue d =
     do {
       c \<leftarrow> MLME_SET_request_cmd PIBAttribute PIBAttributeIndex PIBAttributeLength pPIBAttributeValue;
       (case send_sync T c (stack T) SPI_MLME_SET_CONFIRM d of
          (None, d') \<Rightarrow> Some (MAC_SYSTEM_ERROR, d')
        | (Some r, d') \<Rightarrow>
            let status = PData r ! 0 in
            if v = CA8210 \<and> status = MAC_SUCCESS
            then do {
              d'' \<leftarrow> mirror_address PIBAttribute pPIBAttributeValue d';
              Some (status, d'')
            }
            else Some (status, d'))
     }"

text \<open>The beacon security follows the coordinator realignment security directly, also when that is
  a single octet.\<close>

definition MLME_START_request_cmd ::
  "u16 \<Rightarrow> u8 \<Rightarrow> u8 \<Rightarrow> u8 \<Rightarrow> u8 \<Rightarrow> u8 \<Rightarrow> u8 \<Rightarrow> SecSpec option \<Rightarrow> SecSpec option \<Rightarrow> mac_msg" where
  "MLME_START_request_cmd PanId Channel BeaconOrder SuperframeOrder PANCoordinator
       BatteryLifeExtension CoordRealignment pCoordRealignSecurity pBeaconSecurity =
     (let (len, crs) = set_security pCoordRealignSecurity
                         (of_nat (2 + 6 + sizeof_SecSpec + sizeof_SecSpec));
          (len, bs) = set_security pBeaconSecurity len
      in \<lparr>CommandId = SPI_MLME_START_REQUEST, Length = len,
          PData = [LS_BYTE PanId, MS_BYTE PanId, Channel, BeaconOrder, SuperframeOrder,
                   PANCoordinator, BatteryLifeExtension, CoordRealignment] @ crs @ bs\<rparr>)"

definition MLME_START_request_sync ::
  "('cb, 'e) target \<Rightarrow> u16 \<Rightarrow> u8 \<Rightarrow> u8 \<Rightarrow> u8 \<Rightarrow> u8 \<Rightarrow> u8 \<Rightarrow> u8 \<Rightarrow> SecSpec option \<Rightarrow> SecSpec option \<Rightarrow>
     ('cb, 'e) ca821x_dev \<Rightarrow> ca_mac_status \<times> ('cb, 'e) ca821x_dev" where
  "MLME_START_request_sync T PanId Channel BeaconOrder SuperframeOrder PANCoordinator
       BatteryLifeExtension CoordRealignment pCoordRealignSecurity pBeaconSecurity d =
     (case send_sync T
             (MLME_START_request_cmd PanId Channel BeaconOrder SuperframeOrder PANCoordinator
                BatteryLifeExtension CoordRealignment pCoordRealignSecurity pBeaconSecurity)
             (stack T) SPI_MLME_START_CONFIRM d of
        (None, d') \<Rightarrow> (MAC_SYSTEM_ERROR, d')
      | (Some r, d') \<Rightarrow> (PData r ! 0, d'))"

definition MLME_POLL_request_8212_cmd :: "FullAddr \<Rightarrow> u8 \<Rightarrow> SecSpec option \<Rightarrow> mac_msg" where
  "MLME_POLL_request_8212_cmd CoordAddress FrameVersion pSecurity =
     (let (len, sec) = set_security pSecurity (of_nat (sizeof_FullAddr + 1 + sizeof_SecSpec))
      in \<lparr>CommandId = SPI_MLME_POLL_REQUEST CA8212, Length = len,
          PData = FullAddr_bytes CoordAddress @ FrameVersion # sec\<rparr>)"

definition MLME_POLL_request ::
  "('cb, 'e) target \<Rightarrow> FullAddr \<Rightarrow> u8 \<Rightarrow> SecSpec option \<Rightarrow> ('cb, 'e) ca821x_dev \<Rightarrow>
     ca_mac_status \<times> ('cb, 'e) ca821x_dev" where
  "MLME_POLL_request T CoordAddress FrameVersion pSecurity d =
     send_async T (MLME_POLL_request_8212_cmd CoordAddress FrameVersion pSecurity) d"

text \<open>Up to the CA-8211 the poll is synchronous; only the CA-8210 has the polling interval.\<close>

definition MLME_POLL_request_sync_cmd ::
  "ca_ver \<Rightarrow> FullAddr \<Rightarrow> u8 \<times> u8 \<Rightarrow> SecSpec option \<Rightarrow> mac_msg" where
  "MLME_POLL_request_sync_cmd v CoordAddress Interval pSecurity =
     (let interval = (if v = CA8210 then [fst Interval, snd Interval] else []);
          (len, sec) = set_security pSecurity
                         (of_nat (sizeof_FullAddr + length interval + sizeof_SecSpec))
      in \<lparr>CommandId = SPI_MLME_POLL_REQUEST v, Length = len,
          PData = FullAddr_bytes CoordAddress @ interval @ sec\<rparr>)"

definition MLME_POLL_request_sync ::
  "ca_ver \<Rightarrow> ('cb, 'e) target \<Rightarrow> FullAddr \<Rightarrow> u8 \<times> u8 \<Rightarrow> SecSpec option \<Rightarrow> ('cb, 'e) ca821x_dev \<Rightarrow>
     ca_mac_status \<times> ('cb, 'e) ca821x_dev" where
  "MLME_POLL_request_sync v T CoordAddress Interval pSecurity d =
     (case send_sync T (MLME_POLL_request_sync_cmd v CoordAddress Interval pSecurity)
             (stack T) (SPI_MLME_POLL_CONFIRM v) d of
        (None, d') \<Rightarrow> (MAC_SYSTEM_ERROR, d')
      | (Some r, d') \<Rightarrow> (PData r ! 0, d'))"

end
