(* ===== verification/ApiTest.thy ===== *)
theory ApiTest
  imports ApiRequest
begin

text \<open>
  The HWME and TDME requests of \<^verbatim>\<open>ca821x-api/source/ca821x_api.c\<close>, and the routines built
  on them: chip and channel initialisation, the check of PIB attributes, the transmit power.
\<close>

unbundle bit_operations_syntax

subsection \<open>HWME\<close>

abbreviation HWME_LQIMODE :: u8 where "HWME_LQIMODE \<equiv> 0x10"
abbreviation HWME_LQILIMIT :: u8 where "HWME_LQILIMIT \<equiv> 0x11"
abbreviation HWME_LOTXCALVALUES :: u8 where "HWME_LOTXCALVALUES \<equiv> 0x1A"
abbreviation HWME_LOTXCALOVERWRITEMODE :: u8 where "HWME_LOTXCALOVERWRITEMODE \<equiv> 0x1B"

definition HWME_SET_request_cmd :: "u8 \<Rightarrow> u8 \<Rightarrow> bytes \<Rightarrow> mac_msg option" where
  "HWME_SET_request_cmd HWAttribute HWAttributeLength pHWAttributeValue =
     do {
       val \<leftarrow> copy MAX_HWME_ATTRIBUTE_SIZE pHWAttributeValue (unat HWAttributeLength);
       Some \<lparr>CommandId = SPI_HWME_SET_REQUEST, Length = 2 + HWAttributeLength,
             PData = [HWAttribute, HWAttributeLength] @ val\<rparr>
     }"

text \<open>On the CA-8210 the link quality mode is mirrored, from the first octet of the value.\<close>

definition HWME_SET_request_sync ::
  "ca_ver \<Rightarrow> ('cb, 'e) target \<Rightarrow> u8 \<Rightarrow> u8 \<Rightarrow> bytes \<Rightarrow> ('cb, 'e) ca821x_dev \<Rightarrow>
     (ca_mac_status \<times> ('cb, 'e) ca821x_dev) option" where
  "HWME_SET_request_sync v T HWAttribute HWAttributeLength pHWAttributeValue d =
     do {
       c \<leftarrow> HWME_SET_request_cmd HWAttribute HWAttributeLength pHWAttributeValue;
       (case send_sync T c (stack T) SPI_HWME_SET_CONFIRM d of
          (None, d') \<Rightarrow> Some (MAC_SYSTEM_ERROR, d')
        | (Some r, d') \<Rightarrow>
            let status = PData r ! 0 in
            if v = CA8210 \<and> HWAttribute = HWME_LQIMODE \<and> status = MAC_SUCCESS
            then do {
              b \<leftarrow> copy 1 pHWAttributeValue 1;
              Some (status, d'\<lparr>lqi_mode := b ! 0\<rparr>)
            }
            else Some (status, d'))
     }"

definition HWME_GET_request_sync ::
  "('cb, 'e) target \<Rightarrow> u8 \<Rightarrow> ('cb, 'e) ca821x_dev \<Rightarrow>
     (ca_mac_status \<times> (u8 \<times> bytes) option \<times> ('cb, 'e) ca821x_dev) option" where
  "HWME_GET_request_sync T HWAttribute d =
     (case send_sync T \<lparr>CommandId = SPI_HWME_GET_REQUEST, Length = 1, PData = [HWAttribute]\<rparr>
             (stack T) SPI_HWME_GET_CONFIRM d of
        (None, d') \<Rightarrow> Some (MAC_SYSTEM_ERROR, None, d')
      | (Some r, d') \<Rightarrow>
          let status = PData r ! 0; len = PData r ! 2 in
          if status = MAC_SUCCESS
          then do {
            val \<leftarrow> copy payload_size (drop 3 (PData r)) (unat len);
            Some (status, Some (len, val), d')
          }
          else Some (status, None, d'))"

text \<open>The 16 octets are encrypted or decrypted in place.\<close>

definition HWME_HAES_request_sync ::
  "('cb, 'e) target \<Rightarrow> u8 \<Rightarrow> bytes \<Rightarrow> ('cb, 'e) ca821x_dev \<Rightarrow>
     (ca_mac_status \<times> bytes \<times> ('cb, 'e) ca821x_dev) option" where
  "HWME_HAES_request_sync T HAESMode pHAESData d =
     do {
       data \<leftarrow> copy 16 pHAESData 16;
       (case send_sync T \<lparr>CommandId = SPI_HWME_HAES_REQUEST, Length = 17, PData = HAESMode # data\<rparr>
               (stack T) SPI_HWME_HAES_CONFIRM d of
          (None, d') \<Rightarrow> Some (MAC_SYSTEM_ERROR, pHAESData, d')
        | (Some r, d') \<Rightarrow>
            let status = PData r ! 0 in
            Some (status,
                  if status = MAC_SUCCESS then take 16 (drop 1 (PData r)) @ drop 16 pHAESData
                  else pHAESData, d'))
     }"

subsection \<open>TDME\<close>

text \<open>The response id is preset, so a transport that leaves the buffer alone is noticed.\<close>

definition TDME_SETSFR_request_sync ::
  "('cb, 'e) target \<Rightarrow> u8 \<Rightarrow> u8 \<Rightarrow> u8 \<Rightarrow> ('cb, 'e) ca821x_dev \<Rightarrow>
     ca_mac_status \<times> ('cb, 'e) ca821x_dev" where
  "TDME_SETSFR_request_sync T SFRPage SFRAddress SFRValue d =
     (case send_sync T \<lparr>CommandId = SPI_TDME_SETSFR_REQUEST, Length = 3,
                        PData = [SFRPage, SFRAddress, SFRValue]\<rparr>
             ((stack T)\<lparr>CommandId := 0xFF\<rparr>) SPI_TDME_SETSFR_CONFIRM d of
        (None, d') \<Rightarrow> (MAC_SYSTEM_ERROR, d')
      | (Some r, d') \<Rightarrow> (PData r ! 0, d'))"

text \<open>The value is written to the caller whatever the status.\<close>

definition TDME_GETSFR_request_sync ::
  "('cb, 'e) target \<Rightarrow> u8 \<Rightarrow> u8 \<Rightarrow> u8 \<Rightarrow> ('cb, 'e) ca821x_dev \<Rightarrow>
     ca_mac_status \<times> u8 \<times> ('cb, 'e) ca821x_dev" where
  "TDME_GETSFR_request_sync T SFRPage SFRAddress SFRValue d =
     (case send_sync T \<lparr>CommandId = SPI_TDME_GETSFR_REQUEST, Length = 2,
                        PData = [SFRPage, SFRAddress]\<rparr>
             (stack T) SPI_TDME_GETSFR_CONFIRM d of
        (None, d') \<Rightarrow> (MAC_SYSTEM_ERROR, SFRValue, d')
      | (Some r, d') \<Rightarrow> (PData r ! 0, PData r ! 3, d'))"

definition TDME_TESTMODE_request_sync ::
  "('cb, 'e) target \<Rightarrow> u8 \<Rightarrow> ('cb, 'e) ca821x_dev \<Rightarrow> ca_mac_status \<times> ('cb, 'e) ca821x_dev" where
  "TDME_TESTMODE_request_sync T TestMode d =
     (case send_sync T \<lparr>CommandId = SPI_TDME_TESTMODE_REQUEST, Length = 1, PData = [TestMode]\<rparr>
             (stack T) SPI_TDME_TESTMODE_CONFIRM d of
        (None, d') \<Rightarrow> (MAC_SYSTEM_ERROR, d')
      | (Some r, d') \<Rightarrow> (PData r ! 0, d'))"

definition TDME_SET_request_cmd :: "u8 \<Rightarrow> u8 \<Rightarrow> bytes \<Rightarrow> mac_msg option" where
  "TDME_SET_request_cmd TestAttribute TestAttributeLength pTestAttributeValue =
     do {
       val \<leftarrow> copy MAX_TDME_ATTRIBUTE_SIZE pTestAttributeValue (unat TestAttributeLength);
       Some \<lparr>CommandId = SPI_TDME_SET_REQUEST, Length = 2 + TestAttributeLength,
             PData = [TestAttribute, TestAttributeLength] @ val\<rparr>
     }"

definition TDME_SET_request_sync ::
  "('cb, 'e) target \<Rightarrow> u8 \<Rightarrow> u8 \<Rightarrow> bytes \<Rightarrow> ('cb, 'e) ca821x_dev \<Rightarrow>
     (ca_mac_status \<times> ('cb, 'e) ca821x_dev) option" where
  "TDME_SET_request_sync T TestAttribute TestAttributeLength pTestAttributeValue d =
     do {
       c \<leftarrow> TDME_SET_request_cmd TestAttribute TestAttributeLength pTestAttributeValue;
       (case send_sync T c (stack T) SPI_TDME_SET_CONFIRM d of
          (None, d') \<Rightarrow> Some (MAC_SYSTEM_ERROR, d')
        | (Some r, d') \<Rightarrow> Some (PData r ! 0, d'))
     }"

abbreviation TDME_TXD_APPENDED :: u8 where "TDME_TXD_APPENDED \<equiv> 0x03"

definition TDME_TXPKT_request_cmd :: "u8 \<Rightarrow> u8 \<Rightarrow> u8 \<Rightarrow> bytes \<Rightarrow> mac_msg option" where
  "TDME_TXPKT_request_cmd DataType SequenceNumber PacketLength pTestPacketData =
     do {
       val \<leftarrow> (if DataType = TDME_TXD_APPENDED
              then copy 128 pTestPacketData (unat PacketLength) else Some []);
       Some \<lparr>CommandId = SPI_TDME_TXPKT_REQUEST,
             Length = (if DataType = TDME_TXD_APPENDED then 3 + PacketLength else 3),
             PData = [DataType, SequenceNumber, PacketLength] @ val\<rparr>
     }"

text \<open>On success the sequence number, the length and the data that was sent come back.\<close>

definition TDME_TXPKT_request_sync ::
  "('cb, 'e) target \<Rightarrow> u8 \<Rightarrow> u8 \<Rightarrow> u8 \<Rightarrow> bytes \<Rightarrow> ('cb, 'e) ca821x_dev \<Rightarrow>
     (ca_mac_status \<times> (u8 \<times> u8 \<times> bytes) option \<times> ('cb, 'e) ca821x_dev) option" where
  "TDME_TXPKT_request_sync T DataType SequenceNumber PacketLength pTestPacketData d =
     do {
       c \<leftarrow> TDME_TXPKT_request_cmd DataType SequenceNumber PacketLength pTestPacketData;
       (case send_sync T c (stack T) SPI_TDME_TXPKT_CONFIRM d of
          (None, d') \<Rightarrow> Some (MAC_SYSTEM_ERROR, None, d')
        | (Some r, d') \<Rightarrow>
            let status = PData r ! 0; len = PData r ! 2 in
            if status = TDME_SUCCESS
            then do {
              val \<leftarrow> copy payload_size (drop 3 (PData r)) (unat len);
              Some (status, Some (PData r ! 1, len, val), d')
            }
            else Some (status, None, d'))
     }"

text \<open>Channel, direction and the three calibration values that were found.\<close>

definition TDME_LOTLK_request_sync ::
  "('cb, 'e) target \<Rightarrow> u8 \<Rightarrow> u8 \<Rightarrow> ('cb, 'e) ca821x_dev \<Rightarrow>
     ca_mac_status \<times> (u8 \<times> u8 \<times> u8 \<times> u8 \<times> u8) option \<times> ('cb, 'e) ca821x_dev" where
  "TDME_LOTLK_request_sync T TestChannel TestRxTxb d =
     (case send_sync T \<lparr>CommandId = SPI_TDME_LOTLK_REQUEST, Length = 2,
                        PData = [TestChannel, TestRxTxb]\<rparr>
             (stack T) SPI_TDME_LOTLK_CONFIRM d of
        (None, d') \<Rightarrow> (MAC_SYSTEM_ERROR, None, d')
      | (Some r, d') \<Rightarrow>
          let status = PData r ! 0 in
          (status,
           if status = TDME_SUCCESS
           then Some (PData r ! 1, PData r ! 2, PData r ! 3, PData r ! 4, PData r ! 5) else None,
           d'))"

subsection \<open>Initialisation\<close>

definition chip_sfrs :: "(u8 \<times> u8 \<times> u8) list" where
  "chip_sfrs =
     [(1, 0xE1, 0x29), (1, 0xE2, 0x54), (1, 0xE3, 0x6C), (1, 0xE4, 0x7A), (1, 0xE5, 0x84),
      (1, 0xE6, 0x8B), (1, 0xE7, 0x92), (1, 0xE9, 0x96), (1, 0xD3, 0x5B), (1, 0xD1, 0x5A),
      (0, 0xFE, 0x3F)]"

abbreviation phyTransmitPower :: u8 where "phyTransmitPower \<equiv> 0x02"
abbreviation phyCCAMode :: u8 where "phyCCAMode \<equiv> 0x03"
abbreviation macMaxFrameRetries :: u8 where "macMaxFrameRetries \<equiv> 0x59"

definition txcal_vals :: bytes where
  "txcal_vals = [0xAF, 0xAE, 0xAE, 0xAD, 0xAD, 0xAC, 0xAB, 0xAB, 0xAB, 0xAA, 0xAA, 0xA9, 0xA8,
     0xA8, 0xA7, 0xA7]"

text \<open>The requests are made one after another until one does not succeed, whose status is
  returned.\<close>

fun set_sfrs ::
  "('cb, 'e) target \<Rightarrow> (u8 \<times> u8 \<times> u8) list \<Rightarrow> ('cb, 'e) ca821x_dev \<Rightarrow>
     ca_mac_status \<times> ('cb, 'e) ca821x_dev" where
  "set_sfrs T [] d = (MAC_SUCCESS, d)"
| "set_sfrs T ((page, addr, val) # rest) d =
     (case TDME_SETSFR_request_sync T page addr val d of (status, d') \<Rightarrow>
        if status \<noteq> 0 then (status, d') else set_sfrs T rest d')"

definition next_if ::
  "ca_mac_status \<times> 'd \<Rightarrow> bool \<Rightarrow> ('d \<Rightarrow> (ca_mac_status \<times> 'd) option) \<Rightarrow> (ca_mac_status \<times> 'd) option" where
  "next_if r enabled f = (case r of (status, d) \<Rightarrow> if status \<noteq> 0 \<or> \<not> enabled then Some r else f d)"

definition TDME_ChipInit ::
  "ca_ver \<Rightarrow> ('cb, 'e) target \<Rightarrow> ('cb, 'e) ca821x_dev \<Rightarrow>
     (ca_mac_status \<times> ('cb, 'e) ca821x_dev) option" where
  "TDME_ChipInit v T d =
     do {
       let r = set_sfrs T chip_sfrs d;
       r \<leftarrow> next_if r True (MLME_SET_request_sync v T phyCCAMode 0 1 [0x00]);
       r \<leftarrow> next_if r (v \<noteq> CA8212) (MLME_SET_request_sync v T macMaxFrameRetries 0 1 [7]);
       r \<leftarrow> next_if r (v = CA8210) (HWME_SET_request_sync v T HWME_LQILIMIT 1 [0]);
       r \<leftarrow> next_if r (v = CA8212) (HWME_SET_request_sync v T HWME_LOTXCALVALUES 16 txcal_vals);
       next_if r (v = CA8212) (HWME_SET_request_sync v T HWME_LOTXCALOVERWRITEMODE 1 [1])
     }"

definition channel_txcal :: "u8 \<Rightarrow> u8" where
  "channel_txcal channel =
     (if channel \<ge> 25 then 0xA7
      else if channel \<ge> 23 then 0xA8
      else if channel \<ge> 22 then 0xA9
      else if channel \<ge> 20 then 0xAA
      else if channel \<ge> 17 then 0xAB
      else if channel \<ge> 16 then 0xAC
      else if channel \<ge> 14 then 0xAD
      else if channel \<ge> 12 then 0xAE
      else 0xAF)"

definition TDME_ChannelInit ::
  "('cb, 'e) target \<Rightarrow> u8 \<Rightarrow> ('cb, 'e) ca821x_dev \<Rightarrow> ca_mac_status \<times> ('cb, 'e) ca821x_dev" where
  "TDME_ChannelInit T channel d = TDME_SETSFR_request_sync T 1 0xBF (channel_txcal channel) d"

subsection \<open>PIB attributes\<close>

abbreviation phyCurrentChannel :: u8 where "phyCurrentChannel \<equiv> 0x00"
abbreviation macBattLifeExtPeriods :: u8 where "macBattLifeExtPeriods \<equiv> 0x44"
abbreviation macBeaconPayload :: u8 where "macBeaconPayload \<equiv> 0x45"
abbreviation macBeaconPayloadLength :: u8 where "macBeaconPayloadLength \<equiv> 0x46"
abbreviation macBeaconOrder :: u8 where "macBeaconOrder \<equiv> 0x47"
abbreviation macMaxBE :: u8 where "macMaxBE \<equiv> 0x57"
abbreviation macMaxCSMABackoffs :: u8 where "macMaxCSMABackoffs \<equiv> 0x4e"
abbreviation macMinBE :: u8 where "macMinBE \<equiv> 0x4f"
abbreviation macResponseWaitTime :: u8 where "macResponseWaitTime \<equiv> 0x5A"
abbreviation macSuperframeOrder :: u8 where "macSuperframeOrder \<equiv> 0x54"
abbreviation macAssociatedPANCoord :: u8 where "macAssociatedPANCoord \<equiv> 0x56"
abbreviation macAssociationPermit :: u8 where "macAssociationPermit \<equiv> 0x41"
abbreviation macAutoRequest :: u8 where "macAutoRequest \<equiv> 0x42"
abbreviation macBattLifeExt :: u8 where "macBattLifeExt \<equiv> 0x43"
abbreviation macGTSPermit :: u8 where "macGTSPermit \<equiv> 0x4d"
abbreviation macPromiscuousMode :: u8 where "macPromiscuousMode \<equiv> 0x51"
abbreviation macRxOnWhenIdle :: u8 where "macRxOnWhenIdle \<equiv> 0x52"
abbreviation macSecurityEnabled :: u8 where "macSecurityEnabled \<equiv> 0x5D"
abbreviation macAutoRequestLookupDataIndex :: u8 where "macAutoRequestLookupDataIndex \<equiv> 0x81"
abbreviation macEnhAckIeSec :: u8 where "macEnhAckIeSec \<equiv> 0x83"
abbreviation macAutoRequestKeyIdMode :: u8 where "macAutoRequestKeyIdMode \<equiv> 0x79"

definition macAutoRequestSecurityLevel :: "ca_ver \<Rightarrow> u8" where
  "macAutoRequestSecurityLevel v = (if v = CA8212 then 0x80 else 0x78)"

definition TDME_CheckPIBAttribute :: "ca_ver \<Rightarrow> u8 \<Rightarrow> u8 \<Rightarrow> bytes \<Rightarrow> ca_mac_status option" where
  "TDME_CheckPIBAttribute v PIBAttribute PIBAttributeLength pPIBAttributeValue =
     do {
       b \<leftarrow> copy 1 pPIBAttributeValue 1;
       let value = b ! 0;
       let bad = (
         if v = CA8210 \<and> PIBAttribute = phyCurrentChannel then value < 11 \<or> value > 26
         else if PIBAttribute = phyTransmitPower then value > 0x3F
         else if PIBAttribute = phyCCAMode then value > 0x03
         else if PIBAttribute = macBattLifeExtPeriods then value < 6 \<or> value > 41
         else if PIBAttribute = macBeaconPayload then unat PIBAttributeLength > aMaxBeaconPayloadLength
         else if PIBAttribute = macBeaconPayloadLength then unat value > aMaxBeaconPayloadLength
         else if PIBAttribute = macBeaconOrder then value \<noteq> 15
         else if PIBAttribute = macMaxBE then value < 3 \<or> value > 8
         else if PIBAttribute = macMaxCSMABackoffs then value > 5
         else if PIBAttribute = macMaxFrameRetries then value > 7
         else if PIBAttribute = macMinBE then value > 8
         else if PIBAttribute = macResponseWaitTime then value < 2 \<or> value > 64
         else if PIBAttribute = macSuperframeOrder then value > 15
         else if PIBAttribute \<in> {macAssociatedPANCoord, macAssociationPermit, macAutoRequest,
                   macBattLifeExt, macGTSPermit, macPromiscuousMode, macRxOnWhenIdle,
                   macSecurityEnabled} then value > 1
         else if PIBAttribute = macAutoRequestSecurityLevel v then value > 7
         else if v = CA8212 \<and> PIBAttribute = macAutoRequestLookupDataIndex then value > 9
         else if v = CA8212 \<and> PIBAttribute = macEnhAckIeSec then value > 3
         else if v \<noteq> CA8212 \<and> PIBAttribute = macAutoRequestKeyIdMode then value > 3
         else False);
       Some (if bad then MAC_INVALID_PARAMETER else MAC_SUCCESS)
     }"

subsection \<open>Transmit power\<close>

text \<open>\<^verbatim>\<open>int8_t\<close> values are octets compared as signed numbers.\<close>

definition TDME_tx_dbm_to_paib :: "u8 \<Rightarrow> u8" where
  "TDME_tx_dbm_to_paib txpdbm =
     (if sint txpdbm > 8 then 0x3F
      else if sint txpdbm = 8 then 0x32
      else if sint txpdbm = 7 then 0x22
      else if sint txpdbm = 6 then 0x18
      else if sint txpdbm = 5 then 0x10
      else if sint txpdbm = 4 then 0x0C
      else if sint txpdbm = 3 then 0x08
      else if sint txpdbm = 2 then 0x05
      else if sint txpdbm = 1 then 0x03
      else if sint txpdbm = 0 then 0x01
      else 0x00)"

definition TDME_tx_paib_to_dbm :: "u8 \<Rightarrow> u8" where
  "TDME_tx_paib_to_dbm paib =
     (if paib \<ge> 0x3F then 9
      else if paib \<ge> 0x32 then 8
      else if paib \<ge> 0x22 then 7
      else if paib \<ge> 0x18 then 6
      else if paib \<ge> 0x10 then 5
      else if paib \<ge> 0x0C then 4
      else if paib \<ge> 0x08 then 3
      else if paib \<ge> 0x05 then 2
      else if paib \<ge> 0x03 then 1
      else if paib > 0x00 then 0
      else -1)"

text \<open>The six low bits are a signed number of dBm; the two high bits are the tolerance.\<close>

definition extend6 :: "u8 \<Rightarrow> u8" where
  "extend6 txp =
     (let txp_ext = 0x3F AND txp in if txp_ext AND 0x20 \<noteq> 0 then txp_ext + 0xC0 else txp_ext)"

definition TDME_SetTxPower ::
  "('cb, 'e) target \<Rightarrow> u8 \<Rightarrow> ('cb, 'e) ca821x_dev \<Rightarrow> ca_mac_status \<times> ('cb, 'e) ca821x_dev" where
  "TDME_SetTxPower T txp d =
     (let txp_val = extend6 txp in
      if MAC_MPW d \<noteq> 0
      then TDME_SETSFR_request_sync T 0 0xB1 (if sint txp_val > 0 then 0xD3 else 0x73) d
      else TDME_SETSFR_request_sync T 0 0xFE (TDME_tx_dbm_to_paib txp_val) d)"

definition TDME_GetTxPower ::
  "('cb, 'e) target \<Rightarrow> ('cb, 'e) ca821x_dev \<Rightarrow> ca_mac_status \<times> u8 \<times> ('cb, 'e) ca821x_dev" where
  "TDME_GetTxPower T d =
     (if MAC_MPW d \<noteq> 0
      then (case TDME_GETSFR_request_sync T 0 0xB1 0 d of (status, paib, d') \<Rightarrow>
              let txp_val = (if paib AND 0x80 \<noteq> 0 then 4 else -6) in
              (status, (txp_val AND 0x3F) + push_bit 6 0x01, d'))
      else (case TDME_GETSFR_request_sync T 0 0xFE 0 d of (status, paib, d') \<Rightarrow>
              (status, TDME_tx_paib_to_dbm paib AND 0x3F, d')))"

end
