(* ===== verification/ApiUpstream.thy ===== *)
theory ApiUpstream
  imports ApiTest
begin

text \<open>
  The way up of \<^verbatim>\<open>ca821x-api/source/ca821x_api.c\<close>: the callback that belongs to a message,
  the CA-8210 workarounds, the blacklist, and the dispatcher.
\<close>

unbundle bit_operations_syntax

subsection \<open>Callbacks\<close>

definition ca821x_get_callback :: "ca_ver \<Rightarrow> u8 \<Rightarrow> callback option" where
  "ca821x_get_callback v cmdid =
     (if cmdid = SPI_MCPS_DATA_INDICATION then Some MCPS_DATA_indication
      else if cmdid = SPI_MCPS_DATA_CONFIRM then Some MCPS_DATA_confirm
      else if v \<noteq> CA8210 \<and> cmdid = SPI_PCPS_DATA_INDICATION then Some PCPS_DATA_indication
      else if v \<noteq> CA8210 \<and> cmdid = SPI_PCPS_DATA_CONFIRM then Some PCPS_DATA_confirm
      else if cmdid = SPI_MLME_ASSOCIATE_INDICATION then Some MLME_ASSOCIATE_indication
      else if cmdid = SPI_MLME_ASSOCIATE_CONFIRM then Some MLME_ASSOCIATE_confirm
      else if cmdid = SPI_MLME_DISASSOCIATE_INDICATION then Some MLME_DISASSOCIATE_indication
      else if cmdid = SPI_MLME_DISASSOCIATE_CONFIRM then Some MLME_DISASSOCIATE_confirm
      else if cmdid = SPI_MLME_BEACON_NOTIFY_INDICATION then Some MLME_BEACON_NOTIFY_indication
      else if cmdid = SPI_MLME_ORPHAN_INDICATION then Some MLME_ORPHAN_indication
      else if cmdid = SPI_MLME_SCAN_CONFIRM then Some MLME_SCAN_confirm
      else if cmdid = SPI_MLME_COMM_STATUS_INDICATION then Some MLME_COMM_STATUS_indication
      else if cmdid = SPI_MLME_SYNC_LOSS_INDICATION then Some MLME_SYNC_LOSS_indication
      else if v \<noteq> CA8210 \<and> cmdid = SPI_MLME_POLL_INDICATION then Some MLME_POLL_indication
      else if v = CA8212 \<and> cmdid = SPI_MLME_POLL_CONFIRM v then Some MLME_POLL_confirm
      else if v = CA8212 \<and> cmdid = SPI_MLME_IE_NOTIFY_INDICATION then Some MLME_IE_NOTIFY_indication
      else if cmdid = SPI_HWME_WAKEUP_INDICATION then Some HWME_WAKEUP_indication
      else if cmdid = SPI_TDME_RXPKT_INDICATION then Some TDME_RXPKT_indication
      else if cmdid = SPI_TDME_EDDET_INDICATION then Some TDME_EDDET_indication
      else if cmdid = SPI_TDME_ERROR_INDICATION then Some TDME_ERROR_indication
      else None)"

subsection \<open>CA-8210 workarounds\<close>

text \<open>
  \<open>p\<close> is the payload of a data indication: source address at 0, destination address at 11.
  The short address is compared with the host's integer octet by octet, which on the little-endian
  hosts of the SDK is a comparison of the values.
\<close>

definition check_data_ind_destaddr :: "bytes \<Rightarrow> ('cb, 'e) ca821x_dev \<Rightarrow> ca_error" where
  "check_data_ind_destaddr p d =
     (let Dst = get_FullAddr (drop 11 p) in
      if AddressMode Dst = MAC_MODE_SHORT_ADDR then
        (if GETLE16 (Address Dst) \<noteq> MAC_BROADCAST_ADDRESS \<and>
            take 2 (Address Dst) \<noteq> host16 (shortaddr d) \<and> shortaddr d \<noteq> 0xFFFF
         then CA_ERROR_FAIL else CA_ERROR_SUCCESS)
      else if AddressMode Dst = MAC_MODE_LONG_ADDR then
        (if Address Dst \<noteq> extaddr d
         then (if list_all (\<lambda>b. b = 0) (take 8 (extaddr d)) then CA_ERROR_SUCCESS else CA_ERROR_FAIL)
         else CA_ERROR_SUCCESS)
      else CA_ERROR_SUCCESS)"

definition get_assoccnf_shortaddr :: "bytes \<Rightarrow> ('cb, 'e) ca821x_dev \<Rightarrow> ('cb, 'e) ca821x_dev" where
  "get_assoccnf_shortaddr p d =
     (if GETLE16 p \<noteq> 0xFFFF then d\<lparr>shortaddr := GETLE16 p\<rparr> else d)"

abbreviation API_LQI_LIMIT :: u8 where "API_LQI_LIMIT \<equiv> 75"

text \<open>
  A scan confirm: status at 0, scan type at 1, unscanned channels at 2, result list size at 6,
  result list from 7 on. \<open>off\<close> is the position of the descriptor under inspection, whose link
  quality is at 15 and whose security level at 21. Reads and copies outside the payload are faults;
  the count of the copy is an \<^verbatim>\<open>int\<close> that becomes a huge size when it is negative. The list
  counter and the length are octets.
\<close>

definition pdesc_length :: "bytes \<Rightarrow> nat" where
  "pdesc_length pd = (if pd ! 21 > 0 then 22 + 10 else 22)"

text \<open>\<^verbatim>\<open>memcpy\<close> within the payload; a copy between overlapping areas is undefined, and a fault here.\<close>

definition move_bytes :: "nat \<Rightarrow> nat \<Rightarrow> nat \<Rightarrow> bytes \<Rightarrow> bytes option" where
  "move_bytes dst src n p =
     (if src + n \<le> length p \<and> dst + n \<le> length p \<and> (dst + n \<le> src \<or> src + n \<le> dst)
      then Some (take dst p @ take n (drop src p) @ drop (dst + n) p) else None)"

text \<open>Every round moves on or shortens the message.\<close>

lemma length_move_bytes: "move_bytes dst src n p = Some q \<Longrightarrow> length q = length p"
  by (auto simp: move_bytes_def split: if_splits)

lemma verify_loop_shrinks:
  assumes "\<not> unat l < 7 + plen" "0 < plen"
  shows "unat (l - of_nat plen :: u8) < unat l"
proof -
  have "plen < 256" using assms(1) unat_u8_less [of l] by linarith
  then have "unat (of_nat plen :: u8) = plen" by (simp add: unat_of_nat)
  then show ?thesis using assms by (simp add: unat_sub word_le_nat_alt)
qed

function verify_loop :: "nat \<Rightarrow> nat \<Rightarrow> mac_msg \<Rightarrow> bool \<Rightarrow> (mac_msg \<times> bool) option" where
  "verify_loop pdesc_index off cnf list_modified =
     (if pdesc_index < unat (PData cnf ! 6)
      then (if off + 21 < length (PData cnf)
            then (let pd = drop off (PData cnf); plen = pdesc_length pd in
                  if pd ! 15 > API_LQI_LIMIT
                  then verify_loop (pdesc_index + 1) (off + plen) cnf list_modified
                  else if unat (Length cnf) < 7 + plen then None
                  else (case move_bytes off (off + plen) (unat (Length cnf) - (7 + plen)) (PData cnf) of
                          None \<Rightarrow> None
                        | Some p \<Rightarrow>
                            verify_loop pdesc_index off
                              (cnf\<lparr>PData := p[6 := p ! 6 - 1], Length := Length cnf - of_nat plen\<rparr>)
                              True))
            else None)
      else Some (cnf, list_modified))"
  by pat_completeness auto

termination
  by (relation "measure (\<lambda>(i, off, cnf, b). 2 * unat (Length cnf) + (length (PData cnf) - off))")
    (auto simp: pdesc_length_def length_move_bytes dest!: verify_loop_shrinks)

definition verify_scancnf_results :: "mac_msg \<Rightarrow> ('cb, 'e) ca821x_dev \<Rightarrow> mac_msg option" where
  "verify_scancnf_results scan_cnf d =
     (if lqi_mode d = HWME_LQIMODE_ED then Some scan_cnf
      else if PData scan_cnf ! 1 \<noteq> ACTIVE_SCAN \<and> PData scan_cnf ! 1 \<noteq> PASSIVE_SCAN then Some scan_cnf
      else (case verify_loop 0 7 scan_cnf False of
              None \<Rightarrow> None
            | Some (cnf, list_modified) \<Rightarrow>
                Some (if PData cnf ! 6 = 0 \<and> list_modified \<and>
                         (PData cnf ! 0 = MAC_SUCCESS \<or> PData cnf ! 0 = MAC_LIMIT_REACHED)
                      then cnf\<lparr>PData := (PData cnf)[0 := MAC_NO_BEACON]\<rparr> else cnf)))"

subsection \<open>Blacklist\<close>

text \<open>The sender of an indication. (The branch for the CA-8212's \<^verbatim>\<open>IE_NOTIFY\<close> names members
  that do not exist, so that build cannot have a blacklist; what is modelled is the member that is
  meant.)\<close>

definition msg_src :: "ca_ver \<Rightarrow> mac_msg \<Rightarrow> FullAddr" where
  "msg_src v msg =
     (let none = \<lparr>AddressMode = MAC_MODE_NO_ADDR, PANId = [0, 0], Address = replicate 8 0\<rparr>;
          p = PData msg in
      if CommandId msg = SPI_MCPS_DATA_INDICATION then get_FullAddr p
      else if CommandId msg = SPI_MLME_ASSOCIATE_INDICATION
        then none\<lparr>AddressMode := MAC_MODE_LONG_ADDR, Address := take 8 p\<rparr>
      else if CommandId msg = SPI_MLME_BEACON_NOTIFY_INDICATION then get_FullAddr (drop 1 p)
      else if CommandId msg = SPI_MLME_COMM_STATUS_INDICATION
        then none\<lparr>AddressMode := p ! 2, Address := take 8 (drop 3 p)\<rparr>
      else if CommandId msg = SPI_MLME_DISASSOCIATE_INDICATION
        then none\<lparr>AddressMode := MAC_MODE_LONG_ADDR, Address := take 8 p\<rparr>
      else if CommandId msg = SPI_MLME_ORPHAN_INDICATION
        then none\<lparr>AddressMode := MAC_MODE_LONG_ADDR, Address := take 8 p\<rparr>
      else if v \<noteq> CA8210 \<and> CommandId msg = SPI_MLME_POLL_INDICATION then get_FullAddr p
      else if v = CA8212 \<and> CommandId msg = SPI_MLME_IE_NOTIFY_INDICATION then get_FullAddr p
      else none)"

definition blacklist_must_filter :: "ca_ver \<Rightarrow> mac_msg \<Rightarrow> ('cb, 'e) ca821x_dev \<Rightarrow> bool" where
  "blacklist_must_filter v msg d =
     (let src = msg_src v msg;
          address_len = (if AddressMode src = MAC_MODE_SHORT_ADDR then 2
                         else if AddressMode src = MAC_MODE_LONG_ADDR then 8 else 0)
      in address_len \<noteq> 0 \<and>
         list_ex (\<lambda>e. ma_AddressMode e = AddressMode src \<and>
                      take address_len (Address src) = take address_len (ma_Address e)) (blacklist d))"

fun add_entry :: "MacAddr \<Rightarrow> MacAddr list \<Rightarrow> MacAddr list option" where
  "add_entry a [] = None"
| "add_entry a (e # es) =
     (if ma_AddressMode e = MAC_MODE_NO_ADDR
      then Some (\<lparr>ma_AddressMode = ma_AddressMode a, ma_Address = take 8 (ma_Address a)\<rparr> # es)
      else map_option ((#) e) (add_entry a es))"

definition BLACKLIST_Add ::
  "MacAddr \<Rightarrow> ('cb, 'e) ca821x_dev \<Rightarrow> ca_error \<times> ('cb, 'e) ca821x_dev" where
  "BLACKLIST_Add pAddress d =
     (if blacklist d = [] then (CA_ERROR_FAIL, d)
      else if ma_AddressMode pAddress \<noteq> MAC_MODE_LONG_ADDR \<and>
              ma_AddressMode pAddress \<noteq> MAC_MODE_SHORT_ADDR then (CA_ERROR_INVALID_ARGS, d)
      else (case add_entry pAddress (blacklist d) of
              None \<Rightarrow> (CA_ERROR_NO_BUFFER, d)
            | Some b \<Rightarrow> (CA_ERROR_SUCCESS, d\<lparr>blacklist := b\<rparr>)))"

definition BLACKLIST_Clear :: "('cb, 'e) ca821x_dev \<Rightarrow> ('cb, 'e) ca821x_dev" where
  "BLACKLIST_Clear d =
     d\<lparr>blacklist := map (\<lambda>e. e\<lparr>ma_AddressMode := MAC_MODE_NO_ADDR\<rparr>) (blacklist d)\<rparr>"

subsection \<open>Dispatch\<close>

text \<open>\<open>run cb msg d\<close> is the effect of a call of the callback \<open>cb\<close> on the device and the
  application behind it.\<close>

definition workarounds ::
  "ca_ver \<Rightarrow> mac_msg \<Rightarrow> ('cb, 'e) ca821x_dev \<Rightarrow> (ca_error \<times> mac_msg \<times> ('cb, 'e) ca821x_dev) option" where
  "workarounds v msg d =
     (if v \<noteq> CA8210 then Some (CA_ERROR_SUCCESS, msg, d)
      else if CommandId msg = SPI_MCPS_DATA_INDICATION
        then Some (check_data_ind_destaddr (PData msg) d, msg, d)
      else if CommandId msg = SPI_MLME_SCAN_CONFIRM
        then map_option (\<lambda>m. (CA_ERROR_SUCCESS, m, d)) (verify_scancnf_results msg d)
      else if CommandId msg = SPI_MLME_ASSOCIATE_CONFIRM
        then Some (CA_ERROR_SUCCESS, msg, get_assoccnf_shortaddr (PData msg) d)
      else Some (CA_ERROR_SUCCESS, msg, d))"

definition call_back ::
  "('cb \<Rightarrow> mac_msg \<Rightarrow> ('cb, 'e) ca821x_dev \<Rightarrow> ca_error \<times> ('cb, 'e) ca821x_dev) \<Rightarrow>
     'cb option \<Rightarrow> mac_msg \<Rightarrow> ca_error \<times> ('cb, 'e) ca821x_dev \<Rightarrow> ca_error \<times> ('cb, 'e) ca821x_dev" where
  "call_back run cb msg r = (case cb of None \<Rightarrow> r | Some f \<Rightarrow> run f msg (snd r))"

definition ca821x_upstream_dispatch ::
  "ca_ver \<Rightarrow> ('cb \<Rightarrow> mac_msg \<Rightarrow> ('cb, 'e) ca821x_dev \<Rightarrow> ca_error \<times> ('cb, 'e) ca821x_dev) \<Rightarrow>
     mac_msg \<Rightarrow> ('cb, 'e) ca821x_dev \<Rightarrow> (ca_error \<times> ('cb, 'e) ca821x_dev) option" where
  "ca821x_upstream_dispatch v run msg d =
     (case ca821x_get_callback v (CommandId msg) of
        None \<Rightarrow>
          Some (if v = CA8212 then call_back run (generic_dispatch d) msg (CA_ERROR_INVALID_ARGS, d)
                else (CA_ERROR_INVALID_ARGS, d))
      | Some slot \<Rightarrow>
          (case workarounds v msg d of
             None \<Rightarrow> None
           | Some (ret, msg, d) \<Rightarrow>
               Some (if ret \<noteq> CA_ERROR_SUCCESS then (ret, d)
                     else if blacklist_must_filter v msg d then (CA_ERROR_SUCCESS, d)
                     else (case call_back run (callbacks d slot) msg (CA_ERROR_NOT_HANDLED, d) of
                             (ret, d) \<Rightarrow>
                               if ret = CA_ERROR_NOT_HANDLED
                               then call_back run (generic_dispatch d) msg (ret, d) else (ret, d)))))"

end
