(* ===== verification/ApiHelper.thy ===== *)
theory ApiHelper
  imports MacMsg
begin

text \<open>
  The accessors of \<^verbatim>\<open>ca821x-api/source/ca821x_api_helper.c\<close> for the parts of a message
  that have no fixed place. A pointer into a parameter set is an offset into the payload \<open>p\<close>; an
  output length is returned beside it.
\<close>

unbundle bit_operations_syntax

text \<open>The fixed part of a data indication depends on the part number.\<close>

fun msdu_offset :: "ca_ver \<Rightarrow> nat" where
  "msdu_offset CA8210 = 2 * sizeof_FullAddr + 1 + 1 + 1 + 4"
| "msdu_offset CA8211 = 2 * sizeof_FullAddr + 1 + 1 + 1 + 4 + 1"
| "msdu_offset CA8212 = 2 * sizeof_FullAddr + 1 + 1 + 1 + 1 + 1 + 4 + 1"

definition MCPS_DATA_indication_get_secspec :: "ca_ver \<Rightarrow> bytes \<Rightarrow> nat" where
  "MCPS_DATA_indication_get_secspec v p =
     (if v = CA8212
      then msdu_offset v + unat (p ! 22) + unat (p ! 23) + unat (p ! 24)
      else msdu_offset v + unat (p ! 22))"

text \<open>
  A beacon indication is the sequence number, the PAN descriptor, then the pending-address octet,
  the pending short and extended addresses, and the beacon payload with its length. The security
  level of the descriptor is at 22.
\<close>

definition MLME_BEACON_NOTIFY_get_pendaddrspec :: "bytes \<Rightarrow> nat" where
  "MLME_BEACON_NOTIFY_get_pendaddrspec p = (if p ! 22 = 0 then 22 + 1 else 22 + 10 + 1)"

definition MLME_BEACON_NOTIFY_indication_get_shortaddrs :: "bytes \<Rightarrow> u8 \<times> nat" where
  "MLME_BEACON_NOTIFY_indication_get_shortaddrs p =
     (let wrkPtr = MLME_BEACON_NOTIFY_get_pendaddrspec p
      in (p ! wrkPtr AND 0x03, wrkPtr + 1))"

definition MLME_BEACON_NOTIFY_indication_get_extaddrs :: "bytes \<Rightarrow> u8 \<times> nat" where
  "MLME_BEACON_NOTIFY_indication_get_extaddrs p =
     (let pas = p ! MLME_BEACON_NOTIFY_get_pendaddrspec p;
          (shLen, shList) = MLME_BEACON_NOTIFY_indication_get_shortaddrs p
      in (drop_bit 4 pas AND 0x03, shList + 2 * unat shLen))"

definition MLME_BEACON_NOTIFY_indication_get_sdu :: "bytes \<Rightarrow> u8 \<times> nat" where
  "MLME_BEACON_NOTIFY_indication_get_sdu p =
     (let (exLen, exList) = MLME_BEACON_NOTIFY_indication_get_extaddrs p;
          rval = exList + 8 * unat exLen
      in (p ! rval, rval + 1))"

text \<open>The list of a scan confirm is walked descriptor by descriptor.\<close>

primrec pandescriptor_loop :: "nat \<Rightarrow> nat \<Rightarrow> bytes \<Rightarrow> nat" where
  "pandescriptor_loop 0 rval p = rval"
| "pandescriptor_loop (Suc i) rval p =
     pandescriptor_loop i (if p ! (rval + 21) = 0 then rval + 22 else rval + 32) p"

definition MLME_SCAN_confirm_get_pandescriptor :: "u8 \<Rightarrow> bytes \<Rightarrow> nat option" where
  "MLME_SCAN_confirm_get_pandescriptor aIndex p =
     (if p ! 1 \<noteq> ACTIVE_SCAN \<and> p ! 1 \<noteq> PASSIVE_SCAN then None
      else if aIndex \<ge> p ! 6 then None
      else Some (pandescriptor_loop (unat aIndex) 7 p))"

text \<open>A key table entry: three list lengths, the key, then the lists of look-up, device and usage
  descriptors of ten, one and one octets.\<close>

definition KeyTableEntry_get_keyidlookupdescs :: "bytes \<Rightarrow> nat" where
  "KeyTableEntry_get_keyidlookupdescs aKte = 3 + 16"

definition KeyTableEntry_get_keydevicedescs :: "bytes \<Rightarrow> nat" where
  "KeyTableEntry_get_keydevicedescs aKte =
     KeyTableEntry_get_keyidlookupdescs aKte + 10 * unat (aKte ! 0)"

definition KeyTableEntry_get_keyusagedescs :: "bytes \<Rightarrow> nat" where
  "KeyTableEntry_get_keyusagedescs aKte = KeyTableEntry_get_keydevicedescs aKte + unat (aKte ! 1)"

end
