(* ===== verification/ApiScan.thy ===== *)
theory ApiScan
  imports ApiUpstream ApiHelper
begin

text \<open>
  The LQI filter of the CA-8210 workarounds is correct: on a scan confirm that carries the list
  \<open>ds\<close> of PAN descriptors, \<open>verify_scancnf_results\<close> leaves the confirm that carries
  the acceptable ones. Descriptors have two lengths, with and without key information, and the C
  code moves the rest of the list over a descriptor it drops, with a \<^verbatim>\<open>memcpy\<close> that overlaps when
  more is moved than the descriptor is long.
\<close>

unbundle bit_operations_syntax

subsection \<open>The wire format of a scan confirm\<close>

definition wf_PanDescriptor :: "PanDescriptor \<Rightarrow> bool" where
  "wf_PanDescriptor pd \<longleftrightarrow>
     wf_FullAddr (Coord pd) \<and> length (SuperframeSpec pd) = 2 \<and> length (TimeStamp pd) = 4 \<and>
     wf_SecSpec (Security pd)"

definition PanDescriptor_bytes :: "PanDescriptor \<Rightarrow> bytes" where
  "PanDescriptor_bytes pd =
     FullAddr_bytes (Coord pd) @ LogicalChannel pd # SuperframeSpec pd @ GTSPermit pd #
     LinkQuality pd # TimeStamp pd @ SecurityFailure pd #
     (if SecurityLevel (Security pd) = 0 then [0] else SecSpec_bytes (Security pd))"

definition pd_len :: "PanDescriptor \<Rightarrow> nat" where
  "pd_len pd = (if SecurityLevel (Security pd) = 0 then 22 else 32)"

definition scan_payload :: "u8 \<Rightarrow> u8 \<Rightarrow> bytes \<Rightarrow> PanDescriptor list \<Rightarrow> bytes \<Rightarrow> bytes" where
  "scan_payload status type unscanned ds rest =
     [status, type] @ unscanned @ [of_nat (length ds)] @ concat (map PanDescriptor_bytes ds) @ rest"

definition list_len :: "PanDescriptor list \<Rightarrow> nat" where
  "list_len ds = (\<Sum>pd\<leftarrow>ds. pd_len pd)"

definition scan_confirm :: "u8 \<Rightarrow> u8 \<Rightarrow> bytes \<Rightarrow> PanDescriptor list \<Rightarrow> bytes \<Rightarrow> mac_msg" where
  "scan_confirm status type unscanned ds rest =
     \<lparr>CommandId = SPI_MLME_SCAN_CONFIRM, Length = of_nat (7 + list_len ds),
      PData = scan_payload status type unscanned ds rest\<rparr>"

lemma list_len_simps [simp]:
  "list_len [] = 0" "list_len (pd # ds) = pd_len pd + list_len ds"
  "list_len (xs @ ys) = list_len xs + list_len ys"
  by (simp_all add: list_len_def)

lemma pd_len_bounds: "22 \<le> pd_len pd" "pd_len pd \<le> 32"
  by (simp_all add: pd_len_def)

lemma length_le_list_len: "22 * length ds \<le> list_len ds"
  by (induction ds) (use pd_len_bounds in \<open>auto simp: add_le_mono\<close>)

lemma length_PanDescriptor_bytes [simp]:
  "wf_PanDescriptor pd \<Longrightarrow> length (PanDescriptor_bytes pd) = pd_len pd"
  by (simp add: wf_PanDescriptor_def PanDescriptor_bytes_def pd_len_def)

lemma length_concat_bytes:
  "(\<And>pd. pd \<in> set ds \<Longrightarrow> wf_PanDescriptor pd) \<Longrightarrow>
   length (concat (map PanDescriptor_bytes ds)) = list_len ds"
  by (induction ds) auto

lemma PanDescriptor_bytes_quality [simp]:
  "wf_PanDescriptor pd \<Longrightarrow> (PanDescriptor_bytes pd @ r) ! 15 = LinkQuality pd"
  by (simp add: wf_PanDescriptor_def PanDescriptor_bytes_def wf_FullAddr_def FullAddr_bytes_def
      nth_append nth_Cons')

lemma PanDescriptor_bytes_level [simp]:
  "wf_PanDescriptor pd \<Longrightarrow> (PanDescriptor_bytes pd @ r) ! 21 = SecurityLevel (Security pd)"
  by (simp add: wf_PanDescriptor_def PanDescriptor_bytes_def wf_FullAddr_def FullAddr_bytes_def
      SecSpec_bytes_def nth_append nth_Cons')

lemma pdesc_length_bytes [simp]:
  "wf_PanDescriptor pd \<Longrightarrow> pdesc_length (PanDescriptor_bytes pd @ r) = pd_len pd"
  by (simp add: pdesc_length_def pd_len_def word_neq_0_conv)

text \<open>The payload, cut at a descriptor.\<close>

lemma scan_payload_split:
  "scan_payload st ty un (acc @ ds) rest =
     ([st, ty] @ un @ [of_nat (length (acc @ ds))] @ concat (map PanDescriptor_bytes acc)) @
     concat (map PanDescriptor_bytes ds) @ rest"
  by (simp add: scan_payload_def)

lemma length_scan_prefix:
  assumes "length un = 4" "\<And>pd. pd \<in> set acc \<Longrightarrow> wf_PanDescriptor pd"
  shows "length ([st, ty] @ un @ [k] @ concat (map PanDescriptor_bytes acc)) = 7 + list_len acc"
  using assms by (simp add: length_concat_bytes)

lemma drop_prefix: "length a = n \<Longrightarrow> drop n (a @ b) = b"
  by simp

lemma take_prefix: "length a = n \<Longrightarrow> take n (a @ b) = a"
  by simp

lemma drop_scan_payload:
  assumes "length un = 4" "\<And>pd. pd \<in> set acc \<Longrightarrow> wf_PanDescriptor pd"
  shows "drop (7 + list_len acc) (scan_payload st ty un (acc @ ds) rest) =
           concat (map PanDescriptor_bytes ds) @ rest"
  unfolding scan_payload_split by (rule drop_prefix [OF length_scan_prefix [OF assms]])

lemma take_scan_payload:
  assumes "length un = 4" "\<And>pd. pd \<in> set acc \<Longrightarrow> wf_PanDescriptor pd"
  shows "take (7 + list_len acc) (scan_payload st ty un (acc @ ds) rest) =
           [st, ty] @ un @ [of_nat (length (acc @ ds))] @ concat (map PanDescriptor_bytes acc)"
  unfolding scan_payload_split by (rule take_prefix [OF length_scan_prefix [OF assms]])

lemma length_scan_payload:
  assumes "length un = 4" "\<And>pd. pd \<in> set ds \<Longrightarrow> wf_PanDescriptor pd"
  shows "length (scan_payload st ty un ds rest) = 7 + list_len ds + length rest"
  using assms by (simp add: scan_payload_def length_concat_bytes)

lemma scan_payload_nth:
  assumes "length un = 4"
  shows "scan_payload st ty un ds rest ! 0 = st" "scan_payload st ty un ds rest ! 1 = ty"
    "scan_payload st ty un ds rest ! 6 = of_nat (length ds)"
    "(scan_payload st ty un ds rest)[0 := st'] = scan_payload st' ty un ds rest"
  using assms by (simp_all add: scan_payload_def nth_append nth_Cons')

lemma scan_confirm_simps:
  assumes "length un = 4"
  shows "PData (scan_confirm st ty un ds rest) ! 0 = st" "PData (scan_confirm st ty un ds rest) ! 1 = ty"
    "PData (scan_confirm st ty un ds rest) ! 6 = of_nat (length ds)"
    "scan_confirm st ty un ds rest\<lparr>PData := (PData (scan_confirm st ty un ds rest))[0 := st']\<rparr> =
       scan_confirm st' ty un ds rest"
  using assms by (simp_all add: scan_confirm_def scan_payload_nth del: One_nat_def)

subsection \<open>One round of the loop\<close>

text \<open>Dropping a descriptor: the list behind it moves over it; what follows the list is unspecified.\<close>

lemma move_bytes_drops:
  assumes un: "length un = 4"
    and wf: "\<And>x. x \<in> set (acc @ pd # ds) \<Longrightarrow> wf_PanDescriptor x"
    and len: "length (scan_payload st ty un (acc @ pd # ds) rest) = payload_size"
    and fits: "list_len (acc @ pd # ds) \<le> 128" and apart: "list_len acc + list_len ds \<le> pd_len pd"
  obtains rest' where
    "move_bytes (7 + list_len acc) (7 + list_len acc + pd_len pd) (list_len acc + list_len ds)
       (scan_payload st ty un (acc @ pd # ds) rest) =
     Some ([st, ty] @ un @ [of_nat (length (acc @ pd # ds))] @
           concat (map PanDescriptor_bytes (acc @ ds)) @ rest')"
    "7 + list_len (acc @ ds) + length rest' = payload_size"
proof -
  let ?p = "scan_payload st ty un (acc @ pd # ds) rest"
  let ?off = "7 + list_len acc" and ?n = "list_len acc + list_len ds"
  let ?L = "concat (map PanDescriptor_bytes ds)"
  have wfa: "\<And>x. x \<in> set acc \<Longrightarrow> wf_PanDescriptor x" and wfd: "\<And>x. x \<in> set ds \<Longrightarrow> wf_PanDescriptor x"
    and wfpd: "wf_PanDescriptor pd" using wf by auto
  have room: "?off + pd_len pd + ?n \<le> 254" "?off + ?n \<le> 254"
    using fits pd_len_bounds [of pd] by simp_all
  have src: "drop (?off + pd_len pd) ?p = ?L @ rest"
    using drop_scan_payload [of un "acc @ [pd]" st ty ds rest] un wfa wfpd
    by (auto simp: add.assoc)
  have lL: "length ?L = list_len ds" using wfd by (rule length_concat_bytes)
  have "take ?n (?L @ rest) = ?L @ take (list_len acc) rest" using lL by simp
  then have mv: "move_bytes ?off (?off + pd_len pd) ?n ?p =
      Some (take ?off ?p @ ?L @ take (list_len acc) rest @ drop (?off + ?n) ?p)"
    using room len apart by (simp add: move_bytes_def src)
  have take: "take ?off ?p = [st, ty] @ un @ [of_nat (length (acc @ pd # ds))] @
      concat (map PanDescriptor_bytes acc)"
    using un wfa by (rule take_scan_payload)
  have "length (take ?off ?p @ take ?n (drop (?off + pd_len pd) ?p) @ drop (?off + ?n) ?p) = 254"
    using room len by simp
  then have "?off + list_len ds + length (take (list_len acc) rest @ drop (?off + ?n) ?p) = 254"
    unfolding src \<open>take ?n (?L @ rest) = _\<close> using len room lL by simp
  with mv take show thesis
    by (intro that [of "take (list_len acc) rest @ drop (?off + ?n) ?p"]) (simp_all add: add_ac)
qed

declare verify_loop.simps [simp del]

text \<open>
  No copy overlaps: for each descriptor that is dropped, the kept ones before it, of length \<open>k\<close>, and all
  behind it are together no longer than it. (The count of the copy includes the length of the kept ones.)
\<close>

fun copies_apart :: "nat \<Rightarrow> PanDescriptor list \<Rightarrow> bool" where
  "copies_apart k [] \<longleftrightarrow> True"
| "copies_apart k (pd # ds) \<longleftrightarrow>
     (if LinkQuality pd > API_LQI_LIMIT then copies_apart (k + pd_len pd) ds
      else k + list_len ds \<le> pd_len pd \<and> copies_apart k ds)"

lemma verify_loop_filters:
  assumes "length un = 4" "\<And>x. x \<in> set (acc @ ds) \<Longrightarrow> wf_PanDescriptor x"
    "length (scan_payload st ty un (acc @ ds) rest) = payload_size" "list_len (acc @ ds) \<le> 128"
  shows "if copies_apart (list_len acc) ds
    then \<exists>rest'. verify_loop (length acc) (7 + list_len acc) (scan_confirm st ty un (acc @ ds) rest) b =
       Some (scan_confirm st ty un (acc @ filter (\<lambda>pd. LinkQuality pd > API_LQI_LIMIT) ds) rest',
             b \<or> (\<exists>pd\<in>set ds. LinkQuality pd \<le> API_LQI_LIMIT)) \<and>
     length (scan_payload st ty un (acc @ filter (\<lambda>pd. LinkQuality pd > API_LQI_LIMIT) ds) rest') = payload_size
    else verify_loop (length acc) (7 + list_len acc) (scan_confirm st ty un (acc @ ds) rest) b = None"
  using assms
proof (induction ds arbitrary: acc rest b)
  case Nil
  have "length acc \<le> 255" using length_le_list_len [of acc] Nil.prems(4) by simp
  then have "unat (of_nat (length acc) :: u8) = length acc" by (simp add: unat_of_nat)
  with Nil.prems show ?case
    by (subst verify_loop.simps) (auto simp: scan_confirm_def scan_payload_nth)
next
  case (Cons pd ds)
  let ?p = "scan_payload st ty un (acc @ pd # ds) rest"
  have wfpd: "wf_PanDescriptor pd" and wfa: "\<And>x. x \<in> set acc \<Longrightarrow> wf_PanDescriptor x"
    using Cons.prems(2) by auto
  have small: "length (acc @ pd # ds) \<le> 255"
    using length_le_list_len [of "acc @ pd # ds"] Cons.prems(4) by simp
  then have cnt: "unat (of_nat (length (acc @ pd # ds)) :: u8) = length (acc @ pd # ds)"
    by (simp only: unat_of_nat) simp
  have cur: "drop (7 + list_len acc) ?p = PanDescriptor_bytes pd @ concat (map PanDescriptor_bytes ds) @ rest"
    using drop_scan_payload [of un acc st ty "pd # ds" rest] Cons.prems(1) wfa by simp
  have plen: "22 \<le> pd_len pd" by (rule pd_len_bounds)
  have more: "length acc < unat (?p ! 6)" "7 + list_len acc + 21 < length ?p"
    using cnt Cons.prems(1,3,4) plen by (simp_all add: scan_payload_nth)
  note unfold = verify_loop.simps [of "length acc" "7 + list_len acc" "scan_confirm st ty un (acc @ pd # ds) rest" b]
  show ?case
  proof (cases "LinkQuality pd > API_LQI_LIMIT")
    case True
    have "verify_loop (length acc) (7 + list_len acc) (scan_confirm st ty un (acc @ pd # ds) rest) b =
      verify_loop (length (acc @ [pd])) (7 + list_len (acc @ [pd])) (scan_confirm st ty un ((acc @ [pd]) @ ds) rest) b"
      using unfold more True wfpd by (simp add: scan_confirm_def cur Let_def add.assoc)
    moreover have "if copies_apart (list_len (acc @ [pd])) ds
       then \<exists>rest'. verify_loop (length (acc @ [pd])) (7 + list_len (acc @ [pd]))
          (scan_confirm st ty un ((acc @ [pd]) @ ds) rest) b =
       Some (scan_confirm st ty un ((acc @ [pd]) @ filter (\<lambda>pd. LinkQuality pd > API_LQI_LIMIT) ds) rest',
             b \<or> (\<exists>pd\<in>set ds. LinkQuality pd \<le> API_LQI_LIMIT)) \<and>
       length (scan_payload st ty un ((acc @ [pd]) @ filter (\<lambda>pd. LinkQuality pd > API_LQI_LIMIT) ds) rest')
         = payload_size
       else verify_loop (length (acc @ [pd])) (7 + list_len (acc @ [pd]))
          (scan_confirm st ty un ((acc @ [pd]) @ ds) rest) b = None"
      using Cons.prems by (intro Cons.IH) auto
    moreover have "\<not> LinkQuality pd \<le> API_LQI_LIMIT" using True by simp
    ultimately show ?thesis using True by (auto split: if_split_asm)
  next
    case False
    have L: "unat (of_nat (7 + list_len (acc @ pd # ds)) :: u8) = 7 + list_len (acc @ pd # ds)"
      using Cons.prems(4) by (simp only: unat_of_nat) simp
    show ?thesis
    proof (cases "list_len acc + list_len ds \<le> pd_len pd")
    case overlap: False
    then have "move_bytes (7 + list_len acc) (7 + list_len acc + pd_len pd) (list_len acc + list_len ds) ?p = None"
      using plen by (auto simp: move_bytes_def)
    then have "verify_loop (length acc) (7 + list_len acc) (scan_confirm st ty un (acc @ pd # ds) rest) b = None"
      using unfold more False wfpd L by (simp add: scan_confirm_def cur Let_def)
    with False overlap show ?thesis
      by simp
    next
    case True
    obtain rest1 where mv:
      "move_bytes (7 + list_len acc) (7 + list_len acc + pd_len pd) (list_len acc + list_len ds) ?p =
        Some ([st, ty] @ un @ [of_nat (length (acc @ pd # ds))] @
              concat (map PanDescriptor_bytes (acc @ ds)) @ rest1)"
      and l1: "7 + list_len (acc @ ds) + length rest1 = payload_size"
      by (rule move_bytes_drops [OF Cons.prems(1,2,3,4) True])
    have dec: "of_nat (7 + list_len (acc @ pd # ds)) - of_nat (pd_len pd) = (of_nat (7 + list_len (acc @ ds)) :: u8)"
      by simp
    have upd: "([st, ty] @ un @ [of_nat (length (acc @ pd # ds))] @ concat (map PanDescriptor_bytes (acc @ ds)) @ rest1)
        [6 := ([st, ty] @ un @ [of_nat (length (acc @ pd # ds))] @ concat (map PanDescriptor_bytes (acc @ ds)) @ rest1) ! 6 - 1]
        = scan_payload st ty un (acc @ ds) rest1"
      using Cons.prems(1) by (simp add: scan_payload_def nth_append nth_Cons' list_update_append)
    have "verify_loop (length acc) (7 + list_len acc) (scan_confirm st ty un (acc @ pd # ds) rest) b =
      verify_loop (length acc) (7 + list_len acc) (scan_confirm st ty un (acc @ ds) rest1) True"
      using unfold more False wfpd mv L dec upd
      by (simp add: scan_confirm_def cur Let_def)
    moreover have "length (scan_payload st ty un (acc @ ds) rest1) = payload_size"
      using Cons.prems(1,2) l1 by (subst length_scan_payload) auto
    with Cons.prems have "if copies_apart (list_len acc) ds
       then \<exists>rest'. verify_loop (length acc) (7 + list_len acc)
          (scan_confirm st ty un (acc @ ds) rest1) True =
       Some (scan_confirm st ty un (acc @ filter (\<lambda>pd. LinkQuality pd > API_LQI_LIMIT) ds) rest',
             True \<or> (\<exists>pd\<in>set ds. LinkQuality pd \<le> API_LQI_LIMIT)) \<and>
       length (scan_payload st ty un (acc @ filter (\<lambda>pd. LinkQuality pd > API_LQI_LIMIT) ds) rest') = payload_size
       else verify_loop (length acc) (7 + list_len acc) (scan_confirm st ty un (acc @ ds) rest1) True = None"
      by (intro Cons.IH) auto
    moreover have "LinkQuality pd \<le> API_LQI_LIMIT" using False by simp
    ultimately show ?thesis using False True by (auto split: if_split_asm)
    qed
  qed
qed

subsection \<open>The filter\<close>

lemma verify_scancnf_filter:
  assumes "length un = 4" "\<And>x. x \<in> set ds \<Longrightarrow> wf_PanDescriptor x"
    "length (scan_payload st ty un ds rest) = payload_size" "list_len ds \<le> 128"
    "ty = ACTIVE_SCAN \<or> ty = PASSIVE_SCAN" "lqi_mode d \<noteq> HWME_LQIMODE_ED"
  defines "good \<equiv> filter (\<lambda>pd. LinkQuality pd > API_LQI_LIMIT) ds"
  defines "st' \<equiv> (if ds \<noteq> [] \<and> good = [] \<and> (st = MAC_SUCCESS \<or> st = MAC_LIMIT_REACHED) then MAC_NO_BEACON else st)"
  shows "copies_apart 0 ds \<Longrightarrow> \<exists>rest'. verify_scancnf_results (scan_confirm st ty un ds rest) d =
            Some (scan_confirm st' ty un good rest') \<and>
          length (scan_payload st' ty un good rest') = payload_size"
    and "\<not> copies_apart 0 ds \<Longrightarrow> verify_scancnf_results (scan_confirm st ty un ds rest) d = None"
proof -
  note loop = verify_loop_filters [of un "[]" ds st ty rest False]
  show "verify_scancnf_results (scan_confirm st ty un ds rest) d = None" if "\<not> copies_apart 0 ds"
    using loop that assms(1-6)
    by (auto simp: verify_scancnf_results_def scan_confirm_simps [OF assms(1)] simp del: One_nat_def)
  assume "copies_apart 0 ds"
  with loop assms(1-4) obtain rest' where r: "verify_loop 0 7 (scan_confirm st ty un ds rest) False =
      Some (scan_confirm st ty un good rest', \<exists>pd\<in>set ds. LinkQuality pd \<le> API_LQI_LIMIT)"
    and l: "length (scan_payload st ty un good rest') = payload_size"
    unfolding good_def by (auto split: if_split_asm)
  have wfg: "\<And>x. x \<in> set good \<Longrightarrow> wf_PanDescriptor x" using assms(2) by (simp add: good_def)
  have "length good \<le> length ds" by (simp add: good_def)
  also have "length ds \<le> 255" using length_le_list_len [of ds] assms(4) by simp
  finally have zero: "(of_nat (length good) :: u8) = 0 \<longleftrightarrow> good = []"
    by (simp add: word_unat_eq_iff unat_of_nat)
  have modified: "(\<exists>pd\<in>set ds. LinkQuality pd \<le> API_LQI_LIMIT) \<longleftrightarrow> ds \<noteq> []" if "good = []"
    using that by (cases ds) (auto simp: good_def split: if_splits)
  have "verify_scancnf_results (scan_confirm st ty un ds rest) d =
      Some (scan_confirm st' ty un good rest')"
    using assms(5,6) r zero modified
    by (auto simp: verify_scancnf_results_def scan_confirm_simps [OF assms(1)] st'_def simp del: One_nat_def)
  moreover have "length (scan_payload st' ty un good rest') = payload_size"
    using l assms(1) wfg by (simp add: length_scan_payload)
  ultimately show "\<exists>rest'. verify_scancnf_results (scan_confirm st ty un ds rest) d =
            Some (scan_confirm st' ty un good rest') \<and>
          length (scan_payload st' ty un good rest') = payload_size"
    by blast
qed

text \<open>The application walks the list with the accessor of the helper library; the walk is right.\<close>

lemma pandescriptor_loop_finds:
  assumes "length un = 4" "\<And>x. x \<in> set (acc @ ds) \<Longrightarrow> wf_PanDescriptor x" "i < length ds"
  shows "pandescriptor_loop i (7 + list_len acc) (scan_payload st ty un (acc @ ds) rest) =
           7 + list_len (acc @ take i ds)"
  using assms
proof (induction i arbitrary: acc ds)
  case (Suc i)
  then obtain pd ds' where ds: "ds = pd # ds'" by (cases ds) auto
  have cur: "drop (7 + list_len acc) (scan_payload st ty un (acc @ ds) rest) =
      PanDescriptor_bytes pd @ concat (map PanDescriptor_bytes ds') @ rest"
    using drop_scan_payload [of un acc st ty ds rest] Suc.prems ds by simp
  have "7 + list_len acc + 21 < length (scan_payload st ty un (acc @ ds) rest)"
    using Suc.prems(1,2) ds pd_len_bounds(1) [of pd]
    by (subst length_scan_payload) auto
  then have at: "scan_payload st ty un (acc @ ds) rest ! (7 + list_len acc + 21) = SecurityLevel (Security pd)"
    using cur Suc.prems(2) ds PanDescriptor_bytes_level [of pd]
    by (metis Un_iff add_leD1 less_or_eq_imp_le list.set_intros(1) nth_drop set_append)
  have "pandescriptor_loop i (7 + list_len (acc @ [pd])) (scan_payload st ty un ((acc @ [pd]) @ ds') rest) =
      7 + list_len ((acc @ [pd]) @ take i ds')"
    using Suc.prems ds by (intro Suc.IH) auto
  then show ?case using at
    by (cases "SecurityLevel (Security pd) = 0") (simp_all add: ds pd_len_def add_ac)
qed simp

lemma get_pandescriptor_finds:
  assumes "length un = 4" "\<And>x. x \<in> set ds \<Longrightarrow> wf_PanDescriptor x" "list_len ds \<le> 128"
    "ty = ACTIVE_SCAN \<or> ty = PASSIVE_SCAN"
  shows "MLME_SCAN_confirm_get_pandescriptor i (scan_payload st ty un ds rest) =
           (if unat i < length ds then Some (7 + list_len (take (unat i) ds)) else None)"
proof -
  have "length ds \<le> 255" using length_le_list_len [of ds] assms(3) by simp
  then have "i \<ge> of_nat (length ds) \<longleftrightarrow> \<not> unat i < length ds"
    by (simp add: word_le_nat_alt unat_of_nat not_less)
  then show ?thesis
    using assms pandescriptor_loop_finds [of un "[]" ds "unat i" st ty rest]
    by (auto simp: MLME_SCAN_confirm_get_pandescriptor_def scan_payload_nth simp del: One_nat_def)
qed

text \<open>What the application is to see: the acceptable descriptors, and the status.\<close>

definition accepted :: "PanDescriptor list \<Rightarrow> PanDescriptor list" where
  "accepted ds = filter (\<lambda>pd. LinkQuality pd > API_LQI_LIMIT) ds"

definition scan_status :: "u8 \<Rightarrow> PanDescriptor list \<Rightarrow> u8" where
  "scan_status st ds =
     (if ds \<noteq> [] \<and> accepted ds = [] \<and> (st = MAC_SUCCESS \<or> st = MAC_LIMIT_REACHED)
      then MAC_NO_BEACON else st)"

text \<open>
  C23: On a scan confirm that carries the PAN descriptors \<open>ds\<close>, at most 128 octets of them, the
  CA-8210 workaround returns and leaves the confirm that carries exactly those with a link quality above the limit, in order,
  with the list size and the message length adjusted, and the status \<^verbatim>\<open>NO_BEACON\<close> when a
  successful scan has lost all its descriptors; the helper library's accessor then finds each of
  them, with its octets intact, and refuses any other index. This holds when no \<^verbatim>\<open>memcpy\<close> of the code
  overlaps, which is to say that for every descriptor dropped, all the others that are not dropped before it
  are together no longer than it; in every other case, and so whenever one of three or more unsecured
  descriptors is dropped first, the code runs into the undefined behaviour of an overlapping copy.
\<close>

theorem verify_scancnf_keeps_good:
  assumes "length un = 4" "\<And>x. x \<in> set ds \<Longrightarrow> wf_PanDescriptor x"
    "length (scan_payload st ty un ds rest) = payload_size" "list_len ds \<le> 128"
    "ty = ACTIVE_SCAN \<or> ty = PASSIVE_SCAN" "lqi_mode d \<noteq> HWME_LQIMODE_ED"
  shows "if copies_apart 0 ds
     then \<exists>rest'. let p = scan_payload (scan_status st ds) ty un (accepted ds) rest' in
          verify_scancnf_results (scan_confirm st ty un ds rest) d =
            Some (scan_confirm (scan_status st ds) ty un (accepted ds) rest') \<and>
          (\<forall>i. case MLME_SCAN_confirm_get_pandescriptor i p of
                 None \<Rightarrow> length (accepted ds) \<le> unat i
               | Some off \<Rightarrow> unat i < length (accepted ds) \<and>
                   take (pd_len (accepted ds ! unat i)) (drop off p) = PanDescriptor_bytes (accepted ds ! unat i))
     else verify_scancnf_results (scan_confirm st ty un ds rest) d = None"
proof (cases "copies_apart 0 ds")
  case False
  with verify_scancnf_filter(2) [OF assms(1) assms(2) assms(3-6)] show ?thesis
    by simp
next
  case True
  let ?good = "accepted ds"
  have wfg: "\<And>x. x \<in> set ?good \<Longrightarrow> wf_PanDescriptor x" using assms(2) by (simp add: accepted_def)
  have "list_len ?good \<le> list_len ds" unfolding accepted_def by (induction ds) auto
  then have small: "list_len ?good \<le> 128" using assms(4) by simp
  have at: "take (pd_len (?good ! k)) (drop (7 + list_len (take k ?good)) (scan_payload st' ty un ?good rest'))
      = PanDescriptor_bytes (?good ! k)" if "k < length ?good" for k st' rest'
  proof -
    have "\<And>x. x \<in> set (take k ?good) \<Longrightarrow> wf_PanDescriptor x" using wfg by (blast dest: in_set_takeD)
    from drop_scan_payload [where acc = "take k ?good" and ds = "drop k ?good", OF assms(1) this]
    have "drop (7 + list_len (take k ?good)) (scan_payload st' ty un ?good rest') =
        concat (map PanDescriptor_bytes (drop k ?good)) @ rest'"
      by simp
    moreover have "drop k ?good = ?good ! k # drop (Suc k) ?good" using that by (rule Cons_nth_drop_Suc [symmetric])
    moreover have "wf_PanDescriptor (?good ! k)" using that wfg nth_mem by blast
    ultimately show ?thesis by simp
  qed
  from verify_scancnf_filter(1) [OF assms(1) assms(2) assms(3-6) True] obtain rest' where
    "verify_scancnf_results (scan_confirm st ty un ds rest) d =
       Some (scan_confirm (scan_status st ds) ty un ?good rest')"
    unfolding accepted_def scan_status_def by auto
  then show ?thesis
    using get_pandescriptor_finds [OF assms(1) wfg small assms(5)] at
    unfolding if_P [OF True] by (intro exI [of _ rest']) (simp add: Let_def)
qed

definition beacon :: "u8 \<Rightarrow> u8 \<Rightarrow> PanDescriptor" where
  "beacon lqi level =
     \<lparr>Coord = \<lparr>AddressMode = 2, PANId = [1, 2], Address = replicate 8 7\<rparr>, LogicalChannel = 11,
      SuperframeSpec = [0, 0], GTSPermit = 0, LinkQuality = lqi, TimeStamp = [0, 0, 0, 0],
      SecurityFailure = 0,
      Security = \<lparr>SecurityLevel = level, KeyIdMode = 1, KeySource = replicate 8 0, KeyIndex = 0\<rparr>\<rparr>"

lemma beacon_simps [simp]:
  "wf_PanDescriptor (beacon q l)" "LinkQuality (beacon q l) = q"
  "pd_len (beacon q l) = (if l = 0 then 22 else 32)"
  by (simp_all add: beacon_def wf_PanDescriptor_def wf_FullAddr_def wf_SecSpec_def pd_len_def)

text \<open>An unsecured descriptor before a secured one is kept, and the secured one dropped; with a third
  behind them, the copy overlaps.\<close>

theorem verify_scancnf_keeps_good_witness:
  "(\<exists>rest'. verify_scancnf_results (scan_confirm 0 1 [0, 0, 0, 0] [beacon 90 0, beacon 60 5] (replicate 193 9))
       \<lparr>app_context = None :: unit option, exchange_context = None, callbacks = (\<lambda>_. None :: unit option),
        generic_dispatch = None, extaddr = [], shortaddr = 0, lqi_mode = 0, MAC_MPW = 0, blacklist = []\<rparr> =
     Some (scan_confirm 0 1 [0, 0, 0, 0] [beacon 90 0] rest')) \<and>
   verify_scancnf_results (scan_confirm 0 1 [0, 0, 0, 0] [beacon 90 0, beacon 60 5, beacon 80 0] (replicate 171 9))
       \<lparr>app_context = None :: unit option, exchange_context = None, callbacks = (\<lambda>_. None :: unit option),
        generic_dispatch = None, extaddr = [], shortaddr = 0, lqi_mode = 0, MAC_MPW = 0, blacklist = []\<rparr> = None"
proof -
  let ?two = "[beacon 90 0, beacon 60 5]" and ?three = "[beacon 90 0, beacon 60 5, beacon 80 0]"
  let ?d = "\<lparr>app_context = None :: unit option, exchange_context = None, callbacks = (\<lambda>_. None :: unit option),
        generic_dispatch = None, extaddr = [], shortaddr = 0, lqi_mode = 0, MAC_MPW = 0, blacklist = []\<rparr>"
  have acc: "accepted ?two = [beacon 90 0]" by (simp add: accepted_def)
  have st: "scan_status 0 ?two = 0" by (simp add: scan_status_def acc)
  have len: "length (scan_payload 0 1 [0, 0, 0, 0] ?two (replicate 193 9)) = payload_size"
    "length (scan_payload 0 1 [0, 0, 0, 0] ?three (replicate 171 9)) = payload_size"
    by (subst length_scan_payload, auto)+
  have un: "length [0, 0, 0, 0 :: u8] = 4" by simp
  have wf: "\<And>x. x \<in> set ?two \<Longrightarrow> wf_PanDescriptor x" "\<And>x. x \<in> set ?three \<Longrightarrow> wf_PanDescriptor x" by auto
  have total: "list_len ?two \<le> 128" "list_len ?three \<le> 128" by simp_all
  have apart: "copies_apart 0 ?two" "\<not> copies_apart 0 ?three" by simp_all
  have lqi: "lqi_mode ?d \<noteq> HWME_LQIMODE_ED" by simp
  have "\<exists>rest'. verify_scancnf_results (scan_confirm 0 1 [0, 0, 0, 0] ?two (replicate 193 9)) ?d =
      Some (scan_confirm 0 1 [0, 0, 0, 0] [beacon 90 0] rest')"
    using verify_scancnf_keeps_good [OF un wf(1) len(1) total(1) disjI1 [OF refl] lqi]
    unfolding if_P [OF apart(1)] Let_def acc st by blast
  moreover have "verify_scancnf_results (scan_confirm 0 1 [0, 0, 0, 0] ?three (replicate 171 9)) ?d = None"
    using verify_scancnf_keeps_good [OF un wf(2) len(2) total(2) disjI1 [OF refl] lqi]
    unfolding if_not_P [OF apart(2)] .
  ultimately show ?thesis by blast
qed

subsection \<open>Beacon notifications\<close>

lemma beacon_pas:
  assumes "wf_PanDescriptor pd"
  shows "MLME_BEACON_NOTIFY_get_pendaddrspec (bsn # PanDescriptor_bytes pd @ r) = 1 + pd_len pd"
  using assms PanDescriptor_bytes_level [OF assms, of r]
  by (simp add: MLME_BEACON_NOTIFY_get_pendaddrspec_def pd_len_def)

lemma drop_fields: "length a = k \<Longrightarrow> drop (k + n) (a @ b) = drop n b"
  by simp

text \<open>
  C26: The accessors of a beacon notification find its variable parts, for a secured and an unsecured
  beacon with up to three pending addresses of each kind: the pending short and extended addresses behind the pending-address octet, and the payload
  with its length. The octet counts up to seven addresses of each kind, but the accessors take two bits of each
  count: the short addresses are always found, while their number, the number of extended addresses and the place of these
  are those of the counts modulo four.
\<close>

theorem beacon_accessors_find_parts:
  fixes bsn len :: u8 and sdu :: bytes
  assumes "wf_PanDescriptor pd" "ns \<le> 7" "ne \<le> 7" "length shorts = 2 * ns" "length exts = 8 * ne"
  defines "pas \<equiv> of_nat ns OR push_bit 4 (of_nat ne) :: u8"
  defines "p \<equiv> bsn # PanDescriptor_bytes pd @ [pas] @ shorts @ exts @ [len] @ sdu"
  shows "case (MLME_BEACON_NOTIFY_indication_get_shortaddrs p, MLME_BEACON_NOTIFY_indication_get_extaddrs p,
               MLME_BEACON_NOTIFY_indication_get_sdu p) of
           ((n1, o1), (n2, o2), (n3, o3)) \<Rightarrow>
             unat n1 = ns mod 4 \<and> take (2 * ns) (drop o1 p) = shorts \<and>
             unat n2 = ne mod 4 \<and> o2 = o1 + 2 * (ns mod 4) \<and> o3 = o2 + 8 * (ne mod 4) + 1 \<and>
             (ns \<le> 3 \<and> ne \<le> 3 \<longrightarrow>
                unat n1 = ns \<and> unat n2 = ne \<and> take (8 * ne) (drop o2 p) = exts \<and> n3 = len \<and> drop o3 p = sdu)"
proof -
  let ?h = "bsn # PanDescriptor_bytes pd"
  have h: "length ?h = 1 + pd_len pd" using assms(1) by simp
  have pas_at: "MLME_BEACON_NOTIFY_get_pendaddrspec p = 1 + pd_len pd"
    unfolding p_def using beacon_pas [OF assms(1)] by simp
  have p: "p = ?h @ pas # shorts @ exts @ len # sdu" by (simp add: p_def)
  have pas: "p ! (1 + pd_len pd) = pas" unfolding p h [symmetric] by (rule nth_append_length)
  have "ns \<in> {0, 1, 2, 3, 4, 5, 6, 7}" "ne \<in> {0, 1, 2, 3, 4, 5, 6, 7}" using assms(2,3) by auto
  then have counts: "unat (pas AND 0x03) = ns mod 4" "unat (drop_bit 4 pas AND 0x03) = ne mod 4"
    unfolding pas_def by auto
  have short: "MLME_BEACON_NOTIFY_indication_get_shortaddrs p = (pas AND 0x03, 1 + pd_len pd + 1)"
    by (simp add: MLME_BEACON_NOTIFY_indication_get_shortaddrs_def Let_def pas_at pas del: One_nat_def)
  have ext: "MLME_BEACON_NOTIFY_indication_get_extaddrs p = (drop_bit 4 pas AND 0x03, 1 + pd_len pd + 1 + 2 * (ns mod 4))"
    by (simp add: MLME_BEACON_NOTIFY_indication_get_extaddrs_def Let_def pas_at pas short counts
        del: One_nat_def)
  have l: "length (?h @ [pas]) = 1 + pd_len pd + 1" "length (?h @ [pas] @ shorts) = 1 + pd_len pd + 1 + 2 * ns"
    "length (?h @ [pas] @ shorts @ exts) = 1 + pd_len pd + 1 + 2 * ns + 8 * ne"
    "length (?h @ [pas] @ shorts @ exts @ [len]) = 1 + pd_len pd + 1 + 2 * ns + 8 * ne + 1"
    using h assms(4,5) by simp_all
  have at: "drop (1 + pd_len pd + 1) p = shorts @ exts @ len # sdu"
    "drop (1 + pd_len pd + 1 + 2 * ns) p = exts @ len # sdu"
    using drop_prefix [OF l(1), of "shorts @ exts @ len # sdu"] drop_prefix [OF l(2), of "exts @ len # sdu"]
    by (simp_all add: p)
  have sdu: "p ! (1 + pd_len pd + 1 + 2 * ns + 8 * ne) = len"
    "drop (1 + pd_len pd + 1 + 2 * ns + 8 * ne + 1) p = sdu"
    using drop_prefix [OF l(4), of sdu] nth_append_length [of "?h @ [pas] @ shorts @ exts" len sdu, unfolded l(3)]
    by (simp_all add: p)
  have whole: "ns mod 4 = ns \<and> ne mod 4 = ne" if "ns \<le> 3 \<and> ne \<le> 3"
    using that by simp
  show ?thesis
    using counts at sdu assms(4,5)
    by (auto simp: short ext MLME_BEACON_NOTIFY_indication_get_sdu_def dest: whole simp del: One_nat_def)
qed

theorem beacon_accessors_find_parts_witness:
  "case MLME_BEACON_NOTIFY_indication_get_sdu
     (0 # PanDescriptor_bytes (beacon 90 5) @ [0x11] @ [1, 2] @ replicate 8 3 @ [2] @ [7, 8]) of
     (n, off) \<Rightarrow> n = 2 \<and>
       drop off (0 # PanDescriptor_bytes (beacon 90 5) @ [0x11] @ [1, 2] @ replicate 8 3 @ [2] @ [7, 8]) = [7, 8]"
proof -
  let ?p = "0 # PanDescriptor_bytes (beacon 90 5) @ [0x11] @ [1, 2] @ replicate 8 3 @ [2] @ [7, 8]"
  have pas: "(of_nat 1 OR push_bit 4 (of_nat 1) :: u8) = 0x11" by simp
  have n: "(1 :: nat) \<le> 7" "(1 :: nat) \<le> 3"
    and s: "length [1, 2 :: u8] = 2 * 1" "length (replicate 8 (3 :: u8)) = 8 * 1" by simp_all
  have "fst (MLME_BEACON_NOTIFY_indication_get_sdu ?p) = 2 \<and> drop (snd (MLME_BEACON_NOTIFY_indication_get_sdu ?p)) ?p = [7, 8]"
    using beacon_accessors_find_parts [of "beacon 90 5" 1 1 "[1, 2]" "replicate 8 3" 0 2 "[7, 8]", OF beacon_simps(1) n(1) n(1) s]
    unfolding pas case_prod_beta prod.sel using n(2) by blast
  then show ?thesis
    by (simp only: case_prod_beta)
qed

end
