(* ===== verification/ApiSound.thy ===== *)
theory ApiSound
  imports ApiUpstream
begin

text \<open>
  Properties of the requests and of the way up: requests are complete and stay inside their
  buffers, a synchronous request reports the status of its own confirm, the transmit power and the
  mirrored addresses agree with the radio, and blacklisted devices do not reach the application.
\<close>

unbundle bit_operations_syntax

subsection \<open>Requests\<close>

lemma completeI:
  "l = of_nat (length p) \<Longrightarrow> length p \<le> payload_size \<Longrightarrow> complete \<lparr>CommandId = i, Length = l, PData = p\<rparr>"
  by (simp add: complete_def unat_of_nat)

lemma of_nat_unat_u8 [simp]: "(of_nat (unat (x :: u8)) :: u8) = x"
  by simp

lemma length_octets32 [simp]: "length (octets32 x) = 4"
  by (simp add: octets32_def)

lemmas request_cmd_defs =
  MLME_ASSOCIATE_request_cmd_def MLME_DISASSOCIATE_request_cmd_def MLME_SCAN_request_cmd_def
  MLME_START_request_cmd_def MLME_POLL_request_8212_cmd_def MLME_POLL_request_sync_cmd_def
  MLME_RX_ENABLE_request_cmd_def

lemma sec_cases:
  assumes "wf_sec p"
  obtains "set_security p = (\<lambda>l. (l - 10, [0]))" "append_security p = (\<lambda>l. (l + 1, [0]))" "sec_bytes p = [0]"
  | s where "p = Some s" "SecurityLevel s \<noteq> 0" "wf_SecSpec s" "set_security p = (\<lambda>l. (l, SecSpec_bytes s))"
      "append_security p = (\<lambda>l. (l + 11, SecSpec_bytes s))" "sec_bytes p = SecSpec_bytes s"
proof (cases "\<exists>s. p = Some s \<and> SecurityLevel s \<noteq> 0")
  case True
  then obtain s where s: "p = Some s" "SecurityLevel s \<noteq> 0" by blast
  with assms show thesis by (intro that(2) [of s]) (auto simp: wf_sec_def sec_bytes_def)
next
  case False
  then show thesis by (intro that(1)) (cases p; auto simp: sec_bytes_def)+
qed

lemma fixed_requests_complete:
  assumes "wf_FullAddr a" "wf_sec p" "wf_sec q"
  shows "complete (MLME_ASSOCIATE_request_cmd ch a cap p)" "complete (MLME_DISASSOCIATE_request_cmd a r ti p)"
    "complete (MLME_SCAN_request_cmd ty chs dur p)" "complete (MLME_START_request_cmd pan ch bo so pc ble cr p q)"
    "complete (MLME_POLL_request_8212_cmd a fv p)" "complete (MLME_POLL_request_sync_cmd v a iv p)"
    "complete (MLME_RX_ENABLE_request_cmd dp t0 t1)"
  using assms
  by (cases rule: sec_cases [OF assms(2)]; cases rule: sec_cases [OF assms(3)];
      auto simp: request_cmd_defs intro!: completeI)+

text \<open>The requests with a payload of variable length are built exactly when every copy fits its
  buffer and its source, and are then complete.\<close>

definition built_when :: "bool \<Rightarrow> mac_msg option \<Rightarrow> bool" where
  "built_when fits r \<longleftrightarrow> (case r of None \<Rightarrow> \<not> fits | Some c \<Rightarrow> fits \<and> complete c)"

lemma built_when_simps [simp]: "built_when fits None \<longleftrightarrow> \<not> fits" "built_when fits (Some c) \<longleftrightarrow> fits \<and> complete c"
  by (simp_all add: built_when_def)

lemma response_cmds_complete:
  assumes "wf_sec p"
  shows "built_when (8 \<le> length dev) (MLME_ASSOCIATE_response_cmd dev sa st p)"
    "built_when (8 \<le> length dev) (MLME_ORPHAN_response_cmd dev sa am p)"
  by (cases rule: sec_cases [OF assms];
      auto simp: MLME_ASSOCIATE_response_cmd_def MLME_ORPHAN_response_cmd_def copy_def intro!: completeI)+

lemma attribute_cmds_complete:
  "built_when (unat len \<le> MAX_ATTRIBUTE_SIZE \<and> unat len \<le> length val) (MLME_SET_request_cmd at ix len val)"
  "built_when (unat len \<le> MAX_HWME_ATTRIBUTE_SIZE \<and> unat len \<le> length val) (HWME_SET_request_cmd at len val)"
  "built_when (unat len \<le> MAX_TDME_ATTRIBUTE_SIZE \<and> unat len \<le> length val) (TDME_SET_request_cmd at len val)"
  "built_when (ty = TDME_TXD_APPENDED \<longrightarrow> unat len \<le> 128 \<and> unat len \<le> length val) (TDME_TXPKT_request_cmd ty sn len val)"
  by (auto simp: MLME_SET_request_cmd_def HWME_SET_request_cmd_def TDME_SET_request_cmd_def
      TDME_TXPKT_request_cmd_def copy_def intro!: completeI)

lemma pcps_cmds_complete:
  assumes "unat len \<le> aMaxPHYPacketSize"
  shows "built_when (unat len \<le> length psdu) (PCPS_DATA_request_8211_cmd h opt len psdu)"
    "built_when (unat len \<le> length psdu) (PCPS_DATA_request_8212_cmd h opt len psdu ts per)"
  using assms
  by (auto simp: PCPS_DATA_request_8211_cmd_def PCPS_DATA_request_8212_cmd_def copy_def Let_def
      min_absorb2 intro!: completeI)

lemma copy_bind:
  "Option.bind (copy room src n) f =
     (if n \<le> room \<and> n \<le> length src then f (take n src) else None)"
  by (simp add: copy_def)

lemma data_tail_complete:
  assumes "wf_sec p" "l = of_nat (length buf + unat n)" "length buf \<le> payload_size"
  shows "built_when (unat n \<le> length pMsdu \<and> length buf + unat n + length (sec_bytes p) \<le> payload_size)
           (data_tail buf l n pMsdu p)"
  by (cases rule: sec_cases [OF assms(1)];
      use assms(2,3) in \<open>auto simp: data_tail_def copy_bind min_absorb2 not_le intro!: completeI\<close>)

text \<open>The octets the options of the CA-8212 request add.\<close>

definition params_size :: "u8 \<Rightarrow> nat" where
  "params_size o0 = (if o0 AND TXOPT0_SCH \<noteq> 0 then 6 else 0) + (if o0 AND TXOPT0_SPECIFIC_CHANNEL \<noteq> 0 then 1 else 0)"

definition ies_size :: "u8 \<Rightarrow> u8 \<Rightarrow> u8 \<Rightarrow> nat" where
  "ies_size o1 hl pl = (if o1 AND TXOPT1_2015_FRAME \<noteq> 0 then unat hl + unat pl else 0)"

lemma data_params_length:
  "fst (data_params o0 ts per ch l) = l + of_nat (length (snd (data_params o0 ts per ch l)))"
  "length (snd (data_params o0 ts per ch l)) = params_size o0"
  by (simp_all add: data_params_def params_size_def)

lemma params_size_le: "params_size o0 \<le> 7"
  by (simp add: params_size_def)

lemma data_ies_length:
  "case data_ies o1 hl pl hie pie room l of
     None \<Rightarrow> o1 AND TXOPT1_2015_FRAME \<noteq> 0 \<and> (unat hl > length hie \<or> unat pl > length pie \<or> ies_size o1 hl pl > room)
   | Some (l', b) \<Rightarrow> l' = l + of_nat (length b) \<and> length b = ies_size o1 hl pl \<and> length b \<le> room \<and>
       (o1 AND TXOPT1_2015_FRAME \<noteq> 0 \<longrightarrow> unat hl \<le> length hie \<and> unat pl \<le> length pie)"
  by (auto simp: data_ies_def ies_size_def copy_bind min_absorb2)

lemma data_cmd_complete:
  assumes "wf_FullAddr a" "wf_sec p"
  shows "built_when (unat n \<le> length msdu \<and> 15 + unat n + length (sec_bytes p) \<le> payload_size)
           (MCPS_DATA_request_cmd sam a n msdu h opt p)"
proof -
  have "length (sam # FullAddr_bytes a @ [n, h, opt]) = 15" using assms(1) by simp
  then show ?thesis
    using data_tail_complete [OF assms(2), of _ "sam # FullAddr_bytes a @ [n, h, opt]" n msdu]
    by (simp add: MCPS_DATA_request_cmd_def Let_def)
qed

lemma data_8212_cmd_complete:
  assumes "wf_FullAddr a" "wf_sec p"
  shows "built_when (unat n \<le> length msdu \<and>
            (o1 AND TXOPT1_2015_FRAME \<noteq> 0 \<longrightarrow> unat hl \<le> length hie \<and> unat pl \<le> length pie) \<and>
            18 + params_size o0 + ies_size o1 hl pl + unat n + length (sec_bytes p) \<le> payload_size)
           (MCPS_DATA_request_8212_cmd sam a hl pl n msdu h (o0, o1) ts per ch hie pie p)"
proof -
  let ?fixed = "sam # FullAddr_bytes a @ [hl, pl, n, h, o0, o1]"
  obtain l1 params where dp: "data_params o0 ts per ch (of_nat (length ?fixed) + n) = (l1, params)"
    by fastforce
  from data_params_length [of o0 ts per ch "of_nat (length ?fixed) + n"] dp
  have l1: "l1 = of_nat (length ?fixed) + n + of_nat (length params)" "length params = params_size o0" by simp_all
  have f: "length ?fixed = 18" using assms(1) by simp
  note ies = data_ies_length [where ?o1.0 = o1 and hl = hl and pl = pl and hie = hie and pie = pie and
      room = "payload_size - length (?fixed @ params)" and l = l1]
  show ?thesis
  proof (cases "data_ies o1 hl pl hie pie (payload_size - length (?fixed @ params)) l1")
    case None
    with ies l1 f dp params_size_le [of o0] show ?thesis
      by (auto simp: MCPS_DATA_request_8212_cmd_def Let_def)
  next
    case (Some r)
    then obtain l2 b where r: "data_ies o1 hl pl hie pie (payload_size - length (?fixed @ params)) l1 = Some (l2, b)"
      by (cases r) auto
    with ies f have b: "l2 = l1 + of_nat (length b)" "length b \<le> 236 - length params" "length b = ies_size o1 hl pl"
      "o1 AND TXOPT1_2015_FRAME \<noteq> 0 \<longrightarrow> unat hl \<le> length hie \<and> unat pl \<le> length pie" by auto
    let ?buf = "?fixed @ params @ b"
    have eq: "MCPS_DATA_request_8212_cmd sam a hl pl n msdu h (o0, o1) ts per ch hie pie p =
        data_tail ?buf l2 n msdu p"
      using dp r by (simp add: MCPS_DATA_request_8212_cmd_def Let_def)
    have "l2 = of_nat (length ?buf + unat n)" using b(1) l1(1) by (simp add: add_ac)
    moreover have "length ?buf \<le> payload_size" using b(2) l1(2) f params_size_le [of o0] by simp
    ultimately have tail: "built_when (unat n \<le> length msdu \<and> length ?buf + unat n + length (sec_bytes p) \<le> payload_size)
        (data_tail ?buf l2 n msdu p)"
      by (rule data_tail_complete [OF assms(2)])
    have "length ?buf = 18 + params_size o0 + ies_size o1 hl pl" using b(3) l1(2) f by simp
    with tail b(4) show ?thesis
      unfolding eq by (cases "data_tail ?buf l2 n msdu p") (simp_all only: built_when_simps, blast+)
  qed
qed

text \<open>
  The requests of fixed size build their message where they send it. They cannot be told from a
  request over a transport that treats every incomplete message in some other way.
\<close>

definition checked ::
  "(mac_msg \<Rightarrow> mac_msg option \<Rightarrow> ('cb, 'e) ca821x_dev \<Rightarrow> ca_error \<times> mac_msg \<times> ('cb, 'e) ca821x_dev) \<Rightarrow>
     ('cb, 'e) target \<Rightarrow> ('cb, 'e) target" where
  "checked F T = T\<lparr>downstream := (\<lambda>c r d. if complete c then downstream T c r d else F c r d)\<rparr>"

lemma checked_send:
  "complete c \<Longrightarrow> send_sync (checked F T) c buf cnf d = send_sync T c buf cnf d" "stack (checked F T) = stack T"
  by (simp_all add: send_sync_def checked_def)

lemma inline_requests_complete:
  "MCPS_PURGE_request_sync (checked F T) h d = MCPS_PURGE_request_sync T h d"
  "MLME_GET_request_sync (checked F T) at ix d = MLME_GET_request_sync T at ix d"
  "MLME_RESET_request_sync v (checked F T) pib d = MLME_RESET_request_sync v T pib d"
  "HWME_GET_request_sync (checked F T) at d = HWME_GET_request_sync T at d"
  "HWME_HAES_request_sync (checked F T) mode blk d = HWME_HAES_request_sync T mode blk d"
  "TDME_SETSFR_request_sync (checked F T) pg ad b d = TDME_SETSFR_request_sync T pg ad b d"
  "TDME_GETSFR_request_sync (checked F T) pg ad b d = TDME_GETSFR_request_sync T pg ad b d"
  "TDME_TESTMODE_request_sync (checked F T) b d = TDME_TESTMODE_request_sync T b d"
  "TDME_LOTLK_request_sync (checked F T) ch rx d = TDME_LOTLK_request_sync T ch rx d"
  by (simp_all add: MCPS_PURGE_request_sync_def MLME_GET_request_sync_def MLME_RESET_request_sync_def
      HWME_GET_request_sync_def HWME_HAES_request_sync_def TDME_SETSFR_request_sync_def TDME_GETSFR_request_sync_def
      TDME_TESTMODE_request_sync_def TDME_LOTLK_request_sync_def checked_send completeI copy_bind)

text \<open>
  C21: Every request is complete: its length octet counts exactly the octets written
  to its payload, so nothing uninitialised is sent and nothing is cut off. The requests with data
  of the caller's length are built exactly when the data fit their buffer and their source, and
  otherwise the C code accesses memory outside a buffer: it checks the length only for the
  physical-layer requests. For a data request the bound is 15 octets, and on the CA-8212 18 octets and
  those of the scheduling parameters, the channel and the information elements that the options ask for,
  plus data and security, within the 254 octets of a payload.
\<close>

theorem requests_complete:
  assumes "wf_FullAddr a" "wf_sec p" "wf_sec q"
  shows "complete (MLME_ASSOCIATE_request_cmd ch a cap p) \<and> complete (MLME_DISASSOCIATE_request_cmd a r ti p) \<and>
     complete (MLME_SCAN_request_cmd ty chs dur p) \<and> complete (MLME_START_request_cmd pan ch bo so pc ble cr p q) \<and>
     complete (MLME_POLL_request_8212_cmd a fv p) \<and> complete (MLME_POLL_request_sync_cmd v a iv p) \<and>
     complete (MLME_RX_ENABLE_request_cmd dp t0 t1) \<and>
     built_when (8 \<le> length dev) (MLME_ASSOCIATE_response_cmd dev sa st p) \<and>
     built_when (8 \<le> length dev) (MLME_ORPHAN_response_cmd dev sa am p) \<and>
     built_when (unat len \<le> MAX_ATTRIBUTE_SIZE \<and> unat len \<le> length val) (MLME_SET_request_cmd at ix len val) \<and>
     built_when (unat len \<le> MAX_HWME_ATTRIBUTE_SIZE \<and> unat len \<le> length val) (HWME_SET_request_cmd at len val) \<and>
     built_when (unat len \<le> MAX_TDME_ATTRIBUTE_SIZE \<and> unat len \<le> length val) (TDME_SET_request_cmd at len val) \<and>
     built_when (at = TDME_TXD_APPENDED \<longrightarrow> unat len \<le> 128 \<and> unat len \<le> length val)
       (TDME_TXPKT_request_cmd at sn len val) \<and>
     built_when (unat len \<le> length val \<and> 15 + unat len + length (sec_bytes p) \<le> payload_size)
       (MCPS_DATA_request_cmd sam a len val h opt p) \<and>
     built_when (unat len \<le> length val \<and>
         (o1 AND TXOPT1_2015_FRAME \<noteq> 0 \<longrightarrow> unat hl \<le> length hie \<and> unat pl \<le> length pie) \<and>
         18 + params_size o0 + ies_size o1 hl pl + unat len + length (sec_bytes p) \<le> payload_size)
       (MCPS_DATA_request_8212_cmd sam a hl pl len val h (o0, o1) ts per ch hie pie p) \<and>
     (unat len \<le> aMaxPHYPacketSize \<longrightarrow>
       built_when (unat len \<le> length val) (PCPS_DATA_request_8211_cmd h opt len val) \<and>
       built_when (unat len \<le> length val) (PCPS_DATA_request_8212_cmd h opt len val ts per)) \<and>
     MCPS_PURGE_request_sync (checked F T) h d = MCPS_PURGE_request_sync T h d \<and>
     MLME_GET_request_sync (checked F T) at ix d = MLME_GET_request_sync T at ix d \<and>
     MLME_RESET_request_sync v (checked F T) pib d = MLME_RESET_request_sync v T pib d \<and>
     HWME_GET_request_sync (checked F T) at d = HWME_GET_request_sync T at d \<and>
     HWME_HAES_request_sync (checked F T) mode blk d = HWME_HAES_request_sync T mode blk d \<and>
     TDME_SETSFR_request_sync (checked F T) pg ad b d = TDME_SETSFR_request_sync T pg ad b d \<and>
     TDME_GETSFR_request_sync (checked F T) pg ad b d = TDME_GETSFR_request_sync T pg ad b d \<and>
     TDME_TESTMODE_request_sync (checked F T) b d = TDME_TESTMODE_request_sync T b d \<and>
     TDME_LOTLK_request_sync (checked F T) ch rx d = TDME_LOTLK_request_sync T ch rx d"
  by (intro conjI impI fixed_requests_complete [OF assms] response_cmds_complete [OF assms(2)]
      attribute_cmds_complete data_cmd_complete [OF assms(1,2)] data_8212_cmd_complete [OF assms(1,2)]
      pcps_cmds_complete inline_requests_complete)

definition addr7 :: FullAddr where
  "addr7 = \<lparr>AddressMode = 2, PANId = [1, 2], Address = replicate 8 7\<rparr>"

definition sec5 :: SecSpec where
  "sec5 = \<lparr>SecurityLevel = 5, KeyIdMode = 1, KeySource = replicate 8 0, KeyIndex = 0\<rparr>"

theorem requests_complete_witness:
  "complete (MLME_POLL_request_sync_cmd CA8210 addr7 (0, 1) (Some sec5)) \<and>
   MCPS_DATA_request_cmd 2 addr7 229 (replicate 229 0) 1 0 (Some sec5) = None \<and>
   (\<exists>c. MCPS_DATA_request_cmd 2 addr7 228 (replicate 229 0) 1 0 (Some sec5) = Some c \<and> complete c)"
proof -
  have wf: "wf_FullAddr addr7" "wf_sec (Some sec5)" "wf_sec None"
    by (simp_all add: addr7_def sec5_def wf_FullAddr_def wf_sec_def wf_SecSpec_def)
  have sec: "length (sec_bytes (Some sec5)) = 11"
    by (simp add: sec_bytes_def sec5_def SecSpec_bytes_def)
  note r = requests_complete [OF wf]
  have "complete (MLME_POLL_request_sync_cmd CA8210 addr7 (0, 1) (Some sec5))"
    by (rule r [where v = CA8210 and iv = "(0, 1)", THEN conjunct2, THEN conjunct2, THEN conjunct2, THEN conjunct2, THEN conjunct2, THEN conjunct1])
  moreover have "built_when (unat (229 :: u8) \<le> length (replicate 229 (0 :: u8)) \<and> 15 + unat (229 :: u8) + 11 \<le> payload_size)
      (MCPS_DATA_request_cmd 2 addr7 229 (replicate 229 0) 1 0 (Some sec5))"
    by (rule r [where sam = 2 and len = 229 and val = "replicate 229 0" and h = 1 and opt = 0,
          THEN conjunct2, THEN conjunct2, THEN conjunct2, THEN conjunct2, THEN conjunct2, THEN conjunct2, THEN conjunct2, THEN conjunct2, THEN conjunct2, THEN conjunct2, THEN conjunct2, THEN conjunct2, THEN conjunct2, THEN conjunct1, unfolded sec])
  moreover have "built_when (unat (228 :: u8) \<le> length (replicate 229 (0 :: u8)) \<and> 15 + unat (228 :: u8) + 11 \<le> payload_size)
      (MCPS_DATA_request_cmd 2 addr7 228 (replicate 229 0) 1 0 (Some sec5))"
    by (rule r [where sam = 2 and len = 228 and val = "replicate 229 0" and h = 1 and opt = 0,
          THEN conjunct2, THEN conjunct2, THEN conjunct2, THEN conjunct2, THEN conjunct2, THEN conjunct2, THEN conjunct2, THEN conjunct2, THEN conjunct2, THEN conjunct2, THEN conjunct2, THEN conjunct2, THEN conjunct2, THEN conjunct1, unfolded sec])
  ultimately show ?thesis
    by (auto simp: built_when_def split: option.splits)
qed

subsection \<open>Command ids and the status of synchronous requests\<close>

definition sync_pairs :: "ca_ver \<Rightarrow> (u8 \<times> u8) list" where
  "sync_pairs v =
     [(0x41, 0x62), (0x45, 0x68), (0x47, 0x6A), (0x48, 0x6B), (0x4A, 0x6E), (0x4B, 0x6F), (0x4E, 0x72),
      (0x4F, 0x73), (0x50, 0x74), (0x51, 0x77), (0x52, 0x78), (0x53, 0x79), (0x54, 0x7A), (0x55, 0x7B),
      (0x56, 0x7F)] @ (if v = CA8212 then [] else [(0x4D, 0x71)])"

definition callback_ids :: "u8 list" where
  "callback_ids = [0x20, 0x21, 0x28, 0x38, 0x23, 0x24, 0x25, 0x26, 0x27, 0x29, 0x2C, 0x2D, 0x30, 0x31,
     0x33, 0x22, 0x35, 0x3C, 0x3D, 0x3E]"

lemma sync_response_id_pair:
  "ca821x_get_sync_response_id v i \<noteq> 0 \<Longrightarrow> (i, ca821x_get_sync_response_id v i) \<in> set (sync_pairs v)"
  unfolding ca821x_get_sync_response_id_def sync_pairs_def
  by (cases v) (simp_all split: if_split_asm)

lemma callback_id_member: "ca821x_get_callback v k \<noteq> None \<Longrightarrow> k \<in> set callback_ids"
  unfolding ca821x_get_callback_def callback_ids_def
  by (cases v) (simp_all split: if_split_asm)

lemma sync_pairs_bits:
  "\<forall>(i, r) \<in> set (sync_pairs v). i AND SPI_SYN \<noteq> 0 \<and> i AND SPI_S2M = 0 \<and> r AND SPI_SYN \<noteq> 0 \<and> r AND SPI_S2M \<noteq> 0"
  by (cases v) (simp_all add: sync_pairs_def)

lemma sync_pairs_distinct: "distinct (map snd (sync_pairs v))"
  by (cases v) (simp_all add: sync_pairs_def)

lemma callback_ids_bits:
  "\<forall>k \<in> set callback_ids. k AND SPI_SYN = 0 \<and> k AND SPI_S2M \<noteq> 0"
  by (simp add: callback_ids_def)

text \<open>
  The command ids are consistent with the bits the transports route by: the synchronous requests
  have the synchronous bit and not the slave-to-master bit, their responses have both and are
  different for different requests; a message that has a callback is a slave-to-master message
  without the synchronous bit, so it is never taken for a response.
\<close>

theorem command_id_bits:
  "(ca821x_get_sync_response_id v i \<noteq> 0 \<longrightarrow>
      i AND SPI_SYN \<noteq> 0 \<and> i AND SPI_S2M = 0 \<and>
      ca821x_get_sync_response_id v i AND SPI_SYN \<noteq> 0 \<and> ca821x_get_sync_response_id v i AND SPI_S2M \<noteq> 0 \<and>
      (ca821x_get_sync_response_id v j = ca821x_get_sync_response_id v i \<longrightarrow> j = i) \<and>
      ca821x_get_callback v (ca821x_get_sync_response_id v i) = None) \<and>
   (ca821x_get_callback v k \<noteq> None \<longrightarrow>
      k AND SPI_SYN = 0 \<and> k AND SPI_S2M \<noteq> 0 \<and> ca821x_get_sync_response_id v k = 0)"
proof (intro conjI impI)
  assume nz: "ca821x_get_sync_response_id v i \<noteq> 0"
  note pair = sync_response_id_pair [OF nz]
  from bspec [OF sync_pairs_bits pair]
  show "i AND SPI_SYN \<noteq> 0" "i AND SPI_S2M = 0" "ca821x_get_sync_response_id v i AND SPI_SYN \<noteq> 0"
    "ca821x_get_sync_response_id v i AND SPI_S2M \<noteq> 0" by simp_all
  then show "ca821x_get_callback v (ca821x_get_sync_response_id v i) = None"
    using callback_id_member [of v "ca821x_get_sync_response_id v i"] callback_ids_bits by blast
  show "j = i" if eq: "ca821x_get_sync_response_id v j = ca821x_get_sync_response_id v i"
  proof -
    have "ca821x_get_sync_response_id v j \<noteq> 0" using nz eq by (simp only: not_False_eq_True)
    from sync_response_id_pair [OF this] pair
    have "(j, ca821x_get_sync_response_id v i) \<in> set (sync_pairs v)" "(i, ca821x_get_sync_response_id v i) \<in> set (sync_pairs v)"
      by (simp_all only: eq)
    with sync_pairs_distinct [of v] show "j = i"
      by (metis (no_types, lifting) distinct_map inj_onD prod.inject snd_conv)
  qed
next
  assume "ca821x_get_callback v k \<noteq> None"
  from callback_id_member [OF this] callback_ids_bits
  show "k AND SPI_SYN = 0" "k AND SPI_S2M \<noteq> 0" by blast+
  with sync_response_id_pair [of v k] sync_pairs_bits [of v]
  show "ca821x_get_sync_response_id v k = 0" by blast
qed

theorem command_id_bits_witness:
  "ca821x_get_sync_response_id CA8211 0x45 AND SPI_SYN \<noteq> 0 \<and> 0x20 AND SPI_S2M \<noteq> (0 :: u8)"
proof -
  have "ca821x_get_sync_response_id CA8211 0x45 \<noteq> 0" "ca821x_get_callback CA8211 0x20 \<noteq> None"
    by (simp_all add: ca821x_get_sync_response_id_def ca821x_get_callback_def)
  with command_id_bits [where v = CA8211 and i = "0x45" and k = "0x20"] show ?thesis by blast
qed

text \<open>What a synchronous request is to report.\<close>

definition sync_status ::
  "ca_ver \<Rightarrow> ('cb, 'e) target \<Rightarrow> mac_msg \<Rightarrow> mac_msg \<Rightarrow> nat \<Rightarrow> ('cb, 'e) ca821x_dev \<Rightarrow> ca_mac_status" where
  "sync_status v T c buf k d =
     (case downstream T c (Some buf) d of (err, r, _) \<Rightarrow>
        if err = CA_ERROR_SUCCESS \<and> CommandId r = ca821x_get_sync_response_id v (CommandId c)
        then PData r ! k else MAC_SYSTEM_ERROR)"

lemma sync_status_send:
  "sync_status v T c buf k d =
     (case send_sync T c buf (ca821x_get_sync_response_id v (CommandId c)) d of
        (None, _) \<Rightarrow> MAC_SYSTEM_ERROR | (Some r, _) \<Rightarrow> PData r ! k)"
  by (simp add: sync_status_def send_sync_def split: prod.split)

lemma response_ids [simp]:
  "ca821x_get_sync_response_id v 0x41 = 0x62" "ca821x_get_sync_response_id v 0x45 = 0x68"
  "ca821x_get_sync_response_id v 0x47 = 0x6A" "ca821x_get_sync_response_id v 0x48 = 0x6B"
  "ca821x_get_sync_response_id v 0x4A = 0x6E" "ca821x_get_sync_response_id v 0x4B = 0x6F"
  "ca821x_get_sync_response_id v 0x4E = 0x72" "ca821x_get_sync_response_id v 0x4F = 0x73"
  "ca821x_get_sync_response_id v 0x50 = 0x74" "ca821x_get_sync_response_id v 0x51 = 0x77"
  "ca821x_get_sync_response_id v 0x52 = 0x78" "ca821x_get_sync_response_id v 0x53 = 0x79"
  "ca821x_get_sync_response_id v 0x54 = 0x7A" "ca821x_get_sync_response_id v 0x55 = 0x7B"
  "ca821x_get_sync_response_id v 0x56 = 0x7F"
  "v \<noteq> CA8212 \<Longrightarrow> ca821x_get_sync_response_id v (SPI_MLME_POLL_REQUEST v) = SPI_MLME_POLL_CONFIRM v"
  by (cases v; simp add: ca821x_get_sync_response_id_def)+

lemma simple_requests_status:
  "fst (MCPS_PURGE_request_sync T h d) =
     sync_status v T \<lparr>CommandId = SPI_MCPS_PURGE_REQUEST, Length = 1, PData = [h]\<rparr> (stack T) 1 d"
  "fst (MLME_RESET_request_sync v T pib d) =
     sync_status v T \<lparr>CommandId = SPI_MLME_RESET_REQUEST, Length = 1, PData = [pib]\<rparr> (stack T) 0 d"
  "fst (TDME_SETSFR_request_sync T pg ad val d) =
     sync_status v T \<lparr>CommandId = SPI_TDME_SETSFR_REQUEST, Length = 3, PData = [pg, ad, val]\<rparr>
       ((stack T)\<lparr>CommandId := 0xFF\<rparr>) 0 d"
  "fst (TDME_GETSFR_request_sync T pg ad val d) =
     sync_status v T \<lparr>CommandId = SPI_TDME_GETSFR_REQUEST, Length = 2, PData = [pg, ad]\<rparr> (stack T) 0 d"
  "fst (TDME_TESTMODE_request_sync T tm d) =
     sync_status v T \<lparr>CommandId = SPI_TDME_TESTMODE_REQUEST, Length = 1, PData = [tm]\<rparr> (stack T) 0 d"
  "fst (TDME_LOTLK_request_sync T ch rx d) =
     sync_status v T \<lparr>CommandId = SPI_TDME_LOTLK_REQUEST, Length = 2, PData = [ch, rx]\<rparr> (stack T) 0 d"
  by (simp_all add: sync_status_send MCPS_PURGE_request_sync_def MLME_RESET_request_sync_def
      TDME_SETSFR_request_sync_def TDME_GETSFR_request_sync_def TDME_TESTMODE_request_sync_def
      TDME_LOTLK_request_sync_def Let_def split: prod.split option.split)

lemma built_requests_status:
  "fst (MLME_RX_ENABLE_request_sync T dp t0 t1 d) =
     sync_status v T (MLME_RX_ENABLE_request_cmd dp t0 t1) (stack T) 0 d"
  "fst (MLME_START_request_sync T pan ch bo so pc ble cr p q d) =
     sync_status v T (MLME_START_request_cmd pan ch bo so pc ble cr p q) (stack T) 0 d"
  "v \<noteq> CA8212 \<Longrightarrow> fst (MLME_POLL_request_sync v T a iv p d) =
     sync_status v T (MLME_POLL_request_sync_cmd v a iv p) (stack T) 0 d"
  by (simp_all add: sync_status_send MLME_RX_ENABLE_request_sync_def MLME_START_request_sync_def
      MLME_POLL_request_sync_def request_cmd_defs Let_def case_prod_beta split: prod.split option.split)

lemma built_command_ids:
  "MLME_SET_request_cmd at ix len val = Some c \<Longrightarrow> CommandId c = SPI_MLME_SET_REQUEST"
  "HWME_SET_request_cmd at len val = Some c \<Longrightarrow> CommandId c = SPI_HWME_SET_REQUEST"
  "TDME_SET_request_cmd at len val = Some c \<Longrightarrow> CommandId c = SPI_TDME_SET_REQUEST"
  "TDME_TXPKT_request_cmd at sn len val = Some c \<Longrightarrow> CommandId c = SPI_TDME_TXPKT_REQUEST"
  by (auto simp: TDME_TXPKT_request_cmd_def MLME_SET_request_cmd_def HWME_SET_request_cmd_def TDME_SET_request_cmd_def bind_eq_Some_conv split: if_splits)

lemma value_requests_status:
  "MLME_GET_request_sync T at ix d = Some (st, out, d') \<Longrightarrow>
     st = sync_status v T \<lparr>CommandId = SPI_MLME_GET_REQUEST, Length = 2, PData = [at, ix]\<rparr> (stack T) 0 d"
  "HWME_GET_request_sync T at d = Some (st, out, d') \<Longrightarrow>
     st = sync_status v T \<lparr>CommandId = SPI_HWME_GET_REQUEST, Length = 1, PData = [at]\<rparr> (stack T) 0 d"
  by (auto simp: sync_status_send MLME_GET_request_sync_def HWME_GET_request_sync_def Let_def bind_eq_Some_conv
      split: prod.splits option.splits if_splits)

lemma set_requests_status:
  "MLME_SET_request_cmd at ix len val = Some c \<Longrightarrow> MLME_SET_request_sync v T at ix len val d = Some (st, d') \<Longrightarrow>
     st = sync_status v T c (stack T) 0 d"
  "HWME_SET_request_cmd at len val = Some c \<Longrightarrow> HWME_SET_request_sync v T at len val d = Some (st, d') \<Longrightarrow>
     st = sync_status v T c (stack T) 0 d"
  "TDME_SET_request_cmd at len val = Some c \<Longrightarrow> TDME_SET_request_sync T at len val d = Some (st, d') \<Longrightarrow>
     st = sync_status v T c (stack T) 0 d"
  "TDME_TXPKT_request_cmd at sn len val = Some c \<Longrightarrow> TDME_TXPKT_request_sync T at sn len val d = Some (st, rest) \<Longrightarrow>
     st = sync_status v T c (stack T) 0 d"
  by (auto simp: sync_status_send built_command_ids MLME_SET_request_sync_def HWME_SET_request_sync_def
      TDME_SET_request_sync_def TDME_TXPKT_request_sync_def Let_def bind_eq_Some_conv
      split: prod.splits option.splits if_splits)

lemma haes_request_status:
  "HWME_HAES_request_sync T mode blk d = Some (st, aes, d') \<Longrightarrow>
     st = sync_status v T \<lparr>CommandId = SPI_HWME_HAES_REQUEST, Length = 17, PData = mode # take 16 blk\<rparr> (stack T) 0 d"
  by (auto simp: sync_status_send HWME_HAES_request_sync_def copy_bind Let_def split: prod.splits option.splits if_splits)

text \<open>
  C25: A synchronous request returns \<^verbatim>\<open>MAC_SYSTEM_ERROR\<close> when the transport fails or the
  response is not the one that \<open>ca821x_get_sync_response_id\<close> assigns to the request, and the
  status octet of the response otherwise. This holds of all sixteen synchronous requests, so the table of
  the transports and the checks of the requests agree.
\<close>

theorem sync_requests_report_status:
  "fst (MCPS_PURGE_request_sync T h d) =
     sync_status v T \<lparr>CommandId = SPI_MCPS_PURGE_REQUEST, Length = 1, PData = [h]\<rparr> (stack T) 1 d \<and>
   fst (MLME_RESET_request_sync v T pib d) =
     sync_status v T \<lparr>CommandId = SPI_MLME_RESET_REQUEST, Length = 1, PData = [pib]\<rparr> (stack T) 0 d \<and>
   fst (MLME_RX_ENABLE_request_sync T dp t0 t1 d) =
     sync_status v T (MLME_RX_ENABLE_request_cmd dp t0 t1) (stack T) 0 d \<and>
   fst (MLME_START_request_sync T pan ch bo so pc ble cr p q d) =
     sync_status v T (MLME_START_request_cmd pan ch bo so pc ble cr p q) (stack T) 0 d \<and>
   (v \<noteq> CA8212 \<longrightarrow> fst (MLME_POLL_request_sync v T a iv p d) =
     sync_status v T (MLME_POLL_request_sync_cmd v a iv p) (stack T) 0 d) \<and>
   fst (TDME_SETSFR_request_sync T pg ad val d) =
     sync_status v T \<lparr>CommandId = SPI_TDME_SETSFR_REQUEST, Length = 3, PData = [pg, ad, val]\<rparr>
       ((stack T)\<lparr>CommandId := 0xFF\<rparr>) 0 d \<and>
   fst (TDME_GETSFR_request_sync T pg ad val d) =
     sync_status v T \<lparr>CommandId = SPI_TDME_GETSFR_REQUEST, Length = 2, PData = [pg, ad]\<rparr> (stack T) 0 d \<and>
   fst (TDME_TESTMODE_request_sync T tm d) =
     sync_status v T \<lparr>CommandId = SPI_TDME_TESTMODE_REQUEST, Length = 1, PData = [tm]\<rparr> (stack T) 0 d \<and>
   fst (TDME_LOTLK_request_sync T ch rx d) =
     sync_status v T \<lparr>CommandId = SPI_TDME_LOTLK_REQUEST, Length = 2, PData = [ch, rx]\<rparr> (stack T) 0 d \<and>
   (MLME_GET_request_sync T at ix d = Some (st, out, d') \<longrightarrow>
     st = sync_status v T \<lparr>CommandId = SPI_MLME_GET_REQUEST, Length = 2, PData = [at, ix]\<rparr> (stack T) 0 d) \<and>
   (MLME_SET_request_cmd at ix len vals = Some c \<longrightarrow> MLME_SET_request_sync v T at ix len vals d = Some (st, d') \<longrightarrow>
     st = sync_status v T c (stack T) 0 d) \<and>
   (HWME_SET_request_cmd at len vals = Some c \<longrightarrow> HWME_SET_request_sync v T at len vals d = Some (st, d') \<longrightarrow>
     st = sync_status v T c (stack T) 0 d) \<and>
   (HWME_GET_request_sync T at d = Some (st, out, d') \<longrightarrow>
     st = sync_status v T \<lparr>CommandId = SPI_HWME_GET_REQUEST, Length = 1, PData = [at]\<rparr> (stack T) 0 d) \<and>
   (HWME_HAES_request_sync T mode blk d = Some (st, aes, d') \<longrightarrow>
     st = sync_status v T \<lparr>CommandId = SPI_HWME_HAES_REQUEST, Length = 17, PData = mode # take 16 blk\<rparr> (stack T) 0 d) \<and>
   (TDME_SET_request_cmd at len vals = Some c \<longrightarrow> TDME_SET_request_sync T at len vals d = Some (st, d') \<longrightarrow>
     st = sync_status v T c (stack T) 0 d) \<and>
   (TDME_TXPKT_request_cmd at sn len vals = Some c \<longrightarrow> TDME_TXPKT_request_sync T at sn len vals d = Some (st, rest) \<longrightarrow>
     st = sync_status v T c (stack T) 0 d)"
  by (intro conjI impI;
      (rule simple_requests_status built_requests_status(1,2) | erule built_requests_status(3) |
       erule value_requests_status haes_request_status | erule (1) set_requests_status))

text \<open>A radio that answers every synchronous request with its response and status 0.\<close>

definition fresh_dev :: "nat \<Rightarrow> ('cb, 'e) ca821x_dev" where
  "fresh_dev n =
     \<lparr>app_context = None, exchange_context = None, callbacks = (\<lambda>_. None), generic_dispatch = None,
      extaddr = replicate 8 0, shortaddr = 0xFFFF, lqi_mode = 0, MAC_MPW = 0,
      blacklist = replicate n \<lparr>ma_AddressMode = 0, ma_Address = replicate 8 0\<rparr>\<rparr>"

definition ok_radio :: "(nat, unit) target" where
  "ok_radio =
     \<lparr>downstream = (\<lambda>c r d. (CA_ERROR_SUCCESS,
        \<lparr>CommandId = ca821x_get_sync_response_id CA8210 (CommandId c), Length = 1,
         PData = replicate 254 0\<rparr>, d)),
      stack = \<lparr>CommandId = 0, Length = 0, PData = replicate 254 0\<rparr>\<rparr>"

theorem sync_requests_report_status_witness:
  "fst (MLME_POLL_request_sync CA8210 ok_radio addr7 (0, 0) None (fresh_dev 0)) = MAC_SUCCESS \<and>
   map_option fst (MLME_SET_request_sync CA8210 ok_radio macShortAddress 0 2 [1, 2] (fresh_dev 0)) = Some MAC_SUCCESS"
proof -
  have cmd: "MLME_SET_request_cmd macShortAddress 0 2 [1, 2] = Some
      \<lparr>CommandId = SPI_MLME_SET_REQUEST, Length = 5, PData = [macShortAddress, 0, 2, 1, 2]\<rparr>"
    by (simp add: MLME_SET_request_cmd_def)
  have set: "MLME_SET_request_sync CA8210 ok_radio macShortAddress 0 2 [1, 2] (fresh_dev 0) =
      Some (MAC_SUCCESS, (fresh_dev 0)\<lparr>shortaddr := GETLE16 [1, 2]\<rparr>)"
    by (simp add: MLME_SET_request_sync_def cmd send_sync_def ok_radio_def mirror_address_def fresh_dev_def)
  have poll: "sync_status CA8210 ok_radio c (stack ok_radio) 0 d = MAC_SUCCESS" for c d
    by (simp add: sync_status_def ok_radio_def)
  note r = sync_requests_report_status [where v = CA8210 and T = ok_radio and d = "fresh_dev 0" and
      at = macShortAddress and ix = 0 and len = 2 and vals = "[1, 2]" and a = addr7 and iv = "(0, 0)" and p = None]
  have "fst (MLME_POLL_request_sync CA8210 ok_radio addr7 (0, 0) None (fresh_dev 0)) =
      sync_status CA8210 ok_radio (MLME_POLL_request_sync_cmd CA8210 addr7 (0, 0) None) (stack ok_radio) 0 (fresh_dev 0)"
    by (rule r [THEN conjunct2, THEN conjunct2, THEN conjunct2, THEN conjunct2, THEN conjunct1, THEN mp]) simp
  then show ?thesis
    by (simp only: set poll) simp
qed

subsection \<open>Transmit power\<close>

text \<open>All 256 octets are tried.\<close>

lemma extend6_octets:
  "list_all (\<lambda>n. sint (extend6 (word_of_nat n)) = signed_take_bit 5 (uint (word_of_nat n :: u8))) [0..<256]"
  by code_simp

lemma extend6_sint: "sint (extend6 x) = signed_take_bit 5 (uint x)"
proof -
  have "unat x \<in> set [0..<256]" by simp
  with extend6_octets have "sint (extend6 (word_of_nat (unat x))) = signed_take_bit 5 (uint (word_of_nat (unat x) :: u8))"
    unfolding list_all_iff by blast
  then show ?thesis by simp
qed

lemma paib_table:
  "TDME_tx_paib_to_dbm (TDME_tx_dbm_to_paib x) = word_of_int (max (- 1) (min 9 (sint x)))"
proof -
  consider "sint x > 8" | "sint x < 0" | "sint x \<in> {0, 1, 2, 3, 4, 5, 6, 7, 8}" by fastforce
  then show ?thesis
  proof cases
    case 2
    then have "max (- 1) (min 9 (sint x)) = -1" by simp
    with 2 show ?thesis by (simp add: TDME_tx_paib_to_dbm_def TDME_tx_dbm_to_paib_def)
  qed (auto simp: TDME_tx_paib_to_dbm_def TDME_tx_dbm_to_paib_def word_le_nat_alt word_less_nat_alt)
qed

text \<open>
  On a radio whose registers keep what is written, the transmit power that is read after a
  power was set is that power, a six-bit signed number of dBm, brought into the range from -1 to 9;
  on the prototype silicon it is +4 dBm after a positive power and -6 dBm otherwise, marked as
  approximate.
\<close>

theorem tx_power_reads_back:
  assumes set: "\<And>page addr val d. TDME_SETSFR_request_sync T page addr val d = (MAC_SUCCESS, store page addr val d)"
    and get: "\<And>page addr old d. TDME_GETSFR_request_sync T page addr old d = (MAC_SUCCESS, load page addr d, d)"
    and keeps: "\<And>page addr val d. load page addr (store page addr val d) = val"
    and mpw: "\<And>page addr val d. MAC_MPW (store page addr val d) = MAC_MPW d"
  defines "dbm \<equiv> \<lambda>txp. signed_take_bit 5 (uint txp)"
  shows "case TDME_SetTxPower T txp d of (st, d') \<Rightarrow> st = MAC_SUCCESS \<and>
           TDME_GetTxPower T d' =
             (MAC_SUCCESS,
              if MAC_MPW d = 0 then word_of_int (max (- 1) (min 9 (dbm txp))) AND 0x3F
              else if dbm txp > 0 then (4 AND 0x3F) + 0x40 else (- 6 AND 0x3F) + 0x40, d')"
  by (auto simp: TDME_SetTxPower_def TDME_GetTxPower_def set get keeps mpw Let_def paib_table
      extend6_sint dbm_def)

definition sfr_store :: "u8 \<Rightarrow> u8 \<Rightarrow> u8 \<Rightarrow> (nat, u8 \<Rightarrow> u8 \<Rightarrow> u8) ca821x_dev \<Rightarrow> (nat, u8 \<Rightarrow> u8 \<Rightarrow> u8) ca821x_dev" where
  "sfr_store page addr val d =
     (let m = (case exchange_context d of None \<Rightarrow> (\<lambda>_ _. 0) | Some m \<Rightarrow> m)
      in d\<lparr>exchange_context := Some (m(page := (m page)(addr := val)))\<rparr>)"

definition sfr_radio :: "(nat, u8 \<Rightarrow> u8 \<Rightarrow> u8) target" where
  "sfr_radio =
     \<lparr>downstream = (\<lambda>c r d. case PData c of
        [page, addr, val] \<Rightarrow>
          (CA_ERROR_SUCCESS, \<lparr>CommandId = SPI_TDME_SETSFR_CONFIRM, Length = 3, PData = [0, page, addr]\<rparr>,
           sfr_store page addr val d)
      | [page, addr] \<Rightarrow>
          (CA_ERROR_SUCCESS, \<lparr>CommandId = SPI_TDME_GETSFR_CONFIRM, Length = 4,
             PData = [0, page, addr, the (exchange_context d) page addr]\<rparr>, d)
      | _ \<Rightarrow> (CA_ERROR_FAIL, c, d)),
      stack = \<lparr>CommandId = 0, Length = 0, PData = []\<rparr>\<rparr>"

text \<open>12 dBm is set and 9 dBm is read.\<close>

theorem tx_power_reads_back_witness:
  "case TDME_SetTxPower sfr_radio 12 (fresh_dev 0) of (st, d') \<Rightarrow>
     TDME_GetTxPower sfr_radio d' = (MAC_SUCCESS, 9, d')"
proof -
  have "TDME_SETSFR_request_sync sfr_radio page addr val d = (MAC_SUCCESS, sfr_store page addr val d)"
    for page addr val d
    by (simp add: TDME_SETSFR_request_sync_def send_sync_def sfr_radio_def)
  moreover have "TDME_GETSFR_request_sync sfr_radio page addr old d =
      (MAC_SUCCESS, the (exchange_context d) page addr, d)" for page addr old d
    by (simp add: TDME_GETSFR_request_sync_def send_sync_def sfr_radio_def)
  ultimately show ?thesis
    using tx_power_reads_back [of sfr_radio sfr_store "\<lambda>page addr d. the (exchange_context d) page addr",
        where txp = 12 and d = "fresh_dev 0"]
    by (simp add: sfr_store_def Let_def fresh_dev_def signed_take_bit_eq_if_positive take_bit_eq_mod split: prod.splits)
qed

subsection \<open>Blacklist\<close>

definition same_device :: "MacAddr \<Rightarrow> FullAddr \<Rightarrow> bool" where
  "same_device e src \<longleftrightarrow>
     ma_AddressMode e = AddressMode src \<and>
     (AddressMode src = MAC_MODE_SHORT_ADDR \<and> take 2 (Address src) = take 2 (ma_Address e) \<or>
      AddressMode src = MAC_MODE_LONG_ADDR \<and> take 8 (Address src) = take 8 (ma_Address e))"

definition free_entries :: "('cb, 'e) ca821x_dev \<Rightarrow> nat" where
  "free_entries d = length (filter (\<lambda>e. ma_AddressMode e = MAC_MODE_NO_ADDR) (blacklist d))"

lemma must_filter_iff:
  "blacklist_must_filter v msg d \<longleftrightarrow> (\<exists>e \<in> set (blacklist d). same_device e (msg_src v msg))"
  by (auto simp: blacklist_must_filter_def same_device_def list_ex_iff Let_def)

lemma same_device_stored [simp]:
  "same_device \<lparr>ma_AddressMode = ma_AddressMode a, ma_Address = take 8 (ma_Address a)\<rparr> src \<longleftrightarrow>
     same_device a src"
  by (simp add: same_device_def)

lemma same_device_free: "ma_AddressMode e = MAC_MODE_NO_ADDR \<Longrightarrow> \<not> same_device e src"
  by (auto simp: same_device_def)

lemma add_entry_Some:
  assumes "add_entry a es = Some es'"
  shows "(\<exists>e \<in> set es'. same_device e src) \<longleftrightarrow> same_device a src \<or> (\<exists>e \<in> set es. same_device e src)"
    "length (filter (\<lambda>e. ma_AddressMode e = MAC_MODE_NO_ADDR) es) =
       Suc (length (filter (\<lambda>e. ma_AddressMode e = MAC_MODE_NO_ADDR) es'))
     \<or> ma_AddressMode a = MAC_MODE_NO_ADDR"
    "length es' = length es"
  using assms
  by (induction es arbitrary: es') (auto simp: same_device_free split: if_splits)

lemma add_entry_None:
  "add_entry a es = None \<longleftrightarrow> filter (\<lambda>e. ma_AddressMode e = MAC_MODE_NO_ADDR) es = []"
  by (induction es) auto

text \<open>
  C24: Adding a device to the blacklist succeeds exactly when the feature is built in, the address is
  a short or an extended one and an entry is free; it then takes one entry, and from now on the
  messages that are filtered are those that were and those sent by the device. In every other case
  nothing changes. Clearing makes every entry free and lets every message through.
\<close>

theorem blacklist_add_blocks:
  "case BLACKLIST_Add a d of (e, d') \<Rightarrow>
     (e = CA_ERROR_SUCCESS \<longleftrightarrow>
        blacklist d \<noteq> [] \<and> ma_AddressMode a \<in> {MAC_MODE_SHORT_ADDR, MAC_MODE_LONG_ADDR} \<and> free_entries d > 0) \<and>
     (if e = CA_ERROR_SUCCESS
      then free_entries d = Suc (free_entries d') \<and> length (blacklist d') = length (blacklist d) \<and>
           (\<forall>msg. blacklist_must_filter v msg d' \<longleftrightarrow>
                   blacklist_must_filter v msg d \<or> same_device a (msg_src v msg))
      else d' = d) \<and>
     free_entries (BLACKLIST_Clear d) = length (blacklist d) \<and> \<not> blacklist_must_filter v m (BLACKLIST_Clear d)"
proof -
  have "free_entries (BLACKLIST_Clear d) = length (blacklist d)"
    by (simp add: free_entries_def BLACKLIST_Clear_def filter_map o_def)
  moreover have "\<not> blacklist_must_filter v m (BLACKLIST_Clear d)"
    by (auto simp: must_filter_iff BLACKLIST_Clear_def same_device_def)
  moreover have "case BLACKLIST_Add a d of (e, d') \<Rightarrow>
     (e = CA_ERROR_SUCCESS \<longleftrightarrow>
        blacklist d \<noteq> [] \<and> ma_AddressMode a \<in> {MAC_MODE_SHORT_ADDR, MAC_MODE_LONG_ADDR} \<and> free_entries d > 0) \<and>
     (if e = CA_ERROR_SUCCESS
      then free_entries d = Suc (free_entries d') \<and> length (blacklist d') = length (blacklist d) \<and>
           (\<forall>msg. blacklist_must_filter v msg d' \<longleftrightarrow>
                   blacklist_must_filter v msg d \<or> same_device a (msg_src v msg))
      else d' = d)"
  proof (cases "add_entry a (blacklist d)")
    case None
    then have "free_entries d = 0" by (simp add: add_entry_None free_entries_def)
    with None show ?thesis by (auto simp: BLACKLIST_Add_def)
  next
    case (Some b)
    note add = add_entry_Some [OF Some]
    have "free_entries d > 0"
      using Some add_entry_None [of a "blacklist d"] by (simp add: free_entries_def)
    then show ?thesis using add Some
      by (auto simp: BLACKLIST_Add_def must_filter_iff free_entries_def)
  qed
  ultimately show ?thesis by auto
qed

subsection \<open>Dispatch\<close>

text \<open>What is to happen to a message that passes the checks.\<close>

definition deliver ::
  "ca_ver \<Rightarrow> ('cb \<Rightarrow> mac_msg \<Rightarrow> ('cb, 'e) ca821x_dev \<Rightarrow> ca_error \<times> ('cb, 'e) ca821x_dev) \<Rightarrow>
     mac_msg \<Rightarrow> callback \<Rightarrow> ('cb, 'e) ca821x_dev \<Rightarrow> ca_error \<times> ('cb, 'e) ca821x_dev" where
  "deliver v run msg slot d =
     (if blacklist_must_filter v msg d then (CA_ERROR_SUCCESS, d)
      else (case (case callbacks d slot of None \<Rightarrow> (CA_ERROR_NOT_HANDLED, d) | Some f \<Rightarrow> run f msg d) of
              (ret, d') \<Rightarrow>
                if ret = CA_ERROR_NOT_HANDLED
                then (case generic_dispatch d' of None \<Rightarrow> (ret, d') | Some g \<Rightarrow> run g msg d')
                else (ret, d')))"

lemma dispatch_deliver:
  assumes "ca821x_get_callback v (CommandId msg) = Some slot"
    "workarounds v msg d = Some (ret, msg', d')"
  shows "ca821x_upstream_dispatch v run msg d =
           Some (if ret \<noteq> CA_ERROR_SUCCESS then (ret, d') else deliver v run msg' slot d')"
  using assms
  by (simp add: ca821x_upstream_dispatch_def deliver_def call_back_def split: prod.split option.split)

text \<open>Only indications have a sender, and all of them have a callback.\<close>

lemma sender_cases:
  assumes "AddressMode (msg_src v msg) \<noteq> MAC_MODE_NO_ADDR"
  shows "\<exists>slot. ca821x_get_callback v (CommandId msg) = Some slot"
    "CommandId msg \<noteq> SPI_MLME_SCAN_CONFIRM" "CommandId msg \<noteq> SPI_MLME_ASSOCIATE_CONFIRM"
  using assms unfolding msg_src_def ca821x_get_callback_def Let_def
  by (simp_all split: if_split_asm)

text \<open>
  C22: A message from a blacklisted device never reaches the application: whatever the callbacks do,
  the dispatcher returns without running one and leaves the device as it was. It reports success,
  or, on the CA-8210, failure when the message was not even for this node.
\<close>

theorem dispatch_drops_blacklisted:
  assumes "e \<in> set (blacklist d)" "same_device e (msg_src v msg)"
  shows "\<exists>ret. (\<forall>run. ca821x_upstream_dispatch v run msg d = Some (ret, d)) \<and>
           ret \<in> {CA_ERROR_SUCCESS, CA_ERROR_FAIL} \<and> (ret = CA_ERROR_FAIL \<longrightarrow> v = CA8210)"
proof -
  have sender: "AddressMode (msg_src v msg) \<noteq> MAC_MODE_NO_ADDR" using assms(2) by (auto simp: same_device_def)
  from sender_cases(1) [OF this] obtain slot where slot: "ca821x_get_callback v (CommandId msg) = Some slot" by blast
  have blocked: "blacklist_must_filter v msg d" using assms by (auto simp: must_filter_iff)
  define ret where "ret = (if v = CA8210 \<and> CommandId msg = SPI_MCPS_DATA_INDICATION
      then check_data_ind_destaddr (PData msg) d else CA_ERROR_SUCCESS)"
  have "workarounds v msg d = Some (ret, msg, d)"
    using sender_cases(2,3) [OF sender] by (simp add: workarounds_def ret_def)
  from dispatch_deliver [OF slot this] blocked
  have "ca821x_upstream_dispatch v run msg d = Some (ret, d)" for run
    by (simp add: deliver_def)
  moreover have "ret \<in> {CA_ERROR_SUCCESS, CA_ERROR_FAIL}"
    by (simp add: ret_def check_data_ind_destaddr_def Let_def)
  moreover have "ret = CA_ERROR_FAIL \<longrightarrow> v = CA8210" by (simp add: ret_def)
  ultimately show ?thesis by blast
qed

definition data_from :: "bytes \<Rightarrow> bytes \<Rightarrow> mac_msg" where
  "data_from src dst =
     \<lparr>CommandId = SPI_MCPS_DATA_INDICATION, Length = 50,
      PData = [2, 1, 1] @ src @ replicate 6 0 @ [2, 1, 1] @ dst @ replicate 6 0 @ replicate 232 0\<rparr>"

theorem dispatch_drops_blacklisted_witness:
  "\<exists>ret. \<forall>run. ca821x_upstream_dispatch CA8211 run (data_from [7, 8] [3, 4])
     (snd (BLACKLIST_Add \<lparr>ma_AddressMode = 2, ma_Address = [7, 8, 0, 0, 0, 0, 0, 0]\<rparr>
        (fresh_dev 2 :: (nat, unit) ca821x_dev))) =
     Some (ret, snd (BLACKLIST_Add \<lparr>ma_AddressMode = 2, ma_Address = [7, 8, 0, 0, 0, 0, 0, 0]\<rparr> (fresh_dev 2)))"
proof -
  let ?a = "\<lparr>ma_AddressMode = 2, ma_Address = [7, 8, 0, 0, 0, 0, 0, 0]\<rparr>"
  let ?d = "snd (BLACKLIST_Add ?a (fresh_dev 2 :: (nat, unit) ca821x_dev))"
  have mem: "?a \<in> set (blacklist ?d)"
    by (simp add: BLACKLIST_Add_def fresh_dev_def numeral_2_eq_2)
  have "same_device ?a (msg_src CA8211 (data_from [7, 8] [3, 4]))"
    by (simp add: same_device_def msg_src_def data_from_def get_FullAddr_def)
  from dispatch_drops_blacklisted [OF mem this] show ?thesis by blast
qed

text \<open>
  On the CA-8210 the host filters by the short address it has set: after a successful
  \<open>MLME_SET\<close> of \<^verbatim>\<open>macShortAddress\<close>, a data indication with a short destination address
  is delivered when that is the broadcast address or the address that was set, and is otherwise
  dropped with an error, without a callback.
\<close>

theorem short_address_filters:
  assumes set: "MLME_SET_request_sync CA8210 T macShortAddress ix 2 [lo, hi] d = Some (MAC_SUCCESS, d1)"
    and addr: "[lo, hi] \<noteq> [0xFF, 0xFF]"
    and msg: "CommandId msg = SPI_MCPS_DATA_INDICATION" "wf_msg msg" "PData msg ! 11 = MAC_MODE_SHORT_ADDR"
  defines "dst \<equiv> [PData msg ! 14, PData msg ! 15]"
  shows "ca821x_upstream_dispatch CA8210 run msg d1 =
           Some (if dst = [0xFF, 0xFF] \<or> dst = [lo, hi] then deliver CA8210 run msg MCPS_DATA_indication d1
                 else (CA_ERROR_FAIL, d1))"
proof -
  have short: "shortaddr d1 = GETLE16 [lo, hi]"
    using set
    by (auto simp: MLME_SET_request_sync_def MLME_SET_request_cmd_def mirror_address_def send_sync_def Let_def
        split: prod.splits option.splits if_splits)
  have Dst: "AddressMode (get_FullAddr (drop 11 (PData msg))) = MAC_MODE_SHORT_ADDR"
    "take 2 (Address (get_FullAddr (drop 11 (PData msg)))) = dst"
    "GETLE16 (Address (get_FullAddr (drop 11 (PData msg)))) = GETLE16 dst"
    using msg(2,3)
    by (simp_all add: get_FullAddr_def wf_msg_def dst_def GETLE16_def take_Suc_conv_app_nth numeral_eq_Suc)
  have "check_data_ind_destaddr (PData msg) d1 =
      (if dst = [0xFF, 0xFF] \<or> dst = [lo, hi] then CA_ERROR_SUCCESS else CA_ERROR_FAIL)"
    using addr unfolding check_data_ind_destaddr_def Let_def Dst short host16_def
    by (simp add: PUTLE16_GETLE16 GETLE16_ones dst_def)
  moreover have "ca821x_get_callback CA8210 (CommandId msg) = Some MCPS_DATA_indication"
    by (simp add: msg(1) ca821x_get_callback_def)
  ultimately show ?thesis
    using dispatch_deliver [of CA8210 msg MCPS_DATA_indication d1]
    by (simp add: workarounds_def msg(1))
qed

theorem short_address_filters_witness:
  "\<exists>d1. MLME_SET_request_sync CA8210 ok_radio macShortAddress 0 2 [3, 4] (fresh_dev 0) = Some (MAC_SUCCESS, d1) \<and>
     (\<forall>run. ca821x_upstream_dispatch CA8210 run (data_from [7, 8] [3, 5]) d1 = Some (CA_ERROR_FAIL, d1))"
proof -
  let ?d1 = "(fresh_dev 0 :: (nat, unit) ca821x_dev)\<lparr>shortaddr := GETLE16 [3, 4]\<rparr>"
  have set: "MLME_SET_request_sync CA8210 ok_radio macShortAddress 0 2 [3, 4] (fresh_dev 0) = Some (MAC_SUCCESS, ?d1)"
    by (simp add: MLME_SET_request_sync_def MLME_SET_request_cmd_def send_sync_def ok_radio_def
        mirror_address_def fresh_dev_def)
  have msg: "CommandId (data_from [7, 8] [3, 5]) = SPI_MCPS_DATA_INDICATION" "wf_msg (data_from [7, 8] [3, 5])"
    "PData (data_from [7, 8] [3, 5]) ! 11 = MAC_MODE_SHORT_ADDR"
    "PData (data_from [7, 8] [3, 5]) ! 14 = 3" "PData (data_from [7, 8] [3, 5]) ! 15 = 5"
    by (simp_all add: data_from_def wf_msg_def nth_append)
  have addr: "[3, 4] \<noteq> [0xFF, 0xFF :: u8]" by simp
  have "ca821x_upstream_dispatch CA8210 run (data_from [7, 8] [3, 5]) ?d1 = Some (CA_ERROR_FAIL, ?d1)" for run
    using short_address_filters [OF set addr msg(1-3), of run] msg(4,5) by simp
  with set show ?thesis by blast
qed

end
