(* ===== verification/Dispatch.thy ===== *)
theory Dispatch
  imports ApiUpstream
begin

text \<open>
  The dispatcher of the bare-metal build, \<^verbatim>\<open>baremetal/cascoda-bm-core/source/cascoda_dispatch.c\<close>
  and its CA-8212 variant \<^verbatim>\<open>cascoda_dispatch_8212.c\<close>, and the blocking wait for a callback,
  \<^verbatim>\<open>cascoda_wait.c\<close>. They call each other and, through the application's callbacks and the API,
  themselves, so each operation takes what it calls back as an argument; the knot is tied at the end.
\<close>

unbundle bit_operations_syntax

abbreviation MDR_CacheSize :: nat where "MDR_CacheSize \<equiv> 15"
abbreviation MAX_TXPOWER_CH26 :: u8 where "MAX_TXPOWER_CH26 \<equiv> 4"
abbreviation TXOPT_INDIRECT :: u8 where "TXOPT_INDIRECT \<equiv> 0x04"
abbreviation HWME_TXPOWER :: u8 where "HWME_TXPOWER \<equiv> 0x02"
abbreviation TDME_CHANNEL :: u8 where "TDME_CHANNEL \<equiv> 0x00"
abbreviation TDME_TX_CONFIG :: u8 where "TDME_TX_CONFIG \<equiv> 0x01"

subsection \<open>State\<close>

datatype MDR_CacheType = MDR_CacheTypePCPS | MDR_CacheTypeMCPS

record MDR_CacheItem =
  mTimeout :: u16
  mMsduHandle :: u8
  mIsIndirect :: bool
  mIsCacheActive :: bool
  mCacheType :: MDR_CacheType

text \<open>A function pointer in the callback table is one of the application's or the internal one of
  the wait framework.\<close>

datatype 'cb handler = App 'cb | WAIT_Internal

text \<open>
  The static variables of both files, the world below them (the SPI driver, the radio, the clock),
  and \<open>halted\<close>, which is set when the code would hang, abort or leave a buffer, and stays set: what
  happens after it is not a behaviour of the program. A \<^verbatim>\<open>void *\<close> is an opaque number. The API
  passes nothing but the device structure, so the state travels in its \<^verbatim>\<open>exchange_context\<close>, which
  the bare-metal build does not use.
\<close>

record ('cb, 'w) bm =
  MDR_Cache :: "MDR_CacheItem list"
  isPCPSFixActive :: bool
  isPCPSRxOn :: u8
  isReadPending :: bool
  isCacheFlushFixActive :: bool
  isScanInProgress :: bool
  currentChannel :: u8
  currentTxPower :: u8
  prevTime :: u32
  isDispatching :: bool
  sTargetCallback :: "'cb handler option"
  sCallbackContext :: "nat option"
  sWaitCalled :: bool
  sWaitCallbackActive :: bool
  sWaiting :: bool
  halted :: bool
  world :: 'w

type_synonym ('cb, 'w) device = "('cb handler, ('cb, 'w) bm) ca821x_dev"

definition st :: "('cb, 'w) device \<Rightarrow> ('cb, 'w) bm" where
  "st d = the (exchange_context d)"

definition upd :: "(('cb, 'w) bm \<Rightarrow> ('cb, 'w) bm) \<Rightarrow> ('cb, 'w) device \<Rightarrow> ('cb, 'w) device" where
  "upd f d = d\<lparr>exchange_context := Some (f (st d))\<rparr>"

definition halt :: "('cb, 'w) device \<Rightarrow> ('cb, 'w) device" where
  "halt = upd (\<lambda>s. s\<lparr>halted := True\<rparr>)"

text \<open>The contents of the static variables at start.\<close>

definition bm_reset :: "'w \<Rightarrow> ('cb, 'w) bm" where
  "bm_reset w =
     \<lparr>MDR_Cache = replicate MDR_CacheSize \<lparr>mTimeout = 0, mMsduHandle = 0, mIsIndirect = False,
                    mIsCacheActive = False, mCacheType = MDR_CacheTypePCPS\<rparr>,
      isPCPSFixActive = False, isPCPSRxOn = 0, isReadPending = False, isCacheFlushFixActive = False,
      isScanInProgress = False, currentChannel = 18, currentTxPower = 9, prevTime = 0,
      isDispatching = False, sTargetCallback = None, sCallbackContext = None, sWaitCalled = False,
      sWaitCallbackActive = False, sWaiting = False, halted = False, world = w\<rparr>"

text \<open>
  What the code calls: the operations of the SPI driver on its world, \<open>rx_peek\<close> being a look at the
  head of the receive FIFO, the clock, and \<open>idle\<close>, which lets time pass and interrupts happen; the
  application's callbacks; what uninitialised memory holds; and the number of rounds after which
  a loop counts as endless.
\<close>

record 'w spi_ops =
  spi_send :: "mac_msg \<Rightarrow> mac_msg option \<Rightarrow> 'w \<Rightarrow> ca_error \<times> mac_msg option \<times> 'w"
  spi_read :: "'w \<Rightarrow> 'w"
  spi_in_progress :: "'w \<Rightarrow> bool"
  spi_almost_full :: "'w \<Rightarrow> bool"
  spi_chain_in_flight :: "'w \<Rightarrow> bool"
  spi_external :: "'w \<Rightarrow> bool"
  rfirq :: "'w \<Rightarrow> bool"
  rx_peek :: "'w \<Rightarrow> mac_msg option"
  rx_dequeue :: "'w \<Rightarrow> 'w"
  now :: "'w \<Rightarrow> u32"
  idle :: "'w \<Rightarrow> 'w"

record ('cb, 'w) env =
  CA_VER :: ca_ver
  spi_api :: "'w spi_ops"
  app :: "'cb \<Rightarrow> mac_msg \<Rightarrow> ('cb, 'w) device \<Rightarrow> ca_error \<times> ('cb, 'w) device"
  uninit :: mac_msg
  rounds :: nat

abbreviation upd_world :: "('w \<Rightarrow> 'w) \<Rightarrow> ('cb, 'w) device \<Rightarrow> ('cb, 'w) device" where
  "upd_world f \<equiv> upd (\<lambda>s. s\<lparr>world := f (world s)\<rparr>)"

text \<open>What is called back: the way down and the way up.\<close>

record ('cb, 'w) self =
  to_radio :: "mac_msg \<Rightarrow> mac_msg option \<Rightarrow> ('cb, 'w) device \<Rightarrow> ca_error \<times> mac_msg option \<times> ('cb, 'w) device"
  from_radio :: "('cb, 'w) device \<Rightarrow> ca_error \<times> ('cb, 'w) device"

text \<open>The transport that the API uses on bare metal.\<close>

definition api_target :: "('cb, 'w) env \<Rightarrow> ('cb, 'w) self \<Rightarrow> ('cb handler, ('cb, 'w) bm) target" where
  "api_target E self =
     \<lparr>downstream = (\<lambda>c r d. case to_radio self c r d of (err, r', d') \<Rightarrow>
                      (err, case r' of None \<Rightarrow> uninit E | Some m \<Rightarrow> m, d')),
      stack = uninit E\<rparr>"

subsection \<open>Upstream\<close>

definition call_target ::
  "('cb, 'w) env \<Rightarrow> 'cb handler option \<Rightarrow> mac_msg \<Rightarrow> ('cb, 'w) device \<Rightarrow> ca_error \<times> ('cb, 'w) device" where
  "call_target E f msg d =
     (case f of
        None \<Rightarrow> (CA_ERROR_NOT_HANDLED, d)
      | Some WAIT_Internal \<Rightarrow> (CA_ERROR_NOT_HANDLED, halt d)
      | Some (App cb) \<Rightarrow> app E cb msg d)"

definition WAIT_CallbackInternal ::
  "('cb, 'w) env \<Rightarrow> mac_msg \<Rightarrow> ('cb, 'w) device \<Rightarrow> ca_error \<times> ('cb, 'w) device" where
  "WAIT_CallbackInternal E msg d =
     (let d = upd (\<lambda>s. s\<lparr>sWaitCallbackActive := True\<rparr>) d;
          (status, d) = call_target E (sTargetCallback (st d)) msg d
      in (status, upd (\<lambda>s. s\<lparr>sWaitCallbackActive := False, sWaitCalled := True\<rparr>) d))"

fun run_handler ::
  "('cb, 'w) env \<Rightarrow> 'cb handler \<Rightarrow> mac_msg \<Rightarrow> ('cb, 'w) device \<Rightarrow> ca_error \<times> ('cb, 'w) device" where
  "run_handler E (App cb) msg d = app E cb msg d"
| "run_handler E WAIT_Internal msg d = WAIT_CallbackInternal E msg d"

text \<open>The error is logged.\<close>

definition DispatchFromCa821x :: "('cb, 'w) env \<Rightarrow> mac_msg \<Rightarrow> ('cb, 'w) device \<Rightarrow> ('cb, 'w) device" where
  "DispatchFromCa821x E msg d =
     (case ca821x_upstream_dispatch (CA_VER E) (run_handler E) msg d of
        None \<Rightarrow> halt d
      | Some (ret, d') \<Rightarrow> d')"

subsection \<open>The cache of data requests\<close>

fun CacheTypeToCmdId :: "ca_ver \<Rightarrow> MDR_CacheType \<Rightarrow> u8 option" where
  "CacheTypeToCmdId v MDR_CacheTypeMCPS = Some SPI_MCPS_DATA_CONFIRM"
| "CacheTypeToCmdId v MDR_CacheTypePCPS = (if v = CA8211 then Some SPI_PCPS_DATA_CONFIRM else None)"

definition genMdc :: "ca_ver \<Rightarrow> u8 \<Rightarrow> u8 \<Rightarrow> mac_msg" where
  "genMdc v cmdid handle =
     (let params = [handle, MAC_SYSTEM_ERROR, 0, 0, 0, 0] @ (if v = CA8210 then [] else [0])
      in \<lparr>CommandId = cmdid, Length = of_nat (length params), PData = params\<rparr>)"

definition purge_slot :: "('cb, 'w) env \<Rightarrow> bool \<Rightarrow> nat \<Rightarrow> ('cb, 'w) device \<Rightarrow> ('cb, 'w) device" where
  "purge_slot E GenerateConfirms i d =
     (let item = MDR_Cache (st d) ! i;
          d = (if mIsCacheActive item \<and> GenerateConfirms
               then (case CacheTypeToCmdId (CA_VER E) (mCacheType item) of
                       None \<Rightarrow> halt d
                     | Some cmdid \<Rightarrow> DispatchFromCa821x E (genMdc (CA_VER E) cmdid (mMsduHandle item)) d)
               else d)
      in upd (\<lambda>s. s\<lparr>MDR_Cache := (MDR_Cache s)[i := (MDR_Cache s ! i)\<lparr>mIsCacheActive := False\<rparr>]\<rparr>) d)"

definition CachePurge :: "('cb, 'w) env \<Rightarrow> bool \<Rightarrow> ('cb, 'w) device \<Rightarrow> ('cb, 'w) device" where
  "CachePurge E GenerateConfirms d = fold (purge_slot E GenerateConfirms) [0..<MDR_CacheSize] d"

definition CacheIsIndirectActive :: "MDR_CacheItem list \<Rightarrow> bool" where
  "CacheIsIndirectActive c = list_ex (\<lambda>i. mIsCacheActive i \<and> mIsIndirect i) c"

fun CacheRemoveItem :: "u8 \<Rightarrow> MDR_CacheType \<Rightarrow> MDR_CacheItem list \<Rightarrow> ca_error \<times> MDR_CacheItem list" where
  "CacheRemoveItem h t [] = (CA_ERROR_NOT_FOUND, [])"
| "CacheRemoveItem h t (i # is) =
     (if mIsCacheActive i \<and> mMsduHandle i = h \<and> mCacheType i = t
      then (CA_ERROR_SUCCESS, i\<lparr>mIsCacheActive := False\<rparr> # is)
      else (case CacheRemoveItem h t is of (e, is') \<Rightarrow> (e, i # is')))"

fun CacheAddItem ::
  "u8 \<Rightarrow> bool \<Rightarrow> MDR_CacheType \<Rightarrow> MDR_CacheItem list \<Rightarrow> ca_error \<times> MDR_CacheItem list" where
  "CacheAddItem h ind t [] = (CA_ERROR_NO_BUFFER, [])"
| "CacheAddItem h ind t (i # is) =
     (if \<not> mIsCacheActive i
      then (CA_ERROR_SUCCESS, i\<lparr>mIsCacheActive := True, mIsIndirect := ind, mMsduHandle := h,
                                mCacheType := t, mTimeout := 500\<rparr> # is)
      else (case CacheAddItem h ind t is of (e, is') \<Rightarrow> (e, i # is')))"

text \<open>The loop stops at the first item that is too old; those before it have been counted down.\<close>

fun decay_items :: "u32 \<Rightarrow> MDR_CacheItem list \<Rightarrow> bool \<times> MDR_CacheItem list" where
  "decay_items delta [] = (False, [])"
| "decay_items delta (i # is) =
     (if mIsCacheActive i \<and> \<not> mIsIndirect i
      then (if delta > ucast (mTimeout i) then (True, i # is)
            else (case decay_items delta is of (t, is') \<Rightarrow>
                    (t, i\<lparr>mTimeout := mTimeout i - ucast delta\<rparr> # is')))
      else (case decay_items delta is of (t, is') \<Rightarrow> (t, i # is')))"

definition CacheDecay :: "u32 \<Rightarrow> ('cb, 'w) bm \<Rightarrow> ca_error \<times> ('cb, 'w) bm" where
  "CacheDecay curTime s =
     (let delta = curTime - prevTime s in
      if delta = 0 then (CA_ERROR_SUCCESS, s)
      else if isCacheFlushFixActive s then (CA_ERROR_SUCCESS, s)
      else (case decay_items delta (MDR_Cache s) of
              (True, is) \<Rightarrow> (CA_ERROR_TIMEOUT, s\<lparr>MDR_Cache := is\<rparr>)
            | (False, is) \<Rightarrow> (CA_ERROR_SUCCESS, s\<lparr>MDR_Cache := is, prevTime := curTime\<rparr>)))"

text \<open>On the device, with the clock.\<close>

definition cache_decay :: "('cb, 'w) env \<Rightarrow> ('cb, 'w) device \<Rightarrow> ca_error \<times> ('cb, 'w) device" where
  "cache_decay E d =
     (case CacheDecay (now (spi_api E) (world (st d))) (st d) of (e, s) \<Rightarrow> (e, upd (\<lambda>_. s) d))"

subsection \<open>Waiting for a callback\<close>

text \<open>\<open>timepassed\<close> is the loop variable, \<open>status\<close> the result of the last dispatch.\<close>

fun wait_loop ::
  "('cb, 'w) env \<Rightarrow> ('cb, 'w) self \<Rightarrow> nat \<Rightarrow> u32 \<Rightarrow> u32 \<Rightarrow> u32 \<Rightarrow> ca_error \<Rightarrow> ('cb, 'w) device \<Rightarrow>
     ca_error \<times> ('cb, 'w) device" where
  "wait_loop E self 0 startTime aTimeoutMs timepassed status d = (status, halt d)"
| "wait_loop E self (Suc n) startTime aTimeoutMs timepassed status d =
     (if timepassed < aTimeoutMs
      then (case from_radio self d of (status, d) \<Rightarrow>
              if sWaitCalled (st d) \<or> status = CA_ERROR_INVALID_STATE then (status, d)
              else (let d = upd_world (idle (spi_api E)) d in
                    wait_loop E self n startTime aTimeoutMs (now (spi_api E) (world (st d)) - startTime) status d))
      else (status, d))"

definition WAIT_CallbackWithRef ::
  "('cb, 'w) env \<Rightarrow> ('cb, 'w) self \<Rightarrow> callback \<Rightarrow> u32 \<Rightarrow> nat option \<Rightarrow> ('cb, 'w) device \<Rightarrow>
     ca_error \<times> ('cb, 'w) device" where
  "WAIT_CallbackWithRef E self aTargetCallback aTimeoutMs aCallbackContext d =
     (let startTime = now (spi_api E) (world (st d)) in
      if sWaiting (st d) then (CA_ERROR_INVALID_STATE, d)
      else (let d = upd (\<lambda>s. s\<lparr>sWaiting := True, sTargetCallback := callbacks d aTargetCallback,
                                sWaitCalled := False, sCallbackContext := aCallbackContext\<rparr>)
                        (d\<lparr>callbacks := (callbacks d)(aTargetCallback := Some WAIT_Internal)\<rparr>);
                (status, d) = wait_loop E self (rounds E) startTime aTimeoutMs 0 CA_ERROR_SUCCESS d;
                status = (if \<not> sWaitCalled (st d) \<and> status = CA_ERROR_SUCCESS
                          then CA_ERROR_SPI_WAIT_TIMEOUT else status)
            in (status,
                upd (\<lambda>s. s\<lparr>sCallbackContext := None, sWaiting := False\<rparr>)
                    (d\<lparr>callbacks := (callbacks d)(aTargetCallback := sTargetCallback (st d))\<rparr>))))"

definition WAIT_Callback ::
  "('cb, 'w) env \<Rightarrow> ('cb, 'w) self \<Rightarrow> u8 \<Rightarrow> u32 \<Rightarrow> nat option \<Rightarrow> ('cb, 'w) device \<Rightarrow>
     ca_error \<times> ('cb, 'w) device" where
  "WAIT_Callback E self aCommandId aTimeoutMs aCallbackContext d =
     (case ca821x_get_callback (CA_VER E) aCommandId of
        None \<Rightarrow> (CA_ERROR_FAIL, d)
      | Some callbackRef \<Rightarrow> WAIT_CallbackWithRef E self callbackRef aTimeoutMs aCallbackContext d)"

definition WAIT_CallbackSwap ::
  "('cb, 'w) env \<Rightarrow> ('cb, 'w) self \<Rightarrow> u8 \<Rightarrow> 'cb handler option \<Rightarrow> u32 \<Rightarrow> nat option \<Rightarrow> ('cb, 'w) device \<Rightarrow>
     ca_error \<times> ('cb, 'w) device" where
  "WAIT_CallbackSwap E self aCommandId aCallback aTimeoutMs aCallbackContext d =
     (case ca821x_get_callback (CA_VER E) aCommandId of
        None \<Rightarrow> (CA_ERROR_FAIL, d)
      | Some callbackRef \<Rightarrow>
          (let oldCallback = callbacks d callbackRef;
               (status, d) = WAIT_CallbackWithRef E self callbackRef aTimeoutMs aCallbackContext
                               (d\<lparr>callbacks := (callbacks d)(callbackRef := aCallback)\<rparr>)
           in (status, d\<lparr>callbacks := (callbacks d)(callbackRef := oldCallback)\<rparr>)))"

definition WAIT_GetContext :: "('cb, 'w) device \<Rightarrow> nat option" where
  "WAIT_GetContext d = (if \<not> sWaitCallbackActive (st d) then None else sCallbackContext (st d))"

subsection \<open>Workarounds\<close>

text \<open>The value of a one-octet attribute. The variable is uninitialised when the request fails; a
  longer value is written past it.\<close>

definition get_octet ::
  "('cb, 'w) env \<Rightarrow> ('cb, 'w) self \<Rightarrow> u8 \<Rightarrow> u8 \<Rightarrow> ('cb, 'w) device \<Rightarrow> u8 \<times> ('cb, 'w) device" where
  "get_octet E self attr before d =
     (case MLME_GET_request_sync (api_target E self) attr 0 d of
        None \<Rightarrow> (before, halt d)
      | Some (status, None, d) \<Rightarrow> (before, d)
      | Some (status, Some (len, val), d) \<Rightarrow>
          (if length val > 1 then (before, halt d) else if val = [] then (before, d) else (val ! 0, d)))"

text \<open>Requests whose status is ignored.\<close>

definition set_octet ::
  "('cb, 'w) env \<Rightarrow> ('cb, 'w) self \<Rightarrow> u8 \<Rightarrow> u8 \<Rightarrow> ('cb, 'w) device \<Rightarrow> ('cb, 'w) device" where
  "set_octet E self attr x d =
     (case MLME_SET_request_sync (CA_VER E) (api_target E self) attr 0 1 [x] d of
        None \<Rightarrow> halt d
      | Some (status, d) \<Rightarrow> d)"

definition hwme_set ::
  "('cb, 'w) env \<Rightarrow> ('cb, 'w) self \<Rightarrow> u8 \<Rightarrow> bytes \<Rightarrow> ('cb, 'w) device \<Rightarrow> ('cb, 'w) device" where
  "hwme_set E self attr data d =
     (case HWME_SET_request_sync (CA_VER E) (api_target E self) attr (of_nat (length data)) data d of
        None \<Rightarrow> halt d
      | Some (status, d) \<Rightarrow> d)"

definition set_sfr ::
  "('cb, 'w) env \<Rightarrow> ('cb, 'w) self \<Rightarrow> u8 \<Rightarrow> u8 \<Rightarrow> ('cb, 'w) device \<Rightarrow> ('cb, 'w) device" where
  "set_sfr E self addr x d = snd (TDME_SETSFR_request_sync (api_target E self) 0 addr x d)"

definition ApplyCacheFlushFix :: "('cb, 'w) env \<Rightarrow> ('cb, 'w) self \<Rightarrow> ('cb, 'w) device \<Rightarrow> ('cb, 'w) device" where
  "ApplyCacheFlushFix E self d =
     (if isCacheFlushFixActive (st d) then d
      else (let d = upd (\<lambda>s. s\<lparr>isCacheFlushFixActive := True\<rparr>) d;
                (rxOnOld, d) = get_octet E self macRxOnWhenIdle (PData (uninit E) ! 0) d;
                d = set_octet E self macRxOnWhenIdle 0 d;
                d = snd (WAIT_Callback E self SPI_HWME_WAKEUP_INDICATION 15 None d);
                d = CachePurge E True d;
                d = snd (MLME_RESET_request_sync (CA_VER E) (api_target E self) 0 d);
                d = set_octet E self macRxOnWhenIdle rxOnOld d;
                d = upd (\<lambda>s. s\<lparr>isCacheFlushFixActive := False\<rparr>) d
            in snd (cache_decay E d)))"

definition ApplyPCPSHotFix ::
  "('cb, 'w) env \<Rightarrow> ('cb, 'w) self \<Rightarrow> u8 \<Rightarrow> ('cb, 'w) device \<Rightarrow> ('cb, 'w) device" where
  "ApplyPCPSHotFix E self PsduLength d =
     (if PsduLength \<in> {9, 17, 33, 65, 129}
      then (let (rxOn, d) = get_octet E self macRxOnWhenIdle (isPCPSRxOn (st d)) d;
                d = upd (\<lambda>s. s\<lparr>isPCPSRxOn := rxOn\<rparr>) d;
                d = set_octet E self macRxOnWhenIdle 0 d;
                d = snd (WAIT_Callback E self SPI_HWME_WAKEUP_INDICATION 5 None d);
                d = hwme_set E self 0x88 [0x93, 0x68, 0x52] d;
                d = hwme_set E self 0x8A [0x93, 0x68, 0xFF] d;
                d = set_sfr E self 0xD9 0x0D d
            in upd (\<lambda>s. s\<lparr>isPCPSFixActive := True\<rparr>) d)
      else d)"

definition ApplyPCPSPostFix :: "('cb, 'w) env \<Rightarrow> ('cb, 'w) self \<Rightarrow> ('cb, 'w) device \<Rightarrow> ('cb, 'w) device" where
  "ApplyPCPSPostFix E self d =
     (if isPCPSFixActive (st d)
      then (let d = upd (\<lambda>s. s\<lparr>isPCPSFixActive := False\<rparr>) d;
                d = set_sfr E self 0xD9 0x0F d;
                d = hwme_set E self 0x8A [0x93, 0x68, 0x00] d
            in set_octet E self macRxOnWhenIdle (isPCPSRxOn (st d)) d)
      else d)"

text \<open>This one goes to the SPI driver directly.\<close>

definition ApplyMixedDirectHotfix :: "('cb, 'w) env \<Rightarrow> ('cb, 'w) device \<Rightarrow> ('cb, 'w) device" where
  "ApplyMixedDirectHotfix E d =
     upd_world (\<lambda>w. snd (snd (spi_send (spi_api E) \<lparr>CommandId = 0x4D, Length = 0x01, PData = [0x00]\<rparr>
                                (Some (uninit E)) w))) d"

subsection \<open>Messages to the radio\<close>

text \<open>The whole message union behind a request, and a response built by the dispatcher.\<close>

definition whole :: "('cb, 'w) env \<Rightarrow> mac_msg \<Rightarrow> mac_msg" where
  "whole E m = m\<lparr>PData := PData m @ drop (length (PData m)) (PData (uninit E))\<rparr>"

definition fill_response :: "u8 \<Rightarrow> bytes \<Rightarrow> mac_msg option \<Rightarrow> mac_msg option" where
  "fill_response cmdid data response =
     map_option (\<lambda>m. \<lparr>CommandId = cmdid, Length = of_nat (length data),
                      PData = data @ drop (length data) (PData m)\<rparr>) response"

text \<open>The limit on channel 26: \<open>txp\<close> is an \<^verbatim>\<open>int8_t\<close>.\<close>

definition limited :: "u8 \<Rightarrow> u8 \<Rightarrow> bool" where
  "limited channel txp \<longleftrightarrow> channel = 26 \<and> sint txp > sint MAX_TXPOWER_CH26"

text \<open>A power setting that passes through in a message is replaced there.\<close>

definition limit_power_octet :: "mac_msg \<Rightarrow> ('cb, 'w) device \<Rightarrow> mac_msg \<times> ('cb, 'w) device" where
  "limit_power_octet msg d =
     (let d = upd (\<lambda>s. s\<lparr>currentTxPower := TDME_tx_paib_to_dbm (PData msg ! 2)\<rparr>) d
      in (if limited (currentChannel (st d)) (currentTxPower (st d))
          then msg\<lparr>PData := (PData msg)[2 := TDME_tx_dbm_to_paib MAX_TXPOWER_CH26]\<rparr> else msg, d))"

definition CheckPIB ::
  "('cb, 'w) env \<Rightarrow> mac_msg \<Rightarrow> bool" where
  "CheckPIB E msg =
     (CommandId msg = SPI_MLME_SET_REQUEST \<and>
      TDME_CheckPIBAttribute (CA_VER E) (PData msg ! 0) (PData msg ! 2) (drop 3 (PData msg)) \<noteq> Some MAC_SUCCESS)"

text \<open>Reading the transmit power is the same in both variants.\<close>

definition get_tx_power ::
  "('cb, 'w) env \<Rightarrow> ('cb, 'w) self \<Rightarrow> mac_msg \<Rightarrow> mac_msg option \<Rightarrow> ('cb, 'w) device \<Rightarrow>
     mac_msg option \<times> ('cb, 'w) device" where
  "get_tx_power E self msg response d =
     (case TDME_GetTxPower (api_target E self) d of
        (status, val, d) \<Rightarrow>
          (fill_response SPI_MLME_GET_CONFIRM [status, PData msg ! 0, PData msg ! 1, 1, val] response, d))"

definition set_tx_power ::
  "('cb, 'w) env \<Rightarrow> ('cb, 'w) self \<Rightarrow> u8 \<Rightarrow> mac_msg \<Rightarrow> mac_msg option \<Rightarrow> ('cb, 'w) device \<Rightarrow>
     mac_msg option \<times> ('cb, 'w) device" where
  "set_tx_power E self val msg response d =
     (case TDME_SetTxPower (api_target E self) val d of
        (status, d) \<Rightarrow> (fill_response SPI_MLME_SET_CONFIRM [status, PData msg ! 0, PData msg ! 1] response, d))"

definition CheckSetGet ::
  "('cb, 'w) env \<Rightarrow> ('cb, 'w) self \<Rightarrow> mac_msg \<Rightarrow> mac_msg option \<Rightarrow> ('cb, 'w) device \<Rightarrow>
     ca_error \<times> mac_msg \<times> mac_msg option \<times> ('cb, 'w) device" where
  "CheckSetGet E self msg response d =
     (let p = PData msg in
      if CheckPIB E msg
      then (CA_ERROR_ALREADY, msg,
            fill_response SPI_MLME_SET_CONFIRM [MAC_INVALID_PARAMETER, p ! 0, p ! 1] response, d)
      else if CommandId msg = SPI_MLME_SET_REQUEST \<and> p ! 0 = phyTransmitPower
      then (let val = extend6 (p ! 3);
                d = upd (\<lambda>s. s\<lparr>currentTxPower := val\<rparr>) d;
                val = (if limited (currentChannel (st d)) val then MAX_TXPOWER_CH26 else val);
                (response, d) = set_tx_power E self val msg response d
            in (CA_ERROR_ALREADY, msg, response, d))
      else if CommandId msg = SPI_MLME_GET_REQUEST \<and> p ! 0 = phyTransmitPower
      then (let (response, d) = get_tx_power E self msg response d
            in (CA_ERROR_ALREADY, msg, response, d))
      else if CommandId msg = SPI_HWME_SET_REQUEST \<and> p ! 0 = HWME_TXPOWER \<or>
              CommandId msg = SPI_TDME_SET_REQUEST \<and> p ! 0 = TDME_TX_CONFIG
      then (let (msg, d) = limit_power_octet msg d in (CA_ERROR_SUCCESS, msg, response, d))
      else (CA_ERROR_SUCCESS, msg, response, d))"

definition new_channel :: "mac_msg \<Rightarrow> u8" where
  "new_channel msg =
     (let p = PData msg in
      if CommandId msg = SPI_MLME_ASSOCIATE_REQUEST then p ! 0
      else if CommandId msg = SPI_MLME_START_REQUEST then p ! 2
      else if CommandId msg = SPI_MLME_SET_REQUEST \<and> p ! 0 = phyCurrentChannel then p ! 3
      else if CommandId msg = SPI_TDME_SET_REQUEST \<and> p ! 0 = TDME_CHANNEL then p ! 2
      else 0)"

definition CheckChannel ::
  "('cb, 'w) env \<Rightarrow> ('cb, 'w) self \<Rightarrow> mac_msg \<Rightarrow> ('cb, 'w) device \<Rightarrow> ('cb, 'w) device" where
  "CheckChannel E self msg d =
     (let channel = new_channel msg in
      if channel = 0 then d
      else (let d = snd (TDME_ChannelInit (api_target E self) channel d);
                txp = currentTxPower (st d);
                d = (if limited channel txp
                     then set_sfr E self 0xFE (TDME_tx_dbm_to_paib MAX_TXPOWER_CH26) d
                     else if limited (currentChannel (st d)) txp
                     then set_sfr E self 0xFE (TDME_tx_dbm_to_paib txp) d
                     else d)
            in upd (\<lambda>s. s\<lparr>currentChannel := channel\<rparr>) d))"

definition PreCheckToCA821x ::
  "('cb, 'w) env \<Rightarrow> ('cb, 'w) self \<Rightarrow> mac_msg \<Rightarrow> mac_msg option \<Rightarrow> ('cb, 'w) device \<Rightarrow>
     ca_error \<times> mac_msg \<times> mac_msg option \<times> ('cb, 'w) device" where
  "PreCheckToCA821x E self msg rsp d =
     (if isScanInProgress (st d) then (CA_ERROR_SPI_SCAN_IN_PROGRESS, msg, rsp, d)
      else (case CheckSetGet E self msg rsp d of
              (Status, msg, rsp, d) \<Rightarrow>
                if Status \<noteq> CA_ERROR_SUCCESS then (Status, msg, rsp, d)
                else (let d = CheckChannel E self msg d;
                          d = (if CA_VER E = CA8211 \<and> CommandId msg = SPI_PCPS_DATA_REQUEST
                               then ApplyPCPSHotFix E self (PData msg ! 2) d else d)
                      in (CA_ERROR_SUCCESS, msg, rsp, d))))"

text \<open>A data request that was sent goes to the cache; its result is ignored.\<close>

definition cache_request ::
  "('cb, 'w) env \<Rightarrow> u8 \<Rightarrow> u8 \<Rightarrow> MDR_CacheType \<Rightarrow> ('cb, 'w) device \<Rightarrow> ('cb, 'w) device" where
  "cache_request E handle TxOptions t d =
     (let isIndirect = (TxOptions AND TXOPT_INDIRECT \<noteq> 0);
          d = upd (\<lambda>s. s\<lparr>MDR_Cache := snd (CacheAddItem handle isIndirect t (MDR_Cache s))\<rparr>) d
      in if CA_VER E = CA8211 \<and> \<not> isIndirect \<and> CacheIsIndirectActive (MDR_Cache (st d))
         then ApplyMixedDirectHotfix E d else d)"

definition PostCheckToCA821x ::
  "('cb, 'w) env \<Rightarrow> ('cb, 'w) self \<Rightarrow> mac_msg \<Rightarrow> mac_msg option \<Rightarrow> ('cb, 'w) device \<Rightarrow> ('cb, 'w) device" where
  "PostCheckToCA821x E self msg rsp d =
     (let p = PData msg;
          d = (if CommandId msg = SPI_MCPS_DATA_REQUEST
               then cache_request E (p ! 13) (p ! 14) MDR_CacheTypeMCPS d else d);
          d = (if CommandId msg = SPI_MLME_SCAN_REQUEST then upd (\<lambda>s. s\<lparr>isScanInProgress := True\<rparr>) d else d);
          d = (if CA_VER E = CA8211 \<and> CommandId msg = SPI_PCPS_DATA_REQUEST
               then ApplyPCPSPostFix E self (cache_request E (p ! 0) (p ! 1) MDR_CacheTypePCPS d) else d)
      in case rsp of
           None \<Rightarrow> d
         | Some r \<Rightarrow>
             (let d = (if CommandId r = SPI_MCPS_PURGE_CONFIRM \<and> PData r ! 1 = MAC_SUCCESS
                       then upd (\<lambda>s. s\<lparr>MDR_Cache := snd (CacheRemoveItem (PData r ! 0) MDR_CacheTypeMCPS (MDR_Cache s))\<rparr>) d
                       else d)
              in if CommandId r = SPI_MLME_RESET_CONFIRM \<and> PData r ! 0 = MAC_SUCCESS
                 then CachePurge E False d else d))"

definition DISPATCH_ToCA821x ::
  "('cb, 'w) env \<Rightarrow> ('cb, 'w) self \<Rightarrow> mac_msg \<Rightarrow> mac_msg option \<Rightarrow> ('cb, 'w) device \<Rightarrow>
     ca_error \<times> mac_msg option \<times> ('cb, 'w) device" where
  "DISPATCH_ToCA821x E self buf response d =
     (let response = map_option (\<lambda>m. m\<lparr>CommandId := SPI_IDLE\<rparr>) response in
      case PreCheckToCA821x E self (whole E buf) response d of
        (Status, msg, response, d) \<Rightarrow>
          if Status = CA_ERROR_ALREADY then (CA_ERROR_SUCCESS, response, d)
          else if Status \<noteq> CA_ERROR_SUCCESS then (Status, response, d)
          else (case spi_send (spi_api E) msg response (world (st d)) of
                  (Status, response, w) \<Rightarrow>
                    (let d = upd_world (\<lambda>_. w) d in
                     if Status = CA_ERROR_ALREADY then (CA_ERROR_SUCCESS, response, d)
                     else if Status \<noteq> CA_ERROR_SUCCESS then (Status, response, d)
                     else (CA_ERROR_SUCCESS, response, PostCheckToCA821x E self msg response d))))"

subsection \<open>Messages from the radio\<close>

definition PreCheckFromCA821x :: "ca_ver \<Rightarrow> mac_msg \<Rightarrow> ('cb, 'w) bm \<Rightarrow> ('cb, 'w) bm" where
  "PreCheckFromCA821x v aMessage s =
     (if CommandId aMessage = SPI_MCPS_DATA_CONFIRM
      then s\<lparr>MDR_Cache := snd (CacheRemoveItem (PData aMessage ! 0) MDR_CacheTypeMCPS (MDR_Cache s))\<rparr>
      else if CommandId aMessage = SPI_MLME_SCAN_CONFIRM \<or> CommandId aMessage = SPI_HWME_WAKEUP_INDICATION
      then s\<lparr>isScanInProgress := False\<rparr>
      else if v = CA8211 \<and> CommandId aMessage = SPI_PCPS_DATA_CONFIRM
      then s\<lparr>MDR_Cache := snd (CacheRemoveItem (PData aMessage ! 0) MDR_CacheTypePCPS (MDR_Cache s))\<rparr>
      else s)"

definition DISPATCH_ReadCA821x :: "('cb, 'w) env \<Rightarrow> ('cb, 'w) device \<Rightarrow> ('cb, 'w) device" where
  "DISPATCH_ReadCA821x E d =
     (let B = spi_api E; w = world (st d) in
      if spi_in_progress B w then d
      else if \<not> rfirq B w \<and> \<not> spi_almost_full B w \<and> \<not> spi_chain_in_flight B w \<and> \<not> spi_external B w
      then upd (\<lambda>s. s\<lparr>world := spi_read B w, isReadPending := False\<rparr>) d
      else upd (\<lambda>s. s\<lparr>isReadPending := \<not> rfirq B w\<rparr>) d)"

definition deliver ::
  "('cb, 'w) env \<Rightarrow> (mac_msg \<Rightarrow> ('cb, 'w) bm \<Rightarrow> ('cb, 'w) bm) \<Rightarrow> mac_msg \<Rightarrow> ('cb, 'w) device \<Rightarrow> ('cb, 'w) device" where
  "deliver E precheck m d = upd_world (rx_dequeue (spi_api E)) (DispatchFromCa821x E m (upd (precheck m) d))"

fun drain ::
  "('cb, 'w) env \<Rightarrow> (mac_msg \<Rightarrow> ('cb, 'w) bm \<Rightarrow> ('cb, 'w) bm) \<Rightarrow> nat \<Rightarrow> ('cb, 'w) device \<Rightarrow> ('cb, 'w) device" where
  "drain E precheck 0 d = halt d"
| "drain E precheck (Suc n) d =
     (case rx_peek (spi_api E) (world (st d)) of
        None \<Rightarrow> d
      | Some m \<Rightarrow> drain E precheck n (deliver E precheck m d))"

definition DISPATCH_FromCA821x ::
  "('cb, 'w) env \<Rightarrow> ('cb, 'w) self \<Rightarrow> ('cb, 'w) device \<Rightarrow> ca_error \<times> ('cb, 'w) device" where
  "DISPATCH_FromCA821x E self d =
     (if isDispatching (st d) then (CA_ERROR_INVALID_STATE, d)
      else (let d = upd (\<lambda>s. s\<lparr>isDispatching := True\<rparr>) d;
                d = drain E (PreCheckFromCA821x (CA_VER E)) (rounds E) d;
                d = upd (\<lambda>s. s\<lparr>isDispatching := False\<rparr>) d;
                (error, d) = cache_decay E d;
                d = (if error = CA_ERROR_TIMEOUT then ApplyCacheFlushFix E self d else d)
            in (CA_ERROR_SUCCESS, if isReadPending (st d) then DISPATCH_ReadCA821x E d else d)))"

subsection \<open>The CA-8212 variant\<close>

definition CheckSetGet_8212 ::
  "('cb, 'w) env \<Rightarrow> ('cb, 'w) self \<Rightarrow> mac_msg \<Rightarrow> mac_msg option \<Rightarrow> ('cb, 'w) device \<Rightarrow>
     ca_error \<times> mac_msg option \<times> ('cb, 'w) device" where
  "CheckSetGet_8212 E self msg response d =
     (let p = PData msg in
      if CheckPIB E msg
      then (CA_ERROR_ALREADY, fill_response SPI_MLME_SET_CONFIRM [MAC_INVALID_PARAMETER, p ! 0, p ! 1] response, d)
      else if CommandId msg = SPI_MLME_SET_REQUEST \<and> p ! 0 = phyTransmitPower
      then (CA_ERROR_ALREADY, set_tx_power E self (p ! 3) msg response d)
      else if CommandId msg = SPI_MLME_GET_REQUEST \<and> p ! 0 = phyTransmitPower
      then (CA_ERROR_ALREADY, get_tx_power E self msg response d)
      else (CA_ERROR_SUCCESS, response, d))"

definition PreCheckToCA821x_8212 ::
  "('cb, 'w) env \<Rightarrow> ('cb, 'w) self \<Rightarrow> mac_msg \<Rightarrow> mac_msg option \<Rightarrow> ('cb, 'w) device \<Rightarrow>
     ca_error \<times> mac_msg option \<times> ('cb, 'w) device" where
  "PreCheckToCA821x_8212 E self msg rsp d =
     (if isScanInProgress (st d) then (CA_ERROR_SPI_SCAN_IN_PROGRESS, rsp, d)
      else CheckSetGet_8212 E self msg rsp d)"

definition PostCheckToCA821x_8212 :: "mac_msg \<Rightarrow> ('cb, 'w) device \<Rightarrow> ('cb, 'w) device" where
  "PostCheckToCA821x_8212 msg d =
     (if CommandId msg = SPI_MLME_SCAN_REQUEST then upd (\<lambda>s. s\<lparr>isScanInProgress := True\<rparr>) d else d)"

definition DISPATCH_ToCA821x_8212 ::
  "('cb, 'w) env \<Rightarrow> ('cb, 'w) self \<Rightarrow> mac_msg \<Rightarrow> mac_msg option \<Rightarrow> ('cb, 'w) device \<Rightarrow>
     ca_error \<times> mac_msg option \<times> ('cb, 'w) device" where
  "DISPATCH_ToCA821x_8212 E self buf response d =
     (let response = map_option (\<lambda>m. m\<lparr>CommandId := SPI_IDLE\<rparr>) response; msg = whole E buf in
      case PreCheckToCA821x_8212 E self msg response d of
        (Status, response, d) \<Rightarrow>
          if Status = CA_ERROR_ALREADY then (CA_ERROR_SUCCESS, response, d)
          else if Status \<noteq> CA_ERROR_SUCCESS then (Status, response, d)
          else (case spi_send (spi_api E) msg response (world (st d)) of
                  (Status, response, w) \<Rightarrow>
                    (let d = upd_world (\<lambda>_. w) d in
                     if Status = CA_ERROR_ALREADY then (CA_ERROR_SUCCESS, response, d)
                     else if Status \<noteq> CA_ERROR_SUCCESS then (Status, response, d)
                     else (CA_ERROR_SUCCESS, response, PostCheckToCA821x_8212 msg d))))"

definition PreCheckFromCA821x_8212 :: "mac_msg \<Rightarrow> ('cb, 'w) bm \<Rightarrow> ('cb, 'w) bm" where
  "PreCheckFromCA821x_8212 aMessage s =
     (if CommandId aMessage = SPI_MLME_SCAN_CONFIRM \<or> CommandId aMessage = SPI_HWME_WAKEUP_INDICATION
      then s\<lparr>isScanInProgress := False\<rparr> else s)"

text \<open>This variant does not ask whether another device uses the bus.\<close>

definition DISPATCH_ReadCA821x_8212 :: "('cb, 'w) env \<Rightarrow> ('cb, 'w) device \<Rightarrow> ('cb, 'w) device" where
  "DISPATCH_ReadCA821x_8212 E d =
     (let B = spi_api E; w = world (st d) in
      if spi_in_progress B w then d
      else if \<not> rfirq B w \<and> \<not> spi_almost_full B w \<and> \<not> spi_chain_in_flight B w
      then upd (\<lambda>s. s\<lparr>world := spi_read B w, isReadPending := False\<rparr>) d
      else upd (\<lambda>s. s\<lparr>isReadPending := \<not> rfirq B w\<rparr>) d)"

definition DISPATCH_FromCA821x_8212 ::
  "('cb, 'w) env \<Rightarrow> ('cb, 'w) device \<Rightarrow> ca_error \<times> ('cb, 'w) device" where
  "DISPATCH_FromCA821x_8212 E d =
     (if isDispatching (st d) then (CA_ERROR_INVALID_STATE, d)
      else (let d = upd (\<lambda>s. s\<lparr>isDispatching := True\<rparr>) d;
                d = drain E PreCheckFromCA821x_8212 (rounds E) d;
                d = upd (\<lambda>s. s\<lparr>isDispatching := False\<rparr>) d
            in (CA_ERROR_SUCCESS, if isReadPending (st d) then DISPATCH_ReadCA821x_8212 E d else d)))"

subsection \<open>The knot\<close>

text \<open>Every call of the dispatcher from within itself is one level up; deeper than \<open>n\<close> levels the
  program is taken to have run away.\<close>

primrec dispatcher :: "('cb, 'w) env \<Rightarrow> nat \<Rightarrow> ('cb, 'w) self" where
  "dispatcher E 0 =
     \<lparr>to_radio = (\<lambda>buf response d. (CA_ERROR_FAIL, response, halt d)),
      from_radio = (\<lambda>d. (CA_ERROR_FAIL, halt d))\<rparr>"
| "dispatcher E (Suc n) =
     (if CA_VER E = CA8212
      then \<lparr>to_radio = DISPATCH_ToCA821x_8212 E (dispatcher E n),
            from_radio = DISPATCH_FromCA821x_8212 E\<rparr>
      else \<lparr>to_radio = DISPATCH_ToCA821x E (dispatcher E n),
            from_radio = DISPATCH_FromCA821x E (dispatcher E n)\<rparr>)"

definition ca821x_api_downstream ::
  "('cb, 'w) env \<Rightarrow> nat \<Rightarrow> mac_msg \<Rightarrow> mac_msg option \<Rightarrow> ('cb, 'w) device \<Rightarrow>
     ca_error \<times> mac_msg option \<times> ('cb, 'w) device" where
  "ca821x_api_downstream E n = to_radio (dispatcher E n)"

end
