(* ===== verification/Spi.thy ===== *)
theory Spi
  imports MacMsg "HOL-Library.Monad_Syntax"
begin

text \<open>
  The SPI driver of the bare-metal build,
  \<^verbatim>\<open>baremetal/cascoda-bm-core/source/cascoda_spi.c\<close>: the receive FIFO, the exchange with
  the radio, the wait for a synchronous response, and the chain of synchronous requests that keeps
  the radio awake. The board functions are a parameter. A transfer that is started and not waited
  for is part of the state; it ends at the completion interrupt.
\<close>

unbundle bit_operations_syntax

abbreviation SPI_RX_FIFO_SIZE :: nat where "SPI_RX_FIFO_SIZE \<equiv> 7"
abbreviation SPI_RX_FIFO_RESV :: nat where "SPI_RX_FIFO_RESV \<equiv> 4"
abbreviation SPI_T_TIMEOUT :: u32 where "SPI_T_TIMEOUT \<equiv> 500"
abbreviation SPI_T_BACKOFF :: u32 where "SPI_T_BACKOFF \<equiv> 10"
abbreviation SPI_T_HOLD_8210 :: u32 where "SPI_T_HOLD_8210 \<equiv> 100"
abbreviation SPI_T_CSHOLD :: u32 where "SPI_T_CSHOLD \<equiv> 50"

subsection \<open>State\<close>

text \<open>Where received octets go: nowhere, a slot of the FIFO, or the buffer of a synchronous
  request. A transfer in flight has its target, the octets to send, and the number to receive.\<close>

datatype rx_buf = Rx_none | Rx_fifo nat | Rx_wait

record spi =
  SPI_Receive_Buffer :: "mac_msg list"
  SPI_FIFO_Start :: nat
  SPI_FIFO_End :: nat
  SPI_FIFO_Full :: bool
  waterMark :: u32
  highWaterMark :: u32
  ExchangeInProgress :: bool
  FinalExchange :: bool
  SpiExternallyInUse :: bool
  syncChainActive :: bool
  syncChainInFlight :: bool
  SPI_Wait_Buf :: "mac_msg option"
  in_flight :: "(rx_buf \<times> bytes \<times> nat) option"

definition syncChainMessage :: mac_msg where
  "syncChainMessage = \<lparr>CommandId = 0x45, Length = 0x02, PData = [0x40, 0x00]\<rparr>"

subsection \<open>The receive FIFO\<close>

definition SPI_IsFifoFull :: "spi \<Rightarrow> bool" where
  "SPI_IsFifoFull s = SPI_FIFO_Full s"

definition SPI_IsFifoEmpty :: "spi \<Rightarrow> bool" where
  "SPI_IsFifoEmpty s = (SPI_FIFO_Start s = SPI_FIFO_End s \<and> \<not> SPI_FIFO_Full s)"

definition SPI_IsSingleFifoBufInUse :: "spi \<Rightarrow> bool" where
  "SPI_IsSingleFifoBufInUse s =
     (SPI_FIFO_End s = (SPI_FIFO_Start s + 1) mod SPI_RX_FIFO_SIZE \<and> ExchangeInProgress s)"

definition SPI_IsFifoAlmostFull :: "spi \<Rightarrow> bool" where
  "SPI_IsFifoAlmostFull s =
     (if SPI_Wait_Buf s \<noteq> None then SPI_FIFO_Full s
      else if SPI_FIFO_Full s then True
      else list_ex (\<lambda>i. SPI_FIFO_Start s = (SPI_FIFO_End s + i) mod SPI_RX_FIFO_SIZE)
             [1..<SPI_RX_FIFO_RESV + 1])"

definition SPI_IncrementWaterMark :: "spi \<Rightarrow> spi" where
  "SPI_IncrementWaterMark s =
     (let s1 = s\<lparr>waterMark := waterMark s + 1\<rparr>
      in if waterMark s1 > highWaterMark s1 then s1\<lparr>highWaterMark := waterMark s1\<rparr> else s1)"

definition SPI_GetFreeBuf :: "spi \<Rightarrow> rx_buf \<times> spi" where
  "SPI_GetFreeBuf s =
     (if \<not> SPI_FIFO_Full s
      then (let rval = Rx_fifo (SPI_FIFO_End s);
                s1 = SPI_IncrementWaterMark (s\<lparr>SPI_FIFO_End := (SPI_FIFO_End s + 1) mod SPI_RX_FIFO_SIZE\<rparr>)
            in (rval, if SPI_FIFO_Start s1 = SPI_FIFO_End s1 then s1\<lparr>SPI_FIFO_Full := True\<rparr> else s1))
      else (Rx_none, s))"

definition SPI_PeekFullBuf :: "spi \<Rightarrow> mac_msg option" where
  "SPI_PeekFullBuf s =
     (if \<not> SPI_IsFifoEmpty s \<and> \<not> SPI_IsSingleFifoBufInUse s
      then Some (SPI_Receive_Buffer s ! SPI_FIFO_Start s) else None)"

definition SPI_DequeueFullBuf :: "spi \<Rightarrow> spi" where
  "SPI_DequeueFullBuf s =
     (if \<not> SPI_IsFifoEmpty s
      then s\<lparr>SPI_FIFO_Start := (SPI_FIFO_Start s + 1) mod SPI_RX_FIFO_SIZE,
             SPI_FIFO_Full := False, waterMark := waterMark s - 1\<rparr>
      else s)"

text \<open>The contents of a target buffer; a missing one is a null pointer.\<close>

fun update_buf :: "rx_buf \<Rightarrow> (mac_msg \<Rightarrow> mac_msg) \<Rightarrow> spi \<Rightarrow> spi" where
  "update_buf Rx_none f s = s"
| "update_buf (Rx_fifo i) f s =
     s\<lparr>SPI_Receive_Buffer := (SPI_Receive_Buffer s)[i := f (SPI_Receive_Buffer s ! i)]\<rparr>"
| "update_buf Rx_wait f s = s\<lparr>SPI_Wait_Buf := map_option f (SPI_Wait_Buf s)\<rparr>"

definition getBuf :: "u8 \<Rightarrow> spi \<Rightarrow> rx_buf \<times> spi" where
  "getBuf cmdid s =
     (if cmdid AND 0x80 \<noteq> 0 \<or> cmdid AND SPI_S2M = 0 then (Rx_none, s)
      else (let (rval, s1) =
                  (if cmdid AND SPI_SYN \<noteq> 0
                   then (if syncChainInFlight s then (Rx_none, s\<lparr>syncChainInFlight := False\<rparr>)
                         else (if SPI_Wait_Buf s = None then Rx_none else Rx_wait, s))
                   else SPI_GetFreeBuf s)
            in (rval, update_buf rval (\<lambda>m. m\<lparr>CommandId := cmdid\<rparr>) s1)))"

text \<open>The static data are zero at start; the buffers of the FIFO are set to the idle octet. The
  full flag and the water mark are not touched.\<close>

definition SPI_Initialise :: "spi \<Rightarrow> spi" where
  "SPI_Initialise s =
     s\<lparr>SPI_Receive_Buffer := replicate SPI_RX_FIFO_SIZE
          \<lparr>CommandId = SPI_IDLE, Length = 0xFF, PData = replicate payload_size 0xFF\<rparr>,
       SPI_FIFO_Start := 0, SPI_FIFO_End := 0\<rparr>"

definition spi_reset :: spi where
  "spi_reset =
     \<lparr>SPI_Receive_Buffer = replicate SPI_RX_FIFO_SIZE \<lparr>CommandId = 0, Length = 0, PData = replicate payload_size 0\<rparr>,
      SPI_FIFO_Start = 0, SPI_FIFO_End = 0, SPI_FIFO_Full = False, waterMark = 0, highWaterMark = 0,
      ExchangeInProgress = False, FinalExchange = False, SpiExternallyInUse = False,
      syncChainActive = False, syncChainInFlight = False, SPI_Wait_Buf = None, in_flight = None\<rparr>"

subsection \<open>The board\<close>

text \<open>
  \<open>w\<close> is the board and the radio behind it. \<open>transfer\<close> clocks the octets given out and returns as
  many; \<open>sense_rfirq\<close> is the level of the interrupt line, low when the radio has something to say
  or is ready; \<open>interrupts\<close> is what the interrupt handlers do to the driver while it waits.
\<close>

record 'w bsp =
  transfer :: "bytes \<Rightarrow> 'w \<Rightarrow> bytes \<times> 'w"
  sense_rfirq :: "'w \<Rightarrow> bool"
  absolute_time :: "'w \<Rightarrow> u32"
  wait_us :: "u32 \<Rightarrow> 'w \<Rightarrow> 'w"
  set_ssb :: "bool \<Rightarrow> 'w \<Rightarrow> 'w"
  wait_tick :: "'w \<Rightarrow> 'w"
  interrupts :: "spi \<Rightarrow> 'w \<Rightarrow> spi \<times> 'w"

text \<open>The contract of the board's exchange: idle octets are sent behind the data, and what is
  received behind the buffer is dropped.\<close>

definition BSP_SPIExchange :: "'w bsp \<Rightarrow> bytes \<Rightarrow> nat \<Rightarrow> 'w \<Rightarrow> bytes \<times> 'w" where
  "BSP_SPIExchange B tx rxlen w =
     (let (miso, w') = transfer B (tx @ replicate (rxlen - length tx) 0xFF) w in (take rxlen miso, w'))"

text \<open>The completion interrupt: an access by another device on the bus has its own handler.\<close>

definition SPI_ExchangeComplete :: "'w bsp \<Rightarrow> spi \<Rightarrow> 'w \<Rightarrow> spi \<times> 'w" where
  "SPI_ExchangeComplete B s w =
     (if SpiExternallyInUse s then (s, w)
      else (let (s1, w1) = (if FinalExchange s then (s\<lparr>FinalExchange := False\<rparr>, set_ssb B True w) else (s, w))
            in (s1\<lparr>ExchangeInProgress := False\<rparr>, w1)))"

definition put_payload :: "bytes \<Rightarrow> mac_msg \<Rightarrow> mac_msg" where
  "put_payload data m = m\<lparr>PData := data @ drop (length data) (PData m)\<rparr>"

text \<open>The end of a transfer in flight: the data arrive, then the interrupt comes.\<close>

definition finish_transfer :: "'w bsp \<Rightarrow> spi \<Rightarrow> 'w \<Rightarrow> spi \<times> 'w" where
  "finish_transfer B s w =
     (case in_flight s of
        None \<Rightarrow> (s, w)
      | Some (target, tx, rxlen) \<Rightarrow>
          let (data, w1) = BSP_SPIExchange B tx rxlen w
          in SPI_ExchangeComplete B (update_buf target (put_payload data) (s\<lparr>in_flight := None\<rparr>)) w1)"

text \<open>The busy wait on \<open>ExchangeInProgress\<close> ends only when the interrupt clears it.\<close>

definition await_exchange :: "'w bsp \<Rightarrow> spi \<Rightarrow> 'w \<Rightarrow> (spi \<times> 'w) option" where
  "await_exchange B s w =
     (if ExchangeInProgress s
      then (case finish_transfer B s w of (s1, w1) \<Rightarrow> if ExchangeInProgress s1 then None else Some (s1, w1))
      else Some (s, w))"

definition SPI_ExchangeBlocking :: "'w bsp \<Rightarrow> bytes \<Rightarrow> nat \<Rightarrow> spi \<Rightarrow> 'w \<Rightarrow> (bytes \<times> spi \<times> 'w) option" where
  "SPI_ExchangeBlocking B tx rxlen s w =
     (let (data, w1) = BSP_SPIExchange B tx rxlen w;
          (s1, w2) = SPI_ExchangeComplete B (s\<lparr>ExchangeInProgress := True\<rparr>) w1
      in if ExchangeInProgress s1 then None else Some (data, s1, w2))"

subsection \<open>Waiting for the radio\<close>

text \<open>Both loops are \<open>do ... while\<close> loops on a clock that is a parameter; a loop that does not
  end is \<open>None\<close>.\<close>

definition poll_slave :: "'w bsp \<Rightarrow> 'w \<Rightarrow> bool \<times> 'w" where
  "poll_slave B w =
     (if sense_rfirq B w then (False, wait_us B SPI_T_BACKOFF w)
      else (let w1 = wait_us B SPI_T_CSHOLD (set_ssb B False w)
            in if sense_rfirq B w1 then (False, set_ssb B True w1) else (True, w1)))"

partial_function (option) wait_slave_loop :: "'w bsp \<Rightarrow> u32 \<Rightarrow> 'w \<Rightarrow> (ca_error \<times> 'w) option" where
  "wait_slave_loop B T_Start w =
     (case poll_slave B w of (ready, w1) \<Rightarrow>
        if ready then Some (CA_ERROR_SUCCESS, w1)
        else if absolute_time B w - T_Start < SPI_T_TIMEOUT then wait_slave_loop B T_Start w1
        else Some (CA_ERROR_SPI_WAIT_TIMEOUT, w1))"

definition SPI_WaitSlave :: "ca_ver \<Rightarrow> 'w bsp \<Rightarrow> 'w \<Rightarrow> (ca_error \<times> 'w) option" where
  "SPI_WaitSlave v B w =
     (if v = CA8210 then Some (CA_ERROR_SUCCESS, wait_us B SPI_T_HOLD_8210 w)
      else wait_slave_loop B (absolute_time B w) w)"

partial_function (option) nack_loop ::
  "'w bsp \<Rightarrow> u32 \<Rightarrow> u32 \<Rightarrow> bytes \<Rightarrow> spi \<Rightarrow> 'w \<Rightarrow> (u32 \<times> bytes \<times> spi \<times> 'w) option" where
  "nack_loop B T_Start T_Now txBytes s w =
     (case SPI_ExchangeBlocking B txBytes 2 s (set_ssb B False w) of
        None \<Rightarrow> None
      | Some (r, s1, w1) \<Rightarrow>
          if r ! 1 \<noteq> SPI_NACK then Some (T_Now, r, s1, w1)
          else (let w2 = wait_us B SPI_T_BACKOFF (set_ssb B True w1); now = absolute_time B w2
                in if now - T_Start < SPI_T_TIMEOUT then nack_loop B T_Start now txBytes s1 w2
                   else Some (now, r, s1, w2)))"

definition first_bytes :: "mac_msg option \<Rightarrow> bytes" where
  "first_bytes pTxBuffer =
     (case pTxBuffer of None \<Rightarrow> [0xFF, 0xFF] | Some m \<Rightarrow> [CommandId m, Length m])"

definition SPI_GetFirst2Bytes ::
  "ca_ver \<Rightarrow> 'w bsp \<Rightarrow> mac_msg option \<Rightarrow> spi \<Rightarrow> 'w \<Rightarrow> (ca_error \<times> bytes \<times> spi \<times> 'w) option" where
  "SPI_GetFirst2Bytes v B pTxBuffer s w =
     (if v = CA8210
      then do {
        let T_Start = absolute_time B w;
        (T_Now, r, s1, w1) \<leftarrow> nack_loop B T_Start T_Start (first_bytes pTxBuffer) s w;
        Some (if T_Now - T_Start \<ge> SPI_T_TIMEOUT then CA_ERROR_SPI_NACK_TIMEOUT else CA_ERROR_SUCCESS, r, s1, w1)
      }
      else do {
        (r, s1, w1) \<leftarrow> SPI_ExchangeBlocking B (first_bytes pTxBuffer) 2 s w;
        Some (CA_ERROR_SUCCESS, r, s1, w1)
      })"

text \<open>The CA-8210 may start its message one octet late.\<close>

definition SPI_CA8210_Align ::
  "ca_ver \<Rightarrow> 'w bsp \<Rightarrow> bytes \<Rightarrow> mac_msg option \<Rightarrow> spi \<Rightarrow> 'w \<Rightarrow> (nat \<times> bytes \<times> spi \<times> 'w) option" where
  "SPI_CA8210_Align v B r pTxBuffer s w =
     (if v = CA8210 \<and> r ! 0 AND 0x80 \<noteq> 0 \<and> r ! 1 AND 0x80 = 0
      then do {
        let out = (case pTxBuffer of None \<Rightarrow> 0xFF | Some m \<Rightarrow> PData m ! 0);
        (b, s1, w1) \<leftarrow> SPI_ExchangeBlocking B [out] 1 s w;
        Some (1, [r ! 1, b ! 0], s1, w1)
      }
      else Some (0, r, s, w))"

subsection \<open>The exchange\<close>

text \<open>
  The data phase: with something to send the driver waits for its end, otherwise the transfer
  stays in flight. A message longer than the payload union runs over the end of its buffer
  (\<open>None\<close>). Without a receive buffer nothing is received, so its null pointer is not used.
\<close>

definition data_phase ::
  "'w bsp \<Rightarrow> rx_buf \<Rightarrow> bytes \<Rightarrow> nat \<Rightarrow> spi \<Rightarrow> 'w \<Rightarrow> (spi \<times> 'w) option" where
  "data_phase B target tx rxlen s w =
     (if rxlen > payload_size then None
      else (let s1 = s\<lparr>FinalExchange := True\<rparr> in
            if tx \<noteq> []
            then do {
              (data, s2, w2) \<leftarrow> SPI_ExchangeBlocking B tx rxlen s1 w;
              Some (update_buf target (put_payload data) s2, w2)
            }
            else Some (s1\<lparr>ExchangeInProgress := True, in_flight := Some (target, tx, rxlen)\<rparr>, w)))"

definition SPI_Exchange ::
  "ca_ver \<Rightarrow> 'w bsp \<Rightarrow> mac_msg option \<Rightarrow> spi \<Rightarrow> 'w \<Rightarrow> (ca_error \<times> spi \<times> 'w) option" where
  "SPI_Exchange v B pTxBuffer s w =
     (if SPI_FIFO_Full s \<and> SPI_Wait_Buf s \<noteq> None \<and> pTxBuffer = None
      then Some (CA_ERROR_NO_BUFFER, s, w)
      else do {
        (s, w) \<leftarrow> await_exchange B s w;
        (err, w) \<leftarrow> SPI_WaitSlave v B (set_ssb B True w);
        if err \<noteq> CA_ERROR_SUCCESS then Some (err, s, w)
        else do {
          let setSyncChain = (pTxBuffer = None \<and> \<not> syncChainInFlight s \<and> syncChainActive s);
          let pTx = (if setSyncChain then Some syncChainMessage else pTxBuffer);
          (err, triage, s, w) \<leftarrow> SPI_GetFirst2Bytes v B pTx s w;
          if err \<noteq> CA_ERROR_SUCCESS then Some (err, s, w)
          else do {
            (AlignMod, triage, s, w) \<leftarrow> SPI_CA8210_Align v B triage pTx s w;
            let TxLen = (case pTx of None \<Rightarrow> 0 | Some m \<Rightarrow> unat (Length m - of_nat AlignMod));
            let (pRx, s) = getBuf (triage ! 0) s;
            if TxLen = 0 \<and> pRx = Rx_none then Some (CA_ERROR_SUCCESS, s, set_ssb B True w)
            else do {
              let s = update_buf pRx (\<lambda>m. m\<lparr>Length := triage ! 1\<rparr>) s;
              let RxLen = (if pRx = Rx_none then 0 else unat (triage ! 1 - of_nat AlignMod));
              let tx = (case pTx of None \<Rightarrow> [] | Some m \<Rightarrow> take TxLen (PData m));
              (s, w) \<leftarrow> data_phase B pRx tx RxLen s w;
              Some (CA_ERROR_SUCCESS, if setSyncChain then s\<lparr>syncChainInFlight := True\<rparr> else s, w)
            }
          }
        }
      })"

subsection \<open>Synchronous requests\<close>

text \<open>The wait returns the response buffer, and takes it away from the driver.\<close>

partial_function (option) sync_wait_loop ::
  "'w bsp \<Rightarrow> u8 \<Rightarrow> u32 \<Rightarrow> spi \<Rightarrow> 'w \<Rightarrow> (ca_error \<times> spi \<times> 'w) option" where
  "sync_wait_loop B rspid startticks s w =
     (if map_option CommandId (SPI_Wait_Buf s) = Some rspid \<and> \<not> ExchangeInProgress s
      then Some (CA_ERROR_SUCCESS, s, w)
      else (case interrupts B s (wait_tick B w) of
              (s1, w1) \<Rightarrow>
                if absolute_time B w1 - startticks < SPI_T_TIMEOUT
                then sync_wait_loop B rspid startticks s1 w1
                else Some (CA_ERROR_SPI_WAIT_TIMEOUT, s1, w1)))"

definition SPI_SyncWait ::
  "ca_ver \<Rightarrow> 'w bsp \<Rightarrow> u8 \<Rightarrow> spi \<Rightarrow> 'w \<Rightarrow> (ca_error \<times> mac_msg option \<times> spi \<times> 'w) option" where
  "SPI_SyncWait v B cmdid s w =
     (let rspid = ca821x_get_sync_response_id v cmdid
      in if rspid = 0 then Some (CA_ERROR_INVALID_ARGS, SPI_Wait_Buf s, s, w)
         else do {
           (status, s1, w1) \<leftarrow> sync_wait_loop B rspid (absolute_time B w) s w;
           Some (status, SPI_Wait_Buf s1, s1\<lparr>SPI_Wait_Buf := None\<rparr>, w1)
         })"

text \<open>\<open>response\<close> is the caller's buffer; a synchronous request without one dereferences a null
  pointer.\<close>

definition SPI_Send ::
  "ca_ver \<Rightarrow> 'w bsp \<Rightarrow> mac_msg \<Rightarrow> mac_msg option \<Rightarrow> spi \<Rightarrow> 'w \<Rightarrow>
     (ca_error \<times> mac_msg option \<times> spi \<times> 'w) option" where
  "SPI_Send v B buf response s w =
     (let sync = (CommandId buf AND SPI_SYN \<noteq> 0 \<and> CommandId buf \<noteq> SPI_IDLE)
      in if sync \<and> response = None then None
         else do {
           let s = (if sync then s\<lparr>SPI_Wait_Buf := map_option (\<lambda>m. m\<lparr>CommandId := SPI_IDLE\<rparr>) response\<rparr> else s);
           (Status, s, w) \<leftarrow> SPI_Exchange v B (Some buf) s w;
           if Status \<noteq> CA_ERROR_SUCCESS
           then Some (Status, if sync then SPI_Wait_Buf s else response,
                      if sync then s\<lparr>SPI_Wait_Buf := None\<rparr> else s, set_ssb B True w)
           else if sync
           then do {
             (Status, resp, s, w) \<leftarrow> SPI_SyncWait v B (CommandId buf) s w;
             Some (Status, resp, s, if Status \<noteq> CA_ERROR_SUCCESS then set_ssb B True w else w)
           }
           else Some (CA_ERROR_SUCCESS, response, s, w)
         })"

definition SPI_StartSyncChain :: "ca_ver \<Rightarrow> 'w bsp \<Rightarrow> spi \<Rightarrow> 'w \<Rightarrow> (spi \<times> 'w) option" where
  "SPI_StartSyncChain v B s w =
     do {
       (_, s, w) \<leftarrow> SPI_Exchange v B (Some syncChainMessage)
                      (s\<lparr>syncChainActive := True, syncChainInFlight := True\<rparr>) w;
       Some (s, w)
     }"

definition SPI_StopSyncChain :: "ca_ver \<Rightarrow> 'w bsp \<Rightarrow> mac_msg \<Rightarrow> spi \<Rightarrow> 'w \<Rightarrow> (spi \<times> 'w) option" where
  "SPI_StopSyncChain v B response s w =
     do {
       (_, s, w) \<leftarrow> SPI_Exchange v B None
                      (s\<lparr>SPI_Wait_Buf := Some (response\<lparr>CommandId := SPI_IDLE\<rparr>),
                         syncChainActive := False, syncChainInFlight := False\<rparr>) w;
       (_, _, s, w) \<leftarrow> SPI_SyncWait v B 0x45 s w;
       Some (s, w)
     }"

definition SPI_SetExternallyInUseStatus :: "bool \<Rightarrow> spi \<Rightarrow> ca_error \<times> spi" where
  "SPI_SetExternallyInUseStatus status s =
     (if \<not> status then (CA_ERROR_SUCCESS, s\<lparr>SpiExternallyInUse := status\<rparr>)
      else if ExchangeInProgress s then (CA_ERROR_BUSY, s)
      else (CA_ERROR_SUCCESS, s\<lparr>SpiExternallyInUse := status\<rparr>))"

definition SPI_IsExchangeWithCA821xInProgress :: "spi \<Rightarrow> bool" where
  "SPI_IsExchangeWithCA821xInProgress s = ExchangeInProgress s"

definition SPI_IsSyncChainInFlight :: "spi \<Rightarrow> bool" where
  "SPI_IsSyncChainInFlight s = syncChainInFlight s"

definition SPI_GetExternallyInUseStatus :: "spi \<Rightarrow> bool" where
  "SPI_GetExternallyInUseStatus s = SpiExternallyInUse s"

text \<open>The loops can be run.\<close>

declare wait_slave_loop.simps [code] nack_loop.simps [code] sync_wait_loop.simps [code]

end
