(* ===== verification/SpiSound.thy ===== *)
theory SpiSound
  imports Spi
begin

text \<open>
  What the SPI driver promises: its FIFO is a bounded queue, a synchronous request that succeeds has
  its own response, the wait for the radio ends, and what a second initialisation and a misaligned
  exchange do.
\<close>

unbundle bit_operations_syntax

subsection \<open>The ring is a queue\<close>

definition ring_inv :: "spi \<Rightarrow> bool" where
  "ring_inv s \<longleftrightarrow>
     SPI_FIFO_Start s < SPI_RX_FIFO_SIZE \<and> SPI_FIFO_End s < SPI_RX_FIFO_SIZE \<and>
     (SPI_FIFO_Full s \<longrightarrow> SPI_FIFO_Start s = SPI_FIFO_End s) \<and>
     length (SPI_Receive_Buffer s) = SPI_RX_FIFO_SIZE"

definition ring_count :: "spi \<Rightarrow> nat" where
  "ring_count s =
     (if SPI_FIFO_Full s then SPI_RX_FIFO_SIZE
      else (SPI_FIFO_End s + SPI_RX_FIFO_SIZE - SPI_FIFO_Start s) mod SPI_RX_FIFO_SIZE)"

definition ring_slots :: "spi \<Rightarrow> nat list" where
  "ring_slots s = map (\<lambda>i. (SPI_FIFO_Start s + i) mod SPI_RX_FIFO_SIZE) [0..<ring_count s]"

definition ring_items :: "spi \<Rightarrow> mac_msg list" where
  "ring_items s = map ((!) (SPI_Receive_Buffer s)) (ring_slots s)"

lemma ring_count_le: "ring_count s \<le> SPI_RX_FIFO_SIZE"
  by (simp add: ring_count_def)

lemma length_ring_slots [simp]: "length (ring_slots s) = ring_count s"
  by (simp add: ring_slots_def)

lemma length_ring_items [simp]: "length (ring_items s) = ring_count s"
  by (simp add: ring_items_def)

lemma next_slot: "a < 7 \<Longrightarrow> (a + 1) mod 7 = (if a = 6 then 0 else a + 1 :: nat)"
  by auto

lemma ring_count_eq:
  assumes "ring_inv s"
  shows "ring_count s = (if SPI_FIFO_Full s then 7
     else if SPI_FIFO_Start s \<le> SPI_FIFO_End s then SPI_FIFO_End s - SPI_FIFO_Start s
     else SPI_FIFO_End s + 7 - SPI_FIFO_Start s)"
proof (cases "SPI_FIFO_Start s \<le> SPI_FIFO_End s")
  case True
  then have "SPI_FIFO_End s + 7 - SPI_FIFO_Start s = SPI_FIFO_End s - SPI_FIFO_Start s + 7" by simp
  moreover have "(SPI_FIFO_End s - SPI_FIFO_Start s + 7) mod 7 = SPI_FIFO_End s - SPI_FIFO_Start s"
    using assms by (simp only: mod_add_self2) (rule mod_less, simp add: ring_inv_def less_imp_diff_less)
  ultimately have "(SPI_FIFO_End s + 7 - SPI_FIFO_Start s) mod 7 = SPI_FIFO_End s - SPI_FIFO_Start s"
    by (simp only:)
  with True show ?thesis by (simp add: ring_count_def)
next
  case False
  with assms show ?thesis by (simp add: ring_count_def ring_inv_def)
qed

lemma ring_count_0: "ring_inv s \<Longrightarrow> ring_count s = 0 \<longleftrightarrow> SPI_FIFO_Start s = SPI_FIFO_End s \<and> \<not> SPI_FIFO_Full s"
  by (auto simp: ring_count_eq) (auto simp: ring_inv_def)

lemma ring_count_full: "ring_inv s \<Longrightarrow> ring_count s = SPI_RX_FIFO_SIZE \<longleftrightarrow> SPI_FIFO_Full s"
  by (auto simp: ring_count_eq) (auto simp: ring_inv_def)

lemma slot_arith:
  fixes st en :: nat
  assumes "st < 7" "en < 7"
  shows "en = (if st = 6 then 0 else st + 1) \<longleftrightarrow> (if st \<le> en then en - st else en + 7 - st) = 1"
  using assms by presburger

lemma ring_count_1:
  assumes "ring_inv s"
  shows "ring_count s = 1 \<longleftrightarrow> SPI_FIFO_End s = (SPI_FIFO_Start s + 1) mod SPI_RX_FIFO_SIZE"
proof -
  have st: "SPI_FIFO_Start s < 7" and en: "SPI_FIFO_End s < 7" using assms by (simp_all add: ring_inv_def)
  show ?thesis
  proof (cases "SPI_FIFO_Full s")
    case True
    then have "SPI_FIFO_End s = SPI_FIFO_Start s" using assms by (simp add: ring_inv_def)
    with True assms st show ?thesis unfolding next_slot [OF st] by (simp add: ring_count_eq)
  next
    case False
    with assms show ?thesis unfolding next_slot [OF st] slot_arith [OF st en] by (simp add: ring_count_eq)
  qed
qed

lemma ring_end:
  assumes "ring_inv s"
  shows "(SPI_FIFO_Start s + ring_count s) mod SPI_RX_FIFO_SIZE = SPI_FIFO_End s"
proof -
  have "SPI_FIFO_Start s < 7" "SPI_FIFO_End s < 7" "SPI_FIFO_Full s \<longrightarrow> SPI_FIFO_Start s = SPI_FIFO_End s"
    using assms by (simp_all add: ring_inv_def)
  then show ?thesis unfolding ring_count_eq [OF assms] by auto
qed

text \<open>A message that is allocated goes behind the others, in the slot that is handed out.\<close>

lemma ring_alloc:
  assumes "ring_inv s" "ring_count s < SPI_RX_FIFO_SIZE" "SPI_GetFreeBuf s = (rx, s')"
  shows "rx = Rx_fifo (SPI_FIFO_End s)" "ring_inv s'" "ring_slots s' = ring_slots s @ [SPI_FIFO_End s]"
    "SPI_Receive_Buffer s' = SPI_Receive_Buffer s"
proof -
  have nf: "\<not> SPI_FIFO_Full s" using assms(1,2) ring_count_full [of s] by auto
  show "rx = Rx_fifo (SPI_FIFO_End s)" "SPI_Receive_Buffer s' = SPI_Receive_Buffer s"
    using assms(3) nf by (auto simp: SPI_GetFreeBuf_def SPI_IncrementWaterMark_def Let_def split: if_splits)
  have f: "SPI_FIFO_Start s' = SPI_FIFO_Start s" "SPI_FIFO_End s' = (SPI_FIFO_End s + 1) mod SPI_RX_FIFO_SIZE"
    "SPI_FIFO_Full s' \<longleftrightarrow> SPI_FIFO_Start s = (SPI_FIFO_End s + 1) mod SPI_RX_FIFO_SIZE"
    using assms(3) nf by (auto simp: SPI_GetFreeBuf_def SPI_IncrementWaterMark_def Let_def split: if_splits)
  have en: "SPI_FIFO_End s < 7" using assms(1) by (simp add: ring_inv_def)
  show "ring_inv s'"
    using assms(1) f \<open>SPI_Receive_Buffer s' = _\<close> by (auto simp: ring_inv_def)
  have "ring_count s' = Suc (ring_count s)"
    using assms(1) nf
    unfolding ring_count_eq [OF \<open>ring_inv s'\<close>] ring_count_eq [OF assms(1)] f next_slot [OF en] ring_inv_def by auto
  then show "ring_slots s' = ring_slots s @ [SPI_FIFO_End s]"
    using ring_end [OF assms(1)] by (simp add: ring_slots_def f)
qed

lemma ring_dequeue:
  assumes "ring_inv s" "ring_count s \<noteq> 0"
  shows "ring_inv (SPI_DequeueFullBuf s)" "ring_slots s = SPI_FIFO_Start s # ring_slots (SPI_DequeueFullBuf s)"
    "SPI_Receive_Buffer (SPI_DequeueFullBuf s) = SPI_Receive_Buffer s"
proof -
  have ne: "\<not> SPI_IsFifoEmpty s" using ring_count_0 [OF assms(1)] assms(2) by (simp add: SPI_IsFifoEmpty_def)
  have f: "SPI_FIFO_Start (SPI_DequeueFullBuf s) = (SPI_FIFO_Start s + 1) mod SPI_RX_FIFO_SIZE"
    "SPI_FIFO_End (SPI_DequeueFullBuf s) = SPI_FIFO_End s" "\<not> SPI_FIFO_Full (SPI_DequeueFullBuf s)"
    "SPI_Receive_Buffer (SPI_DequeueFullBuf s) = SPI_Receive_Buffer s"
    using ne by (simp_all add: SPI_DequeueFullBuf_def)
  show "SPI_Receive_Buffer (SPI_DequeueFullBuf s) = SPI_Receive_Buffer s" by (rule f(4))
  have st: "SPI_FIFO_Start s < 7" using assms(1) by (simp add: ring_inv_def)
  show inv: "ring_inv (SPI_DequeueFullBuf s)" using assms(1) f by (simp add: ring_inv_def)
  have "ring_count s = Suc (ring_count (SPI_DequeueFullBuf s))"
    using assms(1) ne f(3)
    unfolding ring_count_eq [OF inv] ring_count_eq [OF assms(1)] f(1,2) next_slot [OF st] SPI_IsFifoEmpty_def ring_inv_def
    by auto
  moreover have "SPI_FIFO_Start s mod SPI_RX_FIFO_SIZE = SPI_FIFO_Start s" using assms(1) by (simp add: ring_inv_def)
  ultimately show "ring_slots s = SPI_FIFO_Start s # ring_slots (SPI_DequeueFullBuf s)"
    by (simp add: ring_slots_def f upt_conv_Cons map_Suc_upt [symmetric] mod_Suc_eq mod_add_left_eq del: upt_Suc)
qed

lemma ring_items_cong:
  "ring_slots s' = ring_slots s \<Longrightarrow> SPI_Receive_Buffer s' = SPI_Receive_Buffer s \<Longrightarrow> ring_items s' = ring_items s"
  by (simp add: ring_items_def)

text \<open>What a queue promises to the dispatcher that empties it.\<close>

locale message_queue =
  fixes inv :: "'s \<Rightarrow> bool"
    and items :: "'s \<Rightarrow> 'm list"
    and peek :: "'s \<Rightarrow> 'm option"
    and dequeue :: "'s \<Rightarrow> 's"
  assumes peek_head: "inv s \<Longrightarrow> peek s = Some m \<Longrightarrow> items s \<noteq> [] \<and> m = hd (items s)"
    and dequeue_tail: "inv s \<Longrightarrow> items s \<noteq> [] \<Longrightarrow> inv (dequeue s) \<and> items (dequeue s) = tl (items s)"
begin

text \<open>A consumer that peeks, handles and dequeues sees a prefix of the queue, in order.\<close>

inductive drains :: "'s \<Rightarrow> 'm list \<Rightarrow> 's \<Rightarrow> bool" where
  stop: "peek s = None \<Longrightarrow> drains s [] s"
| step: "peek s = Some m \<Longrightarrow> drains (dequeue s) ms s' \<Longrightarrow> drains s (m # ms) s'"

lemma drains_prefix:
  assumes "drains s ms s'" "inv s"
  shows "items s = ms @ items s' \<and> inv s' \<and> peek s' = None"
  using assms
proof (induction rule: drains.induct)
  case (step s m ms s')
  have "items s \<noteq> []" "m = hd (items s)" using peek_head [OF step.prems step.hyps(1)] by auto
  with dequeue_tail [OF step.prems] step.IH show ?case by (metis append_Cons list.collapse)
qed simp

lemma drains_total:
  assumes "inv s"
  shows "\<exists>ms s'. drains s ms s'"
  using assms
proof (induction "length (items s)" arbitrary: s rule: less_induct)
  case less
  show ?case
  proof (cases "peek s")
    case None
    then show ?thesis by (blast intro: stop)
  next
    case (Some m)
    with peek_head [OF less.prems] have "items s \<noteq> []" by blast
    with dequeue_tail [OF less.prems] less.hyps [of "dequeue s"] obtain ms s' where "drains (dequeue s) ms s'"
      by (metis length_greater_0_conv length_tl diff_less zero_less_one)
    with Some show ?thesis by (blast intro: step)
  qed
qed

end

lemma ring_nonempty: "ring_inv s \<Longrightarrow> SPI_IsFifoEmpty s \<longleftrightarrow> ring_items s = []"
  using ring_count_0 [of s] length_0_conv [of "ring_items s"] by (auto simp: SPI_IsFifoEmpty_def)

lemma ring_hd:
  assumes "ring_inv s" "ring_items s \<noteq> []"
  shows "hd (ring_items s) = SPI_Receive_Buffer s ! SPI_FIFO_Start s"
    "ring_items (SPI_DequeueFullBuf s) = tl (ring_items s)"
proof -
  have "ring_count s \<noteq> 0" using assms(2) by (simp add: ring_items_def ring_slots_def)
  from ring_dequeue [OF assms(1) this]
  show "hd (ring_items s) = SPI_Receive_Buffer s ! SPI_FIFO_Start s"
    "ring_items (SPI_DequeueFullBuf s) = tl (ring_items s)"
    by (simp_all add: ring_items_def)
qed

interpretation spi_fifo: message_queue ring_inv ring_items SPI_PeekFullBuf SPI_DequeueFullBuf
proof
  fix s m
  assume s: "ring_inv s"
  show "ring_items s \<noteq> [] \<and> m = hd (ring_items s)" if "SPI_PeekFullBuf s = Some m"
    using that ring_nonempty [OF s] ring_hd(1) [OF s] by (auto simp: SPI_PeekFullBuf_def split: if_splits)
  show "ring_inv (SPI_DequeueFullBuf s) \<and> ring_items (SPI_DequeueFullBuf s) = tl (ring_items s)"
    if "ring_items s \<noteq> []"
    using that ring_hd(2) [OF s] ring_dequeue(1) [OF s] length_0_conv [of "ring_items s"] by auto
qed

lemma almost_full_count:
  assumes "ring_inv s" "SPI_Wait_Buf s = None"
  shows "SPI_IsFifoAlmostFull s \<longleftrightarrow> SPI_RX_FIFO_SIZE - SPI_RX_FIFO_RESV \<le> ring_count s"
proof -
  have "SPI_FIFO_Start s \<in> {0, 1, 2, 3, 4, 5, 6}" "SPI_FIFO_End s \<in> {0, 1, 2, 3, 4, 5, 6}"
    using assms(1) by (auto simp: ring_inv_def)
  moreover have "[1..<SPI_RX_FIFO_RESV + 1] = [1, 2, 3, 4]" by (simp add: upt_rec)
  ultimately show ?thesis
    using assms(2) unfolding ring_count_eq [OF assms(1)] SPI_IsFifoAlmostFull_def
    by (cases "SPI_FIFO_Full s") (elim insertE; simp)+
qed

text \<open>
  C27: The receive FIFO of the SPI driver is a queue of at most seven messages. A free buffer is
  found exactly when fewer than seven are in use, and the message received there is behind all
  others; peeking shows the oldest message unless it is the only one and still being received, and
  dequeueing removes it; full and empty are never confused; without a synchronous request it is
  almost full from three messages on, so that four places are kept for messages that arrive with
  requests.
\<close>

theorem spi_fifo_is_queue:
  assumes "ring_inv s"
  shows "(case SPI_GetFreeBuf s of (rx, s') \<Rightarrow>
            if length (ring_items s) < 7
            then \<exists>i. rx = Rx_fifo i \<and> ring_inv s' \<and> ring_items s' = ring_items s @ [SPI_Receive_Buffer s ! i] \<and>
                 waterMark s' = waterMark s + 1
            else rx = Rx_none \<and> s' = s) \<and>
         (case SPI_PeekFullBuf s of
            Some m \<Rightarrow> ring_items s \<noteq> [] \<and> m = hd (ring_items s)
          | None \<Rightarrow> ring_items s = [] \<or> (length (ring_items s) = 1 \<and> ExchangeInProgress s)) \<and>
         ring_inv (SPI_DequeueFullBuf s) \<and> ring_items (SPI_DequeueFullBuf s) = tl (ring_items s) \<and>
         (SPI_IsFifoEmpty s \<longleftrightarrow> ring_items s = []) \<and> (SPI_IsFifoFull s \<longleftrightarrow> length (ring_items s) = 7) \<and>
         (SPI_Wait_Buf s = None \<longrightarrow> (SPI_IsFifoAlmostFull s \<longleftrightarrow> 3 \<le> length (ring_items s)))"
proof -
  have alloc: "case SPI_GetFreeBuf s of (rx, s') \<Rightarrow>
            if length (ring_items s) < 7
            then \<exists>i. rx = Rx_fifo i \<and> ring_inv s' \<and> ring_items s' = ring_items s @ [SPI_Receive_Buffer s ! i] \<and>
                 waterMark s' = waterMark s + 1
            else rx = Rx_none \<and> s' = s"
  proof (cases "ring_count s < 7")
    case True
    obtain rx s' where g: "SPI_GetFreeBuf s = (rx, s')" by fastforce
    have "waterMark s' = waterMark s + 1"
      using g True ring_count_full [OF assms]
      by (auto simp: SPI_GetFreeBuf_def SPI_IncrementWaterMark_def Let_def split: if_splits)
    with ring_alloc [OF assms _ g] True g show ?thesis by (simp add: ring_items_def)
  next
    case False
    then have "SPI_FIFO_Full s" using ring_count_full [OF assms] ring_count_le [of s] by simp
    with False show ?thesis by (simp add: SPI_GetFreeBuf_def)
  qed
  have peek: "case SPI_PeekFullBuf s of
            Some m \<Rightarrow> ring_items s \<noteq> [] \<and> m = hd (ring_items s)
          | None \<Rightarrow> ring_items s = [] \<or> (length (ring_items s) = 1 \<and> ExchangeInProgress s)"
    using spi_fifo.peek_head [OF assms] ring_nonempty [OF assms] ring_count_1 [OF assms]
    by (auto simp: SPI_PeekFullBuf_def SPI_IsSingleFifoBufInUse_def split: option.split)
  have deq: "ring_inv (SPI_DequeueFullBuf s) \<and> ring_items (SPI_DequeueFullBuf s) = tl (ring_items s)"
  proof (cases "ring_items s = []")
    case True
    then show ?thesis using assms ring_nonempty [OF assms] by (simp add: SPI_DequeueFullBuf_def)
  qed (rule spi_fifo.dequeue_tail [OF assms])
  show ?thesis
    using alloc peek deq ring_nonempty [OF assms] ring_count_full [OF assms] almost_full_count [OF assms]
    by (simp add: SPI_IsFifoFull_def)
qed

lemma ring_inv_reset: "ring_inv spi_reset"
  by (simp add: ring_inv_def spi_reset_def)

theorem spi_fifo_is_queue_witness:
  "SPI_IsFifoEmpty spi_reset \<and> ring_items (SPI_DequeueFullBuf spi_reset) = []"
  using spi_fifo_is_queue [OF ring_inv_reset] by (auto simp: SPI_IsFifoEmpty_def spi_reset_def)

subsection \<open>Initialisation\<close>

text \<open>\<open>SPI_Initialise\<close> does not empty a full FIFO: the full flag survives, so the driver finds no
  free buffer, and the dispatcher is handed seven messages of idle octets.
\<close>

lemma SPI_Initialise_keeps_full:
  assumes "SPI_FIFO_Full s"
  shows "fst (SPI_GetFreeBuf (SPI_Initialise s)) = Rx_none \<and> length (ring_items (SPI_Initialise s)) = 7 \<and>
         SPI_PeekFullBuf (SPI_Initialise s) =
           Some \<lparr>CommandId = SPI_IDLE, Length = 0xFF, PData = replicate 254 0xFF\<rparr>"
  using assms
  by (simp add: SPI_GetFreeBuf_def SPI_Initialise_def ring_count_def SPI_PeekFullBuf_def SPI_IsFifoEmpty_def
      SPI_IsSingleFifoBufInUse_def)

subsection \<open>Waiting for the radio\<close>

lemma wait_slave_loop_returns:
  assumes "\<not> absolute_time B (((\<lambda>w. snd (poll_slave B w)) ^^ k) w) - t < SPI_T_TIMEOUT"
  shows "\<exists>err w'. wait_slave_loop B t w = Some (err, w') \<and>
           (err = CA_ERROR_SUCCESS \<and> \<not> sense_rfirq B w' \<or> err = CA_ERROR_SPI_WAIT_TIMEOUT)"
  using assms
proof (induction k arbitrary: w)
  case 0
  then show ?case
    by (subst wait_slave_loop.simps) (auto simp: poll_slave_def Let_def split: if_splits)
next
  case (Suc k)
  then have "\<exists>err w'. wait_slave_loop B t (snd (poll_slave B w)) = Some (err, w') \<and>
      (err = CA_ERROR_SUCCESS \<and> \<not> sense_rfirq B w' \<or> err = CA_ERROR_SPI_WAIT_TIMEOUT)"
    using Suc.IH [of "snd (poll_slave B w)"] Suc.prems by (simp only: funpow_Suc_right o_apply simp_thms)
  then show ?case
    by (subst wait_slave_loop.simps) (auto simp: poll_slave_def Let_def split: if_splits)
qed

text \<open>
  C29: The wait for the radio ends: if the clock gets 500 ms past the start of the wait after some
  number of polls, whatever the interrupt line does, \<open>SPI_WaitSlave\<close> returns, with success and the
  line low, or with a time-out.
\<close>

theorem SPI_WaitSlave_returns:
  assumes "v \<noteq> CA8210"
    and "\<not> absolute_time B (((\<lambda>w. snd (poll_slave B w)) ^^ k) w) - absolute_time B w < SPI_T_TIMEOUT"
  shows "\<exists>err w'. SPI_WaitSlave v B w = Some (err, w') \<and>
           (err = CA_ERROR_SUCCESS \<and> \<not> sense_rfirq B w' \<or> err = CA_ERROR_SPI_WAIT_TIMEOUT)"
  using wait_slave_loop_returns [OF assms(2)] assms(1) by (simp add: SPI_WaitSlave_def)

text \<open>A board for examples: the octets the radio will send, the octets that were sent to it, and a
  clock that runs with every wait; the interrupt line is low while the radio has something to send.\<close>

definition script_board :: "(bytes \<times> bytes \<times> u32) bsp" where
  "script_board =
     \<lparr>transfer = (\<lambda>mosi (script, log, now).
        (take (length mosi) (script @ replicate (length mosi) 0xFF), (drop (length mosi) script, log @ mosi, now))),
      sense_rfirq = (\<lambda>(script, log, now). script = []),
      absolute_time = (\<lambda>(script, log, now). now),
      wait_us = (\<lambda>us (script, log, now). (script, log, now + us)),
      set_ssb = (\<lambda>_ w. w), wait_tick = (\<lambda>(script, log, now). (script, log, now + 1)),
      interrupts = (\<lambda>s w. (s, w))\<rparr>"

theorem SPI_WaitSlave_returns_witness:
  "\<exists>err w'. SPI_WaitSlave CA8211 script_board ([], [], 0) = Some (err, w') \<and>
     (err = CA_ERROR_SUCCESS \<and> \<not> sense_rfirq script_board w' \<or> err = CA_ERROR_SPI_WAIT_TIMEOUT)"
proof (rule SPI_WaitSlave_returns [where k = 50])
  have "((\<lambda>w. snd (poll_slave script_board w)) ^^ k) ([], [], t) = ([], [], t + 10 * of_nat k)" for k t
    by (induction k arbitrary: t) (simp_all add: poll_slave_def script_board_def funpow_swap1 algebra_simps)
  then show "\<not> absolute_time script_board (((\<lambda>w. snd (poll_slave script_board w)) ^^ 50) ([], [], 0)) -
      absolute_time script_board ([], [], 0) < SPI_T_TIMEOUT"
    by (simp add: script_board_def)
qed simp

subsection \<open>Synchronous requests\<close>

lemma sync_wait_loop_response:
  "sync_wait_loop B r t s w = Some y \<Longrightarrow>
     fst y = CA_ERROR_SUCCESS \<and> map_option CommandId (SPI_Wait_Buf (fst (snd y))) = Some r \<or>
     fst y = CA_ERROR_SPI_WAIT_TIMEOUT"
proof (erule sync_wait_loop.raw_induct [rotated])
  fix loop B r t s w y
  assume *: "\<And>B r t s w y. loop B r t s w = Some y \<Longrightarrow>
       fst y = CA_ERROR_SUCCESS \<and> map_option CommandId (SPI_Wait_Buf (fst (snd y))) = Some r \<or>
       fst y = CA_ERROR_SPI_WAIT_TIMEOUT"
    and "(if map_option CommandId (SPI_Wait_Buf s) = Some r \<and> \<not> ExchangeInProgress s
          then Some (CA_ERROR_SUCCESS, s, w)
          else (case interrupts B s (wait_tick B w) of
              (s1, w1) \<Rightarrow>
                if absolute_time B w1 - t < SPI_T_TIMEOUT then loop B r t s1 w1
                else Some (CA_ERROR_SPI_WAIT_TIMEOUT, s1, w1))) = Some y"
  then show "fst y = CA_ERROR_SUCCESS \<and> map_option CommandId (SPI_Wait_Buf (fst (snd y))) = Some r \<or>
       fst y = CA_ERROR_SPI_WAIT_TIMEOUT"
    by (auto split: if_splits prod.splits dest: *)
qed

lemma SPI_SyncWait_response:
  assumes "SPI_SyncWait v B c s w = Some (err, resp, s', w')"
  shows "if ca821x_get_sync_response_id v c = 0
         then err = CA_ERROR_INVALID_ARGS \<and> resp = SPI_Wait_Buf s \<and> s' = s
         else SPI_Wait_Buf s' = None \<and>
              (err = CA_ERROR_SUCCESS \<and> map_option CommandId resp = Some (ca821x_get_sync_response_id v c) \<or>
               err = CA_ERROR_SPI_WAIT_TIMEOUT)"
  using assms
  by (auto simp: SPI_SyncWait_def Let_def bind_eq_Some_conv split: if_splits dest!: sync_wait_loop_response)

text \<open>
  A radio that does not say an octet: no transfer returns it, and the interrupt handlers that run during
  a wait do not put a message with this id into the buffer that the driver waits on.
\<close>

definition wait_id :: "spi \<Rightarrow> u8 option" where
  "wait_id s = map_option CommandId (SPI_Wait_Buf s)"

definition never_says :: "'w bsp \<Rightarrow> u8 \<Rightarrow> bool" where
  "never_says B x \<longleftrightarrow>
     (\<forall>tx w. length (fst (transfer B tx w)) = length tx \<and> x \<notin> set (fst (transfer B tx w))) \<and>
     (\<forall>s w. wait_id s \<noteq> Some x \<longrightarrow> wait_id (fst (interrupts B s w)) \<noteq> Some x)"

lemma wait_id_simps [simp]:
  "wait_id (s\<lparr>in_flight := i\<rparr>) = wait_id s" "wait_id (s\<lparr>FinalExchange := b\<rparr>) = wait_id s"
  "wait_id (s\<lparr>ExchangeInProgress := b\<rparr>) = wait_id s" "wait_id (s\<lparr>syncChainInFlight := b\<rparr>) = wait_id s"
  by (simp_all add: wait_id_def)

lemma update_buf_wait_id:
  "(\<And>m. CommandId (f m) = CommandId m) \<Longrightarrow> wait_id (update_buf t f s) = wait_id s"
  by (cases t) (simp_all add: wait_id_def option.map_comp comp_def)

lemma update_buf_wait_id_fields [simp]:
  "wait_id (update_buf t (put_payload d) s) = wait_id s" "wait_id (update_buf t (Length_update f) s) = wait_id s"
  by (rule update_buf_wait_id; simp add: put_payload_def)+

lemma SPI_ExchangeComplete_wait_id [simp]: "wait_id (fst (SPI_ExchangeComplete B s w)) = wait_id s"
  by (simp add: SPI_ExchangeComplete_def Let_def)

lemma never_says_exchange:
  "never_says B x \<Longrightarrow> BSP_SPIExchange B tx n w = (data, w') \<Longrightarrow> x \<notin> set data \<and> length data = n"
  by (auto simp: never_says_def BSP_SPIExchange_def Let_def case_prod_beta min_def dest: in_set_takeD)

lemma never_says_blocking:
  assumes "never_says B x" "SPI_ExchangeBlocking B tx n s w = Some (data, s', w')"
  shows "x \<notin> set data" "length data = n" "wait_id s' = wait_id s"
proof -
  obtain w1 where e: "BSP_SPIExchange B tx n w = (data, w1)"
    and s': "s' = fst (SPI_ExchangeComplete B (s\<lparr>ExchangeInProgress := True\<rparr>) w1)"
    using assms(2) by (cases "BSP_SPIExchange B tx n w") (auto simp: SPI_ExchangeBlocking_def Let_def split: if_splits prod.splits)
  from never_says_exchange [OF assms(1) e] s' show "x \<notin> set data" "length data = n" "wait_id s' = wait_id s"
    by simp_all
qed

lemma finish_transfer_wait_id [simp]: "wait_id (fst (finish_transfer B s w)) = wait_id s"
  by (simp add: finish_transfer_def case_prod_beta Let_def split: option.split)

lemma await_exchange_wait_id: "await_exchange B s w = Some (s', w') \<Longrightarrow> wait_id s' = wait_id s"
  by (auto simp: await_exchange_def split: if_splits prod.splits) (metis finish_transfer_wait_id fst_conv)

lemma nack_loop_never_says:
  assumes "never_says B x"
  shows "nack_loop B t n tx s w = Some y \<Longrightarrow>
    x \<notin> set (fst (snd y)) \<and> length (fst (snd y)) = 2 \<and> wait_id (fst (snd (snd y))) = wait_id s"
proof -
  let ?P = "\<lambda>B' t n tx s w y. B' = B \<longrightarrow>
    x \<notin> set (fst (snd y)) \<and> length (fst (snd y)) = 2 \<and> wait_id (fst (snd (snd y))) = wait_id s"
  have "nack_loop B' t n tx s w = Some y \<Longrightarrow> ?P B' t n tx s w y" for B' t n tx s w y
  proof (erule nack_loop.raw_induct [rotated])
    fix loop B' t n tx s w y
    assume IH: "\<And>B' t n tx s w y. loop B' t n tx s w = Some y \<Longrightarrow> ?P B' t n tx s w y"
      and body: "(case SPI_ExchangeBlocking B' tx 2 s (set_ssb B' False w) of None \<Rightarrow> None
        | Some (r, s1, w1) \<Rightarrow> if r ! 1 \<noteq> SPI_NACK then Some (n, r, s1, w1)
            else (let w2 = wait_us B' SPI_T_BACKOFF (set_ssb B' True w1); now = absolute_time B' w2
                  in if now - t < SPI_T_TIMEOUT then loop B' t now tx s1 w2 else Some (now, r, s1, w2))) = Some y"
    show "?P B' t n tx s w y"
    proof
      assume B: "B' = B"
      obtain r s1 w1 where e: "SPI_ExchangeBlocking B tx 2 s (set_ssb B False w) = Some (r, s1, w1)"
        using body B by (auto split: option.splits)
      note d = never_says_blocking [OF assms e]
      show "x \<notin> set (fst (snd y)) \<and> length (fst (snd y)) = 2 \<and> wait_id (fst (snd (snd y))) = wait_id s"
        using body B e d by (auto simp: Let_def split: if_splits dest!: IH)
    qed
  qed
  then show "nack_loop B t n tx s w = Some y \<Longrightarrow>
      x \<notin> set (fst (snd y)) \<and> length (fst (snd y)) = 2 \<and> wait_id (fst (snd (snd y))) = wait_id s"
    by blast
qed

lemma first2_never_says:
  assumes "never_says B x" "SPI_GetFirst2Bytes v B tx s w = Some (e, r, s', w')"
  shows "x \<notin> set r" "length r = 2" "wait_id s' = wait_id s"
  using assms(2) by (auto simp: SPI_GetFirst2Bytes_def Let_def bind_eq_Some_conv split: if_splits
      dest: nack_loop_never_says [OF assms(1)] never_says_blocking [OF assms(1)])

lemma align_never_says:
  assumes "never_says B x" "SPI_CA8210_Align v B r tx s w = Some (k, r', s', w')" "x \<notin> set r" "length r = 2"
  shows "x \<notin> set r'" "length r' = 2" "wait_id s' = wait_id s"
proof -
  have r1: "r ! 1 \<noteq> x"
    using assms(3,4) nth_mem [of 1 r] by auto
  show "x \<notin> set r'" "length r' = 2" "wait_id s' = wait_id s"
  proof (atomize (full), cases "v = CA8210 \<and> r ! 0 AND 0x80 \<noteq> 0 \<and> r ! 1 AND 0x80 = 0")
    case True
    with assms(2) obtain out b w0 where e: "SPI_ExchangeBlocking B [out] 1 s w = Some (b, s', w0)" and r': "r' = [r ! 1, b ! 0]"
      by (auto simp: SPI_CA8210_Align_def Let_def bind_eq_Some_conv)
    note d = never_says_blocking [OF assms(1) e]
    then have "b ! 0 \<noteq> x"
      using nth_mem [of 0 b] by auto
    with r1 r' d(3) show "x \<notin> set r' \<and> length r' = 2 \<and> wait_id s' = wait_id s"
      by simp
  next
    case False
    with assms(2-4) show "x \<notin> set r' \<and> length r' = 2 \<and> wait_id s' = wait_id s"
      by (auto simp: SPI_CA8210_Align_def split: if_splits)
  qed
qed

lemma getBuf_wait_id: "c \<noteq> x \<Longrightarrow> wait_id s \<noteq> Some x \<Longrightarrow> wait_id (snd (getBuf c s)) \<noteq> Some x"
  by (auto simp: getBuf_def SPI_GetFreeBuf_def SPI_IncrementWaterMark_def Let_def wait_id_def)

lemma data_phase_wait_id:
  assumes "never_says B x" "data_phase B t tx n s w = Some (s', w')"
  shows "wait_id s' = wait_id s"
  using assms(2) by (auto simp: data_phase_def Let_def bind_eq_Some_conv split: if_splits
      dest!: never_says_blocking(3) [OF assms(1)])

lemma SPI_Exchange_never_says:
  assumes n: "never_says B x" and e: "SPI_Exchange v B tx s w = Some (err, s', w')" and id: "wait_id s \<noteq> Some x"
  shows "wait_id s' \<noteq> Some x"
proof (cases "SPI_FIFO_Full s \<and> SPI_Wait_Buf s \<noteq> None \<and> tx = None")
  case True
  with e id show ?thesis
    by (simp add: SPI_Exchange_def)
next
  case False
  define sync where "sync s1 \<longleftrightarrow> tx = None \<and> \<not> syncChainInFlight s1 \<and> syncChainActive s1" for s1 :: spi
  define tx' where "tx' s1 = (if sync s1 then Some syncChainMessage else tx)" for s1 :: spi
  from e False obtain s1 w1 e1 w2 where 1: "await_exchange B s w = Some (s1, w1)"
    "SPI_WaitSlave v B (set_ssb B True w1) = Some (e1, w2)"
    and r1: "(if e1 \<noteq> CA_ERROR_SUCCESS then Some (e1, s1, w2)
        else do {
          (err, triage, s, w) \<leftarrow> SPI_GetFirst2Bytes v B (tx' s1) s1 w2;
          if err \<noteq> CA_ERROR_SUCCESS then Some (err, s, w)
          else do {
            (AlignMod, triage, s, w) \<leftarrow> SPI_CA8210_Align v B triage (tx' s1) s w;
            let TxLen = (case tx' s1 of None \<Rightarrow> 0 | Some m \<Rightarrow> unat (Length m - of_nat AlignMod));
            let (pRx, s) = getBuf (triage ! 0) s;
            if TxLen = 0 \<and> pRx = Rx_none then Some (CA_ERROR_SUCCESS, s, set_ssb B True w)
            else do {
              let s = update_buf pRx (\<lambda>m. m\<lparr>Length := triage ! 1\<rparr>) s;
              let RxLen = (if pRx = Rx_none then 0 else unat (triage ! 1 - of_nat AlignMod));
              let tx = (case tx' s1 of None \<Rightarrow> [] | Some m \<Rightarrow> take TxLen (PData m));
              (s, w) \<leftarrow> data_phase B pRx tx RxLen s w;
              Some (CA_ERROR_SUCCESS, if sync s1 then s\<lparr>syncChainInFlight := True\<rparr> else s, w)
            }
          }
        }) = Some (err, s', w')"
    unfolding SPI_Exchange_def if_not_P [OF False] Let_def sync_def tx'_def
    by (simp only: bind_eq_Some_conv split_paired_Ex case_prod_conv) blast
  have id1: "wait_id s1 \<noteq> Some x"
    using await_exchange_wait_id [OF 1(1)] id by simp
  show ?thesis
  proof (cases "e1 = CA_ERROR_SUCCESS")
    case False
    with r1 id1 show ?thesis
      by simp
  next
    case e1: True
    with r1 obtain e2 t2 s2 w3 where 2: "SPI_GetFirst2Bytes v B (tx' s1) s1 w2 = Some (e2, t2, s2, w3)"
      by (auto simp: bind_eq_Some_conv)
    note f = first2_never_says [OF n 2]
    show ?thesis
    proof (cases "e2 = CA_ERROR_SUCCESS")
      case False
      with r1 e1 2 f id1 show ?thesis
        by simp
    next
      case True
      with r1 e1 2 obtain k t3 s3 w4 where 3: "SPI_CA8210_Align v B t2 (tx' s1) s2 w3 = Some (k, t3, s3, w4)"
        by (auto simp: bind_eq_Some_conv)
      note g = align_never_says [OF n 3 f(1,2)]
      then have "t3 ! 0 \<noteq> x"
        using nth_mem [of 0 t3] by auto
      obtain rx s4 where 4: "getBuf (t3 ! 0) s3 = (rx, s4)"
        by fastforce
      have id4: "wait_id s4 \<noteq> Some x"
        using getBuf_wait_id [OF \<open>t3 ! 0 \<noteq> x\<close>, of s3] g(3) f(3) id1 4 by simp
      from r1 e1 True 2 3 4 show ?thesis
        using id4 by (auto simp: Let_def bind_eq_Some_conv split: if_splits dest!: data_phase_wait_id [OF n])
    qed
  qed
qed

lemma sync_wait_never_says:
  assumes "never_says B x"
  shows "sync_wait_loop B x t s w = Some y \<Longrightarrow> wait_id s \<noteq> Some x \<Longrightarrow> fst y \<noteq> CA_ERROR_SUCCESS"
proof -
  let ?P = "\<lambda>B' r t s w y. B' = B \<longrightarrow> r = x \<longrightarrow> wait_id s \<noteq> Some x \<longrightarrow> fst y \<noteq> CA_ERROR_SUCCESS"
  have "sync_wait_loop B' r t s w = Some y \<Longrightarrow> ?P B' r t s w y" for B' r t s w y
  proof (erule sync_wait_loop.raw_induct [rotated])
    fix loop B' r t s w y
    assume IH: "\<And>B' r t s w y. loop B' r t s w = Some y \<Longrightarrow> ?P B' r t s w y"
      and body: "(if map_option CommandId (SPI_Wait_Buf s) = Some r \<and> \<not> ExchangeInProgress s
          then Some (CA_ERROR_SUCCESS, s, w)
          else (case interrupts B' s (wait_tick B' w) of
              (s1, w1) \<Rightarrow>
                if absolute_time B' w1 - t < SPI_T_TIMEOUT then loop B' r t s1 w1
                else Some (CA_ERROR_SPI_WAIT_TIMEOUT, s1, w1))) = Some y"
    show "?P B' r t s w y"
    proof (intro impI)
      assume *: "B' = B" "r = x" "wait_id s \<noteq> Some x"
      then have "wait_id (fst (interrupts B s (wait_tick B w))) \<noteq> Some x"
        using assms by (simp add: never_says_def)
      with body * show "fst y \<noteq> CA_ERROR_SUCCESS"
        by (auto simp: wait_id_def [symmetric] split: if_splits prod.splits dest!: IH)
    qed
  qed
  then show "sync_wait_loop B x t s w = Some y \<Longrightarrow> wait_id s \<noteq> Some x \<Longrightarrow> fst y \<noteq> CA_ERROR_SUCCESS"
    by blast
qed

lemma response_id_not_idle: "ca821x_get_sync_response_id v c \<noteq> SPI_IDLE"
  unfolding ca821x_get_sync_response_id_def by (cases v) (simp_all split: if_split)

text \<open>
  C28: A synchronous request that succeeds has its own response: the buffer of the caller holds a
  message whose id is the one assigned to the request, and this message came from the radio during the call: if
  no transfer returns an octet of that value and no interrupt handler puts such a message into the buffer,
  the request does not succeed, whatever the buffer of the caller held before. Whatever the outcome, the driver has let go of
  the buffer when the request has a response id. For an id without one, which is looked up only
  after the request has been sent, the driver reports invalid arguments and keeps the pointer to the
  caller's buffer.
\<close>

theorem SPI_Send_own_response:
  assumes "SPI_Send v B buf (Some r0) s w = Some (err, resp, s', w')"
    and "CommandId buf AND SPI_SYN \<noteq> 0" "CommandId buf \<noteq> SPI_IDLE"
  shows "if ca821x_get_sync_response_id v (CommandId buf) \<noteq> 0
         then SPI_Wait_Buf s' = None \<and>
              (err = CA_ERROR_SUCCESS \<longrightarrow>
                 map_option CommandId resp = Some (ca821x_get_sync_response_id v (CommandId buf))) \<and>
              (never_says B (ca821x_get_sync_response_id v (CommandId buf)) \<longrightarrow> err \<noteq> CA_ERROR_SUCCESS)
         else err \<noteq> CA_ERROR_SUCCESS \<and> (SPI_Wait_Buf s' = None \<or> err = CA_ERROR_INVALID_ARGS \<and> SPI_Wait_Buf s' = resp)"
proof -
  let ?s0 = "s\<lparr>SPI_Wait_Buf := Some (r0\<lparr>CommandId := SPI_IDLE\<rparr>)\<rparr>"
  let ?x = "ca821x_get_sync_response_id v (CommandId buf)"
  obtain e1 s1 w1 where x: "SPI_Exchange v B (Some buf) ?s0 w = Some (e1, s1, w1)"
    and r: "(if e1 \<noteq> CA_ERROR_SUCCESS then Some (e1, SPI_Wait_Buf s1, s1\<lparr>SPI_Wait_Buf := None\<rparr>, set_ssb B True w1)
            else do {
              (Status, resp, s, w) \<leftarrow> SPI_SyncWait v B (CommandId buf) s1 w1;
              Some (Status, resp, s, if Status \<noteq> CA_ERROR_SUCCESS then set_ssb B True w else w)
            }) = Some (err, resp, s', w')"
    using assms by (auto simp: SPI_Send_def Let_def bind_eq_Some_conv cong: if_cong)
  show ?thesis
  proof (cases "e1 = CA_ERROR_SUCCESS")
    case True
    with r obtain w2 where y: "SPI_SyncWait v B (CommandId buf) s1 w1 = Some (err, resp, s', w2)"
      by (auto simp: bind_eq_Some_conv)
    have "err \<noteq> CA_ERROR_SUCCESS" if n: "never_says B ?x" and nz: "?x \<noteq> 0"
    proof -
      have "wait_id ?s0 \<noteq> Some ?x"
        using response_id_not_idle [of v "CommandId buf"] by (auto simp: wait_id_def)
      from SPI_Exchange_never_says [OF n x this] have "wait_id s1 \<noteq> Some ?x" .
      moreover obtain s2 where "sync_wait_loop B ?x (absolute_time B w1) s1 w1 = Some (err, s2, w2)"
        using y nz by (auto simp: SPI_SyncWait_def Let_def bind_eq_Some_conv)
      ultimately show ?thesis
        using sync_wait_never_says [OF n] by fastforce
    qed
    with SPI_SyncWait_response [OF y] show ?thesis by (auto split: if_splits)
  qed (use r in auto)
qed

text \<open>A request for an attribute and the confirm that the radio clocks out with it.\<close>

definition get_request :: mac_msg where
  "get_request = \<lparr>CommandId = SPI_MLME_GET_REQUEST, Length = 2, PData = [0x40, 0]\<rparr>"

definition confirm_octets :: bytes where
  "confirm_octets = [SPI_MLME_GET_CONFIRM, 5, 0, 0x40, 0, 1, 7]"

definition response_buffer :: mac_msg where
  "response_buffer = \<lparr>CommandId = 0, Length = 0, PData = replicate 5 0\<rparr>"

text \<open>The same board with a radio that says nothing.\<close>

definition mute_board :: "(bytes \<times> bytes \<times> u32) bsp" where
  "mute_board = script_board
     \<lparr>transfer := (\<lambda>mosi w. (replicate (length mosi) 0xFF, w)), sense_rfirq := (\<lambda>_. False)\<rparr>"

theorem SPI_Send_own_response_witness:
  "(case SPI_Send CA8211 script_board get_request (Some response_buffer) spi_reset (confirm_octets, [], 0) of
     None \<Rightarrow> False
   | Some (err, resp, s, w) \<Rightarrow> err = CA_ERROR_SUCCESS \<and> map_option PData resp = Some [0, 0x40, 0, 1, 7] \<and>
       map_option CommandId resp = Some SPI_MLME_GET_CONFIRM \<and> SPI_Wait_Buf s = None) \<and>
   (case SPI_Send CA8211 mute_board get_request (Some (response_buffer\<lparr>CommandId := SPI_MLME_GET_CONFIRM\<rparr>)) spi_reset ([], [], 0) of
     None \<Rightarrow> False
   | Some (err, resp, s, w) \<Rightarrow> err \<noteq> CA_ERROR_SUCCESS)"
proof -
  have c: "case SPI_Send CA8211 script_board get_request (Some response_buffer) spi_reset (confirm_octets, [], 0) of
     None \<Rightarrow> False
   | Some (err, resp, s, w) \<Rightarrow> err = CA_ERROR_SUCCESS \<and> map_option PData resp = Some [0, 0x40, 0, 1, 7]"
    by code_simp
  then obtain err resp s w where r: "SPI_Send CA8211 script_board get_request (Some response_buffer) spi_reset
      (confirm_octets, [], 0) = Some (err, resp, s, w)"
    and e: "err = CA_ERROR_SUCCESS" "map_option PData resp = Some [0, 0x40, 0, 1, 7]"
    by (auto split: option.splits)
  have g: "ca821x_get_sync_response_id CA8211 (CommandId get_request) = SPI_MLME_GET_CONFIRM"
    "CommandId get_request AND SPI_SYN \<noteq> 0" "CommandId get_request \<noteq> SPI_IDLE"
    by code_simp+
  have "SPI_Send CA8211 mute_board get_request (Some (response_buffer\<lparr>CommandId := SPI_MLME_GET_CONFIRM\<rparr>)) spi_reset ([], [], 0) \<noteq> None"
    by code_simp
  then obtain err2 resp2 s2 w2 where m: "SPI_Send CA8211 mute_board get_request
      (Some (response_buffer\<lparr>CommandId := SPI_MLME_GET_CONFIRM\<rparr>)) spi_reset ([], [], 0) = Some (err2, resp2, s2, w2)"
    by auto
  have "never_says mute_board SPI_MLME_GET_CONFIRM"
    by (auto simp: never_says_def mute_board_def script_board_def)
  with SPI_Send_own_response [OF r] SPI_Send_own_response [OF m] g e show ?thesis by (simp add: r m)
qed

text \<open>When the CA-8210 starts its message one octet late, the octet that is sent to realign is the
  first of the payload; it is sent again with the rest, and the last one is not sent; nor is the
  last octet of the answer read.\<close>

lemma SPI_misaligned_exchange:
  "map_option (\<lambda>(err, resp, s, w). (err, map_option PData resp, w))
     (SPI_Send CA8210 script_board get_request (Some response_buffer) spi_reset (0xFF # confirm_octets, [], 0)) =
   Some (CA_ERROR_SUCCESS, Some [0, 0x40, 0, 1, 0],
     ([7], [SPI_MLME_GET_REQUEST, 2, 0x40, 0x40, 0xFF, 0xFF, 0xFF], 100))"
  by code_simp

end
