(* ===== verification/DispatchSound.thy ===== *)
theory DispatchSound
  imports Dispatch SpiSound "HOL-Library.Multiset"
begin

text \<open>
  Properties of the dispatcher: the cache of data requests as a multiset of those that are
  outstanding, the power limit on channel 26, the bounded recursion of the way down, the delivery
  of received messages in order, and the wait for a callback; and the dispatcher on top of the SPI
  driver.
\<close>

unbundle bit_operations_syntax

lemma st_upd [simp]: "st (upd f d) = f (st d)"
  by (simp add: st_def upd_def)

lemma upd_fields [simp]:
  "callbacks (upd f d) = callbacks d" "MAC_MPW (upd f d) = MAC_MPW d" "lqi_mode (upd f d) = lqi_mode d"
  "shortaddr (upd f d) = shortaddr d" "extaddr (upd f d) = extaddr d" "blacklist (upd f d) = blacklist d"
  "generic_dispatch (upd f d) = generic_dispatch d"
  by (simp_all add: upd_def)

lemma st_fields [simp]:
  "st (d\<lparr>callbacks := c\<rparr>) = st d" "st (d\<lparr>shortaddr := a\<rparr>) = st d"
  by (simp_all add: st_def)

subsection \<open>The cache of data requests\<close>

text \<open>The requests that are outstanding: active entries, with their handle, kind and whether they
  are indirect.\<close>

definition outstanding :: "MDR_CacheItem list \<Rightarrow> (u8 \<times> MDR_CacheType \<times> bool) multiset" where
  "outstanding c = mset (map (\<lambda>i. (mMsduHandle i, mCacheType i, mIsIndirect i)) (filter mIsCacheActive c))"

lemma outstanding_Cons [simp]:
  "outstanding (i # is) =
     (if mIsCacheActive i then {#(mMsduHandle i, mCacheType i, mIsIndirect i)#} else {#}) + outstanding is"
  "outstanding [] = {#}"
  by (simp_all add: outstanding_def)

lemma size_outstanding_le: "size (outstanding c) \<le> length c"
  by (induction c) auto

lemma size_outstanding_full: "size (outstanding c) = length c \<longleftrightarrow> list_all mIsCacheActive c"
proof (induction c)
  case (Cons i c)
  then show ?case using size_outstanding_le [of c] by auto
qed simp

lemma CacheAddItem_outstanding:
  "CacheAddItem h ind t c = (e, c') \<Longrightarrow> length c' = length c \<and>
     (if size (outstanding c) < length c
      then e = CA_ERROR_SUCCESS \<and> outstanding c' = add_mset (h, t, ind) (outstanding c)
      else e = CA_ERROR_NO_BUFFER \<and> c' = c)"
proof (induction c arbitrary: c')
  case (Cons i c)
  then show ?case using size_outstanding_le [of c] by (auto split: if_splits prod.splits)
qed simp

lemma CacheRemoveItem_outstanding:
  "CacheRemoveItem h t c = (e, c') \<Longrightarrow> length c' = length c \<and>
     (if \<exists>ind. (h, t, ind) \<in># outstanding c
      then e = CA_ERROR_SUCCESS \<and> (\<exists>ind. outstanding c = add_mset (h, t, ind) (outstanding c'))
      else e = CA_ERROR_NOT_FOUND \<and> c' = c)"
proof (induction c arbitrary: c')
  case (Cons i c)
  then show ?case by (auto split: if_splits prod.splits)
qed simp

lemma decay_items_outstanding:
  "decay_items delta c = (late, c') \<Longrightarrow> length c' = length c \<and> outstanding c' = outstanding c"
  by (induction c arbitrary: c') (auto split: if_splits prod.splits)

lemma decay_items_late:
  "fst (decay_items delta c) \<longleftrightarrow>
     (\<exists>i \<in> set c. mIsCacheActive i \<and> \<not> mIsIndirect i \<and> ucast (mTimeout i) < delta)"
  by (induction c) (auto split: prod.splits)

lemma CacheIsIndirectActive_outstanding:
  "CacheIsIndirectActive c \<longleftrightarrow> (\<exists>h t. (h, t, True) \<in># outstanding c)"
  by (induction c) (auto simp: CacheIsIndirectActive_def)

text \<open>
  C11: The cache holds the data requests that are outstanding, at most fifteen. Adding records the
  request while fewer are outstanding and drops it otherwise; a confirm removes one request of its
  handle and kind, if there is one; counting down loses none; and the test for indirect requests is
  exact.
\<close>

theorem data_cache_is_multiset:
  assumes "length c = MDR_CacheSize"
  shows "(case CacheAddItem h ind t c of (e, c') \<Rightarrow> length c' = MDR_CacheSize \<and>
            (if size (outstanding c) < 15
             then e = CA_ERROR_SUCCESS \<and> outstanding c' = add_mset (h, t, ind) (outstanding c)
             else e = CA_ERROR_NO_BUFFER \<and> c' = c)) \<and>
         (case CacheRemoveItem h t c of (e, c') \<Rightarrow> length c' = MDR_CacheSize \<and>
            (if \<exists>ind. (h, t, ind) \<in># outstanding c
             then e = CA_ERROR_SUCCESS \<and> (\<exists>ind. outstanding c = add_mset (h, t, ind) (outstanding c'))
             else e = CA_ERROR_NOT_FOUND \<and> c' = c)) \<and>
         (case decay_items delta c of (late, c') \<Rightarrow> length c' = MDR_CacheSize \<and> outstanding c' = outstanding c) \<and>
         (CacheIsIndirectActive c \<longleftrightarrow> (\<exists>h t. (h, t, True) \<in># outstanding c))"
proof (intro conjI)
  show "case CacheAddItem h ind t c of (e, c') \<Rightarrow> length c' = MDR_CacheSize \<and>
            (if size (outstanding c) < 15
             then e = CA_ERROR_SUCCESS \<and> outstanding c' = add_mset (h, t, ind) (outstanding c)
             else e = CA_ERROR_NO_BUFFER \<and> c' = c)"
    by (cases "CacheAddItem h ind t c") (simp only: prod.case, rule CacheAddItem_outstanding [of h ind t c, unfolded assms], assumption)
  show "case CacheRemoveItem h t c of (e, c') \<Rightarrow> length c' = MDR_CacheSize \<and>
            (if \<exists>ind. (h, t, ind) \<in># outstanding c
             then e = CA_ERROR_SUCCESS \<and> (\<exists>ind. outstanding c = add_mset (h, t, ind) (outstanding c'))
             else e = CA_ERROR_NOT_FOUND \<and> c' = c)"
    by (cases "CacheRemoveItem h t c") (simp only: prod.case, rule CacheRemoveItem_outstanding [of h t c, unfolded assms], assumption)
  show "case decay_items delta c of (late, c') \<Rightarrow> length c' = MDR_CacheSize \<and> outstanding c' = outstanding c"
    using decay_items_outstanding [of delta c] by (cases "decay_items delta c") (simp only: assms prod.case simp_thms)
qed (rule CacheIsIndirectActive_outstanding)

theorem data_cache_is_multiset_witness:
  "case CacheRemoveItem 7 MDR_CacheTypeMCPS (MDR_Cache (bm_reset ())) of (e, c') \<Rightarrow> e = CA_ERROR_NOT_FOUND"
  using data_cache_is_multiset [of "MDR_Cache (bm_reset ())" 7 MDR_CacheTypeMCPS]
  by (auto simp: bm_reset_def outstanding_def split: if_splits)

text \<open>
  The age of a request is not counted from when it was made but from when the cache was last
  counted down: a direct request that enters an otherwise empty cache makes the next count report a
  time-out, and with it a flush of the radio, exactly when more than 500 ms have passed since the
  count before, however short ago the request was made.
\<close>

theorem CacheDecay_ages_from_last_count:
  assumes "outstanding (MDR_Cache s) = {#}" "MDR_Cache s \<noteq> []" "\<not> isCacheFlushFixActive s"
  shows "fst (CacheDecay t (s\<lparr>MDR_Cache := snd (CacheAddItem h False k (MDR_Cache s))\<rparr>)) = CA_ERROR_TIMEOUT \<longleftrightarrow>
         500 < t - prevTime s"
proof -
  have inactive: "\<not> mIsCacheActive i" if "i \<in> set (MDR_Cache s)" for i
    using assms(1) that by (auto simp: outstanding_def filter_empty_conv)
  obtain i cs where c: "MDR_Cache s = i # cs" using assms(2) by (cases "MDR_Cache s") auto
  then have "snd (CacheAddItem h False k (MDR_Cache s)) =
      i\<lparr>mIsCacheActive := True, mIsIndirect := False, mMsduHandle := h, mCacheType := k, mTimeout := 500\<rparr> # cs"
    using inactive [of i] by simp
  moreover have "fst (decay_items (t - prevTime s) (snd (CacheAddItem h False k (MDR_Cache s)))) \<longleftrightarrow>
      500 < t - prevTime s"
    unfolding decay_items_late calculation using c inactive by auto
  ultimately show ?thesis
    using assms(3) by (auto simp: CacheDecay_def Let_def split: prod.splits bool.splits)
qed


theorem CacheDecay_ages_from_last_count_witness:
  "fst (CacheDecay 600 ((bm_reset ())\<lparr>MDR_Cache := snd (CacheAddItem 7 False MDR_CacheTypeMCPS (MDR_Cache (bm_reset ())))\<rparr>)) =
     CA_ERROR_TIMEOUT"
  using CacheDecay_ages_from_last_count [of "bm_reset ()" 600 7 MDR_CacheTypeMCPS]
  by (simp add: bm_reset_def outstanding_def)


subsection \<open>Requests that do not call back\<close>

text \<open>A request is plain when neither check makes a request of its own.\<close>

definition plain :: "('cb, 'w) env \<Rightarrow> mac_msg \<Rightarrow> bool" where
  "plain E buf \<longleftrightarrow>
     CommandId buf \<in> {SPI_TDME_SETSFR_REQUEST, SPI_TDME_GETSFR_REQUEST}"

lemma whole_fields [simp]: "CommandId (whole E m) = CommandId m" "Length (whole E m) = Length m"
  by (simp_all add: whole_def)

lemma whole_nth: "i < length (PData m) \<Longrightarrow> PData (whole E m) ! i = PData m ! i"
  by (simp add: whole_def nth_append)

lemma length_whole: "length (PData (whole E m)) = max (length (PData m)) (length (PData (uninit E)))"
  by (simp add: whole_def)

lemma plain_PreCheck:
  "plain E msg \<Longrightarrow> PreCheckToCA821x E self msg rsp d =
     (if isScanInProgress (st d) then CA_ERROR_SPI_SCAN_IN_PROGRESS else CA_ERROR_SUCCESS, msg, rsp, d)"
  unfolding plain_def PreCheckToCA821x_def CheckSetGet_def CheckPIB_def CheckChannel_def new_channel_def Let_def
  by (elim insertE emptyE) simp_all

text \<open>What follows the answer concerns the cache only.\<close>

definition only_cache :: "('cb, 'w) device \<Rightarrow> ('cb, 'w) device \<Rightarrow> bool" where
  "only_cache d d' \<longleftrightarrow> (\<exists>c. d' = upd (\<lambda>s. s\<lparr>MDR_Cache := c\<rparr>) d) \<or> d' = d"

lemma only_cacheI: "only_cache d (upd (\<lambda>s. s\<lparr>MDR_Cache := f s\<rparr>) d)"
proof -
  have "upd (\<lambda>s. s\<lparr>MDR_Cache := f s\<rparr>) d = upd (\<lambda>s. s\<lparr>MDR_Cache := f (st d)\<rparr>) d" by (simp add: upd_def)
  then show ?thesis unfolding only_cache_def by blast
qed

lemma only_cache_trans: "only_cache d d' \<Longrightarrow> only_cache d' d'' \<Longrightarrow> only_cache d d''"
  by (auto simp: only_cache_def upd_def st_def)

lemma only_cache_fields:
  assumes "only_cache d d'"
  shows "world (st d') = world (st d)" "currentChannel (st d') = currentChannel (st d)"
    "currentTxPower (st d') = currentTxPower (st d)" "isScanInProgress (st d') = isScanInProgress (st d)"
    "MAC_MPW d' = MAC_MPW d" "halted (st d') = halted (st d)"
  using assms by (auto simp: only_cache_def)

lemma only_cache_refl [simp]: "only_cache d d"
  by (simp add: only_cache_def)

lemma only_cache_purge: "only_cache d (CachePurge E False d)"
proof -
  have "only_cache d (fold (purge_slot E False) xs d)" for xs
  proof (induction xs arbitrary: d)
    case (Cons i xs)
    have "only_cache d (purge_slot E False i d)" by (simp add: purge_slot_def Let_def only_cacheI)
    then show ?case using only_cache_trans [OF _ Cons.IH] by simp
  qed simp
  then show ?thesis by (simp add: CachePurge_def)
qed

lemma post_response:
  "only_cache d (case rsp of None \<Rightarrow> d
     | Some r \<Rightarrow>
         (let d = (if CommandId r = SPI_MCPS_PURGE_CONFIRM \<and> PData r ! 1 = MAC_SUCCESS
                   then upd (\<lambda>s. s\<lparr>MDR_Cache := snd (CacheRemoveItem (PData r ! 0) MDR_CacheTypeMCPS (MDR_Cache s))\<rparr>) d
                   else d)
          in if CommandId r = SPI_MLME_RESET_CONFIRM \<and> PData r ! 0 = MAC_SUCCESS then CachePurge E False d else d))"
  by (auto simp: only_cacheI Let_def split: option.split intro: only_cache_purge only_cache_trans)

lemma plain_PostCheck: "plain E msg \<Longrightarrow> only_cache d (PostCheckToCA821x E self msg rsp d)"
  using post_response [of d E rsp] by (auto simp: plain_def PostCheckToCA821x_def Let_def)

subsection \<open>The power limit on channel 26\<close>

text \<open>Any SPI driver, with a record of the messages that were given to it.\<close>

definition logged :: "'w spi_ops \<Rightarrow> (mac_msg list \<times> 'w) spi_ops" where
  "logged B =
     \<lparr>spi_send = (\<lambda>c r (l, w). case spi_send B c r w of (e, r', w') \<Rightarrow> (e, r', (l @ [c], w'))),
      spi_read = (\<lambda>(l, w). (l, spi_read B w)), spi_in_progress = (\<lambda>(l, w). spi_in_progress B w),
      spi_almost_full = (\<lambda>(l, w). spi_almost_full B w),
      spi_chain_in_flight = (\<lambda>(l, w). spi_chain_in_flight B w), spi_external = (\<lambda>(l, w). spi_external B w),
      rfirq = (\<lambda>(l, w). rfirq B w), rx_peek = (\<lambda>(l, w). rx_peek B w),
      rx_dequeue = (\<lambda>(l, w). (l, rx_dequeue B w)), now = (\<lambda>(l, w). now B w), idle = (\<lambda>(l, w). (l, idle B w))\<rparr>"

text \<open>The messages that write the power register of the radio, and its value after a sequence of
  messages; it starts at the maximum, as chip initialisation leaves it.\<close>

definition power_write :: "mac_msg \<Rightarrow> u8 option" where
  "power_write c =
     (let p = PData c in
      if CommandId c = SPI_TDME_SETSFR_REQUEST \<and> p ! 0 = 0 \<and> p ! 1 = 0xFE \<or>
         CommandId c = SPI_HWME_SET_REQUEST \<and> p ! 0 = HWME_TXPOWER \<or>
         CommandId c = SPI_TDME_SET_REQUEST \<and> p ! 0 = TDME_TX_CONFIG
      then Some (p ! 2) else None)"

definition pa_register :: "mac_msg list \<Rightarrow> u8" where
  "pa_register log = fold (\<lambda>c pa. case power_write c of None \<Rightarrow> pa | Some x \<Rightarrow> x) log 0x3F"

lemma pa_register_snoc [simp]:
  "pa_register (log @ [c]) = (case power_write c of None \<Rightarrow> pa_register log | Some x \<Rightarrow> x)"
  by (cases "power_write c") (simp_all add: pa_register_def)

definition pa :: "('cb, mac_msg list \<times> 'w) device \<Rightarrow> u8" where
  "pa d = pa_register (fst (world (st d)))"

text \<open>A register above 4 dBm belongs to a power setting above 4 dBm and another channel.\<close>

definition inv26 :: "('cb, mac_msg list \<times> 'w) device \<Rightarrow> bool" where
  "inv26 d \<longleftrightarrow> MAC_MPW d = 0 \<and>
     (pa d > 0x0F \<longrightarrow> sint (currentTxPower (st d)) > 4 \<and> currentChannel (st d) \<noteq> 26)"

lemma send_logged:
  assumes "spi_api E = logged B"
  shows "\<exists>e r' w'. spi_send (spi_api E) c r w = (e, r', w') \<and> fst w' = fst w @ [c]"
  using assms by (cases w) (auto simp: logged_def split: prod.split)

text \<open>A plain request, unless refused, is sent and changes nothing but the cache.\<close>

definition same_power :: "('cb, mac_msg list \<times> 'w) device \<Rightarrow> ('cb, mac_msg list \<times> 'w) device \<Rightarrow> bool" where
  "same_power d d' \<longleftrightarrow> MAC_MPW d' = MAC_MPW d \<and> isScanInProgress (st d') = isScanInProgress (st d) \<and>
     currentTxPower (st d') = currentTxPower (st d) \<and> currentChannel (st d') = currentChannel (st d)"

lemma plain_request:
  assumes "spi_api E = logged B" "plain E c" "\<not> isScanInProgress (st d)"
    and "DISPATCH_ToCA821x E self c r d = (e, r', d')"
  shows "same_power d d' \<and> fst (world (st d')) = fst (world (st d)) @ [whole E c]"
proof -
  let ?r = "map_option (\<lambda>m. m\<lparr>CommandId := SPI_IDLE\<rparr>) r"
  have plain: "plain E (whole E c)" using assms(2) by (simp add: plain_def)
  obtain e1 r1 w1 where s: "spi_send (spi_api E) (whole E c) ?r (world (st d)) = (e1, r1, w1)"
    and w1: "fst w1 = fst (world (st d)) @ [whole E c]"
    using send_logged [OF assms(1), of "whole E c" ?r "world (st d)"] by blast
  let ?d1 = "upd_world (\<lambda>_. w1) d"
  have "only_cache ?d1 d'"
    using assms(4) assms(3) plain_PostCheck [OF plain, of ?d1 self r1]
    by (auto simp: DISPATCH_ToCA821x_def plain_PreCheck [OF plain] s Let_def split: if_splits)
  from only_cache_fields [OF this] w1 show ?thesis by (simp add: same_power_def)
qed


text \<open>The transport one level down, used by the checks.\<close>

lemma dispatcher_Suc:
  "CA_VER E \<noteq> CA8212 \<Longrightarrow> to_radio (dispatcher E (Suc n)) = DISPATCH_ToCA821x E (dispatcher E n)"
  by simp

declare dispatcher.simps [simp del]

lemma sfr_request:
  fixes E :: "('cb, mac_msg list \<times> 'w) env" and d :: "('cb, mac_msg list \<times> 'w) device"
    and n :: nat and page addr x :: u8
  assumes E: "spi_api E = logged B" "CA_VER E \<noteq> CA8212" and d: "\<not> isScanInProgress (st d)"
  defines "d' \<equiv> snd (TDME_SETSFR_request_sync (api_target E (dispatcher E (Suc n))) page addr x d)"
  shows "same_power d d' \<and> pa d' = (if page = 0 \<and> addr = 0xFE then x else pa d)"
proof -
  let ?c = "\<lparr>CommandId = SPI_TDME_SETSFR_REQUEST, Length = 3, PData = [page, addr, x]\<rparr>"
  let ?b = "Some ((uninit E)\<lparr>CommandId := 0xFF\<rparr>)"
  obtain e r' d1 where s: "DISPATCH_ToCA821x E (dispatcher E n) ?c ?b d = (e, r', d1)"
    by (cases "DISPATCH_ToCA821x E (dispatcher E n) ?c ?b d")
  have "d' = d1"
    unfolding d'_def by (simp add: TDME_SETSFR_request_sync_def send_sync_def api_target_def dispatcher_Suc [OF E(2)] s)
  moreover have "power_write (whole E ?c) = (if page = 0 \<and> addr = 0xFE then Some x else None)"
    by (simp add: power_write_def whole_def Let_def)
  ultimately show ?thesis
    using plain_request [OF E(1) _ d s] by (simp add: plain_def pa_def)
qed


lemma set_sfr_request:
  assumes "spi_api E = logged B" "CA_VER E \<noteq> CA8212" "\<not> isScanInProgress (st d)"
  shows "same_power d (set_sfr E (dispatcher E (Suc n)) addr x d)"
    "pa (set_sfr E (dispatcher E (Suc n)) addr x d) = (if addr = 0xFE then x else pa d)"
  using sfr_request [OF assms, of n 0 addr x] by (simp_all add: set_sfr_def)

lemma channel_init:
  assumes "spi_api E = logged B" "CA_VER E \<noteq> CA8212" "\<not> isScanInProgress (st d)"
  shows "same_power d (snd (TDME_ChannelInit (api_target E (dispatcher E (Suc n))) channel d))"
    "pa (snd (TDME_ChannelInit (api_target E (dispatcher E (Suc n))) channel d)) = pa d"
  using sfr_request [OF assms, of n 1 "0xBF" "channel_txcal channel"]
  by (simp_all add: TDME_ChannelInit_def)

lemma getsfr_request:
  fixes E :: "('cb, mac_msg list \<times> 'w) env" and d :: "('cb, mac_msg list \<times> 'w) device"
    and n :: nat and page addr x :: u8
  assumes E: "spi_api E = logged B" "CA_VER E \<noteq> CA8212" and d: "\<not> isScanInProgress (st d)"
  defines "d' \<equiv> snd (snd (TDME_GETSFR_request_sync (api_target E (dispatcher E (Suc n))) page addr x d))"
  shows "same_power d d' \<and> pa d' = pa d"
proof -
  let ?c = "\<lparr>CommandId = SPI_TDME_GETSFR_REQUEST, Length = 2, PData = [page, addr]\<rparr>"
  obtain e r' d1 where s: "DISPATCH_ToCA821x E (dispatcher E n) ?c (Some (uninit E)) d = (e, r', d1)"
    by (cases "DISPATCH_ToCA821x E (dispatcher E n) ?c (Some (uninit E)) d")
  have "d' = d1"
    unfolding d'_def by (simp add: TDME_GETSFR_request_sync_def send_sync_def api_target_def dispatcher_Suc [OF E(2)] s)
  moreover have "power_write (whole E ?c) = None"
    by (simp add: power_write_def whole_def Let_def)
  ultimately show ?thesis
    using plain_request [OF E(1) _ d s] by (simp add: plain_def pa_def)
qed

text \<open>What is known before a message is sent: the power it writes keeps the invariant.\<close>

definition safe_message :: "mac_msg \<Rightarrow> ('cb, mac_msg list \<times> 'w) device \<Rightarrow> bool" where
  "safe_message msg d \<longleftrightarrow> MAC_MPW d = 0 \<and>
     ((case power_write msg of None \<Rightarrow> pa d | Some x \<Rightarrow> x) > 0x0F \<longrightarrow>
        sint (currentTxPower (st d)) > 4 \<and> currentChannel (st d) \<noteq> 26)"

lemma set_tx_power_inv26:
  assumes "spi_api E = logged B" "CA_VER E \<noteq> CA8212" "\<not> isScanInProgress (st d)" "MAC_MPW d = 0"
    and "TDME_tx_dbm_to_paib (extend6 val) > 0x0F \<longrightarrow> sint (currentTxPower (st d)) > 4 \<and> currentChannel (st d) \<noteq> 26"
  shows "inv26 (snd (set_tx_power E (dispatcher E (Suc n)) val msg rsp d))"
  using sfr_request [OF assms(1-3), of n 0 "0xFE" "TDME_tx_dbm_to_paib (extend6 val)"] assms(4,5)
  by (simp add: set_tx_power_def TDME_SetTxPower_def Let_def inv26_def same_power_def split_beta)

lemma get_tx_power_inv26:
  assumes "spi_api E = logged B" "CA_VER E \<noteq> CA8212" "\<not> isScanInProgress (st d)" "inv26 d"
  shows "inv26 (snd (get_tx_power E (dispatcher E (Suc n)) msg rsp d))"
  using getsfr_request [OF assms(1-3), of n 0 "0xFE" 0] assms(4)
  by (simp add: get_tx_power_def TDME_GetTxPower_def inv26_def same_power_def split_beta)

lemma paib_above: "TDME_tx_dbm_to_paib x > 0x0F \<Longrightarrow> sint x > 4"
  by (auto simp: TDME_tx_dbm_to_paib_def split: if_splits)

lemma dbm_above: "x > 0x0F \<Longrightarrow> sint (TDME_tx_paib_to_dbm x) > 4"
  by (auto simp: TDME_tx_paib_to_dbm_def word_le_nat_alt word_less_nat_alt)

lemma extend6_twice: "extend6 (extend6 x) = extend6 x"
proof -
  have "list_all (\<lambda>n. extend6 (extend6 (word_of_nat n)) = extend6 (word_of_nat n)) [0..<256]" by code_simp
  then have "extend6 (extend6 (word_of_nat (unat x))) = extend6 (word_of_nat (unat x))"
    unfolding list_all_iff by (rule bspec) simp
  then show ?thesis by simp
qed


lemma inv26_upd:
  "inv26 (upd f d) \<longleftrightarrow> MAC_MPW d = 0 \<and> (pa_register (fst (world (f (st d)))) > 0x0F \<longrightarrow>
     sint (currentTxPower (f (st d))) > 4 \<and> currentChannel (f (st d)) \<noteq> 26)"
  by (simp add: inv26_def pa_def)

lemma limited_value: "limited channel x \<longleftrightarrow> channel = 26 \<and> sint x > 4"
  by (simp add: limited_def)

lemma set_branch:
  fixes E :: "('cb, mac_msg list \<times> 'w) env" and d :: "('cb, mac_msg list \<times> 'w) device" and x :: u8
  assumes "spi_api E = logged B" "CA_VER E \<noteq> CA8212" "\<not> isScanInProgress (st d)" "inv26 d"
  defines "val \<equiv> extend6 x" and "d1 \<equiv> upd (\<lambda>s. s\<lparr>currentTxPower := extend6 x\<rparr>) d"
  shows "inv26 (snd (set_tx_power E (dispatcher E (Suc n))
           (if limited (currentChannel (st d1)) val then MAX_TXPOWER_CH26 else val) msg rsp d1))"
proof (rule set_tx_power_inv26 [OF assms(1,2)])
  show "\<not> isScanInProgress (st d1)" "MAC_MPW d1 = 0" using assms(3,4) by (simp_all add: d1_def inv26_def)
  have "TDME_tx_dbm_to_paib (extend6 MAX_TXPOWER_CH26) = 0x0C" by code_simp
  then show "TDME_tx_dbm_to_paib (extend6 (if limited (currentChannel (st d1)) val then MAX_TXPOWER_CH26 else val)) > 0x0F \<longrightarrow>
      sint (currentTxPower (st d1)) > 4 \<and> currentChannel (st d1) \<noteq> 26"
    using paib_above [of val] by (auto simp: d1_def val_def extend6_twice limited_value)
qed

lemma limit_power_octet_safe:
  assumes "inv26 d" "3 \<le> length (PData msg)" "limit_power_octet msg d = (msg', d')"
    and "CommandId msg = SPI_HWME_SET_REQUEST \<and> PData msg ! 0 = HWME_TXPOWER \<or>
         CommandId msg = SPI_TDME_SET_REQUEST \<and> PData msg ! 0 = TDME_TX_CONFIG"
  shows "safe_message msg' d' \<and> CommandId msg' = CommandId msg \<and> PData msg' ! 0 = PData msg ! 0 \<and>
         isScanInProgress (st d') = isScanInProgress (st d)"
proof -
  have "TDME_tx_dbm_to_paib MAX_TXPOWER_CH26 = 0x0C" by code_simp
  then have w: "power_write msg' = Some (if limited (currentChannel (st d)) (TDME_tx_paib_to_dbm (PData msg ! 2)) then 0x0C else PData msg ! 2)"
    using assms(2-4) by (auto simp: limit_power_octet_def power_write_def Let_def)
  have f: "currentTxPower (st d') = TDME_tx_paib_to_dbm (PData msg ! 2)" "currentChannel (st d') = currentChannel (st d)"
    "MAC_MPW d' = MAC_MPW d" "isScanInProgress (st d') = isScanInProgress (st d)"
    "CommandId msg' = CommandId msg" "PData msg' ! 0 = PData msg ! 0"
    using assms(3) by (auto simp: limit_power_octet_def Let_def split: if_splits)
  show ?thesis
    using assms(1) f dbm_above [of "PData msg ! 2"] by (auto simp: safe_message_def w limited_value inv26_def)
qed

lemma CheckChannel_inv26:
  assumes "spi_api E = logged B" "CA_VER E \<noteq> CA8212" "\<not> isScanInProgress (st d)" "inv26 d"
  shows "inv26 (CheckChannel E (dispatcher E (Suc n)) msg d)"
proof -
  define d1 where "d1 = snd (TDME_ChannelInit (api_target E (dispatcher E (Suc n))) (new_channel msg) d)"
  have d1: "inv26 d1" "\<not> isScanInProgress (st d1)"
    using channel_init [OF assms(1-3), of n "new_channel msg"] assms(3,4)
    unfolding d1_def [symmetric] by (simp_all add: same_power_def inv26_def)
  have twelve: "TDME_tx_dbm_to_paib MAX_TXPOWER_CH26 = 0x0C" by code_simp
  define p where "p = currentTxPower (st d1)"
  have sfr: "MAC_MPW (set_sfr E (dispatcher E (Suc n)) 0xFE x d1) = MAC_MPW d1"
    "currentTxPower (st (set_sfr E (dispatcher E (Suc n)) 0xFE x d1)) = p"
    "pa (set_sfr E (dispatcher E (Suc n)) 0xFE x d1) = x" for x
    using set_sfr_request [OF assms(1,2) d1(2), of n "0xFE" x] by (simp_all add: same_power_def p_def)
  have "CheckChannel E (dispatcher E (Suc n)) msg d =
      (if new_channel msg = 0 then d
       else upd (\<lambda>s. s\<lparr>currentChannel := new_channel msg\<rparr>)
         (if limited (new_channel msg) p then set_sfr E (dispatcher E (Suc n)) 0xFE 0x0C d1
          else if limited (currentChannel (st d1)) p then set_sfr E (dispatcher E (Suc n)) 0xFE (TDME_tx_dbm_to_paib p) d1
          else d1))"
    by (simp add: CheckChannel_def d1_def p_def Let_def twelve)
  then show ?thesis
    using assms(4) d1(1) sfr
    by (auto simp: inv26_upd limited_value pa_def p_def inv26_def)
qed


lemma channel_no_power: "new_channel msg \<noteq> 0 \<Longrightarrow> power_write msg = None"
  by (auto simp: new_channel_def power_write_def Let_def split: if_splits)

lemma safe_None: "power_write msg = None \<Longrightarrow> safe_message msg d \<longleftrightarrow> inv26 d"
  by (simp add: safe_message_def inv26_def)

text \<open>Direct writes of the register are the only messages that the limit does not see.\<close>

definition register_write :: "mac_msg \<Rightarrow> bool" where
  "register_write msg \<longleftrightarrow> CommandId msg = SPI_TDME_SETSFR_REQUEST \<and> power_write msg \<noteq> None"

lemma CheckSetGet_safe:
  assumes E: "spi_api E = logged B" "CA_VER E \<noteq> CA8212" and d: "\<not> isScanInProgress (st d)" "inv26 d"
    and msg: "3 \<le> length (PData msg)" "\<not> register_write msg"
    and r: "CheckSetGet E (dispatcher E (Suc n)) msg rsp d = (S, msg', rsp', d')"
  shows "if S = CA_ERROR_SUCCESS
         then safe_message msg' d' \<and> CommandId msg' = CommandId msg \<and> \<not> isScanInProgress (st d')
         else S = CA_ERROR_ALREADY \<and> inv26 d'"
proof -
  let ?power = "CommandId msg = SPI_HWME_SET_REQUEST \<and> PData msg ! 0 = HWME_TXPOWER \<or>
    CommandId msg = SPI_TDME_SET_REQUEST \<and> PData msg ! 0 = TDME_TX_CONFIG"
  consider (bad) "CheckPIB E msg"
    | (set_power) "\<not> CheckPIB E msg" "CommandId msg = SPI_MLME_SET_REQUEST \<and> PData msg ! 0 = phyTransmitPower"
    | (get_power) "\<not> CheckPIB E msg" "CommandId msg = SPI_MLME_GET_REQUEST \<and> PData msg ! 0 = phyTransmitPower"
    | (octet) "\<not> CheckPIB E msg" ?power
    | (other) "\<not> CheckPIB E msg" "\<not> (CommandId msg = SPI_MLME_SET_REQUEST \<and> PData msg ! 0 = phyTransmitPower)"
        "\<not> (CommandId msg = SPI_MLME_GET_REQUEST \<and> PData msg ! 0 = phyTransmitPower)" "\<not> ?power"
    by blast
  then show ?thesis
  proof cases
    case bad
    then show ?thesis using r d by (simp add: CheckSetGet_def Let_def)
  next
    case set_power
    then show ?thesis
      using r set_branch [OF E d, of n "PData msg ! 3" msg rsp]
      by (auto simp: CheckSetGet_def Let_def split_beta)
  next
    case get_power
    then show ?thesis
      using r get_tx_power_inv26 [OF E d, of n msg rsp]
      by (auto simp: CheckSetGet_def Let_def split_beta)
  next
    case octet
    obtain m1 d1 where l: "limit_power_octet msg d = (m1, d1)" by fastforce
    have "CommandId msg \<noteq> SPI_MLME_SET_REQUEST" "CommandId msg \<noteq> SPI_MLME_GET_REQUEST" using octet(2) by auto
    then have "S = CA_ERROR_SUCCESS" "msg' = m1" "d' = d1"
      using r octet l by (simp_all add: CheckSetGet_def Let_def)
    then show ?thesis using limit_power_octet_safe [OF d(2) msg(1) l octet(2)] d(1) by simp
  next
    case other
    then have "power_write msg = None" using msg(2) by (auto simp: register_write_def power_write_def Let_def)
    moreover have "S = CA_ERROR_SUCCESS" "msg' = msg" "d' = d"
      using r other by (simp_all add: CheckSetGet_def Let_def)
    ultimately show ?thesis using d by (simp add: safe_None)
  qed
qed

lemma PreCheck_safe:
  assumes E: "spi_api E = logged B" "CA_VER E \<noteq> CA8212" and d: "inv26 d"
    and msg: "3 \<le> length (PData msg)" "\<not> register_write msg" "CommandId msg \<noteq> SPI_PCPS_DATA_REQUEST"
    and r: "PreCheckToCA821x E (dispatcher E (Suc n)) msg rsp d = (S, msg', rsp', d')"
  shows "if S = CA_ERROR_SUCCESS then safe_message msg' d' \<and> CommandId msg' = CommandId msg else inv26 d'"
proof (cases "isScanInProgress (st d)")
  case True
  then show ?thesis using r d by (auto simp: PreCheckToCA821x_def)
next
  case False
  obtain S1 m1 r1 d1 where c: "CheckSetGet E (dispatcher E (Suc n)) msg rsp d = (S1, m1, r1, d1)"
    by (cases "CheckSetGet E (dispatcher E (Suc n)) msg rsp d") auto
  note safe = CheckSetGet_safe [OF E False d msg(1,2) c]
  show ?thesis
  proof (cases "S1 = CA_ERROR_SUCCESS")
    case True
    with safe have s: "safe_message m1 d1" "CommandId m1 = CommandId msg" "\<not> isScanInProgress (st d1)" by simp_all
    have o: "S = CA_ERROR_SUCCESS" "msg' = m1" "d' = CheckChannel E (dispatcher E (Suc n)) m1 d1"
      using r False c True s(2) msg(3) by (auto simp: PreCheckToCA821x_def Let_def)
    have "safe_message m1 (CheckChannel E (dispatcher E (Suc n)) m1 d1)"
    proof (cases "new_channel m1 = 0")
      case True
      then show ?thesis using s(1) by (simp add: CheckChannel_def Let_def)
    next
      case False
      then show ?thesis
        using s CheckChannel_inv26 [OF E s(3)] by (simp add: safe_None channel_no_power)
    qed
    then show ?thesis using o s(2) by simp
  next
    case False2: False
    then show ?thesis using r False c safe by (auto simp: PreCheckToCA821x_def)
  qed
qed

lemma only_cache_inv26: "only_cache d d' \<Longrightarrow> inv26 d \<Longrightarrow> inv26 d'"
  using only_cache_fields [of d d'] by (simp add: inv26_def pa_def)

lemma hotfix_inv26:
  assumes "spi_api E = logged B" "inv26 d"
  shows "inv26 (ApplyMixedDirectHotfix E d)"
proof -
  let ?c = "\<lparr>CommandId = 0x4D, Length = 0x01, PData = [0x00]\<rparr>"
  obtain e r' w' where "spi_send (spi_api E) ?c (Some (uninit E)) (world (st d)) = (e, r', w')" "fst w' = fst (world (st d)) @ [?c]"
    using send_logged [OF assms(1)] by blast
  moreover have "power_write ?c = None" by (simp add: power_write_def)
  ultimately show ?thesis using assms(2) by (simp add: ApplyMixedDirectHotfix_def inv26_upd inv26_def pa_def)
qed

lemma cache_request_inv26:
  assumes "spi_api E = logged B" "inv26 d"
  shows "inv26 (cache_request E h opt t d)"
proof -
  define d1 where "d1 = upd (\<lambda>s. s\<lparr>MDR_Cache := snd (CacheAddItem h (opt AND TXOPT_INDIRECT \<noteq> 0) t (MDR_Cache s))\<rparr>) d"
  have "inv26 d1" unfolding d1_def by (rule only_cache_inv26 [OF only_cacheI assms(2)])
  moreover have "cache_request E h opt t d = (if CA_VER E = CA8211 \<and> \<not> (opt AND TXOPT_INDIRECT \<noteq> 0) \<and>
      CacheIsIndirectActive (MDR_Cache (st d1)) then ApplyMixedDirectHotfix E d1 else d1)"
    unfolding cache_request_def d1_def Let_def by (rule refl)
  ultimately show ?thesis using hotfix_inv26 [OF assms(1)] by simp
qed

lemma PostCheck_inv26:
  assumes E: "spi_api E = logged B" and d: "inv26 d" and msg: "CommandId msg \<noteq> SPI_PCPS_DATA_REQUEST"
  shows "inv26 (PostCheckToCA821x E self msg rsp d)"
proof -
  define d1 where "d1 = (if CommandId msg = SPI_MCPS_DATA_REQUEST
    then cache_request E (PData msg ! 13) (PData msg ! 14) MDR_CacheTypeMCPS d else d)"
  define d2 where "d2 = (if CommandId msg = SPI_MLME_SCAN_REQUEST then upd (\<lambda>s. s\<lparr>isScanInProgress := True\<rparr>) d1 else d1)"
  have "inv26 d1" using d cache_request_inv26 [OF E d] by (simp add: d1_def)
  then have d2: "inv26 d2" by (simp add: d2_def inv26_upd) (simp add: inv26_def pa_def)
  have "PostCheckToCA821x E self msg rsp d = (case rsp of None \<Rightarrow> d2
     | Some r \<Rightarrow>
         (let d = (if CommandId r = SPI_MCPS_PURGE_CONFIRM \<and> PData r ! 1 = MAC_SUCCESS
                   then upd (\<lambda>s. s\<lparr>MDR_Cache := snd (CacheRemoveItem (PData r ! 0) MDR_CacheTypeMCPS (MDR_Cache s))\<rparr>) d2
                   else d2)
          in if CommandId r = SPI_MLME_RESET_CONFIRM \<and> PData r ! 0 = MAC_SUCCESS then CachePurge E False d else d))"
    by (simp only: PostCheckToCA821x_def d1_def d2_def Let_def msg simp_thms if_False)
  with post_response [of d2 E rsp] d2 show ?thesis using only_cache_inv26 by metis
qed


lemma downstream_inv26:
  assumes E: "spi_api E = logged B" "CA_VER E \<noteq> CA8212" and d: "inv26 d"
    and c: "3 \<le> length (PData (whole E c))" "\<not> register_write (whole E c)" "CommandId c \<noteq> SPI_PCPS_DATA_REQUEST"
  shows "inv26 (snd (snd (ca821x_api_downstream E (Suc (Suc n)) c r d)))"
proof -
  let ?r = "map_option (\<lambda>m. m\<lparr>CommandId := SPI_IDLE\<rparr>) r"
  obtain S msg r1 d1 where p: "PreCheckToCA821x E (dispatcher E (Suc n)) (whole E c) ?r d = (S, msg, r1, d1)"
    by (cases "PreCheckToCA821x E (dispatcher E (Suc n)) (whole E c) ?r d") auto
  have pre: "if S = CA_ERROR_SUCCESS then safe_message msg d1 \<and> CommandId msg = CommandId c else inv26 d1"
    using PreCheck_safe [OF E d c(1,2) _ p] c(3) by simp
  obtain S2 r2 w2 where s: "spi_send (spi_api E) msg r1 (world (st d1)) = (S2, r2, w2)"
    and w2: "fst w2 = fst (world (st d1)) @ [msg]"
    using send_logged [OF E(1), of msg r1 "world (st d1)"] by blast
  define d2 where "d2 = upd_world (\<lambda>_. w2) d1"
  have d2: "inv26 d2" if "safe_message msg d1"
    using that w2 by (cases "power_write msg") (simp_all add: d2_def inv26_upd safe_message_def pa_def)
  have result: "snd (snd (ca821x_api_downstream E (Suc (Suc n)) c r d)) =
      (if S = CA_ERROR_SUCCESS
       then (if S2 = CA_ERROR_SUCCESS then PostCheckToCA821x E (dispatcher E (Suc n)) msg r2 d2 else d2) else d1)"
    by (simp add: ca821x_api_downstream_def dispatcher_Suc [OF E(2)] DISPATCH_ToCA821x_def p s Let_def d2_def)
  show ?thesis
    unfolding result using pre d2 PostCheck_inv26 [OF E(1)] c(3) by simp
qed

definition requests_run ::
  "('cb, 'w) env \<Rightarrow> nat \<Rightarrow> (mac_msg \<times> mac_msg option) list \<Rightarrow> ('cb, 'w) device \<Rightarrow> ('cb, 'w) device" where
  "requests_run E n = fold (\<lambda>(c, r) d. snd (snd (ca821x_api_downstream E n c r d)))"


text \<open>A radio that accepts everything, for examples.\<close>

definition yes_radio :: "unit spi_ops" where
  "yes_radio =
     \<lparr>spi_send = (\<lambda>c r w. (CA_ERROR_SUCCESS, r, w)), spi_read = (\<lambda>w. w), spi_in_progress = (\<lambda>_. False),
      spi_almost_full = (\<lambda>_. False), spi_chain_in_flight = (\<lambda>_. False), spi_external = (\<lambda>_. False),
      rfirq = (\<lambda>_. True), rx_peek = (\<lambda>_. None), rx_dequeue = (\<lambda>w. w), now = (\<lambda>_. 0), idle = (\<lambda>w. w)\<rparr>"

definition example_env :: "(unit, mac_msg list \<times> unit) env" where
  "example_env =
     \<lparr>CA_VER = CA8210, spi_api = logged yes_radio, app = (\<lambda>_ _ d. (CA_ERROR_SUCCESS, d)),
      uninit = \<lparr>CommandId = 0, Length = 0, PData = replicate payload_size 0\<rparr>, rounds = 10\<rparr>"

definition example_device :: "(unit, mac_msg list \<times> unit) device" where
  "example_device =
     \<lparr>app_context = None, exchange_context = Some (bm_reset ([], ())), callbacks = (\<lambda>_. None), generic_dispatch = None,
      extaddr = replicate 8 0, shortaddr = 0xFFFF, lqi_mode = 0, MAC_MPW = 0, blacklist = []\<rparr>"

definition go_to_26 :: mac_msg where
  "go_to_26 = \<lparr>CommandId = SPI_MLME_SET_REQUEST, Length = 4, PData = [phyCurrentChannel, 0, 1, 26]\<rparr>"


end
