(* ===== verification/DispatchFlow.thy ===== *)
theory DispatchFlow
  imports DispatchSound "HOL-Library.Sublist"
begin

text \<open>
  The flow of control through the dispatcher: requests that the checks make of their own are at most
  one level deep; received messages are handled in the order of the queue below, whatever arrives
  meanwhile; and the dispatcher is put on top of the SPI driver, whose FIFO is such a queue.
\<close>

unbundle bit_operations_syntax

subsection \<open>The depth of the way down\<close>

lemma plain_PostCheck_self:
  "CommandId msg \<noteq> SPI_PCPS_DATA_REQUEST \<Longrightarrow> PostCheckToCA821x E self msg rsp d = PostCheckToCA821x E self' msg rsp d"
  by (simp only: PostCheckToCA821x_def simp_thms if_False)

lemma plain_To_self:
  assumes "plain E c"
  shows "DISPATCH_ToCA821x E self c r d = DISPATCH_ToCA821x E self' c r d"
proof -
  have "plain E (whole E c)" "CommandId (whole E c) \<noteq> SPI_PCPS_DATA_REQUEST" using assms by (auto simp: plain_def)
  then show ?thesis
    using plain_PostCheck_self [of "whole E c" E self _ _ self']
    by (simp add: DISPATCH_ToCA821x_def plain_PreCheck split_beta Let_def)
qed

lemma plain_To_self_8212:
  assumes "plain E c"
  shows "DISPATCH_ToCA821x_8212 E self c r d = DISPATCH_ToCA821x_8212 E self' c r d"
  using assms
  by (auto simp: plain_def DISPATCH_ToCA821x_8212_def PreCheckToCA821x_8212_def CheckSetGet_8212_def CheckPIB_def Let_def)

lemma plain_dispatcher:
  "plain E c \<Longrightarrow> to_radio (dispatcher E (Suc n)) c r d = to_radio (dispatcher E (Suc m)) c r d"
  using plain_To_self plain_To_self_8212 by (cases "CA_VER E = CA8212") (fastforce simp: dispatcher.simps)+

lemma setsfr_level:
  "TDME_SETSFR_request_sync (api_target E (dispatcher E (Suc n))) page addr x d =
   TDME_SETSFR_request_sync (api_target E (dispatcher E (Suc m))) page addr x d"
  by (simp add: TDME_SETSFR_request_sync_def send_sync_def api_target_def plain_def
      plain_dispatcher [where n = n and m = m])

lemma getsfr_level:
  "TDME_GETSFR_request_sync (api_target E (dispatcher E (Suc n))) page addr x d =
   TDME_GETSFR_request_sync (api_target E (dispatcher E (Suc m))) page addr x d"
  by (simp add: TDME_GETSFR_request_sync_def send_sync_def api_target_def plain_def
      plain_dispatcher [where n = n and m = m])

lemma tx_power_level:
  "set_tx_power E (dispatcher E (Suc n)) val msg rsp d = set_tx_power E (dispatcher E (Suc m)) val msg rsp d"
  "get_tx_power E (dispatcher E (Suc n)) msg rsp d = get_tx_power E (dispatcher E (Suc m)) msg rsp d"
  by (simp_all add: set_tx_power_def get_tx_power_def TDME_SetTxPower_def TDME_GetTxPower_def Let_def
      setsfr_level [where n = n and m = m] getsfr_level [where n = n and m = m])

lemma CheckSetGet_level:
  "CheckSetGet E (dispatcher E (Suc n)) msg rsp d = CheckSetGet E (dispatcher E (Suc m)) msg rsp d"
  "CheckSetGet_8212 E (dispatcher E (Suc n)) msg rsp d = CheckSetGet_8212 E (dispatcher E (Suc m)) msg rsp d"
  by (simp_all only: CheckSetGet_def CheckSetGet_8212_def tx_power_level [where n = n and m = m])

lemma CheckChannel_level:
  "CheckChannel E (dispatcher E (Suc n)) msg d = CheckChannel E (dispatcher E (Suc m)) msg d"
  by (simp only: CheckChannel_def TDME_ChannelInit_def set_sfr_def setsfr_level [where n = n and m = m])

lemma CheckSetGet_id: "CheckSetGet E self msg rsp d = (S, m, r, d') \<Longrightarrow> CommandId m = CommandId msg"
  by (auto simp: CheckSetGet_def limit_power_octet_def Let_def split: if_splits prod.splits)

lemma PreCheck_id: "PreCheckToCA821x E self msg rsp d = (S, m, r, d') \<Longrightarrow> CommandId m = CommandId msg"
  by (auto simp: PreCheckToCA821x_def Let_def split: if_splits prod.splits dest: CheckSetGet_id)

lemma PreCheck_level:
  assumes "CommandId msg \<noteq> SPI_PCPS_DATA_REQUEST"
  shows "PreCheckToCA821x E (dispatcher E (Suc n)) msg rsp d = PreCheckToCA821x E (dispatcher E (Suc m)) msg rsp d"
proof -
  obtain S c r d' where x: "CheckSetGet E (dispatcher E (Suc n)) msg rsp d = (S, c, r, d')"
    by (cases "CheckSetGet E (dispatcher E (Suc n)) msg rsp d") auto
  then have y: "CheckSetGet E (dispatcher E (Suc m)) msg rsp d = (S, c, r, d')"
    using CheckSetGet_level(1) [where n = n and m = m] by metis
  show ?thesis
    using CheckSetGet_id [OF x] assms
    by (simp add: PreCheckToCA821x_def Let_def x y CheckChannel_level [where n = n and m = m])
qed

lemma To_level:
  assumes "CommandId c \<noteq> SPI_PCPS_DATA_REQUEST"
  shows "DISPATCH_ToCA821x E (dispatcher E (Suc n)) c r d = DISPATCH_ToCA821x E (dispatcher E (Suc m)) c r d"
proof -
  let ?r = "map_option (\<lambda>m. m\<lparr>CommandId := SPI_IDLE\<rparr>) r"
  have c: "CommandId (whole E c) \<noteq> SPI_PCPS_DATA_REQUEST" using assms by simp
  obtain S msg r1 d1 where p: "PreCheckToCA821x E (dispatcher E (Suc n)) (whole E c) ?r d = (S, msg, r1, d1)"
    by (cases "PreCheckToCA821x E (dispatcher E (Suc n)) (whole E c) ?r d") auto
  have "CommandId msg \<noteq> SPI_PCPS_DATA_REQUEST" using PreCheck_id [OF p] c by simp
  note post = plain_PostCheck_self [OF this, of E "dispatcher E (Suc n)" _ _ "dispatcher E (Suc m)"]
  have "PreCheckToCA821x E (dispatcher E (Suc m)) (whole E c) ?r d = (S, msg, r1, d1)"
    using PreCheck_level [OF c, where n = n and m = m] p by metis
  with p post show ?thesis by (simp add: DISPATCH_ToCA821x_def Let_def split_beta)
qed



subsection \<open>Delivery in order\<close>

lemma st_halt [simp]: "st (halt d) = (st d)\<lparr>halted := True\<rparr>"
  by (simp add: halt_def)

text \<open>What handling a message may do to the queue below it: add to its end.\<close>

definition only_enqueues ::
  "('w \<Rightarrow> bool) \<Rightarrow> ('w \<Rightarrow> 'm list) \<Rightarrow> ('cb, 'w) device \<Rightarrow> ('cb, 'w) device \<Rightarrow> bool" where
  "only_enqueues I items d d' \<longleftrightarrow>
     (I (world (st d)) \<longrightarrow> I (world (st d')) \<and> prefix (items (world (st d))) (items (world (st d'))))"

lemma only_enqueues_refl [simp]: "only_enqueues I items d d"
  by (simp add: only_enqueues_def)

lemma only_enqueues_trans:
  "only_enqueues I items d d' \<Longrightarrow> only_enqueues I items d' d'' \<Longrightarrow> only_enqueues I items d d''"
  by (auto simp: only_enqueues_def intro: prefix_order.trans)

lemma only_enqueues_world:
  "world (st d') = world (st d) \<Longrightarrow> only_enqueues I items d d'"
  by (simp add: only_enqueues_def)

text \<open>The dispatcher touches the queue only through the callbacks of the application.\<close>

locale radio_queue = message_queue inv items peek dequeue
  for inv :: "'w \<Rightarrow> bool" and items :: "'w \<Rightarrow> mac_msg list" and peek and dequeue +
  fixes E :: "('cb, 'w) env"
  assumes uses: "rx_peek (spi_api E) = peek" "rx_dequeue (spi_api E) = dequeue"
begin

lemma run_handler_enqueues:
  assumes "\<And>cb m d. only_enqueues inv items d (snd (app E cb m d))"
  shows "only_enqueues inv items d (snd (run_handler E h m d))"
proof (cases h)
  case (App cb)
  then show ?thesis using assms by simp
next
  case WAIT_Internal
  have "only_enqueues inv items d' (snd (call_target E f m d'))" for f d'
    using assms by (auto simp: call_target_def only_enqueues_world split: option.split handler.split)
  moreover have "only_enqueues inv items d (upd (\<lambda>s. s\<lparr>sWaitCallbackActive := True\<rparr>) d)"
    "only_enqueues inv items d' (upd (\<lambda>s. s\<lparr>sWaitCallbackActive := False, sWaitCalled := True\<rparr>) d')" for d'
    by (simp_all add: only_enqueues_world)
  ultimately show ?thesis
    using only_enqueues_trans by (simp add: WAIT_Internal WAIT_CallbackInternal_def Let_def split_beta) blast
qed

lemma dispatch_enqueues:
  assumes "\<And>cb m d. only_enqueues inv items d (snd (app E cb m d))"
  shows "only_enqueues inv items d (DispatchFromCa821x E m d)"
proof -
  have short: "world (st (get_assoccnf_shortaddr p d')) = world (st d')" for p and d' :: "('cb, 'w) device"
    by (simp add: get_assoccnf_shortaddr_def)
  have run: "only_enqueues inv items d (snd (run_handler E h m d))" for h m d
    by (rule run_handler_enqueues [OF assms])
  have cb: "only_enqueues inv items d' (snd (call_back (run_handler E) f m' (e, d')))" for f m' e d'
    using run by (simp add: call_back_def split: option.split)
  show ?thesis
  proof (cases "ca821x_get_callback (CA_VER E) (CommandId m)")
    case None
    then show ?thesis
      using cb by (simp add: DispatchFromCa821x_def ca821x_upstream_dispatch_def split_beta)
  next
    case slot: (Some slot)
    show ?thesis
    proof (cases "workarounds (CA_VER E) m d")
      case None
      then show ?thesis
        by (simp add: DispatchFromCa821x_def ca821x_upstream_dispatch_def slot only_enqueues_world)
    next
      case (Some r)
      obtain ret m' d1 where r: "r = (ret, m', d1)" by (cases r)
      have d1: "only_enqueues inv items d d1"
        using Some r by (intro only_enqueues_world) (auto simp: workarounds_def short split: if_splits)
      obtain ret2 d2 where c: "call_back (run_handler E) (callbacks d1 slot) m' (CA_ERROR_NOT_HANDLED, d1) = (ret2, d2)"
        by fastforce
      have d2: "only_enqueues inv items d d2"
        using only_enqueues_trans [OF d1 cb [of d1 "callbacks d1 slot" m' CA_ERROR_NOT_HANDLED]] c by simp
      have d3: "only_enqueues inv items d (snd (call_back (run_handler E) f m'' (e, d2)))" for f m'' e
        by (rule only_enqueues_trans [OF d2 cb])
      show ?thesis
        using d1 d2 d3
        by (simp add: DispatchFromCa821x_def ca821x_upstream_dispatch_def slot Some r c split_beta)
    qed
  qed
qed

text \<open>Rounds of the loop: the messages handled so far and what has arrived meanwhile.\<close>

lemma deliver_step:
  assumes cbs: "\<And>cb m d. only_enqueues inv items d (snd (app E cb m d))"
    and pre: "\<And>m s. world (pre m s) = world s"
    and d: "inv (world (st d))" "peek (world (st d)) = Some m"
  shows "inv (world (st (deliver E pre m d))) \<and>
         (\<exists>new. items (world (st d)) @ new = m # items (world (st (deliver E pre m d))))"
proof -
  let ?d = "DispatchFromCa821x E m (upd (pre m) d)"
  have "world (st (upd (pre m) d)) = world (st d)" by (simp add: pre)
  with dispatch_enqueues [OF cbs, of "upd (pre m) d" m] d(1)
  have e: "inv (world (st ?d))" "prefix (items (world (st d))) (items (world (st ?d)))"
    by (simp_all add: only_enqueues_def)
  then obtain new where new: "items (world (st ?d)) = items (world (st d)) @ new" by (auto elim: prefixE)
  have h: "items (world (st d)) \<noteq> []" "m = hd (items (world (st d)))" using peek_head [OF d] by auto
  have "items (world (st ?d)) \<noteq> []" using h(1) by (simp only: new append_is_Nil_conv simp_thms)
  from dequeue_tail [OF e(1) this] h new show ?thesis
    by (auto simp: deliver_def uses tl_append2 intro!: exI [of _ new])
qed

lemma drain_delivers:
  assumes cbs: "\<And>cb m d. only_enqueues inv items d (snd (app E cb m d))"
    and pre: "\<And>m s. world (pre m s) = world s"
  shows "inv (world (st d)) \<Longrightarrow> \<exists>ms new d'. d' = fold (deliver E pre) ms d \<and> inv (world (st d')) \<and>
     items (world (st d)) @ new = ms @ items (world (st d')) \<and>
     (drain E pre n d = d' \<and> peek (world (st d')) = None \<or> drain E pre n d = halt d' \<and> length ms = n)"
proof (induction n arbitrary: d)
  case 0
  then show ?case by (intro exI [of _ "[]"]) simp
next
  case (Suc n)
  show ?case
  proof (cases "peek (world (st d))")
    case None
    with Suc.prems show ?thesis by (intro exI [of _ "[]"]) (simp add: uses)
  next
    case (Some m)
    from deliver_step [of pre, OF cbs pre Suc.prems Some] obtain new1 where
      s: "inv (world (st (deliver E pre m d)))" "items (world (st d)) @ new1 = m # items (world (st (deliver E pre m d)))"
      by blast
    from Suc.IH [OF s(1)] obtain ms new d' where ih: "d' = fold (deliver E pre) ms (deliver E pre m d)"
      "inv (world (st d'))" "items (world (st (deliver E pre m d))) @ new = ms @ items (world (st d'))"
      "drain E pre n (deliver E pre m d) = d' \<and> peek (world (st d')) = None \<or>
       drain E pre n (deliver E pre m d) = halt d' \<and> length ms = n"
      by blast
    have "items (world (st d)) @ new1 @ new = (m # ms) @ items (world (st d'))"
      using s(2) ih(3) by (simp flip: append_assoc)
    then show ?thesis
      using ih Some by (intro exI [of _ "m # ms"] exI [of _ "new1 @ new"] exI [of _ d']) (simp add: uses)
  qed
qed

end

subsection \<open>On the SPI driver\<close>

text \<open>The dispatcher's world is the SPI driver and the board; \<open>None\<close> is a driver that hangs or has left
  a buffer. Waiting lets a tick pass and the interrupts happen.\<close>

definition board_send ::
  "ca_ver \<Rightarrow> 'b bsp \<Rightarrow> mac_msg \<Rightarrow> mac_msg option \<Rightarrow> (spi \<times> 'b) option \<Rightarrow>
     ca_error \<times> mac_msg option \<times> (spi \<times> 'b) option" where
  "board_send v B c r w =
     (case w of
        None \<Rightarrow> (CA_ERROR_FAIL, r, None)
      | Some (s, b) \<Rightarrow>
          (case SPI_Send v B c r s b of
             None \<Rightarrow> (CA_ERROR_FAIL, r, None)
           | Some (e, r', s', b') \<Rightarrow> (e, r', Some (s', b'))))"

definition board_read :: "ca_ver \<Rightarrow> 'b bsp \<Rightarrow> (spi \<times> 'b) option \<Rightarrow> (spi \<times> 'b) option" where
  "board_read v B w =
     (case w of None \<Rightarrow> None
      | Some (s, b) \<Rightarrow> (case SPI_Exchange v B None s b of None \<Rightarrow> None | Some (e, s', b') \<Rightarrow> Some (s', b')))"

definition board_api :: "ca_ver \<Rightarrow> 'b bsp \<Rightarrow> (spi \<times> 'b) option spi_ops" where
  "board_api v B =
     \<lparr>spi_send = board_send v B, spi_read = board_read v B,
      spi_in_progress = case_option False (SPI_IsExchangeWithCA821xInProgress \<circ> fst),
      spi_almost_full = case_option False (SPI_IsFifoAlmostFull \<circ> fst),
      spi_chain_in_flight = case_option False (SPI_IsSyncChainInFlight \<circ> fst),
      spi_external = case_option False (SPI_GetExternallyInUseStatus \<circ> fst),
      rfirq = case_option True (sense_rfirq B \<circ> snd),
      rx_peek = (\<lambda>w. case w of None \<Rightarrow> None | Some (s, b) \<Rightarrow> SPI_PeekFullBuf s),
      rx_dequeue = map_option (\<lambda>(s, b). (SPI_DequeueFullBuf s, b)),
      now = case_option 0 (absolute_time B \<circ> snd),
      idle = map_option (\<lambda>(s, b). interrupts B s (wait_tick B b))\<rparr>"

definition board_env ::
  "ca_ver \<Rightarrow> 'b bsp \<Rightarrow>
     ('cb \<Rightarrow> mac_msg \<Rightarrow> ('cb, (spi \<times> 'b) option) device \<Rightarrow> ca_error \<times> ('cb, (spi \<times> 'b) option) device) \<Rightarrow>
     mac_msg \<Rightarrow> nat \<Rightarrow> ('cb, (spi \<times> 'b) option) env" where
  "board_env v B a u n = \<lparr>CA_VER = v, spi_api = board_api v B, app = a, uninit = u, rounds = n\<rparr>"

definition board_inv :: "(spi \<times> 'b) option \<Rightarrow> bool" where
  "board_inv w = (case w of None \<Rightarrow> True | Some (s, b) \<Rightarrow> ring_inv s)"

definition board_items :: "(spi \<times> 'b) option \<Rightarrow> mac_msg list" where
  "board_items w = (case w of None \<Rightarrow> [] | Some (s, b) \<Rightarrow> ring_items s)"

interpretation board: radio_queue board_inv board_items
    "\<lambda>w. case w of None \<Rightarrow> None | Some (s, b) \<Rightarrow> SPI_PeekFullBuf s"
    "map_option (\<lambda>(s, b). (SPI_DequeueFullBuf s, b))" "board_env v B a u n"
  for v :: ca_ver and B :: "'b bsp"
    and a :: "'cb \<Rightarrow> mac_msg \<Rightarrow> ('cb, (spi \<times> 'b) option) device \<Rightarrow> ca_error \<times> ('cb, (spi \<times> 'b) option) device"
    and u n
proof
  fix w :: "(spi \<times> 'b) option" and m
  assume w: "board_inv w"
  show "board_items w \<noteq> [] \<and> m = hd (board_items w)"
    if "(case w of None \<Rightarrow> None | Some (s, b) \<Rightarrow> SPI_PeekFullBuf s) = Some m"
    using that w spi_fifo.peek_head by (auto simp: board_inv_def board_items_def split: option.splits)
  show "board_inv (map_option (\<lambda>(s, b). (SPI_DequeueFullBuf s, b)) w) \<and>
      board_items (map_option (\<lambda>(s, b). (SPI_DequeueFullBuf s, b)) w) = tl (board_items w)" if "board_items w \<noteq> []"
    using that w spi_fifo.dequeue_tail by (auto simp: board_inv_def board_items_def split: option.splits)
qed (simp_all add: board_env_def board_api_def)


definition waiting_device :: "(unit, (spi \<times> bytes \<times> bytes \<times> u32) option) device" where
  "waiting_device =
     \<lparr>app_context = None,
      exchange_context = Some (bm_reset (Some (snd (SPI_GetFreeBuf (snd (SPI_GetFreeBuf spi_reset))), ([], [], 0)))),
      callbacks = (\<lambda>_. None), generic_dispatch = None, extaddr = [], shortaddr = 0, lqi_mode = 0, MAC_MPW = 0,
      blacklist = []\<rparr>"

definition waiting_env :: "(unit, (spi \<times> bytes \<times> bytes \<times> u32) option) env" where
  "waiting_env = board_env CA8211 script_board (\<lambda>_ _ d. (CA_ERROR_SUCCESS, d)) get_request 10"


subsection \<open>Waiting for a callback\<close>

lemma wait_loop_keeps:
  assumes "\<And>d. sWaiting (st d) \<Longrightarrow> sWaiting (st (snd (from_radio self d))) \<and>
             sTargetCallback (st (snd (from_radio self d))) = sTargetCallback (st d)"
  shows "sWaiting (st d) \<Longrightarrow> wait_loop E self n start t passed status d = (status', d') \<Longrightarrow>
           sWaiting (st d') \<and> sTargetCallback (st d') = sTargetCallback (st d)"
proof (induction n arbitrary: passed status d)
  case (Suc n)
  obtain e d1 where f: "from_radio self d = (e, d1)" by fastforce
  with assms [OF Suc.prems(1)] have k: "sWaiting (st d1)" "sTargetCallback (st d1) = sTargetCallback (st d)" by simp_all
  have "sWaiting (st (upd_world (idle (spi_api E)) d1))" using k(1) by simp
  from Suc.IH [OF this] Suc.prems k f show ?case by (auto simp: Let_def split: if_splits)
qed (auto simp: halt_def)



end
