(* ===== verification/Exchange.thy ===== *)
theory Exchange
  imports MacMsg
begin

text \<open>
  The host side of the link to a device, \<^verbatim>\<open>posix/ca821x-posix/source/generic-exchange\<close>: the
  message queues (\<^verbatim>\<open>ca821x-queue.c\<close>) and the exchange built on them
  (\<^verbatim>\<open>ca821x-generic-exchange.c\<close>). A queue is protected by its own mutex, so each of its operations
  is one atomic step; waiting on a condition is a step that is not enabled.
\<close>

unbundle bit_operations_syntax

abbreviation MAX_BUF_SIZE :: nat where "MAX_BUF_SIZE \<equiv> 256"
abbreviation sizeof_MAC_Message :: nat where "sizeof_MAC_Message \<equiv> 256"

subsection \<open>Queues\<close>

text \<open>An item is a message and the device it belongs to, a null pointer for the item that wakes a
  worker. Memory is taken to be available.\<close>

type_synonym 'd queue_item = "bytes \<times> 'd option"

definition add_to_queue :: "'d queue_item list \<Rightarrow> bytes \<Rightarrow> 'd option \<Rightarrow> 'd queue_item list" where
  "add_to_queue q buf d = q @ [(buf, d)]"

text \<open>\<open>dest\<close> is the size of the destination, \<open>None\<close> a null pointer. The result is the length, what is
  written to the destination and to the device pointer, and the queue: an item that does not fit is
  lost.\<close>

fun pop_from_queue ::
  "'d queue_item list \<Rightarrow> nat option \<Rightarrow> nat \<times> bytes option \<times> 'd option option \<times> 'd queue_item list" where
  "pop_from_queue [] dest = (0, None, None, [])"
| "pop_from_queue ((buf, d) # q) None = (0, None, Some d, q)"
| "pop_from_queue ((buf, d) # q) (Some maxlen) =
     (if length buf > maxlen then (0, None, Some d, q) else (length buf, Some buf, Some d, q))"

fun flush_queue :: "'d queue_item list \<Rightarrow> 'd queue_item list" where
  "flush_queue [] = []"
| "flush_queue (i # q) = flush_queue (snd (snd (snd (pop_from_queue (i # q) None))))"

fun peek_queue :: "'d queue_item list \<Rightarrow> nat" where
  "peek_queue [] = 0"
| "peek_queue ((buf, d) # q) = length buf"

text \<open>One look at the queue while waiting; \<open>None\<close>: the wait goes on. \<open>expired\<close> says that there is a time
  limit and it has passed.\<close>

fun wait_on_queue :: "'d queue_item list \<Rightarrow> bool \<Rightarrow> nat option" where
  "wait_on_queue ((buf, d) # q) expired = Some (length buf)"
| "wait_on_queue [] expired = (if expired then Some 0 else None)"

fun wait_on_queue_empty :: "'d queue_item list \<Rightarrow> bool \<Rightarrow> ca_error option" where
  "wait_on_queue_empty [] expired = Some CA_ERROR_SUCCESS"
| "wait_on_queue_empty (i # q) expired = (if expired then Some CA_ERROR_TIMEOUT else None)"

subsection \<open>Devices and the shared part\<close>

text \<open>\<open>'cb\<close> are handles of callbacks; the functions of the interface behind the exchange (USB, UART,
  kernel) are parameters of the operations that call them.\<close>

record ('d, 'cb) exchange_base =
  error_callback :: "'cb option"
  user_callback :: "'cb option"
  io_thread_runflag :: bool
  in_buffer_queue :: "'d queue_item list"
  out_buffer_queue :: "'d queue_item list"

record 'd exchange_statics =
  ud_run_flag :: bool
  generic_initialised :: int
  upstream_dispatch_queue :: "'d queue_item list"

definition statics_reset :: "'d exchange_statics" where
  "statics_reset = \<lparr>ud_run_flag = False, generic_initialised = 0, upstream_dispatch_queue = []\<rparr>"

text \<open>\<open>dispatch\<close> is \<^verbatim>\<open>ca821x_upstream_dispatch\<close>, \<open>evbme\<close> is \<^verbatim>\<open>ca821x_evbme_dispatch\<close>, \<open>user\<close> a call
  of the device's user callback if it has one; all act on a world \<open>'w\<close>.\<close>

definition ca821x_run_upstream_dispatch ::
  "('d \<Rightarrow> bytes \<Rightarrow> 'w \<Rightarrow> ca_error \<times> 'w) \<Rightarrow> ('d \<Rightarrow> bytes \<Rightarrow> 'w \<Rightarrow> ca_error \<times> 'w) \<Rightarrow>
   ('d \<Rightarrow> bytes \<Rightarrow> 'w \<Rightarrow> 'w) \<Rightarrow> 'd exchange_statics \<Rightarrow> 'w \<Rightarrow> nat \<times> 'd exchange_statics \<times> 'w" where
  "ca821x_run_upstream_dispatch dispatch evbme user g w =
     (case pop_from_queue (upstream_dispatch_queue g) (Some MAX_BUF_SIZE) of
        (len, buf, d, q) \<Rightarrow>
          let g = g\<lparr>upstream_dispatch_queue := q\<rparr> in
          (case (buf, d) of
             (Some buf, Some (Some d)) \<Rightarrow>
               if len = 0 then (len, g, w)
               else (let (rval, w) = dispatch d buf w;
                         (rval, w) = (if rval \<noteq> CA_ERROR_SUCCESS then evbme d buf w else (rval, w));
                         w = (if rval \<noteq> CA_ERROR_SUCCESS then user d buf w else w)
                     in (len, g, w))
           | _ \<Rightarrow> (len, g, w)))"

definition ca821x_util_dispatch_poll ::
  "('d \<Rightarrow> bytes \<Rightarrow> 'w \<Rightarrow> ca_error \<times> 'w) \<Rightarrow> ('d \<Rightarrow> bytes \<Rightarrow> 'w \<Rightarrow> ca_error \<times> 'w) \<Rightarrow>
   ('d \<Rightarrow> bytes \<Rightarrow> 'w \<Rightarrow> 'w) \<Rightarrow> 'd exchange_statics \<Rightarrow> 'w \<Rightarrow> ca_error \<times> 'd exchange_statics \<times> 'w" where
  "ca821x_util_dispatch_poll dispatch evbme user g w =
     (if ud_run_flag g then (CA_ERROR_INVALID_STATE, g, w)
      else (case ca821x_run_upstream_dispatch dispatch evbme user g w of
              (len, g, w) \<Rightarrow> (if len \<noteq> 0 then CA_ERROR_SUCCESS else CA_ERROR_NOT_FOUND, g, w)))"

text \<open>\<open>created\<close>: the thread could be created; \<open>joined\<close>: it could be joined.\<close>

definition ca821x_util_start_upstream_dispatch_worker ::
  "bool \<Rightarrow> 'd exchange_statics \<Rightarrow> ca_error \<times> 'd exchange_statics" where
  "ca821x_util_start_upstream_dispatch_worker created g =
     (if ud_run_flag g then (CA_ERROR_ALREADY, g)
      else (if created then CA_ERROR_SUCCESS else CA_ERROR_FAIL, g\<lparr>ud_run_flag := True\<rparr>))"

definition ca821x_util_stop_upstream_dispatch_worker ::
  "bool \<Rightarrow> 'd exchange_statics \<Rightarrow> ca_error \<times> 'd exchange_statics" where
  "ca821x_util_stop_upstream_dispatch_worker joined g =
     (if \<not> ud_run_flag g then (CA_ERROR_ALREADY, g)
      else (if joined then CA_ERROR_SUCCESS else CA_ERROR_FAIL,
            g\<lparr>ud_run_flag := False,
              upstream_dispatch_queue := add_to_queue (upstream_dispatch_queue g) [] None\<rparr>))"

definition init_generic_statics :: "'d exchange_statics \<Rightarrow> 'd exchange_statics" where
  "init_generic_statics g = g\<lparr>generic_initialised := generic_initialised g + 1\<rparr>"

definition deinit_generic_statics :: "bool \<Rightarrow> 'd exchange_statics \<Rightarrow> ca_error \<times> 'd exchange_statics" where
  "deinit_generic_statics joined g =
     (let g = g\<lparr>generic_initialised := generic_initialised g - 1\<rparr> in
      if generic_initialised g = 0 then (CA_ERROR_SUCCESS, g)
      else (case ca821x_util_stop_upstream_dispatch_worker joined g of
              (error, g) \<Rightarrow> (error, g\<lparr>upstream_dispatch_queue := flush_queue (upstream_dispatch_queue g)\<rparr>)))"

definition init_generic ::
  "bool \<Rightarrow> ('d, 'cb) exchange_base \<Rightarrow> 'd exchange_statics \<Rightarrow>
     ca_error \<times> ('d, 'cb) exchange_base \<times> 'd exchange_statics" where
  "init_generic created base g =
     (if created then CA_ERROR_SUCCESS else CA_ERROR_FAIL, base\<lparr>io_thread_runflag := True\<rparr>, init_generic_statics g)"

definition deinit_generic ::
  "bool \<Rightarrow> ('d, 'cb) exchange_base \<Rightarrow> 'd exchange_statics \<Rightarrow>
     ca_error \<times> ('d, 'cb) exchange_base \<times> 'd exchange_statics" where
  "deinit_generic joined priv g =
     (case deinit_generic_statics joined g of
        (error, g) \<Rightarrow>
          (error, priv\<lparr>io_thread_runflag := False, in_buffer_queue := flush_queue (in_buffer_queue priv),
                       out_buffer_queue := flush_queue (out_buffer_queue priv), error_callback := None\<rparr>, g))"

definition exchange_register_user_callback ::
  "'cb option \<Rightarrow> ('d, 'cb) exchange_base \<Rightarrow> ca_error \<times> ('d, 'cb) exchange_base" where
  "exchange_register_user_callback callback priv =
     (if user_callback priv \<noteq> None then (CA_ERROR_FAIL, priv)
      else (CA_ERROR_SUCCESS, priv\<lparr>user_callback := callback\<rparr>))"

text \<open>With a time limit the result is that of a finished wait.\<close>

definition exchange_wait_send_complete :: "bool \<Rightarrow> bool \<Rightarrow> ('d, 'cb) exchange_base \<Rightarrow> ca_error option" where
  "exchange_wait_send_complete limit expired priv =
     (if limit
      then map_option (\<lambda>e. if e \<noteq> CA_ERROR_SUCCESS then CA_ERROR_BUSY else CA_ERROR_SUCCESS)
             (wait_on_queue_empty (out_buffer_queue priv) expired)
      else Some (if peek_queue (out_buffer_queue priv) \<noteq> 0 then CA_ERROR_BUSY else CA_ERROR_SUCCESS))"

definition exchange_user_command ::
  "u8 \<Rightarrow> u8 \<Rightarrow> bytes \<Rightarrow> 'd \<Rightarrow> ('d, 'cb) exchange_base \<Rightarrow> ca_error \<times> ('d, 'cb) exchange_base" where
  "exchange_user_command cmdid cmdlen payload d priv =
     (if cmdid AND SPI_SYN \<noteq> 0 then (CA_ERROR_INVALID_ARGS, priv)
      else (CA_ERROR_SUCCESS,
            priv\<lparr>out_buffer_queue :=
                   add_to_queue (out_buffer_queue priv) (cmdid # cmdlen # take (unat cmdlen) payload) (Some d)\<rparr>))"

text \<open>\<open>None\<close>: there is no callback, and the program is aborted.\<close>

definition exchange_handle_error ::
  "('cb \<Rightarrow> ca_error \<Rightarrow> 'w \<Rightarrow> 'w) \<Rightarrow> ca_error \<Rightarrow> ('d, 'cb) exchange_base \<Rightarrow> 'w \<Rightarrow> (ca_error \<times> 'w) option" where
  "exchange_handle_error call error priv w =
     (case error_callback priv of None \<Rightarrow> None | Some f \<Rightarrow> Some (CA_ERROR_SUCCESS, call f error w))"

subsection \<open>The I/O worker\<close>

text \<open>What a read brings: nothing, an error, or a message.\<close>

datatype read_result = Read_none | Read_error | Read_msg bytes

definition is_sync :: "bytes \<Rightarrow> bool" where
  "is_sync buf \<longleftrightarrow> buf \<noteq> [] \<and> hd buf AND SPI_SYN \<noteq> 0"

text \<open>A message of 256 octets fails the assertion.\<close>

definition ca821x_try_read ::
  "('cb \<Rightarrow> ca_error \<Rightarrow> 'w \<Rightarrow> 'w) \<Rightarrow> read_result \<Rightarrow> 'd \<Rightarrow> ('d, 'cb) exchange_base \<Rightarrow> 'd exchange_statics \<Rightarrow> 'w \<Rightarrow>
     (ca_error \<times> ('d, 'cb) exchange_base \<times> 'd exchange_statics \<times> 'w) option" where
  "ca821x_try_read call r d priv g w =
     (case r of
        Read_none \<Rightarrow> Some (CA_ERROR_NOT_FOUND, priv, g, w)
      | Read_error \<Rightarrow>
          map_option (\<lambda>(e, w). (CA_ERROR_NOT_FOUND, priv, g, w)) (exchange_handle_error call CA_ERROR_FAIL priv w)
      | Read_msg buf \<Rightarrow>
          if length buf \<ge> MAX_BUF_SIZE then None
          else if buf = [] then Some (CA_ERROR_NOT_FOUND, priv, g, w)
          else if is_sync buf
          then Some (CA_ERROR_SUCCESS, priv\<lparr>in_buffer_queue := add_to_queue (in_buffer_queue priv) buf (Some d)\<rparr>, g, w)
          else Some (CA_ERROR_SUCCESS, priv,
                 g\<lparr>upstream_dispatch_queue := add_to_queue (upstream_dispatch_queue g) buf (Some d)\<rparr>, w))"

text \<open>\<open>not_ready\<close> is the interface's word that it cannot take a message, \<open>write\<close> its write function.\<close>

definition ca821x_try_write ::
  "('cb \<Rightarrow> ca_error \<Rightarrow> 'w \<Rightarrow> 'w) \<Rightarrow> bool \<Rightarrow> (bytes \<Rightarrow> 'w \<Rightarrow> ca_error \<times> 'w) \<Rightarrow> ('d, 'cb) exchange_base \<Rightarrow> 'w \<Rightarrow>
     (ca_error \<times> ('d, 'cb) exchange_base \<times> 'w) option" where
  "ca821x_try_write call not_ready write_func priv w =
     (if not_ready then Some (CA_ERROR_BUSY, priv, w)
      else (case pop_from_queue (out_buffer_queue priv) (Some MAX_BUF_SIZE) of
              (len, buf, _, q) \<Rightarrow>
                let priv = priv\<lparr>out_buffer_queue := q\<rparr> in
                (case buf of
                   None \<Rightarrow> Some (CA_ERROR_NOT_FOUND, priv, w)
                 | Some b \<Rightarrow>
                     if len = 0 then Some (CA_ERROR_NOT_FOUND, priv, w)
                     else (case write_func b w of
                             (error, w) \<Rightarrow>
                               if error \<noteq> CA_ERROR_SUCCESS
                               then map_option (\<lambda>(e, w). (CA_ERROR_FAIL, priv, w)) (exchange_handle_error call error priv w)
                               else Some (CA_ERROR_SUCCESS, priv, w)))))"

text \<open>One round of the worker's loop: it writes only when there is nothing to read.\<close>

definition io_worker_round ::
  "('cb \<Rightarrow> ca_error \<Rightarrow> 'w \<Rightarrow> 'w) \<Rightarrow> read_result \<Rightarrow> bool \<Rightarrow> (bytes \<Rightarrow> 'w \<Rightarrow> ca_error \<times> 'w) \<Rightarrow> 'd \<Rightarrow>
   ('d, 'cb) exchange_base \<Rightarrow> 'd exchange_statics \<Rightarrow> 'w \<Rightarrow>
     (('d, 'cb) exchange_base \<times> 'd exchange_statics \<times> 'w) option" where
  "io_worker_round call r not_ready write_func d priv g w =
     (case ca821x_try_read call r d priv g w of
        None \<Rightarrow> None
      | Some (e, priv, g, w) \<Rightarrow>
          if e = CA_ERROR_NOT_FOUND
          then map_option (\<lambda>(_, priv, w). (priv, g, w)) (ca821x_try_write call not_ready write_func priv w)
          else Some (priv, g, w))"

subsection \<open>Commands\<close>

text \<open>
  A thread in \<^verbatim>\<open>ca821x_exchange_commands\<close>, by what it has done: called (with or without a response
  buffer), holding the synchronous mutex, its message queued, seen to be sent, the wait for the
  response over (with a message there or not), and the response taken out.
\<close>

datatype progress =
    Ready | Called bytes bool | Locked bytes | Queued bytes | Sent bytes | Waited bytes bool
  | Popped bytes bool "bytes option"

text \<open>
  One device and its surroundings: the worker may hold a message that it has popped and not yet
  written, or read and not yet queued; messages are on their way in both directions; and the
  results of finished calls are recorded.
\<close>

record system =
  base :: "(unit, unit) exchange_base"
  statics :: "unit exchange_statics"
  sync_mutex :: "nat option"
  threads :: "nat \<Rightarrow> progress"
  writing :: "bytes option"
  reading :: "bytes option"
  to_device :: "bytes list"
  from_device :: "bytes list"
  results :: "(bytes \<times> ca_error \<times> bytes option) list"

definition set_progress :: "nat \<Rightarrow> progress \<Rightarrow> system \<Rightarrow> system" where
  "set_progress t p s = s\<lparr>threads := (threads s)(t := p)\<rparr>"

definition queue_out :: "bytes \<Rightarrow> system \<Rightarrow> system" where
  "queue_out buf s =
     s\<lparr>base := (base s)\<lparr>out_buffer_queue := add_to_queue (out_buffer_queue (base s)) buf (Some ())\<rparr>\<rparr>"

definition finish :: "nat \<Rightarrow> bytes \<Rightarrow> ca_error \<Rightarrow> bytes option \<Rightarrow> system \<Rightarrow> system" where
  "finish t buf status response s = set_progress t Ready (s\<lparr>results := results s @ [(buf, status, response)]\<rparr>)"

definition ca821x_exchange_commands :: "bool \<Rightarrow> nat \<Rightarrow> system \<Rightarrow> system option" where
  "ca821x_exchange_commands expired t s =
     (case threads s t of
        Ready \<Rightarrow> None
      | Called buf response \<Rightarrow>
          if generic_initialised (statics s) = 0 then Some (finish t buf CA_ERROR_INVALID_STATE None s)
          else if is_sync buf \<and> response
          then (if sync_mutex s = None then Some (set_progress t (Locked buf) (s\<lparr>sync_mutex := Some t\<rparr>)) else None)
          else Some (finish t buf CA_ERROR_SUCCESS None (queue_out buf s))
      | Locked buf \<Rightarrow> Some (set_progress t (Queued buf) (queue_out buf s))
      | Queued buf \<Rightarrow>
          map_option (\<lambda>_. set_progress t (Sent buf) s) (wait_on_queue_empty (out_buffer_queue (base s)) False)
      | Sent buf \<Rightarrow>
          map_option (\<lambda>success. set_progress t (Waited buf (success \<noteq> 0)) s)
            (wait_on_queue (in_buffer_queue (base s)) expired)
      | Waited buf success \<Rightarrow>
          (case pop_from_queue (in_buffer_queue (base s)) (Some sizeof_MAC_Message) of
             (len, response, _, q) \<Rightarrow>
               Some (set_progress t (Popped buf success response) (s\<lparr>base := (base s)\<lparr>in_buffer_queue := q\<rparr>\<rparr>)))
      | Popped buf success response \<Rightarrow>
          Some (finish t buf (if success then CA_ERROR_SUCCESS else CA_ERROR_TIMEOUT) response (s\<lparr>sync_mutex := None\<rparr>)))"

text \<open>\<open>answer\<close> is the device's response to a synchronous request; \<open>may_expire\<close> allows time-outs. Callers
  pass a response buffer exactly with a synchronous request.\<close>

inductive step :: "bool \<Rightarrow> (bytes \<Rightarrow> bytes) \<Rightarrow> system \<Rightarrow> system \<Rightarrow> bool" for may_expire answer where
  call: "threads s t = Ready \<Longrightarrow> 0 < length buf \<Longrightarrow> length buf \<le> MAX_BUF_SIZE \<Longrightarrow>
    step may_expire answer s (set_progress t (Called buf (is_sync buf)) s)"
| thread: "ca821x_exchange_commands expired t s = Some s' \<Longrightarrow> expired \<longrightarrow> may_expire \<Longrightarrow>
    step may_expire answer s s'"
| io_pop: "writing s = None \<Longrightarrow> reading s = None \<Longrightarrow>
    pop_from_queue (out_buffer_queue (base s)) (Some MAX_BUF_SIZE) = (len, buf, d, q) \<Longrightarrow>
    step may_expire answer s (s\<lparr>base := (base s)\<lparr>out_buffer_queue := q\<rparr>, writing := buf\<rparr>)"
| io_write: "writing s = Some buf \<Longrightarrow>
    step may_expire answer s (s\<lparr>writing := None, to_device := to_device s @ [buf]\<rparr>)"
| io_read: "writing s = None \<Longrightarrow> reading s = None \<Longrightarrow> from_device s = m # ms \<Longrightarrow>
    step may_expire answer s (s\<lparr>reading := Some m, from_device := ms\<rparr>)"
| io_queue: "reading s = Some m \<Longrightarrow>
    ca821x_try_read (\<lambda>_ _ w. w) (Read_msg m) () (base s) (statics s) () = Some (e, b, g, w) \<Longrightarrow>
    step may_expire answer s (s\<lparr>reading := None, base := b, statics := g\<rparr>)"
| device: "to_device s = buf # bufs \<Longrightarrow>
    step may_expire answer s
      (s\<lparr>to_device := bufs, from_device := from_device s @ (if is_sync buf then [answer buf] else [])\<rparr>)"
| indication: "\<not> is_sync m \<Longrightarrow> 0 < length m \<Longrightarrow> length m < MAX_BUF_SIZE \<Longrightarrow>
    step may_expire answer s (s\<lparr>from_device := from_device s @ [m]\<rparr>)"

definition system_start :: system where
  "system_start =
     \<lparr>base = \<lparr>error_callback = None, user_callback = None, io_thread_runflag = True, in_buffer_queue = [],
              out_buffer_queue = []\<rparr>,
      statics = init_generic_statics statics_reset, sync_mutex = None, threads = (\<lambda>_. Ready), writing = None,
      reading = None, to_device = [], from_device = [], results = []\<rparr>"

definition reachable :: "bool \<Rightarrow> (bytes \<Rightarrow> bytes) \<Rightarrow> system \<Rightarrow> bool" where
  "reachable may_expire answer = (step may_expire answer)\<^sup>*\<^sup>* system_start"

end
