(* ===== verification/ExchangeSound.thy ===== *)
theory ExchangeSound
  imports Exchange
begin

text \<open>
  Properties of the host's exchange: without time-outs every synchronous call gets the response to
  its own request and calls do not block each other for ever; after a time-out the late response is
  given to the next call; and taking one device out stops the upstream worker of the others.
\<close>

unbundle bit_operations_syntax

subsection \<open>Where a response is\<close>

text \<open>The responses that are queued, read, on their way, or still to be made, in order.\<close>

definition of_option :: "'a option \<Rightarrow> 'a list" where
  "of_option x = (case x of None \<Rightarrow> [] | Some y \<Rightarrow> [y])"

lemma of_option_simps [simp]: "of_option None = []" "of_option (Some x) = [x]"
  by (simp_all add: of_option_def)

definition pending :: "(bytes \<Rightarrow> bytes) \<Rightarrow> system \<Rightarrow> bytes list" where
  "pending answer s =
     map fst (in_buffer_queue (base s)) @ filter is_sync (of_option (reading s) @ from_device s) @
     map answer (filter is_sync (to_device s @ of_option (writing s) @ map fst (out_buffer_queue (base s))))"

text \<open>What the progress of the thread that holds the mutex says about them.\<close>

fun expects :: "(bytes \<Rightarrow> bytes) \<Rightarrow> progress \<Rightarrow> bytes list \<Rightarrow> bool" where
  "expects answer (Locked buf) p \<longleftrightarrow> is_sync buf \<and> p = []"
| "expects answer (Queued buf) p \<longleftrightarrow> is_sync buf \<and> p = [answer buf]"
| "expects answer (Sent buf) p \<longleftrightarrow> is_sync buf \<and> p = [answer buf]"
| "expects answer (Waited buf ok) p \<longleftrightarrow> is_sync buf \<and> ok \<and> p = [answer buf]"
| "expects answer (Popped buf ok rsp) p \<longleftrightarrow> is_sync buf \<and> ok \<and> rsp = Some (answer buf) \<and> p = []"
| "expects answer _ p \<longleftrightarrow> False"

fun outside :: "progress \<Rightarrow> bool" where
  "outside Ready \<longleftrightarrow> True"
| "outside (Called buf rsp) \<longleftrightarrow> rsp = is_sync buf"
| "outside _ \<longleftrightarrow> False"

fun length_ok :: "progress \<Rightarrow> bool" where
  "length_ok (Called buf rsp) \<longleftrightarrow> 0 < length buf \<and> length buf \<le> MAX_BUF_SIZE"
| "length_ok (Locked buf) \<longleftrightarrow> 0 < length buf \<and> length buf \<le> MAX_BUF_SIZE"
| "length_ok _ \<longleftrightarrow> True"

definition result_ok :: "(bytes \<Rightarrow> bytes) \<Rightarrow> bytes \<times> ca_error \<times> bytes option \<Rightarrow> bool" where
  "result_ok answer r \<longleftrightarrow>
     (case r of (buf, status, rsp) \<Rightarrow>
        status = CA_ERROR_SUCCESS \<and> rsp = (if is_sync buf then Some (answer buf) else None))"

definition exchange_inv :: "(bytes \<Rightarrow> bytes) \<Rightarrow> system \<Rightarrow> bool" where
  "exchange_inv answer s \<longleftrightarrow>
     generic_initialised (statics s) \<noteq> 0 \<and>
     (\<forall>t. sync_mutex s \<noteq> Some t \<longrightarrow> outside (threads s t)) \<and>
     (case sync_mutex s of None \<Rightarrow> pending answer s = [] | Some t \<Rightarrow> expects answer (threads s t) (pending answer s)) \<and>
     (\<forall>m \<in> set (map fst (in_buffer_queue (base s)) @ of_option (reading s) @ from_device s). 0 < length m \<and> length m < MAX_BUF_SIZE) \<and>
     (\<forall>b \<in> set (map fst (out_buffer_queue (base s))). 0 < length b \<and> length b \<le> MAX_BUF_SIZE) \<and>
     (\<forall>t. length_ok (threads s t)) \<and>
     (\<forall>t buf ok. threads s t = Waited buf ok \<longrightarrow> in_buffer_queue (base s) \<noteq> []) \<and>
     (\<forall>r \<in> set (results s). result_ok answer r)"

lemma exchange_inv_start: "exchange_inv answer system_start"
  by (simp add: exchange_inv_def system_start_def pending_def init_generic_statics_def statics_reset_def)


text \<open>Parts of the invariant that a step of a thread leaves alone.\<close>

lemma pop_head:
  "pop_from_queue q (Some n) = (len, buf, d, q') \<Longrightarrow>
     q = [] \<and> len = 0 \<and> buf = None \<and> d = None \<and> q' = [] \<or>
     (\<exists>b d'. q = (b, d') # q' \<and> (if length b > n then buf = None else buf = Some b \<and> len = length b))"
  by (cases q) (auto split: if_splits)

lemma set_progress_fields [simp]:
  "base (set_progress t p s) = base s" "statics (set_progress t p s) = statics s"
  "sync_mutex (set_progress t p s) = sync_mutex s" "writing (set_progress t p s) = writing s"
  "reading (set_progress t p s) = reading s" "to_device (set_progress t p s) = to_device s"
  "from_device (set_progress t p s) = from_device s" "results (set_progress t p s) = results s"
  "threads (set_progress t p s) = (threads s)(t := p)" "pending answer (set_progress t p s) = pending answer s"
  by (simp_all add: set_progress_def pending_def)

lemma finish_fields [simp]:
  "base (finish t b e r s) = base s" "statics (finish t b e r s) = statics s"
  "sync_mutex (finish t b e r s) = sync_mutex s" "writing (finish t b e r s) = writing s"
  "reading (finish t b e r s) = reading s" "to_device (finish t b e r s) = to_device s"
  "from_device (finish t b e r s) = from_device s" "results (finish t b e r s) = results s @ [(b, e, r)]"
  "threads (finish t b e r s) = (threads s)(t := Ready)" "pending answer (finish t b e r s) = pending answer s"
  by (simp_all add: finish_def pending_def)

lemma queue_out_fields [simp]:
  "statics (queue_out b s) = statics s" "sync_mutex (queue_out b s) = sync_mutex s"
  "writing (queue_out b s) = writing s" "reading (queue_out b s) = reading s"
  "to_device (queue_out b s) = to_device s" "from_device (queue_out b s) = from_device s"
  "results (queue_out b s) = results s" "threads (queue_out b s) = threads s"
  "in_buffer_queue (base (queue_out b s)) = in_buffer_queue (base s)"
  "out_buffer_queue (base (queue_out b s)) = out_buffer_queue (base s) @ [(b, Some ())]"
  "pending answer (queue_out b s) = pending answer s @ (if is_sync b then [answer b] else [])"
  by (simp_all add: queue_out_def add_to_queue_def pending_def)

lemma mutex_fields [simp]:
  "pending answer (s\<lparr>sync_mutex := x\<rparr>) = pending answer s"
  by (simp add: pending_def)

lemma outside_not_expects: "expects answer p l \<Longrightarrow> \<not> outside p"
  by (cases p) auto

text \<open>A thread inside the call is the one that holds the mutex.\<close>

lemma inside_holder:
  assumes "exchange_inv answer s" "\<not> outside (threads s t)"
  shows "sync_mutex s = Some t" "expects answer (threads s t) (pending answer s)"
proof -
  show m: "sync_mutex s = Some t" using assms by (auto simp: exchange_inv_def)
  then show "expects answer (threads s t) (pending answer s)" using assms(1) by (simp add: exchange_inv_def)
qed

lemma thread_inv:
  assumes inv: "exchange_inv answer s" and st: "ca821x_exchange_commands False t s = Some s'"
  shows "exchange_inv answer s'"
proof (cases "threads s t")
  case Ready
  then show ?thesis using st by (simp add: ca821x_exchange_commands_def)
next
  case (Called buf rsp)
  have o: "sync_mutex s \<noteq> Some t"
    using inv Called by (auto simp: exchange_inv_def)
  then have r: "rsp = is_sync buf" using inv Called by (fastforce simp: exchange_inv_def)
  have l: "0 < length buf \<and> length buf \<le> MAX_BUF_SIZE"
    using inv Called by (auto simp: exchange_inv_def dest: spec [of _ t])
  show ?thesis
  proof (cases "is_sync buf")
    case True
    then have s': "sync_mutex s = None" "s' = set_progress t (Locked buf) (s\<lparr>sync_mutex := Some t\<rparr>)"
      using st Called r inv by (auto simp: ca821x_exchange_commands_def exchange_inv_def split: if_splits)
    then show ?thesis using inv True l by (auto simp: exchange_inv_def)
  next
    case False
    then have s': "s' = finish t buf CA_ERROR_SUCCESS None (queue_out buf s)"
      using st Called r inv by (auto simp: ca821x_exchange_commands_def exchange_inv_def split: if_splits)
    then show ?thesis
      using inv False l o by (auto simp: exchange_inv_def result_ok_def split: option.splits)
  qed
next
  case (Locked buf)
  note h = inside_holder [OF inv, of t]
  have l: "0 < length buf \<and> length buf \<le> MAX_BUF_SIZE"
    using inv Locked by (auto simp: exchange_inv_def dest: spec [of _ t])
  have "s' = set_progress t (Queued buf) (queue_out buf s)" using st Locked by (simp add: ca821x_exchange_commands_def)
  then show ?thesis using inv h Locked l by (auto simp: exchange_inv_def)
next
  case (Queued buf)
  note h = inside_holder [OF inv, of t]
  have "s' = set_progress t (Sent buf) s" using st Queued by (auto simp: ca821x_exchange_commands_def)
  then show ?thesis using inv h Queued by (auto simp: exchange_inv_def)
next
  case (Sent buf)
  note h = inside_holder [OF inv, of t]
  obtain m q where q: "in_buffer_queue (base s) = m # q"
    using st Sent by (cases "in_buffer_queue (base s)") (auto simp: ca821x_exchange_commands_def)
  then have "0 < length (fst m)" using inv by (auto simp: exchange_inv_def)
  then have "s' = set_progress t (Waited buf True) s"
    using st Sent q by (cases m) (auto simp: ca821x_exchange_commands_def)
  then show ?thesis using inv h Sent q by (auto simp: exchange_inv_def)
next
  case (Waited buf ok)
  note h = inside_holder [OF inv, of t]
  obtain m d q where q: "in_buffer_queue (base s) = (m, d) # q"
    using inv Waited by (cases "in_buffer_queue (base s)") (auto simp: exchange_inv_def)
  have p: "pending answer s = [answer buf]" "is_sync buf" "ok" using h Waited by auto
  then have m: "m = answer buf" "q = []" "pending answer (s\<lparr>base := (base s)\<lparr>in_buffer_queue := []\<rparr>\<rparr>) = []"
    by (auto simp: pending_def q)
  have "length m < MAX_BUF_SIZE" using inv by (simp add: exchange_inv_def q)
  then have s': "s' = set_progress t (Popped buf ok (Some m)) (s\<lparr>base := (base s)\<lparr>in_buffer_queue := []\<rparr>\<rparr>)"
    using st Waited q m by (auto simp: ca821x_exchange_commands_def split: if_splits)
  have others: "outside (threads s ta)" if "ta \<noteq> t" for ta
    using that inside_holder(1) [OF inv, of ta] h(1) Waited by auto
  have nw: "threads s' ta \<noteq> Waited b ok'" for ta b ok'
    using others [of ta] by (cases "ta = t") (auto simp: s')
  have "sync_mutex s = Some t" using h(1) Waited by simp
  then show ?thesis
    unfolding exchange_inv_def using inv others nw m p
    by (intro conjI) (simp_all add: s' exchange_inv_def)
next
  case (Popped buf ok rsp)
  note h = inside_holder [OF inv, of t]
  have "s' = finish t buf CA_ERROR_SUCCESS rsp (s\<lparr>sync_mutex := None\<rparr>)"
    using st Popped h by (auto simp: ca821x_exchange_commands_def)
  then show ?thesis using inv h Popped by (auto simp: exchange_inv_def result_ok_def)
qed


lemma inv_start_fields:
  assumes "exchange_inv answer s" "pending answer s' = pending answer s" "statics s' = statics s"
    "generic_initialised (statics s') = generic_initialised (statics s)"
    "sync_mutex s' = sync_mutex s" "threads s' = threads s" "results s' = results s"
    "in_buffer_queue (base s) \<noteq> [] \<longrightarrow> in_buffer_queue (base s') \<noteq> []"
    "\<forall>m \<in> set (map fst (in_buffer_queue (base s')) @ of_option (reading s') @ from_device s'). 0 < length m \<and> length m < MAX_BUF_SIZE"
    "\<forall>b \<in> set (map fst (out_buffer_queue (base s'))). 0 < length b \<and> length b \<le> MAX_BUF_SIZE"
  shows "exchange_inv answer s'"
  using assms by (cases "sync_mutex s") (auto simp: exchange_inv_def)

lemma step_inv:
  assumes answers: "\<And>b. is_sync (answer b) \<and> length (answer b) < MAX_BUF_SIZE"
    and "step False answer s s'" and inv: "exchange_inv answer s"
  shows "exchange_inv answer s'"
  using assms(2)
proof (cases rule: step.cases)
  case (call t buf)
  have "sync_mutex s \<noteq> Some t" using inv call by (auto simp: exchange_inv_def)
  then show ?thesis using inv call by (auto simp: exchange_inv_def split: option.splits)
next
  case (thread expired t)
  then show ?thesis using thread_inv [OF inv] by (cases expired) auto
next
  case (io_pop len buf d q)
  have l: "\<forall>b \<in> set (map fst (out_buffer_queue (base s))). 0 < length b \<and> length b \<le> MAX_BUF_SIZE"
    using inv by (simp add: exchange_inv_def)
  show ?thesis
  proof (cases "out_buffer_queue (base s)")
    case Nil
    with io_pop have "s' = s" by simp
    with inv show ?thesis by simp
  next
    case (Cons i q')
    then have "buf = Some (fst i)" "q = q'" using io_pop l by (cases i; auto split: if_splits)+
    then show ?thesis
      using l io_pop Cons by (intro inv_start_fields [OF inv]) (use inv in \<open>auto simp: pending_def exchange_inv_def\<close>)
  qed
next
  case (io_write buf)
  then show ?thesis
    by (intro inv_start_fields [OF inv]) (use inv in \<open>auto simp: pending_def exchange_inv_def\<close>)
next
  case (io_read m ms)
  then show ?thesis
    by (intro inv_start_fields [OF inv]) (use inv in \<open>auto simp: pending_def exchange_inv_def\<close>)
next
  case (io_queue m e b g w)
  have m: "0 < length m" "length m < MAX_BUF_SIZE" using inv io_queue by (auto simp: exchange_inv_def)
  show ?thesis
  proof (cases "is_sync m")
    case True
    then have "b = (base s)\<lparr>in_buffer_queue := in_buffer_queue (base s) @ [(m, Some ())]\<rparr>" "g = statics s"
      using io_queue m by (auto simp: ca821x_try_read_def add_to_queue_def)
    then show ?thesis
      using io_queue True by (intro inv_start_fields [OF inv]) (use inv in \<open>auto simp: pending_def exchange_inv_def\<close>)
  next
    case False
    then have "b = base s" "generic_initialised g = generic_initialised (statics s)"
      using io_queue m by (auto simp: ca821x_try_read_def add_to_queue_def)
    then show ?thesis
      using io_queue False inv by (auto simp: pending_def exchange_inv_def split: option.splits)
  qed
next
  case (device buf bufs)
  then show ?thesis
    using answers by (intro inv_start_fields [OF inv]) (use inv answers in \<open>auto simp: pending_def exchange_inv_def is_sync_def\<close>)
next
  case (indication m)
  then show ?thesis
    by (intro inv_start_fields [OF inv]) (use inv in \<open>auto simp: pending_def exchange_inv_def\<close>)
qed


subsection \<open>Runs\<close>

text \<open>The steps as functions, so that a run can be written down and evaluated.\<close>

datatype action = Call nat bytes | Thread nat bool | Io_pop | Io_write | Io_read | Io_queue | Device | Indication bytes

fun act :: "(bytes \<Rightarrow> bytes) \<Rightarrow> action \<Rightarrow> system \<Rightarrow> system option" where
  "act answer (Call t buf) s =
     (if threads s t = Ready \<and> 0 < length buf \<and> length buf \<le> MAX_BUF_SIZE
      then Some (set_progress t (Called buf (is_sync buf)) s) else None)"
| "act answer (Thread t expired) s = ca821x_exchange_commands expired t s"
| "act answer Io_pop s =
     (if writing s = None \<and> reading s = None \<and> out_buffer_queue (base s) \<noteq> []
      then (case pop_from_queue (out_buffer_queue (base s)) (Some MAX_BUF_SIZE) of
              (len, buf, d, q) \<Rightarrow> Some (s\<lparr>base := (base s)\<lparr>out_buffer_queue := q\<rparr>, writing := buf\<rparr>))
      else None)"
| "act answer Io_write s =
     (case writing s of None \<Rightarrow> None
      | Some buf \<Rightarrow> Some (s\<lparr>writing := None, to_device := to_device s @ [buf]\<rparr>))"
| "act answer Io_read s =
     (case from_device s of [] \<Rightarrow> None
      | m # ms \<Rightarrow> if writing s = None \<and> reading s = None then Some (s\<lparr>reading := Some m, from_device := ms\<rparr>) else None)"
| "act answer Io_queue s =
     (case reading s of None \<Rightarrow> None
      | Some m \<Rightarrow>
          map_option (\<lambda>(e, b, g, w). s\<lparr>reading := None, base := b, statics := g\<rparr>)
            (ca821x_try_read (\<lambda>_ _ w. w) (Read_msg m) () (base s) (statics s) ()))"
| "act answer Device s =
     (case to_device s of [] \<Rightarrow> None
      | buf # bufs \<Rightarrow>
          Some (s\<lparr>to_device := bufs, from_device := from_device s @ (if is_sync buf then [answer buf] else [])\<rparr>))"
| "act answer (Indication m) s =
     (if \<not> is_sync m \<and> 0 < length m \<and> length m < MAX_BUF_SIZE
      then Some (s\<lparr>from_device := from_device s @ [m]\<rparr>) else None)"

fun no_expiry :: "action \<Rightarrow> bool" where
  "no_expiry (Thread t expired) \<longleftrightarrow> \<not> expired"
| "no_expiry _ \<longleftrightarrow> True"

fun internal :: "action \<Rightarrow> bool" where
  "internal (Call t buf) \<longleftrightarrow> False"
| "internal (Indication m) \<longleftrightarrow> False"
| "internal (Thread t expired) \<longleftrightarrow> \<not> expired"
| "internal _ \<longleftrightarrow> True"

lemma act_step:
  assumes "act answer a s = Some s'" "may_expire \<or> no_expiry a"
  shows "step may_expire answer s s'"
proof (cases a)
  case (Call t buf)
  then show ?thesis using assms step.call [of s t buf] by (auto split: if_splits)
next
  case (Thread t expired)
  then show ?thesis using assms by (auto intro: step.thread)
next
  case Io_pop
  obtain len buf d q where "pop_from_queue (out_buffer_queue (base s)) (Some MAX_BUF_SIZE) = (len, buf, d, q)"
    by (cases "pop_from_queue (out_buffer_queue (base s)) (Some MAX_BUF_SIZE)") auto
  then show ?thesis using Io_pop assms step.io_pop [of s len buf d q] by (auto split: if_splits)
next
  case Io_write
  then show ?thesis using assms by (auto intro: step.io_write split: option.splits)
next
  case Io_read
  then show ?thesis using assms by (auto intro: step.io_read split: list.splits if_splits)
next
  case Io_queue
  then show ?thesis using assms by (auto intro: step.io_queue split: option.splits)
next
  case Device
  then show ?thesis using assms step.device [of s] by (auto split: list.splits)
next
  case (Indication m)
  then show ?thesis using assms by (auto intro: step.indication split: if_splits)
qed

fun acts :: "(bytes \<Rightarrow> bytes) \<Rightarrow> action list \<Rightarrow> system \<Rightarrow> system option" where
  "acts answer [] s = Some s"
| "acts answer (a # xs) s = (case act answer a s of None \<Rightarrow> None | Some s' \<Rightarrow> acts answer xs s')"

lemma acts_reach:
  "acts answer xs s = Some s' \<Longrightarrow> list_all (\<lambda>a. may_expire \<or> no_expiry a) xs \<Longrightarrow> (step may_expire answer)\<^sup>*\<^sup>* s s'"
proof (induction xs arbitrary: s)
  case (Cons a xs)
  then obtain s1 where "act answer a s = Some s1" "acts answer xs s1 = Some s'" by (auto split: option.splits)
  then show ?case using Cons act_step [of answer a s s1 may_expire] by (auto intro: converse_rtranclp_into_rtranclp)
qed simp

lemma reachable_inv:
  assumes "\<And>b. is_sync (answer b) \<and> length (answer b) < MAX_BUF_SIZE" "reachable False answer s"
  shows "exchange_inv answer s"
  using assms(2) unfolding reachable_def
proof (induction rule: rtranclp_induct)
  case base
  show ?case by (rule exchange_inv_start)
next
  case (step s s')
  show ?case by (rule step_inv [OF assms(1) step(2,3)])
qed

text \<open>
  C14: As long as no wait for a response runs out of time, every call of the exchange succeeds, and a
  synchronous one has the device's response to its own request, however many threads make calls and
  however they interleave with the worker, the device and its indications.
\<close>

theorem exchange_own_response:
  assumes "\<And>b. is_sync (answer b) \<and> length (answer b) < MAX_BUF_SIZE"
    and "reachable False answer s" "(buf, status, response) \<in> set (results s)"
  shows "status = CA_ERROR_SUCCESS \<and> response = (if is_sync buf then Some (answer buf) else None)"
  using reachable_inv [OF assms(1,2)] assms(3) by (auto simp: exchange_inv_def result_ok_def)

text \<open>The life of a synchronous call of thread \<open>t\<close>.\<close>

definition sync_call :: "nat \<Rightarrow> bytes \<Rightarrow> action list" where
  "sync_call t buf = [Call t buf, Thread t False, Thread t False, Io_pop, Thread t False, Io_write]"

definition answered :: "action list" where
  "answered = [Device, Io_read, Io_queue]"

definition take_response :: "nat \<Rightarrow> bool \<Rightarrow> action list" where
  "take_response t expired = [Thread t expired, Thread t False, Thread t False]"

definition echo :: "bytes \<Rightarrow> bytes" where
  "echo b = 0x68 # take 100 (tl b)"

lemma echo_sync: "is_sync (echo b) \<and> length (echo b) < MAX_BUF_SIZE"
  by (simp add: echo_def is_sync_def)

theorem exchange_own_response_witness:
  "case acts echo (sync_call 1 [0x45, 1] @ answered @ take_response 1 False) system_start of
     None \<Rightarrow> False
   | Some s \<Rightarrow> results s = [([0x45, 1], CA_ERROR_SUCCESS, Some [0x68, 1])] \<and>
              (\<forall>(buf, status, response) \<in> set (results s).
                 status = CA_ERROR_SUCCESS \<and> response = (if is_sync buf then Some (echo buf) else None))"
proof -
  have r: "case acts echo (sync_call 1 [0x45, 1] @ answered @ take_response 1 False) system_start of
     None \<Rightarrow> False | Some s \<Rightarrow> results s = [([0x45, 1], CA_ERROR_SUCCESS, Some [0x68, 1])]"
    by code_simp
  then obtain s where s: "acts echo (sync_call 1 [0x45, 1] @ answered @ take_response 1 False) system_start = Some s"
    and rs: "results s = [([0x45, 1], CA_ERROR_SUCCESS, Some [0x68, 1])]" by (auto split: option.splits)
  have "reachable False echo s"
    unfolding reachable_def by (rule acts_reach [OF s]) (simp add: sync_call_def answered_def take_response_def)
  have "\<forall>(buf, status, response) \<in> set (results s).
      status = CA_ERROR_SUCCESS \<and> response = (if is_sync buf then Some (echo buf) else None)"
    using exchange_own_response [OF echo_sync \<open>reachable False echo s\<close>] by blast
  with rs show ?thesis unfolding s option.case by blast
qed


subsection \<open>Progress\<close>

lemma io_progress:
  assumes "exchange_inv answer s"
    and "reading s \<noteq> None \<or> writing s \<noteq> None \<or> from_device s \<noteq> [] \<or> to_device s \<noteq> [] \<or> out_buffer_queue (base s) \<noteq> []"
  shows "\<exists>a s'. internal a \<and> act answer a s = Some s'"
proof -
  consider (rd) m where "reading s = Some m" | (wr) b where "reading s = None" "writing s = Some b"
    | (fd) m ms where "reading s = None" "writing s = None" "from_device s = m # ms"
    | (td) b bs where "to_device s = b # bs"
    | (out) "reading s = None" "writing s = None" "out_buffer_queue (base s) \<noteq> []"
    using assms(2) by (cases "reading s"; cases "writing s"; cases "from_device s"; cases "to_device s") auto
  then show ?thesis
  proof cases
    case rd
    then have "0 < length m" "length m < MAX_BUF_SIZE" using assms(1) by (auto simp: exchange_inv_def)
    with rd have "act answer Io_queue s \<noteq> None" by (simp add: ca821x_try_read_def)
    then show ?thesis by (intro exI [of _ Io_queue]) auto
  next
    case wr
    then show ?thesis by (intro exI [of _ Io_write]) simp
  next
    case fd
    then show ?thesis by (intro exI [of _ Io_read]) simp
  next
    case td
    then show ?thesis by (intro exI [of _ Device]) simp
  next
    case out
    then show ?thesis by (intro exI [of _ Io_pop]) (simp split: prod.split)
  qed
qed

text \<open>
  C15: The exchange does not block: while a thread is inside a synchronous call, the thread itself, the
  worker or the device can take a step, without a time-out and without another call or indication.
\<close>

theorem exchange_no_deadlock:
  assumes "\<And>b. is_sync (answer b) \<and> length (answer b) < MAX_BUF_SIZE"
    and "reachable False answer s" "sync_mutex s = Some t"
  shows "\<exists>a s'. internal a \<and> act answer a s = Some s'"
proof -
  have inv: "exchange_inv answer s" by (rule reachable_inv [OF assms(1,2)])
  have e: "expects answer (threads s t) (pending answer s)" using inv assms(3) by (simp add: exchange_inv_def)
  have thread: ?thesis if "ca821x_exchange_commands False t s \<noteq> None"
    using that by (intro exI [of _ "Thread t False"]) auto
  show ?thesis
  proof (cases "threads s t")
    case (Locked buf)
    then show ?thesis using thread by (simp add: ca821x_exchange_commands_def)
  next
    case (Queued buf)
    show ?thesis
    proof (cases "out_buffer_queue (base s) = []")
      case True
      then show ?thesis using thread Queued by (simp add: ca821x_exchange_commands_def)
    qed (use io_progress [OF inv] in blast)
  next
    case (Sent buf)
    show ?thesis
    proof (cases "in_buffer_queue (base s)")
      case Nil
      with e Sent have "reading s \<noteq> None \<or> writing s \<noteq> None \<or> from_device s \<noteq> [] \<or> to_device s \<noteq> [] \<or> out_buffer_queue (base s) \<noteq> []"
        by (auto simp: pending_def)
      then show ?thesis by (rule io_progress [OF inv])
    next
      case (Cons i q)
      then show ?thesis using thread Sent by (cases i) (simp add: ca821x_exchange_commands_def)
    qed
  next
    case (Waited buf ok)
    then show ?thesis using thread by (simp add: ca821x_exchange_commands_def split: prod.split)
  next
    case (Popped buf ok rsp)
    then show ?thesis using thread by (simp add: ca821x_exchange_commands_def)
  qed (use e in auto)
qed

theorem exchange_no_deadlock_witness:
  "case acts echo [Call 1 [0x45, 1], Thread 1 False] system_start of None \<Rightarrow> False
   | Some s \<Rightarrow> sync_mutex s = Some 1 \<and> (\<exists>a s'. internal a \<and> act echo a s = Some s')"
proof -
  have r: "map_option sync_mutex (acts echo [Call 1 [0x45, 1], Thread 1 False] system_start) = Some (Some 1)"
    by code_simp
  then obtain s where s: "acts echo [Call 1 [0x45, 1], Thread 1 False] system_start = Some s" "sync_mutex s = Some 1"
    by blast
  have "reachable False echo s" unfolding reachable_def by (rule acts_reach [OF s(1)]) simp
  from exchange_no_deadlock [OF echo_sync this s(2)] s show ?thesis by simp
qed

subsection \<open>Taking devices out\<close>

text \<open>
  The count of devices is tested the wrong way round. When the only device is taken out the
  upstream worker goes on running; when one of two devices is taken out the worker is stopped and
  what it had queued, for both devices, is lost.
\<close>

theorem deinit_generic_inverted:
  assumes "ud_run_flag g" "generic_initialised g = n"
  shows "case deinit_generic joined priv g of (error, priv', g') \<Rightarrow>
           if n = 1 then ud_run_flag g' \<and> upstream_dispatch_queue g' = upstream_dispatch_queue g
           else \<not> ud_run_flag g' \<and> upstream_dispatch_queue g' = []"
proof -
  have flush: "flush_queue q = []" for q :: "'d queue_item list"
    by (induction q rule: flush_queue.induct) (auto split: prod.splits)
  show ?thesis
    using assms by (auto simp: deinit_generic_def deinit_generic_statics_def
        ca821x_util_stop_upstream_dispatch_worker_def Let_def flush)
qed

theorem deinit_generic_inverted_witness:
  "case deinit_generic True (base system_start) ((statics system_start)\<lparr>ud_run_flag := True\<rparr>) of
     (error, priv', g') \<Rightarrow> generic_initialised g' = 0 \<and> ud_run_flag g'"
  using deinit_generic_inverted [of "(statics system_start)\<lparr>ud_run_flag := True\<rparr>" 1 True "base system_start"]
  by (simp add: system_start_def init_generic_statics_def statics_reset_def deinit_generic_def
      deinit_generic_statics_def)

end
