(* ===== verification/Uart.thy ===== *)
theory Uart
  imports Exchange CaTime
begin

text \<open>
  The serial link between a host and a device: the host's exchange
  (\<^verbatim>\<open>posix/ca821x-posix/source/uart-exchange/uart-exchange.c\<close>) and the device's framing
  (\<^verbatim>\<open>baremetal/cascoda-bm-driver/source/cascoda_serial_uart.c\<close>) over the UART of the board
  (\<^verbatim>\<open>cascoda_bsp_chili.c\<close>, \<^verbatim>\<open>cascoda_uart_m2351.c\<close>). A frame is a start octet, a command, a length
  and that many octets; every frame is answered by a frame that accepts or refuses it.
\<close>

unbundle bit_operations_syntax

abbreviation UART_SOM :: u8 where "UART_SOM \<equiv> 0xDE"
abbreviation EVBME_RXRDY :: u8 where "EVBME_RXRDY \<equiv> 0xAA"
abbreviation EVBME_RXFAIL :: u8 where "EVBME_RXFAIL \<equiv> 0xAB"

subsection \<open>The host's port\<close>

text \<open>
  The octets that arrived and were not read, those that were written, and what the next calls of
  \<^verbatim>\<open>write\<close> give: an error, or at most so many octets taken. After that all that is offered is taken.
\<close>

record port =
  unread :: bytes
  written :: bytes
  write_results :: "nat option list"

definition sys_write :: "bytes \<Rightarrow> port \<Rightarrow> nat option \<times> port" where
  "sys_write buf p =
     (case write_results p of
        [] \<Rightarrow> (Some (length buf), p\<lparr>written := written p @ buf\<rparr>)
      | None # rs \<Rightarrow> (None, p\<lparr>write_results := rs\<rparr>)
      | Some n # rs \<Rightarrow>
          (Some (min n (length buf)), p\<lparr>written := written p @ take n buf, write_results := rs\<rparr>))"

lemma sys_write_results:
  "sys_write buf p = (r, p') \<Longrightarrow>
     length (write_results p') < length (write_results p) \<or> r = Some (length buf) \<and> write_results p' = write_results p"
  by (auto simp: sys_write_def split: list.splits option.splits)

definition ack_frame :: "bool \<Rightarrow> bytes" where
  "ack_frame rx_success = [UART_SOM, if rx_success then EVBME_RXRDY else EVBME_RXFAIL, 0]"

text \<open>Every attempt to send the rest of an acknowledgement starts at its first octet.\<close>

function ack_loop :: "bool \<Rightarrow> nat \<Rightarrow> port \<Rightarrow> ca_error \<times> port" where
  "ack_loop rx_success len p =
     (if len = 0 then (CA_ERROR_SUCCESS, p)
      else (case sys_write (take len (ack_frame rx_success)) p of
              (None, p) \<Rightarrow> (CA_ERROR_FAIL, p)
            | (Some rval, p) \<Rightarrow> ack_loop rx_success (len - rval) p))"
  by pat_completeness auto
termination
proof (relation "measures [\<lambda>(_, len, p). length (write_results p), \<lambda>(_, len, p). len]", goal_cases)
  case 1
  then show ?case by simp
next
  case (2 rx len p a b rval)
  then show ?case
    using sys_write_results [of "take len (ack_frame rx)" p a b] by (auto simp: ack_frame_def)
qed

definition send_uart_ack :: "bool \<Rightarrow> port \<Rightarrow> ca_error \<times> port" where
  "send_uart_ack rx_success p = ack_loop rx_success 3 p"

text \<open>The start octet is offered until it is taken.\<close>

function send_som :: "port \<Rightarrow> bool \<times> port" where
  "send_som p =
     (case sys_write [UART_SOM] p of
        (None, p) \<Rightarrow> (False, p)
      | (Some rval, p) \<Rightarrow> if rval = 1 then (True, p) else send_som p)"
  by pat_completeness auto
termination
proof (relation "measure (\<lambda>p. length (write_results p))", goal_cases)
  case (2 p a b rval)
  then show ?case using sys_write_results [of "[UART_SOM]" p a b] by auto
qed simp

text \<open>The result has the rest of the message when a write fails.\<close>

function send_rest :: "bytes \<Rightarrow> port \<Rightarrow> bytes \<times> bool \<times> port" where
  "send_rest buffer p =
     (if buffer = [] then ([], True, p)
      else (case sys_write buffer p of
              (None, p) \<Rightarrow> (buffer, False, p)
            | (Some rval, p) \<Rightarrow> send_rest (drop rval buffer) p))"
  by pat_completeness auto
termination
proof (relation "measures [\<lambda>(_, p). length (write_results p), \<lambda>(buffer, _). length buffer]", goal_cases)
  case 1
  then show ?case by simp
next
  case (2 buffer p a b rval)
  then show ?case using sys_write_results [of buffer p a b] by auto
qed

declare ack_loop.simps [simp del] send_som.simps [simp del] send_rest.simps [simp del]

subsection \<open>The host's exchange\<close>

text \<open>\<open>rx_buf\<close> is the received part of the buffer, its length the \<^verbatim>\<open>offset\<close>.\<close>

record uart_exchange_priv =
  tx_stalled :: bool
  rx_buf :: bytes
  tx_buf :: bytes
  prev_send :: timespec
  rx_start :: timespec

definition ack_timeout :: timespec where "ack_timeout = \<lparr>tv_sec = 1, tv_nsec = 0\<rparr>"
definition rx_timeout :: timespec where "rx_timeout = \<lparr>tv_sec = 0, tv_nsec = 200000000\<rparr>"
definition select_timeout :: timespec where "select_timeout = \<lparr>tv_sec = 0, tv_nsec = 500000000\<rparr>"

text \<open>A reading of the clock is an argument of the operations, \<open>None\<close> when it fails.\<close>

definition get_tx_time_passed :: "timespec option \<Rightarrow> uart_exchange_priv \<Rightarrow> timespec" where
  "get_tx_time_passed curTime priv =
     (case curTime of Some t \<Rightarrow> time_sub t (prev_send priv) | None \<Rightarrow> \<lparr>tv_sec = 0, tv_nsec = 0\<rparr>)"

definition get_rx_time_passed :: "timespec option \<Rightarrow> uart_exchange_priv \<Rightarrow> timespec" where
  "get_rx_time_passed curTime priv =
     (case curTime of Some t \<Rightarrow> time_sub t (rx_start priv) | None \<Rightarrow> \<lparr>tv_sec = 0, tv_nsec = 0\<rparr>)"

text \<open>
  What is kept of the message is what was not sent. \<open>None\<close>: the assertion fails, or the message ends
  behind the buffer.
\<close>

definition uart_try_write ::
  "timespec option \<Rightarrow> bytes \<Rightarrow> uart_exchange_priv \<Rightarrow> port \<Rightarrow> (ca_error \<times> uart_exchange_priv \<times> port) option" where
  "uart_try_write curTime buffer priv p =
     (if length buffer < 2 \<or> length buffer \<noteq> unat (buffer ! 1) + 2 then None
      else
        let (som, p) = send_som p;
            (rest, sent, p) = send_rest buffer p;
            error = (if som \<and> sent then CA_ERROR_SUCCESS else CA_ERROR_FAIL);
            priv = priv\<lparr>tx_buf := rest @ drop (length rest) (tx_buf priv)\<rparr>;
            priv = (if error = CA_ERROR_FAIL then priv
                    else priv\<lparr>tx_stalled := True, prev_send := (case curTime of Some t \<Rightarrow> t | None \<Rightarrow> prev_send priv)\<rparr>)
        in Some (error, priv, p))"

text \<open>How long a read may block.\<close>

definition read_block_time :: "timespec option \<Rightarrow> uart_exchange_priv \<Rightarrow> timespec" where
  "read_block_time curTime priv =
     (if tx_stalled priv
      then (let timeout = time_sub ack_timeout (get_tx_time_passed curTime priv) in
            if time_cmp timeout select_timeout > 0 then select_timeout else timeout)
      else select_timeout)"

text \<open>What \<^verbatim>\<open>read\<close> does: it gives what has arrived and fits, or nothing yet, or fails.\<close>

datatype read_status = Read_data | Read_again | Read_fault

fun catch_som_errors :: "bytes \<Rightarrow> bytes" where
  "catch_som_errors [] = []"
| "catch_som_errors (som # rest) = (if som \<noteq> UART_SOM then catch_som_errors rest else som # rest)"

text \<open>
  \<open>clock\<close> gives the reading at the start of a frame, at the time-out test and at a retransmission;
  \<open>stale\<close> is the caller's buffer behind the message. Octets 0 to 2 of \<open>rx_buf\<close> are the start, the
  command and the length.
\<close>

definition uart_receive ::
  "read_status \<Rightarrow> (nat \<Rightarrow> timespec option) \<Rightarrow> uart_exchange_priv \<Rightarrow> port \<Rightarrow> uart_exchange_priv \<times> port" where
  "uart_receive st clock priv p =
     (let space = MAX_BUF_SIZE - length (rx_buf priv);
          new = (if st = Read_data then take space (unread p) else []);
          rest = (if st = Read_data then drop space (unread p) else unread p);
          priv = (if new \<noteq> [] \<and> rx_buf priv = []
                  then priv\<lparr>rx_start := (case clock 0 of Some t \<Rightarrow> t | None \<Rightarrow> rx_start priv)\<rparr> else priv)
      in (priv\<lparr>rx_buf := catch_som_errors (rx_buf priv @ new)\<rparr>, p\<lparr>unread := rest\<rparr>))"

definition uart_process_frame ::
  "(nat \<Rightarrow> timespec option) \<Rightarrow> u8 \<Rightarrow> uart_exchange_priv \<Rightarrow> port \<Rightarrow> (read_result \<times> uart_exchange_priv \<times> port) option" where
  "uart_process_frame clock stale priv p =
     (let framelen = unat (rx_buf priv ! 2) + 3;
          buf = take (framelen - 1) (drop 1 (rx_buf priv));
          priv = priv\<lparr>rx_buf := drop framelen (rx_buf priv)\<rparr>;
          (acked, p) = (if buf ! 0 \<noteq> EVBME_RXRDY then send_uart_ack True p else (CA_ERROR_SUCCESS, p))
      in
      if acked \<noteq> CA_ERROR_SUCCESS then Some (Read_error, priv, p)
      else if buf ! 0 = EVBME_RXRDY then Some (Read_none, priv\<lparr>tx_stalled := False\<rparr>, p)
      else if buf ! 0 = EVBME_RXFAIL
      then (case uart_try_write (clock 2) (take (unat (tx_buf priv ! 1) + 2) (tx_buf priv)) priv p of
              None \<Rightarrow> None
            | Some (error, priv, p) \<Rightarrow>
                Some (if error \<noteq> CA_ERROR_SUCCESS then Read_error else Read_none, priv, p))
      else if length buf \<ge> 3 \<and> buf ! 0 = 0xF0 \<and> (if length buf > 3 then buf ! 3 else stale) \<noteq> 0
      then Some (Read_error, priv, p)
      else Some (Read_msg buf, priv, p))"

definition uart_try_read ::
  "read_status \<Rightarrow> (nat \<Rightarrow> timespec option) \<Rightarrow> u8 \<Rightarrow> uart_exchange_priv \<Rightarrow> port \<Rightarrow>
     (read_result \<times> uart_exchange_priv \<times> port) option" where
  "uart_try_read st clock stale priv p =
     (if st = Read_fault then Some (Read_error, priv, p)
      else (case uart_receive st clock priv p of
              (priv, p) \<Rightarrow>
                if length (rx_buf priv) \<ge> 3 \<and> length (rx_buf priv) \<ge> unat (rx_buf priv ! 2) + 3
                then uart_process_frame clock stale priv p
                else if rx_buf priv \<noteq> [] \<and> time_cmp (get_rx_time_passed (clock 1) priv) rx_timeout > 0
                then Some (Read_none, priv\<lparr>rx_buf := []\<rparr>, snd (send_uart_ack False p))
                else Some (Read_none, priv, p)))"

definition uart_write_isready :: "timespec option \<Rightarrow> uart_exchange_priv \<Rightarrow> ca_error \<times> uart_exchange_priv" where
  "uart_write_isready curTime priv =
     (let priv = (if tx_stalled priv \<and> time_cmp (get_tx_time_passed curTime priv) ack_timeout > 0
                  then priv\<lparr>tx_stalled := False\<rparr> else priv)
      in (if tx_stalled priv then CA_ERROR_BUSY else CA_ERROR_SUCCESS, priv))"

text \<open>What has arrived is read a hundred octets at a time and dropped.\<close>

function flush_unread_uart :: "port \<Rightarrow> port" where
  "flush_unread_uart p =
     (if unread p = [] then p else flush_unread_uart (p\<lparr>unread := drop 100 (unread p)\<rparr>))"
  by pat_completeness auto
termination by (relation "measure (\<lambda>p. length (unread p))") auto

subsection \<open>The device's board\<close>

text \<open>
  The UART of the board: the octets that arrived and were not given to the driver, what the driver
  sent, and the number of octets that the DMA still has to deliver (0: no transfer). On the Chili
  board a read empties the FIFO into the buffer; on the Chili 2 reads of several octets go by DMA.
\<close>

datatype board_type = Chili | Chili2


datatype serial_state = SERIAL_INBETWEEN | SERIAL_CMDID | SERIAL_CMDLEN | SERIAL_DATA

abbreviation SERIAL_MAC_RX_LEN :: nat where "SERIAL_MAC_RX_LEN \<equiv> 254"
abbreviation SERIAL_TIMEOUT :: u32 where "SERIAL_TIMEOUT \<equiv> 1000"
abbreviation MAX_TIMEOUTS :: u8 where "MAX_TIMEOUTS \<equiv> 5"
abbreviation RX_TIMEOUT :: u32 where "RX_TIMEOUT \<equiv> 200"

record serial_buffer =
  CmdId :: u8
  CmdLen :: u8
  Data :: bytes

record serial =
  SerialRxState :: serial_state
  SerialCmdId :: u8
  SerialCmdLen :: u8
  SerialRemainder :: u8
  SerialCount :: u8
  SerialRxBuffer :: serial_buffer
  SerialRxPending :: bool
  SerialTxBuffer :: "u8 \<times> serial_buffer"
  SerialTxStalled :: bool
  SerialTxResendReq :: bool
  SerialRxTimeout :: u32
  SerialTxTimeout :: u32
  SerialTimeoutCount :: u8
  rx_fifo :: bytes
  dma :: nat
  sent :: bytes

definition serial_start :: serial where
  "serial_start =
     (let buf = \<lparr>CmdId = 0, CmdLen = 0, Data = replicate SERIAL_MAC_RX_LEN 0\<rparr> in
      \<lparr>SerialRxState = SERIAL_INBETWEEN, SerialCmdId = 0xFF, SerialCmdLen = 0, SerialRemainder = 0,
       SerialCount = 0, SerialRxBuffer = buf, SerialRxPending = False, SerialTxBuffer = (0, buf),
       SerialTxStalled = False, SerialTxResendReq = False, SerialRxTimeout = 0, SerialTxTimeout = 0,
       SerialTimeoutCount = 0, rx_fifo = [], dma = 0, sent = []\<rparr>)"

definition BSP_SerialRead :: "board_type \<Rightarrow> nat \<Rightarrow> serial \<Rightarrow> bytes \<times> serial" where
  "BSP_SerialRead board BufferSize s =
     (if board = Chili \<or> BufferSize = 1
      then (take BufferSize (rx_fifo s), s\<lparr>rx_fifo := drop BufferSize (rx_fifo s)\<rparr>)
      else ([], s\<lparr>dma := BufferSize\<rparr>))"

definition BSP_SerialWriteAll :: "bytes \<Rightarrow> serial \<Rightarrow> serial" where
  "BSP_SerialWriteAll buf s = s\<lparr>sent := sent s @ buf\<rparr>"

text \<open>A write behind the buffer is \<open>None\<close>.\<close>

definition store_data :: "nat \<Rightarrow> bytes \<Rightarrow> serial \<Rightarrow> serial option" where
  "store_data pos bs s =
     (let d = Data (SerialRxBuffer s) in
      if pos + length bs \<le> length d
      then Some (s\<lparr>SerialRxBuffer := (SerialRxBuffer s)\<lparr>Data := take pos d @ bs @ drop (pos + length bs) d\<rparr>\<rparr>)
      else None)"

subsection \<open>Reading frames\<close>

definition SerialReadComplete :: "serial \<Rightarrow> serial" where
  "SerialReadComplete s =
     s\<lparr>SerialRxState := SERIAL_INBETWEEN, SerialRemainder := 0, SerialCount := 0, SerialRxPending := True\<rparr>"

definition SerialReceivedRxRdy :: "serial \<Rightarrow> bool \<times> serial" where
  "SerialReceivedRxRdy s =
     (if SerialCmdId s = EVBME_RXRDY \<and> SerialCmdLen s = 0
      then (True, s\<lparr>SerialTxStalled := False, SerialTimeoutCount := 0\<rparr>) else (False, s))"

definition SerialReceivedRxFail :: "serial \<Rightarrow> bool \<times> serial" where
  "SerialReceivedRxFail s =
     (if SerialCmdId s = EVBME_RXFAIL \<and> SerialCmdLen s = 0
      then (True, s\<lparr>SerialTxResendReq := True, SerialTimeoutCount := 0\<rparr>) else (False, s))"

definition SerialFindStart :: "board_type \<Rightarrow> serial \<Rightarrow> bool \<times> serial" where
  "SerialFindStart board s =
     (case BSP_SerialRead board 1 s of
        (c # _, s) \<Rightarrow> (c = UART_SOM, s)
      | ([], s) \<Rightarrow> (False, s))"

text \<open>
  The states of \<^verbatim>\<open>Serial_ReadInterface\<close>, each going on with the next one; the result says whether a
  command is complete, \<open>None\<close> that the receive buffer was overrun.
\<close>

definition read_data :: "board_type \<Rightarrow> serial \<Rightarrow> (bool \<times> serial) option" where
  "read_data board s =
     (case BSP_SerialRead board (unat (SerialRemainder s)) s of
        (bs, s) \<Rightarrow>
          if bs = [] then Some (False, s)
          else (case store_data (unat (SerialCount s)) bs s of
                  None \<Rightarrow> None
                | Some s \<Rightarrow>
                    let s = s\<lparr>SerialCount := SerialCount s + of_nat (length bs),
                              SerialRemainder := SerialRemainder s - of_nat (length bs)\<rparr>
                    in if SerialRemainder s = 0 then Some (True, SerialReadComplete s) else Some (False, s)))"

definition read_cmdlen :: "board_type \<Rightarrow> serial \<Rightarrow> (bool \<times> serial) option" where
  "read_cmdlen board s =
     (case BSP_SerialRead board 1 s of
        ([], s) \<Rightarrow> Some (False, s)
      | (c # _, s) \<Rightarrow>
          let s = s\<lparr>SerialCmdLen := c\<rparr>;
              (rdy, s) = SerialReceivedRxRdy s;
              (ack, s) = (if rdy then (True, s) else SerialReceivedRxFail s)
          in
          if ack then Some (True, s\<lparr>SerialRxState := SERIAL_INBETWEEN\<rparr>)
          else
            let s = s\<lparr>SerialRxBuffer := (SerialRxBuffer s)\<lparr>CmdId := SerialCmdId s, CmdLen := SerialCmdLen s\<rparr>,
                      SerialRemainder := SerialCmdLen s, SerialCount := 0\<rparr>
            in if SerialRemainder s = 0
               then Some (True, s\<lparr>SerialRxState := SERIAL_INBETWEEN, SerialRxPending := True\<rparr>)
               else read_data board (s\<lparr>SerialRxState := SERIAL_DATA\<rparr>))"

definition read_cmdid :: "board_type \<Rightarrow> serial \<Rightarrow> (bool \<times> serial) option" where
  "read_cmdid board s =
     (case BSP_SerialRead board 1 s of
        ([], s) \<Rightarrow> Some (False, s)
      | (c # _, s) \<Rightarrow> read_cmdlen board (s\<lparr>SerialCmdId := c, SerialRxState := SERIAL_CMDLEN\<rparr>))"

definition Serial_ReadInterface :: "board_type \<Rightarrow> u32 \<Rightarrow> serial \<Rightarrow> (bool \<times> serial) option" where
  "Serial_ReadInterface board now s =
     (case SerialRxState s of
        SERIAL_INBETWEEN \<Rightarrow>
          (case SerialFindStart board s of
             (True, s) \<Rightarrow> read_cmdid board (s\<lparr>SerialRxState := SERIAL_CMDID, SerialRxTimeout := now\<rparr>)
           | (False, s) \<Rightarrow> Some (False, s))
      | SERIAL_CMDID \<Rightarrow> read_cmdid board s
      | SERIAL_CMDLEN \<Rightarrow> read_cmdlen board s
      | SERIAL_DATA \<Rightarrow> read_data board s)"

text \<open>The DMA delivers what has arrived, and the end of the transfer completes the read.\<close>

definition uart_dma :: "serial \<Rightarrow> serial option" where
  "uart_dma s =
     (let k = min (dma s) (length (rx_fifo s)) in
      map_option (\<lambda>s. let s = s\<lparr>rx_fifo := drop k (rx_fifo s), dma := dma s - k\<rparr>
                      in if dma s = 0 then SerialReadComplete s else s)
        (store_data (unat (SerialCount s) + unat (SerialRemainder s) - dma s) (take k (rx_fifo s)) s))"

text \<open>An interrupt of the line: the DMA while it is at work, the driver otherwise.\<close>

definition uart_irq :: "board_type \<Rightarrow> u32 \<Rightarrow> serial \<Rightarrow> serial option" where
  "uart_irq board now s =
     (if rx_fifo s = [] then Some s
      else if dma s = 0 then map_option snd (Serial_ReadInterface board now s)
      else uart_dma s)"

subsection \<open>Commands and messages\<close>

definition SerialSendRxRdy :: "serial \<Rightarrow> serial" where
  "SerialSendRxRdy s = BSP_SerialWriteAll [UART_SOM, EVBME_RXRDY, 0] s"

definition SerialSendRxFail :: "serial \<Rightarrow> serial" where
  "SerialSendRxFail s = BSP_SerialWriteAll [UART_SOM, EVBME_RXFAIL, 0] s"

definition SerialResetTxStalled :: "serial \<Rightarrow> serial" where
  "SerialResetTxStalled s = s\<lparr>SerialTxStalled := False\<rparr>"

definition SerialSetTxTimeout :: "u32 \<Rightarrow> serial \<Rightarrow> serial" where
  "SerialSetTxTimeout now s = s\<lparr>SerialTxStalled := True, SerialTxTimeout := now\<rparr>"

definition tx_frame :: "nat \<Rightarrow> serial \<Rightarrow> bytes" where
  "tx_frame n s =
     (case SerialTxBuffer s of (som, b) \<Rightarrow> take n (som # CmdId b # CmdLen b # Data b))"

definition SerialResend :: "u32 \<Rightarrow> serial \<Rightarrow> serial" where
  "SerialResend now s =
     SerialSetTxTimeout now
       (BSP_SerialWriteAll (tx_frame (unat (CmdLen (snd (SerialTxBuffer s))) + 3) s) (s\<lparr>SerialTxResendReq := False\<rparr>))"

definition SerialCheckRxTimeout :: "board_type \<Rightarrow> u32 \<Rightarrow> serial \<Rightarrow> serial" where
  "SerialCheckRxTimeout board now s =
     (if SerialRxState s \<noteq> SERIAL_INBETWEEN \<and> now - SerialRxTimeout s > RX_TIMEOUT
      then SerialSendRxFail
             ((SerialReadComplete (snd (BSP_SerialRead board 0 s)))\<lparr>SerialRxPending := False\<rparr>)
      else s)"

definition SerialGetCommand :: "board_type \<Rightarrow> u32 \<Rightarrow> serial \<Rightarrow> bool \<times> serial" where
  "SerialGetCommand board now s =
     (let s = SerialCheckRxTimeout board now s;
          s = (if SerialTxResendReq s then SerialResend now s else s);
          s = (if SerialRxPending s then s\<lparr>SerialTimeoutCount := 0\<rparr> else s)
      in (SerialRxPending s, s))"

text \<open>Each look at the flags comes with the time and with what interrupts did before it; \<open>None\<close>: the
  loop goes on after the last one.\<close>

fun SerialCheckTxTimeout :: "(u32 \<times> (serial \<Rightarrow> serial)) list \<Rightarrow> serial \<Rightarrow> serial option" where
  "SerialCheckTxTimeout [] s = None"
| "SerialCheckTxTimeout ((now, irq) # looks) s =
     (let s = irq s in
      if \<not> SerialTxStalled s then Some s
      else if SerialTimeoutCount s \<ge> MAX_TIMEOUTS then Some (s\<lparr>SerialTxStalled := False\<rparr>)
      else if SerialTxResendReq s then SerialCheckTxTimeout looks (SerialResend now s)
      else if now - SerialTxTimeout s > SERIAL_TIMEOUT
      then Some (s\<lparr>SerialTxStalled := False, SerialTimeoutCount := SerialTimeoutCount s + 1\<rparr>)
      else SerialCheckTxTimeout looks s)"

text \<open>\<open>None\<close>: the wait has not ended, or the buffer is overrun.\<close>

definition send_message ::
  "board_type \<Rightarrow> (u32 \<times> (serial \<Rightarrow> serial)) list \<Rightarrow> u32 \<Rightarrow> u8 \<Rightarrow> nat \<Rightarrow> bytes \<Rightarrow> serial \<Rightarrow> serial option" where
  "send_message board looks now command count buf s =
     (case SerialCheckTxTimeout looks (snd (SerialGetCommand board now s)) of
        None \<Rightarrow> None
      | Some s \<Rightarrow>
          if count > SERIAL_MAC_RX_LEN then None
          else
            let d = Data (snd (SerialTxBuffer s));
                s = s\<lparr>SerialTxBuffer := (UART_SOM,
                      \<lparr>CmdId = command, CmdLen = of_nat count, Data = take count buf @ drop count d\<rparr>)\<rparr>
            in Some (SerialSetTxTimeout now (BSP_SerialWriteAll (tx_frame (count + 3) s) s)))"

abbreviation EVBME_MESSAGE_INDICATION :: u8 where "EVBME_MESSAGE_INDICATION \<equiv> 0xA0"

definition EVBME_Message_UART ::
  "bool \<Rightarrow> board_type \<Rightarrow> (u32 \<times> (serial \<Rightarrow> serial)) list \<Rightarrow> u32 \<Rightarrow> bytes \<Rightarrow> serial \<Rightarrow> serial option" where
  "EVBME_Message_UART enabled board looks now pBuffer s =
     (if \<not> enabled then Some s
      else send_message board looks now EVBME_MESSAGE_INDICATION (length pBuffer) pBuffer s)"

definition MAC_Message_UART ::
  "bool \<Rightarrow> board_type \<Rightarrow> (u32 \<times> (serial \<Rightarrow> serial)) list \<Rightarrow> u32 \<Rightarrow> u8 \<Rightarrow> u8 \<Rightarrow> bytes \<Rightarrow> serial \<Rightarrow> serial option" where
  "MAC_Message_UART enabled board looks now cmd count pBuffer s =
     (if \<not> enabled then Some s
      else send_message board looks now cmd (unat count) pBuffer s)"

end
