(* ===== verification/UartLink.thy ===== *)
theory UartLink
  imports Uart
begin

text \<open>
  The two ends of the serial link together: whatever the timing of the octets, as long as nothing
  times out every message arrives once and in order, in both directions.
\<close>

subsection \<open>Frames\<close>

definition tlv :: "bytes \<Rightarrow> bool" where
  "tlv m \<longleftrightarrow> 2 \<le> length m \<and> length m = unat (m ! 1) + 2"

lemma tlv_cases: "tlv m \<longleftrightarrow> (\<exists>c l d. m = c # l # d \<and> length d = unat l)"
proof
  assume "tlv m"
  then show "\<exists>c l d. m = c # l # d \<and> length d = unat l"
    by (cases m; cases "tl m") (auto simp: tlv_def)
qed (auto simp: tlv_def)

text \<open>The first frame of a stream is determined by the stream.\<close>

lemma tlv_prefix:
  assumes "tlv m" "tlv m'" "m @ x = m' @ x'"
  shows "m = m'" "x = x'"
  using assms by (auto simp: tlv_cases)

definition framed :: "bytes list \<Rightarrow> bytes" where
  "framed L = concat (map (\<lambda>m. UART_SOM # m) L)"

lemma framed_simps [simp]:
  "framed [] = []" "framed (m # L) = UART_SOM # m @ framed L" "framed (L @ L') = framed L @ framed L'"
  by (simp_all add: framed_def)

lemma framed_first:
  assumes "UART_SOM # m @ t = framed L" "tlv m" "\<forall>m \<in> set L. tlv m"
  obtains L' where "L = m # L'" "t = framed L'"
proof (cases L)
  case Nil
  then show ?thesis using assms by simp
next
  case (Cons m' L')
  then have "m = m'" "t = framed L'" using tlv_prefix [of m m' t "framed L'"] assms by auto
  with Cons that show ?thesis by simp
qed

subsection \<open>The device reads frames\<close>

text \<open>What was read of a frame that is not complete.\<close>

definition rcv_pos :: "serial \<Rightarrow> nat" where
  "rcv_pos s = unat (SerialCmdLen s) - (if dma s = 0 then unat (SerialRemainder s) else dma s)"

definition rcv :: "serial \<Rightarrow> bytes" where
  "rcv s = (case SerialRxState s of
     SERIAL_INBETWEEN \<Rightarrow> []
   | SERIAL_CMDID \<Rightarrow> [UART_SOM]
   | SERIAL_CMDLEN \<Rightarrow> [UART_SOM, SerialCmdId s]
   | SERIAL_DATA \<Rightarrow> [UART_SOM, SerialCmdId s, SerialCmdLen s] @ take (rcv_pos s) (Data (SerialRxBuffer s)))"

definition handshake :: "u8 \<Rightarrow> u8 \<Rightarrow> bool" where
  "handshake c l \<longleftrightarrow> (c = EVBME_RXRDY \<or> c = EVBME_RXFAIL) \<and> l = 0"

definition data_ok :: "serial \<Rightarrow> bool" where
  "data_ok s \<longleftrightarrow>
     CmdId (SerialRxBuffer s) = SerialCmdId s \<and> CmdLen (SerialRxBuffer s) = SerialCmdLen s \<and>
     \<not> handshake (SerialCmdId s) (SerialCmdLen s) \<and> SerialRemainder s \<noteq> 0 \<and>
     unat (SerialCount s) + unat (SerialRemainder s) = unat (SerialCmdLen s) \<and>
     unat (SerialCmdLen s) \<le> SERIAL_MAC_RX_LEN \<and>
     dma s \<le> unat (SerialRemainder s)"

definition dev_ok :: "serial \<Rightarrow> bool" where
  "dev_ok s \<longleftrightarrow> length (Data (SerialRxBuffer s)) = SERIAL_MAC_RX_LEN \<and>
     (if SerialRxState s = SERIAL_DATA then data_ok s else dma s = 0)"

definition message :: "serial \<Rightarrow> bytes" where
  "message s = (let b = SerialRxBuffer s in CmdId b # CmdLen b # take (unat (CmdLen b)) (Data b))"

definition same :: "serial \<Rightarrow> serial \<Rightarrow> bool" where
  "same s s' \<longleftrightarrow>
     SerialRxPending s' = SerialRxPending s \<and> SerialTxStalled s' = SerialTxStalled s \<and> sent s' = sent s \<and>
     SerialTxBuffer s' = SerialTxBuffer s \<and> SerialTxResendReq s' = SerialTxResendReq s \<and>
     (SerialRxState s' \<noteq> SERIAL_DATA \<longrightarrow> SerialRxBuffer s' = SerialRxBuffer s)"

text \<open>What a complete frame does to the driver.\<close>

definition effect :: "bytes \<Rightarrow> serial \<Rightarrow> serial \<Rightarrow> bool" where
  "effect m s s' \<longleftrightarrow>
     sent s' = sent s \<and> SerialTxBuffer s' = SerialTxBuffer s \<and>
     (if m = [EVBME_RXRDY, 0]
      then \<not> SerialTxStalled s' \<and> SerialTxResendReq s' = SerialTxResendReq s \<and>
           SerialRxPending s' = SerialRxPending s \<and> SerialRxBuffer s' = SerialRxBuffer s
      else if m = [EVBME_RXFAIL, 0]
      then SerialTxResendReq s' \<and> SerialTxStalled s' = SerialTxStalled s \<and>
           SerialRxPending s' = SerialRxPending s \<and> SerialRxBuffer s' = SerialRxBuffer s
      else SerialTxStalled s' = SerialTxStalled s \<and> SerialTxResendReq s' = SerialTxResendReq s \<and>
           SerialRxPending s' \<and> message s' = m)"

definition reads :: "serial \<Rightarrow> serial \<Rightarrow> bool" where
  "reads s s' \<longleftrightarrow> dev_ok s' \<and>
     (rcv s' @ rx_fifo s' = rcv s @ rx_fifo s \<and> same s s' \<and>
        (SerialRxState s = SERIAL_DATA \<longrightarrow> SerialRxState s' = SERIAL_DATA) \<or>
      (\<exists>m. rcv s @ rx_fifo s = UART_SOM # m @ rx_fifo s' \<and> tlv m \<and> SerialRxState s' = SERIAL_INBETWEEN \<and> effect m s s'))"

text \<open>What the stream has to be.\<close>

definition stream_ok :: "bytes \<Rightarrow> bool" where
  "stream_ok t \<longleftrightarrow> (t \<noteq> [] \<longrightarrow> hd t = UART_SOM) \<and> (3 \<le> length t \<longrightarrow> t ! 2 \<noteq> 255)"

lemma effect_same:
  assumes "same s s1" "SerialRxState s1 \<noteq> SERIAL_DATA" "effect m s1 s2"
  shows "effect m s s2"
  using assms unfolding same_def effect_def by (simp split: if_splits)

lemma same_trans:
  assumes "same s s1" "SerialRxState s1 \<noteq> SERIAL_DATA" "same s1 s2"
  shows "same s s2"
  using assms unfolding same_def by simp

lemma reads_trans:
  assumes "rcv s1 @ rx_fifo s1 = rcv s @ rx_fifo s" "same s s1" "SerialRxState s1 \<noteq> SERIAL_DATA"
    "reads s1 s2" "SerialRxState s \<noteq> SERIAL_DATA"
  shows "reads s s2"
  using assms(4,5) same_trans [OF assms(2,3)] effect_same [OF assms(2,3)] unfolding reads_def assms(1) by blast

lemma reads_refl: "dev_ok s \<Longrightarrow> reads s s"
  by (simp add: reads_def same_def)

lemma store_data_fits:
  assumes "pos + length bs \<le> length (Data (SerialRxBuffer s))"
  shows "store_data pos bs s =
     Some (s\<lparr>SerialRxBuffer := (SerialRxBuffer s)\<lparr>Data :=
       take pos (Data (SerialRxBuffer s)) @ bs @ drop (pos + length bs) (Data (SerialRxBuffer s))\<rparr>\<rparr>)"
  using assms by (simp add: store_data_def Let_def)

text \<open>Octets of the data put in their place, by the driver or by the DMA; \<open>r\<close> is what is missing.\<close>

definition stored :: "nat \<Rightarrow> bytes \<Rightarrow> serial \<Rightarrow> serial" where
  "stored pos bs s = s\<lparr>SerialRxBuffer := (SerialRxBuffer s)\<lparr>Data :=
       take pos (Data (SerialRxBuffer s)) @ bs @ drop (pos + length bs) (Data (SerialRxBuffer s))\<rparr>\<rparr>"

lemma message_stored:
  assumes "CmdId (SerialRxBuffer s) = c" "CmdLen (SerialRxBuffer s) = l" "pos + length bs = unat l"
    "unat l \<le> length (Data (SerialRxBuffer s))"
  shows "message (stored pos bs s) = c # l # take pos (Data (SerialRxBuffer s)) @ bs"
  using assms by (simp add: message_def stored_def)

lemma reads_complete:
  assumes s: "SerialRxState s = SERIAL_DATA" "dev_ok s"
    and bs: "length bs = (if dma s = 0 then unat (SerialRemainder s) else dma s)" "rx_fifo s = bs @ x"
    and s': "SerialRxBuffer s' = SerialRxBuffer (stored (rcv_pos s) bs s)" "rx_fifo s' = x"
      "SerialRxPending s'" "SerialRxState s' = SERIAL_INBETWEEN" "dma s' = 0"
      "SerialTxStalled s' = SerialTxStalled s" "sent s' = sent s"
      "SerialTxBuffer s' = SerialTxBuffer s" "SerialTxResendReq s' = SerialTxResendReq s"
  shows "reads s s'"
proof -
  let ?d = "Data (SerialRxBuffer s)" and ?m = "SerialCmdId s # SerialCmdLen s # take (rcv_pos s) (Data (SerialRxBuffer s)) @ bs"
  have d: "data_ok s" "length ?d = 254" using s by (simp_all add: dev_ok_def)
  then have l: "rcv_pos s + length bs = unat (SerialCmdLen s)" "unat (SerialCmdLen s) \<le> 254"
    using bs(1) by (auto simp: rcv_pos_def data_ok_def)
  have "message s' = message (stored (rcv_pos s) bs s)" by (simp add: message_def s'(1))
  also have "\<dots> = ?m" using d l by (intro message_stored) (auto simp: data_ok_def)
  finally have m: "message s' = ?m" .
  have "tlv ?m" using l d by (simp add: tlv_def)
  moreover have "rcv s @ rx_fifo s = UART_SOM # ?m @ rx_fifo s'" using s bs s'(2) by (simp add: rcv_def)
  moreover have "effect ?m s s'"
    using s' m d(1) by (auto simp: effect_def data_ok_def handshake_def)
  moreover have "dev_ok s'" using s' d l by (simp add: dev_ok_def stored_def)
  ultimately show ?thesis using s'(4) unfolding reads_def by blast
qed

lemma reads_part:
  assumes s: "SerialRxState s = SERIAL_DATA" "dev_ok s"
    and bs: "length bs < (if dma s = 0 then unat (SerialRemainder s) else dma s)" "rx_fifo s = bs @ x"
    and s': "SerialRxBuffer s' = SerialRxBuffer (stored (rcv_pos s) bs s)" "rx_fifo s' = x"
      "SerialRxPending s' = SerialRxPending s" "SerialRxState s' = SERIAL_DATA"
      "SerialCmdId s' = SerialCmdId s" "SerialCmdLen s' = SerialCmdLen s"
      "SerialTxStalled s' = SerialTxStalled s" "sent s' = sent s"
      "SerialTxBuffer s' = SerialTxBuffer s" "SerialTxResendReq s' = SerialTxResendReq s"
    and ok: "data_ok s'" "rcv_pos s' = rcv_pos s + length bs"
  shows "reads s s'"
proof -
  let ?d = "Data (SerialRxBuffer s)"
  have d: "data_ok s" "length ?d = 254" using s by (simp_all add: dev_ok_def)
  then have l: "rcv_pos s + length bs < unat (SerialCmdLen s)" "unat (SerialCmdLen s) \<le> 254"
    using bs(1) by (auto simp: rcv_pos_def data_ok_def split: if_splits)
  have "dev_ok s'" using s' ok d l by (simp add: dev_ok_def stored_def)
  moreover have "rcv s' @ rx_fifo s' = rcv s @ rx_fifo s"
    using s(1) s' bs d l by (simp add: rcv_def stored_def ok(2))
  moreover have "same s s'" using s' by (simp add: same_def)
  ultimately show ?thesis using s'(4) unfolding reads_def by blast
qed

text \<open>Entering the data of a frame.\<close>

lemma reads_from_data:
  assumes "SerialRxState s1 = SERIAL_DATA" "data_ok s1" "rcv s1 @ rx_fifo s1 = rcv s @ rx_fifo s"
    and f: "SerialRxPending s1 = SerialRxPending s" "SerialTxStalled s1 = SerialTxStalled s" "sent s1 = sent s"
      "SerialTxBuffer s1 = SerialTxBuffer s" "SerialTxResendReq s1 = SerialTxResendReq s"
    and r: "reads s1 s2"
  shows "reads s s2"
proof -
  have "effect m s s2" if "rcv s1 @ rx_fifo s1 = UART_SOM # m @ rx_fifo s2" "effect m s1 s2" for m
  proof -
    have "m \<noteq> [EVBME_RXRDY, 0]" "m \<noteq> [EVBME_RXFAIL, 0]"
      using that(1) assms(1,2) by (auto simp: rcv_def data_ok_def handshake_def)
    then show ?thesis using that(2) f by (simp add: effect_def)
  qed
  moreover have "same s s2" if "same s1 s2" "SerialRxState s2 = SERIAL_DATA"
    using that f by (simp add: same_def)
  ultimately show ?thesis using r assms(1) unfolding reads_def assms(3) by blast
qed

lemma read_data_reads:
  assumes "SerialRxState s = SERIAL_DATA" "dev_ok s" "dma s = 0"
  shows "\<exists>b s'. read_data board s = Some (b, s') \<and> reads s s'"
proof -
  have d: "data_ok s" "length (Data (SerialRxBuffer s)) = 254" using assms by (simp_all add: dev_ok_def)
  let ?r = "unat (SerialRemainder s)" and ?c = "unat (SerialCount s)"
  have r: "0 < ?r" "?c + ?r = unat (SerialCmdLen s)" "unat (SerialCmdLen s) \<le> 254"
    using d by (auto simp: data_ok_def unat_gt_0)
  have pos: "rcv_pos s = ?c" using r assms by (simp add: rcv_pos_def)
  show ?thesis
  proof (cases "board = Chili \<or> ?r = 1")
    case False
    then have e: "read_data board s = Some (False, s\<lparr>dma := ?r\<rparr>)"
      by (simp add: read_data_def BSP_SerialRead_def)
    have "reads s (s\<lparr>dma := ?r\<rparr>)"
      by (rule reads_part [where bs = "[]" and x = "rx_fifo s"])
        (use assms d r in \<open>auto simp: stored_def data_ok_def rcv_pos_def\<close>)
    with e show ?thesis by blast
  next
    case True
    let ?bs = "take ?r (rx_fifo s)" and ?s = "s\<lparr>rx_fifo := drop ?r (rx_fifo s)\<rparr>"
    have read: "BSP_SerialRead board ?r s = (?bs, ?s)" using True by (simp add: BSP_SerialRead_def)
    show ?thesis
    proof (cases "rx_fifo s = []")
      case True
      then have "read_data board s = Some (False, s)" using r by (simp add: read_data_def read)
      then show ?thesis using reads_refl [OF assms(2)] by blast
    next
      case False
      have fits: "?c + length ?bs \<le> length (Data (SerialRxBuffer ?s))" using d r by simp
      have n: "length ?bs \<le> ?r" "length ?bs \<le> 254" using r by simp_all
      have cnt: "unat (SerialCount s + of_nat (length ?bs)) = ?c + length ?bs"
        "unat (SerialRemainder s - of_nat (length ?bs)) = ?r - length ?bs"
        using n r by (auto simp: unat_word_ariths unat_sub_if' unat_of_nat)
      let ?s1 = "(stored ?c ?bs ?s)\<lparr>SerialCount := SerialCount s + of_nat (length ?bs),
                     SerialRemainder := SerialRemainder s - of_nat (length ?bs)\<rparr>"
      have e: "read_data board s =
          (if SerialRemainder ?s1 = 0 then Some (True, SerialReadComplete ?s1) else Some (False, ?s1))"
        using False r fits by (simp add: read_data_def read store_data_fits stored_def Let_def)
      show ?thesis
      proof (cases "length ?bs = ?r")
        case True
        then have "SerialRemainder ?s1 = 0" using cnt(2) by (simp add: unat_eq_zero)
        moreover have "reads s (SerialReadComplete ?s1)"
          by (rule reads_complete [where bs = ?bs and x = "drop ?r (rx_fifo s)"])
            (use assms True pos in \<open>simp_all add: SerialReadComplete_def stored_def\<close>)
        moreover have "read_data board s = Some (True, SerialReadComplete ?s1)" using e calculation(1) by simp
        ultimately show ?thesis by blast
      next
        case False
        then have lt: "length ?bs < ?r" using n by simp
        then have nz: "SerialRemainder ?s1 \<noteq> 0" using cnt(2) by (auto simp flip: unat_eq_zero)
        have ok: "data_ok ?s1" "rcv_pos ?s1 = rcv_pos s + length ?bs"
          using d(1) assms(3) nz cnt r lt pos by (auto simp: data_ok_def stored_def rcv_pos_def)
        have "reads s ?s1"
          by (rule reads_part [where bs = ?bs and x = "drop ?r (rx_fifo s)"])
            (use assms lt pos ok in \<open>simp_all add: stored_def\<close>)
        moreover have "read_data board s = Some (False, ?s1)" using e nz by simp
        ultimately show ?thesis by blast
      qed
    qed
  qed
qed

lemma uart_dma_reads:
  assumes "SerialRxState s = SERIAL_DATA" "dev_ok s" "dma s \<noteq> 0"
  shows "\<exists>s'. uart_dma s = Some s' \<and> reads s s'"
proof -
  have d: "data_ok s" "length (Data (SerialRxBuffer s)) = 254" using assms by (simp_all add: dev_ok_def)
  let ?k = "min (dma s) (length (rx_fifo s))"
  let ?bs = "take ?k (rx_fifo s)"
  have pos: "unat (SerialCount s) + unat (SerialRemainder s) - dma s = rcv_pos s" "rcv_pos s + dma s \<le> 254"
    using d assms by (auto simp: rcv_pos_def data_ok_def)
  let ?s1 = "(stored (rcv_pos s) ?bs s)\<lparr>rx_fifo := drop ?k (rx_fifo s), dma := dma s - ?k\<rparr>"
  have e: "uart_dma s = Some (if dma ?s1 = 0 then SerialReadComplete ?s1 else ?s1)"
    unfolding uart_dma_def Let_def pos(1) using pos(2) d by (simp add: store_data_fits stored_def)
  show ?thesis
  proof (cases "dma s \<le> length (rx_fifo s)")
    case True
    then have "reads s (SerialReadComplete ?s1)"
      by (intro reads_complete [where bs = ?bs and x = "drop ?k (rx_fifo s)"])
        (use assms in \<open>simp_all add: SerialReadComplete_def stored_def\<close>)
    then show ?thesis using e True by simp
  next
    case False
    then have ok: "data_ok ?s1" "rcv_pos ?s1 = rcv_pos s + length ?bs"
      using d pos by (auto simp: data_ok_def stored_def rcv_pos_def)
    have "reads s ?s1"
      by (rule reads_part [where bs = ?bs and x = "drop ?k (rx_fifo s)"])
        (use assms False ok in \<open>simp_all add: stored_def\<close>)
    then show ?thesis using e False by simp
  qed
qed


text \<open>The head of a frame.\<close>

lemma read_1:
  "BSP_SerialRead board 1 s = (take 1 (rx_fifo s), s\<lparr>rx_fifo := drop 1 (rx_fifo s)\<rparr>)"
  "BSP_SerialRead board (Suc 0) s = (take 1 (rx_fifo s), s\<lparr>rx_fifo := drop 1 (rx_fifo s)\<rparr>)"
  by (simp_all add: BSP_SerialRead_def)

lemma read_cmdlen_reads:
  assumes "SerialRxState s = SERIAL_CMDLEN" "dev_ok s" "stream_ok (rcv s @ rx_fifo s)"
  shows "\<exists>b s'. read_cmdlen board s = Some (b, s') \<and> reads s s'"
proof (cases "rx_fifo s")
  case Nil
  then have "read_cmdlen board s = Some (False, s)" by (simp add: read_cmdlen_def read_1)
  then show ?thesis using reads_refl [OF assms(2)] by blast
next
  case (Cons l x)
  have l: "l \<noteq> 255" using assms(1,3) Cons by (simp add: stream_ok_def rcv_def)
  have d: "dma s = 0" "length (Data (SerialRxBuffer s)) = 254" using assms(1,2) by (simp_all add: dev_ok_def)
  show ?thesis
  proof (cases "handshake (SerialCmdId s) l")
    case True
    then obtain s' where "read_cmdlen board s = Some (True, s')" "SerialRxState s' = SERIAL_INBETWEEN"
      "rx_fifo s' = x" "dev_ok s'" "effect [SerialCmdId s, l] s s'"
      using Cons assms(2) d
      by (auto simp: read_cmdlen_def read_1 handshake_def SerialReceivedRxRdy_def SerialReceivedRxFail_def
          dev_ok_def effect_def Let_def)
    moreover have "tlv [SerialCmdId s, l]" using True by (simp add: tlv_def handshake_def)
    moreover have "rcv s @ rx_fifo s = UART_SOM # [SerialCmdId s, l] @ x" using assms(1) Cons by (simp add: rcv_def)
    ultimately show ?thesis unfolding reads_def by blast
  next
    case False
    let ?s1 = "s\<lparr>rx_fifo := x, SerialCmdLen := l,
        SerialRxBuffer := (SerialRxBuffer s)\<lparr>CmdId := SerialCmdId s, CmdLen := l\<rparr>, SerialRemainder := l, SerialCount := 0\<rparr>"
    have e: "read_cmdlen board s =
        (if l = 0 then Some (True, ?s1\<lparr>SerialRxState := SERIAL_INBETWEEN, SerialRxPending := True\<rparr>)
         else read_data board (?s1\<lparr>SerialRxState := SERIAL_DATA\<rparr>))"
      using False Cons
      by (auto simp: read_cmdlen_def read_1 handshake_def SerialReceivedRxRdy_def SerialReceivedRxFail_def Let_def)
    show ?thesis
    proof (cases "l = 0")
      case True
      let ?s2 = "?s1\<lparr>SerialRxState := SERIAL_INBETWEEN, SerialRxPending := True\<rparr>"
      have "effect [SerialCmdId s, l] s ?s2" using False True by (auto simp: effect_def handshake_def message_def)
      moreover have "tlv [SerialCmdId s, l]" using True by (simp add: tlv_def)
      moreover have "rcv s @ rx_fifo s = UART_SOM # [SerialCmdId s, l] @ rx_fifo ?s2" using assms(1) Cons by (simp add: rcv_def)
      moreover have "dev_ok ?s2" using d by (simp add: dev_ok_def)
      ultimately have "reads s ?s2" unfolding reads_def by force
      moreover have "read_cmdlen board s = Some (True, ?s2)" using e True by simp
      ultimately show ?thesis by blast
    next
      case nz: False
      let ?s2 = "?s1\<lparr>SerialRxState := SERIAL_DATA\<rparr>"
      have "unat l \<noteq> 255" using l by (auto simp flip: word_unat_eq_iff [of l 255, simplified])
      then have "unat l \<le> 254" using unat_u8_le [of l] by linarith
      then have d2: "data_ok ?s2" "dev_ok ?s2" using d nz False by (auto simp: data_ok_def dev_ok_def)
      obtain b s' where s': "read_data board ?s2 = Some (b, s')" "reads ?s2 s'"
        using read_data_reads [of ?s2 board] d2 d by auto
      have r: "rcv ?s2 @ rx_fifo ?s2 = rcv s @ rx_fifo s"
        using assms(1) Cons d by (simp add: rcv_def rcv_pos_def)
      have "reads s s'"
        by (rule reads_from_data [of ?s2, OF _ _ r]) (use s'(2) d2 in simp_all)
      then show ?thesis using e nz s'(1) by auto
    qed
  qed
qed


lemma read_cmdid_reads:
  assumes "SerialRxState s = SERIAL_CMDID" "dev_ok s" "stream_ok (rcv s @ rx_fifo s)"
  shows "\<exists>b s'. read_cmdid board s = Some (b, s') \<and> reads s s'"
proof (cases "rx_fifo s")
  case Nil
  then have "read_cmdid board s = Some (False, s)" by (simp add: read_cmdid_def read_1)
  then show ?thesis using reads_refl [OF assms(2)] by blast
next
  case (Cons c x)
  let ?s1 = "s\<lparr>rx_fifo := x, SerialCmdId := c, SerialRxState := SERIAL_CMDLEN\<rparr>"
  have e: "read_cmdid board s = read_cmdlen board ?s1" using Cons by (simp add: read_cmdid_def read_1)
  have r: "rcv ?s1 @ rx_fifo ?s1 = rcv s @ rx_fifo s" using assms(1) Cons by (simp add: rcv_def)
  have "dev_ok ?s1" using assms(1,2) by (simp add: dev_ok_def)
  then obtain b s' where s': "read_cmdlen board ?s1 = Some (b, s')" "reads ?s1 s'"
    using read_cmdlen_reads [of ?s1 board] assms(3) r by auto
  have "reads s s'" by (rule reads_trans [OF r]) (use s'(2) assms(1) in \<open>simp_all add: same_def\<close>)
  with e s'(1) show ?thesis by auto
qed

text \<open>Every interrupt reads on, and the buffer is not overrun.\<close>

lemma uart_irq_reads:
  assumes "dev_ok s" "stream_ok (rcv s @ rx_fifo s)"
  shows "\<exists>s'. uart_irq board now s = Some s' \<and> reads s s'"
proof (cases "rx_fifo s")
  case Nil
  then show ?thesis using reads_refl [OF assms(1)] by (simp add: uart_irq_def)
next
  case (Cons c x)
  show ?thesis
  proof (cases "SerialRxState s")
    case SERIAL_INBETWEEN
    then have c: "c = UART_SOM" using assms(2) Cons by (simp add: rcv_def stream_ok_def)
    let ?s1 = "s\<lparr>rx_fifo := x, SerialRxState := SERIAL_CMDID, SerialRxTimeout := now\<rparr>"
    have d: "dma s = 0" using SERIAL_INBETWEEN assms(1) by (simp add: dev_ok_def)
    have e: "Serial_ReadInterface board now s = read_cmdid board ?s1"
      using Cons c SERIAL_INBETWEEN by (simp add: Serial_ReadInterface_def SerialFindStart_def read_1)
    have r: "rcv ?s1 @ rx_fifo ?s1 = rcv s @ rx_fifo s" using SERIAL_INBETWEEN Cons c by (simp add: rcv_def)
    have "dev_ok ?s1" using SERIAL_INBETWEEN assms(1) by (simp add: dev_ok_def)
    then obtain b s' where s': "read_cmdid board ?s1 = Some (b, s')" "reads ?s1 s'"
      using read_cmdid_reads [of ?s1 board] assms(2) r by auto
    have "reads s s'" by (rule reads_trans [OF r]) (use s'(2) SERIAL_INBETWEEN in \<open>simp_all add: same_def\<close>)
    moreover have "uart_irq board now s = Some s'" using Cons d e s'(1) by (simp add: uart_irq_def)
    ultimately show ?thesis by blast
  next
    case SERIAL_CMDID
    then obtain b s' where "read_cmdid board s = Some (b, s')" "reads s s'" using read_cmdid_reads assms by blast
    then show ?thesis using SERIAL_CMDID assms(1) Cons by (simp add: uart_irq_def Serial_ReadInterface_def dev_ok_def)
  next
    case SERIAL_CMDLEN
    then obtain b s' where "read_cmdlen board s = Some (b, s')" "reads s s'" using read_cmdlen_reads assms by blast
    then show ?thesis using SERIAL_CMDLEN assms(1) Cons by (simp add: uart_irq_def Serial_ReadInterface_def dev_ok_def)
  next
    case SERIAL_DATA
    show ?thesis
    proof (cases "dma s = 0")
      case True
      then obtain b s' where "read_data board s = Some (b, s')" "reads s s'"
        using read_data_reads SERIAL_DATA assms by blast
      then show ?thesis using SERIAL_DATA True Cons by (simp add: uart_irq_def Serial_ReadInterface_def)
    next
      case False
      then show ?thesis using uart_dma_reads [OF SERIAL_DATA assms(1)] Cons by (simp add: uart_irq_def)
    qed
  qed
qed

subsection \<open>The host reads frames\<close>

definition is_ack :: "bytes \<Rightarrow> bool" where
  "is_ack m \<longleftrightarrow> m = [EVBME_RXRDY, 0]"

text \<open>Messages of the two sides: the device's must fit the host's buffer and not be the report of an
  error.\<close>

definition host_message :: "bytes \<Rightarrow> bool" where
  "host_message m \<longleftrightarrow> tlv m \<and> m ! 1 \<noteq> 255 \<and> m ! 0 \<noteq> EVBME_RXRDY \<and> m ! 0 \<noteq> EVBME_RXFAIL"

definition device_message :: "bytes \<Rightarrow> bool" where
  "device_message m \<longleftrightarrow> tlv m \<and> unat (m ! 1) \<le> 253 \<and> m ! 0 \<noteq> EVBME_RXRDY \<and> m ! 0 \<noteq> EVBME_RXFAIL \<and> m ! 0 \<noteq> 0xF0"

lemma ack_tlv: "is_ack m \<Longrightarrow> tlv m"
  by (auto simp: is_ack_def tlv_def)

lemma catch_som_id: "t = [] \<or> hd t = UART_SOM \<Longrightarrow> catch_som_errors t = t"
  by (cases t) auto

lemma send_ack_all: "write_results p = [] \<Longrightarrow> send_uart_ack b p = (CA_ERROR_SUCCESS, p\<lparr>written := written p @ ack_frame b\<rparr>)"
  by (simp add: send_uart_ack_def ack_loop.simps sys_write_def ack_frame_def)

text \<open>The buffer is never full: a frame of the device is shorter.\<close>

lemma framed_split:
  assumes "t @ x = framed L" "\<forall>m \<in> set L. tlv m"
  shows "(t \<noteq> [] \<longrightarrow> hd t = UART_SOM) \<and>
     (3 \<le> length t \<longrightarrow> (\<exists>m L'. L = m # L' \<and> t ! 2 = m ! 1 \<and>
        (unat (t ! 2) + 3 \<le> length t \<longrightarrow>
           take (unat (t ! 2) + 2) (drop 1 t) = m \<and> drop (unat (t ! 2) + 3) t @ x = framed L')))"
proof (cases L)
  case Nil
  then show ?thesis using assms(1) by simp
next
  case (Cons m L')
  then have m: "2 \<le> length m" "length m = unat (m ! 1) + 2" using assms(2) by (auto simp: tlv_def)
  have e: "t @ x = UART_SOM # m @ framed L'" using assms(1) Cons by simp
  have hd: "t \<noteq> [] \<longrightarrow> hd t = UART_SOM" using arg_cong [OF e, of hd] by auto
  have two: "t ! 2 = m ! 1" if "3 \<le> length t"
    using arg_cong [OF e, of "\<lambda>z. z ! 2"] that m(1) by (simp add: nth_append)
  have rest: "take (unat (t ! 2) + 2) (drop 1 t) = m \<and> drop (unat (t ! 2) + 3) t @ x = framed L'"
    if "3 \<le> length t" "unat (t ! 2) + 3 \<le> length t"
  proof -
    have n: "unat (t ! 2) + 3 = length (UART_SOM # m)" using two that m by simp
    have "take (length (UART_SOM # m)) t = UART_SOM # m"
      using arg_cong [OF e, of "take (length (UART_SOM # m))"] that n by simp
    then obtain r where r: "t = UART_SOM # m @ r"
      by (metis append_take_drop_id append_Cons)
    have two': "unat (t ! 2) + 2 = length m" using n by simp
    show ?thesis unfolding n two' using e by (simp add: r)
  qed
  show ?thesis using hd two rest Cons by auto
qed

lemma uart_receive_stream:
  assumes "rx_buf h @ unread p @ x = framed L" "\<forall>m \<in> set L. tlv m" "uart_receive st clock h p = (h', p')"
  shows "rx_buf h' @ unread p' = rx_buf h @ unread p" "tx_stalled h' = tx_stalled h" "tx_buf h' = tx_buf h"
    "written p' = written p" "write_results p' = write_results p"
proof -
  define new where "new = (if st = Read_data then take (256 - length (rx_buf h)) (unread p) else [])"
  define rest where "rest = (if st = Read_data then drop (256 - length (rx_buf h)) (unread p) else unread p)"
  have u: "unread p = new @ rest" by (simp add: new_def rest_def)
  have "(rx_buf h @ new) @ (rest @ x) = framed L" using assms(1) u by simp
  from framed_split [OF this assms(2)] have c: "catch_som_errors (rx_buf h @ new) = rx_buf h @ new"
    by (intro catch_som_id) blast
  have e: "rx_buf h' = rx_buf h @ new \<and> unread p' = rest \<and> tx_stalled h' = tx_stalled h \<and> tx_buf h' = tx_buf h \<and>
      written p' = written p \<and> write_results p' = write_results p"
    using assms(3) c unfolding uart_receive_def Let_def new_def [symmetric] rest_def [symmetric]
    by (auto split: if_splits)
  then show "rx_buf h' @ unread p' = rx_buf h @ unread p" using u by simp
  show "tx_stalled h' = tx_stalled h" "tx_buf h' = tx_buf h" "written p' = written p" "write_results p' = write_results p"
    using e by simp_all
qed

lemma uart_process_frame_message:
  assumes "is_ack m \<or> device_message m" "write_results p = []"
    and "take (unat (rx_buf h ! 2) + 2) (drop 1 (rx_buf h)) = m"
  shows "uart_process_frame clock stale h p = Some
     (let h' = h\<lparr>rx_buf := drop (unat (rx_buf h ! 2) + 3) (rx_buf h)\<rparr> in
      if is_ack m then (Read_none, h'\<lparr>tx_stalled := False\<rparr>, p)
      else (Read_msg m, h', p\<lparr>written := written p @ UART_SOM # [EVBME_RXRDY, 0]\<rparr>))"
proof -
  have a: "(m ! 0 = EVBME_RXRDY) = is_ack m" "is_ack m \<or> m ! 0 \<noteq> EVBME_RXFAIL" "is_ack m \<or> m ! 0 \<noteq> 0xF0"
    using assms(1) by (auto simp: is_ack_def device_message_def)
  show ?thesis using a assms(2,3) by (auto simp: uart_process_frame_def Let_def send_ack_all ack_frame_def)
qed

lemma uart_try_read_frames:
  assumes t: "rx_buf h @ unread p @ x = framed L" and L: "\<forall>m \<in> set L. is_ack m \<or> device_message m"
    and io: "st \<noteq> Read_fault" "write_results p = []"
    and r: "uart_try_read st clock stale h p = Some (r, h', p')"
    and time: "\<not> time_cmp (get_rx_time_passed (clock 1) h') rx_timeout > 0"
  shows "write_results p' = [] \<and>
    (r = Read_none \<and> rx_buf h' @ unread p' = rx_buf h @ unread p \<and> tx_stalled h' = tx_stalled h \<and> written p' = written p \<or>
     (\<exists>m L'. L = m # L' \<and> rx_buf h' @ unread p' @ x = framed L' \<and>
        (is_ack m \<and> r = Read_none \<and> \<not> tx_stalled h' \<and> written p' = written p \<or>
         device_message m \<and> r = Read_msg m \<and> tx_stalled h' = tx_stalled h \<and> written p' = written p @ UART_SOM # [EVBME_RXRDY, 0])))"
proof -
  have tlv: "\<forall>m \<in> set L. tlv m" using L ack_tlv by (auto simp: device_message_def)
  obtain h1 p1 where rc: "uart_receive st clock h p = (h1, p1)" by fastforce
  note s1 = uart_receive_stream [OF t tlv rc]
  have "rx_buf h1 @ (unread p1 @ x) = framed L" using t s1(1) by (metis append.assoc)
  note sp = framed_split [OF this tlv]
  show ?thesis
  proof (cases "3 \<le> length (rx_buf h1) \<and> unat (rx_buf h1 ! 2) + 3 \<le> length (rx_buf h1)")
    case True
    with sp obtain m L' where m: "L = m # L'" "take (unat (rx_buf h1 ! 2) + 2) (drop 1 (rx_buf h1)) = m"
      "drop (unat (rx_buf h1 ! 2) + 3) (rx_buf h1) @ unread p1 @ x = framed L'" by blast
    have am: "is_ack m \<or> device_message m" using L m(1) by simp
    have "uart_try_read st clock stale h p = uart_process_frame clock stale h1 p1"
      using True io(1) rc by (simp add: uart_try_read_def)
    also have "\<dots> = Some (let h' = h1\<lparr>rx_buf := drop (unat (rx_buf h1 ! 2) + 3) (rx_buf h1)\<rparr> in
      if is_ack m then (Read_none, h'\<lparr>tx_stalled := False\<rparr>, p1)
      else (Read_msg m, h', p1\<lparr>written := written p1 @ UART_SOM # [EVBME_RXRDY, 0]\<rparr>))"
      by (rule uart_process_frame_message [OF am _ m(2)]) (use io(2) s1(5) in simp)
    finally show ?thesis
      using r m s1 io(2) am by (auto simp: Let_def split: if_splits)
  next
    case False
    then have "(r, h', p') = (Read_none, h1\<lparr>rx_buf := []\<rparr>, snd (send_uart_ack False p1)) \<and>
         time_cmp (get_rx_time_passed (clock 1) h1) rx_timeout > 0 \<or> (r, h', p') = (Read_none, h1, p1)"
      using r io(1) rc by (auto simp: uart_try_read_def split: if_splits)
    moreover have "get_rx_time_passed (clock 1) (h1\<lparr>rx_buf := []\<rparr>) = get_rx_time_passed (clock 1) h1"
      by (simp add: get_rx_time_passed_def split: option.splits)
    ultimately have "(r, h', p') = (Read_none, h1, p1)" using time by auto
    then show ?thesis using s1 io(2) by simp
  qed
qed

text \<open>A write puts the frame on the line, however it is cut by the calls of \<^verbatim>\<open>write\<close>.\<close>

lemma send_som_written:
  "write_results p = rs \<Longrightarrow> None \<notin> set rs \<Longrightarrow>
     \<exists>rs'. send_som p = (True, p\<lparr>written := written p @ [UART_SOM], write_results := rs'\<rparr>) \<and> None \<notin> set rs'"
proof (induction rs arbitrary: p)
  case Nil
  then show ?case by (subst send_som.simps) (auto simp: sys_write_def intro: exI [of _ "[]"])
next
  case (Cons r rs)
  then obtain n where n: "r = Some n" by (cases r) auto
  show ?case
  proof (cases n)
    case 0
    have "send_som p = send_som (p\<lparr>write_results := rs\<rparr>)"
      by (subst send_som.simps) (simp add: sys_write_def Cons.prems(1) n 0)
    then show ?thesis using Cons.IH [of "p\<lparr>write_results := rs\<rparr>"] Cons.prems by simp
  next
    case (Suc k)
    then show ?thesis using Cons.prems by (subst send_som.simps) (auto simp: sys_write_def n)
  qed
qed

lemma send_rest_written:
  "write_results p = rs \<Longrightarrow> None \<notin> set rs \<Longrightarrow>
     \<exists>rs'. send_rest b p = ([], True, p\<lparr>written := written p @ b, write_results := rs'\<rparr>) \<and> None \<notin> set rs'"
proof (induction rs arbitrary: p b)
  case Nil
  then show ?case
    by (cases "b = []") (auto simp: sys_write_def send_rest.simps [of b] send_rest.simps [of "[]"] intro: exI [of _ "[]"])
next
  case (Cons r rs)
  then obtain n where n: "r = Some n" by (cases r) auto
  show ?case
  proof (cases "b = []")
    case True
    then show ?thesis using Cons.prems by (auto simp: send_rest.simps intro!: exI [of _ "r # rs"])
  next
    case False
    have "send_rest b p = send_rest (drop n b) (p\<lparr>written := written p @ take n b, write_results := rs\<rparr>)"
      using False by (subst send_rest.simps) (auto simp: sys_write_def Cons.prems(1) n min_def)
    then show ?thesis
      using Cons.IH [of "p\<lparr>written := written p @ take n b, write_results := rs\<rparr>" "drop n b"] Cons.prems by simp
  qed
qed

lemma uart_try_write_frame:
  assumes "None \<notin> set (write_results p)" "tlv m"
  shows "\<exists>rs' prev. uart_try_write now m h p = Some (CA_ERROR_SUCCESS, h\<lparr>tx_stalled := True, prev_send := prev\<rparr>,
            p\<lparr>written := written p @ UART_SOM # m, write_results := rs'\<rparr>)"
proof -
  obtain rs1 where 1: "send_som p = (True, p\<lparr>written := written p @ [UART_SOM], write_results := rs1\<rparr>)" "None \<notin> set rs1"
    using send_som_written [OF refl assms(1)] by blast
  obtain rs2 where 2: "send_rest m (p\<lparr>written := written p @ [UART_SOM], write_results := rs1\<rparr>) =
      ([], True, p\<lparr>written := (written p @ [UART_SOM]) @ m, write_results := rs2\<rparr>)"
    using send_rest_written [of "p\<lparr>written := written p @ [UART_SOM], write_results := rs1\<rparr>" rs1 m] 1(2) by auto
  have "uart_try_write now m h p = Some (CA_ERROR_SUCCESS,
      h\<lparr>tx_stalled := True, prev_send := (case now of Some t \<Rightarrow> t | None \<Rightarrow> prev_send h)\<rparr>,
      p\<lparr>written := written p @ UART_SOM # m, write_results := rs2\<rparr>)"
    using assms(2) by (simp add: uart_try_write_def tlv_def 1 2)
  then show ?thesis by blast
qed

end
