(* ===== verification/UartDelivery.thy ===== *)
theory UartDelivery
  imports UartLink
begin

subsection \<open>Both ends together\<close>

text \<open>
  The two ends, the octets on the line being those written and not yet arrived, whether the device's
  main loop is at work on a command, and what was handed over and received on each side.
\<close>

record link =
  host :: uart_exchange_priv
  fd :: port
  dev :: serial
  handling :: bool
  host_sent :: "bytes list"
  host_got :: "bytes list"
  dev_sent :: "bytes list"
  dev_got :: "bytes list"

definition link_start :: link where
  "link_start =
     \<lparr>host = \<lparr>tx_stalled = False, rx_buf = [], tx_buf = replicate 256 0,
              prev_send = \<lparr>tv_sec = 0, tv_nsec = 0\<rparr>, rx_start = \<lparr>tv_sec = 0, tv_nsec = 0\<rparr>\<rparr>,
      fd = \<lparr>unread = [], written = [], write_results = []\<rparr>, dev = serial_start, handling = False,
      host_sent = [], host_got = [], dev_sent = [], dev_got = []\<rparr>"

text \<open>
  The steps, between which time passes but no time-out: the worker of the host writes a message when
  the exchange is ready, or reads; octets travel; the device takes an interrupt, takes a command,
  finishes it, or sends a message when its last one was answered.
\<close>

inductive link_step :: "board_type \<Rightarrow> link \<Rightarrow> link \<Rightarrow> bool" for board where
  host_write: "host_message m \<Longrightarrow> None \<notin> set rs \<Longrightarrow>
    uart_write_isready now (host s) = (CA_ERROR_SUCCESS, h1) \<Longrightarrow>
    \<not> time_cmp (get_tx_time_passed now (host s)) ack_timeout > 0 \<Longrightarrow>
    uart_try_write now' m h1 ((fd s)\<lparr>write_results := rs\<rparr>) = Some (e, h2, p) \<Longrightarrow>
    link_step board s (s\<lparr>host := h2, fd := p, host_sent := host_sent s @ [m]\<rparr>)"
| host_read: "st \<noteq> Read_fault \<Longrightarrow>
    uart_try_read st clock stale (host s) ((fd s)\<lparr>write_results := []\<rparr>) = Some (r, h, p) \<Longrightarrow>
    \<not> time_cmp (get_rx_time_passed (clock 1) h) rx_timeout > 0 \<Longrightarrow>
    link_step board s
      (s\<lparr>host := h, fd := p, host_got := host_got s @ (case r of Read_msg m \<Rightarrow> [m] | _ \<Rightarrow> [])\<rparr>)"
| to_device: "link_step board s
      (s\<lparr>fd := (fd s)\<lparr>written := drop k (written (fd s))\<rparr>,
         dev := (dev s)\<lparr>rx_fifo := rx_fifo (dev s) @ take k (written (fd s))\<rparr>\<rparr>)"
| to_host: "link_step board s
      (s\<lparr>dev := (dev s)\<lparr>sent := drop k (sent (dev s))\<rparr>,
         fd := (fd s)\<lparr>unread := unread (fd s) @ take k (sent (dev s))\<rparr>\<rparr>)"
| dev_irq: "uart_irq board now (dev s) = Some d \<Longrightarrow> link_step board s (s\<lparr>dev := d\<rparr>)"
| dev_take: "\<not> handling s \<Longrightarrow> SerialGetCommand board now (dev s) = (True, d) \<Longrightarrow>
    \<not> now - SerialRxTimeout (dev s) > RX_TIMEOUT \<Longrightarrow>
    link_step board s (s\<lparr>dev := d, handling := True, dev_got := dev_got s @ [message d]\<rparr>)"
| dev_done: "handling s \<Longrightarrow>
    link_step board s (s\<lparr>dev := (SerialSendRxRdy (dev s))\<lparr>SerialRxPending := False\<rparr>, handling := False\<rparr>)"
| dev_send: "device_message (c # l # b) \<Longrightarrow> \<not> SerialTxStalled (dev s) \<Longrightarrow>
    \<not> now - SerialRxTimeout (dev s) > RX_TIMEOUT \<Longrightarrow>
    MAC_Message_UART True board [(now', id)] now c l b (dev s) = Some d \<Longrightarrow>
    link_step board s (s\<lparr>dev := d, dev_sent := dev_sent s @ [c # l # b]\<rparr>)"

definition link_reachable :: "board_type \<Rightarrow> link \<Rightarrow> bool" where
  "link_reachable board = (link_step board)\<^sup>*\<^sup>* link_start"

subsection \<open>The invariant\<close>

text \<open>\<open>up\<close> and \<open>down\<close> are the frames on their way to the host and to the device.\<close>

definition commands :: "bytes list \<Rightarrow> bytes list" where
  "commands L = filter (\<lambda>m. \<not> is_ack m) L"

definition link_inv :: "link \<Rightarrow> bytes list \<Rightarrow> bytes list \<Rightarrow> bool" where
  "link_inv s down up \<longleftrightarrow>
     dev_ok (dev s) \<and> length (Data (snd (SerialTxBuffer (dev s)))) = SERIAL_MAC_RX_LEN \<and>
     \<not> SerialTxResendReq (dev s) \<and>
     rcv (dev s) @ rx_fifo (dev s) @ written (fd s) = framed down \<and>
     rx_buf (host s) @ unread (fd s) @ sent (dev s) = framed up \<and>
     (\<forall>m \<in> set down. is_ack m \<or> host_message m) \<and> (\<forall>m \<in> set up. is_ack m \<or> device_message m) \<and>
     (handling s \<longrightarrow> SerialRxPending (dev s)) \<and>
     host_sent s = dev_got s @ (if SerialRxPending (dev s) \<and> \<not> handling s then [message (dev s)] else []) @ commands down \<and>
     dev_sent s = host_got s @ commands up \<and>
     length (commands down) + of_bool (SerialRxPending (dev s)) + length (filter is_ack up) = of_bool (tx_stalled (host s))"

lemma link_inv_start: "link_inv link_start [] []"
  by (simp add: link_inv_def link_start_def serial_start_def Let_def dev_ok_def rcv_def commands_def)

lemma host_message_not_ack: "host_message m \<Longrightarrow> \<not> is_ack m"
  by (auto simp: host_message_def is_ack_def)

lemma device_message_not_ack: "device_message m \<Longrightarrow> \<not> is_ack m"
  by (auto simp: device_message_def is_ack_def)

lemma inv_host_write:
  assumes inv: "link_inv s down up" and m: "host_message m" "None \<notin> set rs"
    and w: "uart_write_isready now (host s) = (CA_ERROR_SUCCESS, h1)"
      "\<not> time_cmp (get_tx_time_passed now (host s)) ack_timeout > 0"
      "uart_try_write now' m h1 ((fd s)\<lparr>write_results := rs\<rparr>) = Some (e, h2, p)"
  shows "link_inv (s\<lparr>host := h2, fd := p, host_sent := host_sent s @ [m]\<rparr>) (down @ [m]) up"
proof -
  have h1: "h1 = host s" "\<not> tx_stalled (host s)"
    using w(1,2) by (auto simp: uart_write_isready_def Let_def split: if_splits)
  have "tlv m" using m(1) by (simp add: host_message_def)
  from uart_try_write_frame [OF _ this, of "(fd s)\<lparr>write_results := rs\<rparr>" now' h1] m(2) w(3)
  obtain rs' prev where "h2 = (host s)\<lparr>tx_stalled := True, prev_send := prev\<rparr>"
      "p = (fd s)\<lparr>written := written (fd s) @ UART_SOM # m, write_results := rs'\<rparr>"
    using h1 by auto
  with inv h1 m(1) host_message_not_ack [OF m(1)] show ?thesis
    by (auto simp: link_inv_def commands_def)
qed

lemma inv_host_read:
  assumes inv: "link_inv s down up" and st: "st \<noteq> Read_fault"
    and r: "uart_try_read st clock stale (host s) ((fd s)\<lparr>write_results := []\<rparr>) = Some (r, h, p)"
    and t: "\<not> time_cmp (get_rx_time_passed (clock 1) h) rx_timeout > 0"
  shows "\<exists>down up. link_inv (s\<lparr>host := h, fd := p, host_got := host_got s @ (case r of Read_msg m \<Rightarrow> [m] | _ \<Rightarrow> [])\<rparr>) down up"
proof -
  have "rx_buf (host s) @ unread ((fd s)\<lparr>write_results := []\<rparr>) @ sent (dev s) = framed up"
    "\<forall>m \<in> set up. is_ack m \<or> device_message m" using inv by (simp_all add: link_inv_def)
  from uart_try_read_frames [OF this st _ r t]
  consider (none) "r = Read_none" "rx_buf h @ unread p = rx_buf (host s) @ unread (fd s)" "tx_stalled h = tx_stalled (host s)"
      "written p = written (fd s)"
    | (ack) m up' where "up = m # up'" "rx_buf h @ unread p @ sent (dev s) = framed up'" "is_ack m" "r = Read_none"
        "\<not> tx_stalled h" "written p = written (fd s)"
    | (msg) m up' where "up = m # up'" "rx_buf h @ unread p @ sent (dev s) = framed up'" "device_message m" "r = Read_msg m"
        "tx_stalled h = tx_stalled (host s)" "written p = written (fd s) @ UART_SOM # [EVBME_RXRDY, 0]"
    by auto
  then show ?thesis
  proof cases
    case none
    then have "rx_buf h @ unread p @ sent (dev s) = framed up" using inv by (simp add: link_inv_def flip: append_assoc)
    then show ?thesis
      using inv none by (intro exI [of _ down] exI [of _ up]) (simp add: link_inv_def)
  next
    case ack
    have c: "length (commands down) + of_bool (SerialRxPending (dev s)) + Suc (length (filter is_ack up')) = of_bool (tx_stalled (host s))"
      using inv ack by (simp add: link_inv_def)
    then have z: "commands down = []" "\<not> SerialRxPending (dev s)" "filter is_ack up' = []"
      by (cases "tx_stalled (host s)"; cases "SerialRxPending (dev s)"; simp)+
    have "link_inv (s\<lparr>host := h, fd := p, host_got := host_got s @ []\<rparr>) down up'"
      unfolding link_inv_def by (intro conjI) (use inv ack z in \<open>simp_all add: link_inv_def commands_def\<close>)
    then show ?thesis using ack(4) by auto
  next
    case msg
    have "link_inv (s\<lparr>host := h, fd := p, host_got := host_got s @ [m]\<rparr>) (down @ [[EVBME_RXRDY, 0]]) up'"
      unfolding link_inv_def
      by (intro conjI) (use inv msg device_message_not_ack [OF msg(3)] in \<open>simp_all add: link_inv_def commands_def is_ack_def\<close>)
    then show ?thesis using msg(4) by auto
  qed
qed

lemma message_cong: "SerialRxBuffer s = SerialRxBuffer s' \<Longrightarrow> message s = message s'"
  by (simp add: message_def)

text \<open>What the driver has read of the frames on their way down.\<close>

lemma framed_stream_ok:
  assumes "t @ x = framed L" "\<forall>m \<in> set L. tlv m \<and> m ! 1 \<noteq> 255"
  shows "stream_ok t"
  using framed_split [OF assms(1)] assms(2) unfolding stream_ok_def by fastforce

lemma inv_dev_irq:
  assumes inv: "link_inv s down up"
  shows "\<exists>d. uart_irq board now (dev s) = Some d \<and> (\<exists>down. link_inv (s\<lparr>dev := d\<rparr>) down up)"
proof -
  let ?s = "dev s"
  have st: "rcv ?s @ rx_fifo ?s @ written (fd s) = framed down" using inv by (simp add: link_inv_def)
  have msgs: "\<forall>m \<in> set down. is_ack m \<or> host_message m" using inv by (simp add: link_inv_def)
  then have tlv: "\<forall>m \<in> set down. tlv m \<and> m ! 1 \<noteq> 255"
    using ack_tlv by (auto simp: host_message_def is_ack_def)
  have "stream_ok (rcv ?s @ rx_fifo ?s)" by (rule framed_stream_ok [OF _ tlv]) (use st in simp)
  moreover have "dev_ok ?s" using inv by (simp add: link_inv_def)
  ultimately obtain d where d: "uart_irq board now ?s = Some d" "reads ?s d"
    using uart_irq_reads by blast
  have ok: "dev_ok d" using d(2) by (simp add: reads_def)
  from d(2) consider (part) "rcv d @ rx_fifo d = rcv ?s @ rx_fifo ?s" "same ?s d"
    | (frame) m where "rcv ?s @ rx_fifo ?s = UART_SOM # m @ rx_fifo d" "tlv m" "SerialRxState d = SERIAL_INBETWEEN" "effect m ?s d"
    unfolding reads_def by blast
  then have "\<exists>down. link_inv (s\<lparr>dev := d\<rparr>) down up"
  proof cases
    case part
    then have e: "rcv d @ rx_fifo d @ written (fd s) = framed down" using st by (metis append.assoc)
    have "message d = message ?s" if p: "SerialRxPending ?s"
    proof (cases "SerialRxState d = SERIAL_DATA")
      case True
      then have x: "rcv d = UART_SOM # SerialCmdId d # SerialCmdLen d # take (rcv_pos d) (Data (SerialRxBuffer d))"
        and dd: "data_ok d" using ok by (simp_all add: rcv_def dev_ok_def)
      from p inv have "commands down = []" by (auto simp: link_inv_def of_bool_def split: if_splits)
      then have acks: "\<forall>m \<in> set down. is_ack m" using msgs by (auto simp: commands_def filter_empty_conv)
      have "down \<noteq> []" using e x by auto
      then obtain m L where L: "down = m # L" by (cases down) auto
      with acks have "m = [EVBME_RXRDY, 0]" by (simp add: is_ack_def)
      with e x L dd show ?thesis by (auto simp: data_ok_def handshake_def)
    next
      case False
      then show ?thesis using part(2) by (intro message_cong) (simp add: same_def)
    qed
    then have "link_inv (s\<lparr>dev := d\<rparr>) down up"
      unfolding link_inv_def using inv part(2) e ok
      by (intro conjI) (simp_all add: link_inv_def same_def)
    then show ?thesis by blast
  next
    case frame
    have "UART_SOM # m @ rx_fifo d @ written (fd s) = framed down" using frame(1) st by (metis append.assoc append_Cons)
    then obtain down' where L: "down = m # down'" "rx_fifo d @ written (fd s) = framed down'"
      using framed_first frame(2) tlv by (metis (no_types, lifting))
    have r: "rcv d = []" using frame(3) by (simp add: rcv_def)
    show ?thesis
    proof (cases "is_ack m")
      case True
      then have "link_inv (s\<lparr>dev := d\<rparr>) down' up"
        unfolding link_inv_def using inv L r ok frame(4)
        by (intro conjI) (simp_all add: link_inv_def effect_def is_ack_def commands_def message_def)
      then show ?thesis by blast
    next
      case False
      then have hm: "host_message m" using msgs L by simp
      have n: "m \<noteq> [EVBME_RXRDY, 0]" "m \<noteq> [EVBME_RXFAIL, 0]" using hm by (auto simp: host_message_def)
      have "Suc (length (commands down')) + of_bool (SerialRxPending ?s) + length (filter is_ack up) = of_bool (tx_stalled (host s))"
        using inv L False by (simp add: link_inv_def commands_def)
      then have z: "commands down' = []" "\<not> SerialRxPending ?s" "filter is_ack up = []" "tx_stalled (host s)"
        by (cases "tx_stalled (host s)"; cases "SerialRxPending ?s"; simp)+
      then have nh: "\<not> handling s" using inv by (auto simp: link_inv_def)
      have f: "SerialRxPending d" "message d = m" "sent d = sent ?s" "SerialTxBuffer d = SerialTxBuffer ?s"
        "SerialTxResendReq d = SerialTxResendReq ?s"
        using frame(4) n by (simp_all add: effect_def)
      have "link_inv (s\<lparr>dev := d\<rparr>) down' up"
        unfolding link_inv_def using inv L r ok f z nh False
        by (intro conjI) (simp_all add: link_inv_def commands_def)
      then show ?thesis by blast
    qed
  qed
  with d(1) show ?thesis by blast
qed


lemma get_command_quiet:
  assumes "\<not> SerialTxResendReq d" "\<not> now - SerialRxTimeout d > RX_TIMEOUT"
  shows "SerialGetCommand board now d = (SerialRxPending d, if SerialRxPending d then d\<lparr>SerialTimeoutCount := 0\<rparr> else d)"
  using assms by (simp add: SerialGetCommand_def SerialCheckRxTimeout_def Let_def)

lemma rcv_fields [simp]:
  "rcv (s\<lparr>SerialTimeoutCount := a\<rparr>) = rcv s" "rcv (s\<lparr>SerialRxPending := b\<rparr>) = rcv s" "rcv (s\<lparr>sent := c\<rparr>) = rcv s"
  "rcv (s\<lparr>SerialTxBuffer := x\<rparr>) = rcv s" "rcv (s\<lparr>SerialTxStalled := y\<rparr>) = rcv s" "rcv (s\<lparr>SerialTxTimeout := z\<rparr>) = rcv s"
  "rcv (s\<lparr>rx_fifo := f\<rparr>) = rcv s"
  by (simp_all add: rcv_def rcv_pos_def cong: serial_state.case_cong)

lemma dev_ok_fields [simp]:
  "dev_ok (s\<lparr>SerialTimeoutCount := a\<rparr>) = dev_ok s" "dev_ok (s\<lparr>SerialRxPending := b\<rparr>) = dev_ok s" "dev_ok (s\<lparr>sent := c\<rparr>) = dev_ok s"
  "dev_ok (s\<lparr>SerialTxBuffer := x\<rparr>) = dev_ok s" "dev_ok (s\<lparr>SerialTxStalled := y\<rparr>) = dev_ok s"
  "dev_ok (s\<lparr>SerialTxTimeout := z\<rparr>) = dev_ok s" "dev_ok (s\<lparr>rx_fifo := f\<rparr>) = dev_ok s"
  by (simp_all add: dev_ok_def data_ok_def)

lemma message_fields [simp]:
  "message (s\<lparr>SerialTimeoutCount := a\<rparr>) = message s" "message (s\<lparr>SerialRxPending := b\<rparr>) = message s" "message (s\<lparr>sent := c\<rparr>) = message s"
  "message (s\<lparr>SerialTxBuffer := x\<rparr>) = message s" "message (s\<lparr>SerialTxStalled := y\<rparr>) = message s"
  "message (s\<lparr>SerialTxTimeout := z\<rparr>) = message s" "message (s\<lparr>rx_fifo := f\<rparr>) = message s"
  by (simp_all add: message_def)

lemma mac_message_frame:
  assumes "device_message (c # l # b)" "\<not> SerialTxStalled d" "\<not> SerialTxResendReq d"
    "\<not> now - SerialRxTimeout d > RX_TIMEOUT" "length (Data (snd (SerialTxBuffer d))) = SERIAL_MAC_RX_LEN"
  shows "\<exists>n x. length (Data (snd x)) = SERIAL_MAC_RX_LEN \<and>
     MAC_Message_UART True board [(now', id)] now c l b d = Some
       (d\<lparr>SerialTimeoutCount := n, SerialTxBuffer := x, sent := sent d @ UART_SOM # c # l # b,
          SerialTxStalled := True, SerialTxTimeout := now\<rparr>)"
proof -
  have b: "length b = unat l" "unat l \<le> 253" using assms(1) by (simp_all add: device_message_def tlv_def)
  define n where "n = (if SerialRxPending d then 0 else SerialTimeoutCount d)"
  define x where "x = (UART_SOM, \<lparr>CmdId = c, CmdLen = l, Data = b @ drop (unat l) (Data (snd (SerialTxBuffer d)))\<rparr>)"
  have g: "SerialGetCommand board now d = (SerialRxPending d, d\<lparr>SerialTimeoutCount := n\<rparr>)"
    using get_command_quiet [OF assms(3,4), of board] by (simp add: n_def)
  have w: "SerialCheckTxTimeout [(now', id)] (d\<lparr>SerialTimeoutCount := n\<rparr>) = Some (d\<lparr>SerialTimeoutCount := n\<rparr>)"
    using assms(2) by simp
  have "MAC_Message_UART True board [(now', id)] now c l b d = Some
       (d\<lparr>SerialTimeoutCount := n, SerialTxBuffer := x, sent := sent d @ UART_SOM # c # l # b,
          SerialTxStalled := True, SerialTxTimeout := now\<rparr>)"
    unfolding MAC_Message_UART_def send_message_def g snd_conv w option.case Let_def
    using b by (simp add: x_def BSP_SerialWriteAll_def SerialSetTxTimeout_def tx_frame_def numeral_3_eq_3)
  moreover have "length (Data (snd x)) = SERIAL_MAC_RX_LEN" using b assms(5) by (simp add: x_def)
  ultimately show ?thesis by (intro exI conjI)
qed

lemma link_step_inv:
  assumes "link_step board s s'" and inv: "link_inv s down up"
  shows "\<exists>down up. link_inv s' down up"
  using assms(1)
proof (cases rule: link_step.cases)
  case (host_write m rs now h1 now' e h2 p)
  then show ?thesis using inv_host_write [OF inv] by blast
next
  case (host_read st clock stale r h p)
  then show ?thesis using inv_host_read [OF inv] by blast
next
  case (to_device k)
  have "link_inv s' down up" unfolding to_device link_inv_def
    by (intro conjI) (use inv in \<open>simp_all add: link_inv_def\<close>)
  then show ?thesis by blast
next
  case (to_host k)
  have "link_inv s' down up" unfolding to_host link_inv_def
    by (intro conjI) (use inv in \<open>simp_all add: link_inv_def\<close>)
  then show ?thesis by blast
next
  case (dev_irq now d)
  then show ?thesis using inv_dev_irq [OF inv, of board now] by auto
next
  case (dev_take now d)
  have "\<not> SerialTxResendReq (dev s)" using inv by (simp add: link_inv_def)
  from get_command_quiet [OF this dev_take(4), of board] dev_take(3)
  have d: "SerialRxPending (dev s)" "d = (dev s)\<lparr>SerialTimeoutCount := 0\<rparr>" by auto
  have "link_inv s' down up" unfolding dev_take(1) link_inv_def
    by (intro conjI) (use inv d dev_take(2) in \<open>simp_all add: link_inv_def\<close>)
  then show ?thesis by blast
next
  case dev_done
  have p: "SerialRxPending (dev s)" using inv dev_done by (simp add: link_inv_def)
  have "link_inv s' down (up @ [[EVBME_RXRDY, 0]])" unfolding dev_done(1) link_inv_def
    by (intro conjI) (use inv dev_done(2) p in \<open>simp_all add: link_inv_def SerialSendRxRdy_def BSP_SerialWriteAll_def
        is_ack_def commands_def\<close>)
  then show ?thesis by blast
next
  case (dev_send c l b now now' d)
  have q: "\<not> SerialTxResendReq (dev s)" "length (Data (snd (SerialTxBuffer (dev s)))) = SERIAL_MAC_RX_LEN"
    using inv by (simp_all add: link_inv_def)
  from mac_message_frame [OF dev_send(2,3) q(1) dev_send(4) q(2), of board now'] dev_send(5)
  obtain n x where d: "length (Data (snd x)) = SERIAL_MAC_RX_LEN"
    "d = (dev s)\<lparr>SerialTimeoutCount := n, SerialTxBuffer := x, sent := sent (dev s) @ UART_SOM # c # l # b,
          SerialTxStalled := True, SerialTxTimeout := now\<rparr>" by auto
  have "link_inv s' down (up @ [c # l # b])" unfolding dev_send(1) link_inv_def d(2)
    by (intro conjI) (use inv d(1) dev_send(2) device_message_not_ack [OF dev_send(2)] in
        \<open>simp_all add: link_inv_def commands_def\<close>)
  then show ?thesis by blast
qed

lemma link_reachable_inv:
  assumes "link_reachable board s"
  obtains down up where "link_inv s down up"
proof -
  from assms have "\<exists>down up. link_inv s down up" unfolding link_reachable_def
    by (induction rule: rtranclp_induct) (use link_inv_start link_step_inv in blast)+
  with that show ?thesis by blast
qed

subsection \<open>Runs\<close>

text \<open>The steps as functions, with a clock that stands still.\<close>

datatype link_action =
  Host_write bytes "nat list" | Host_read | To_device nat | To_host nat | Dev_irq | Dev_take | Dev_done | Dev_send bytes

fun link_act :: "board_type \<Rightarrow> link_action \<Rightarrow> link \<Rightarrow> link option" where
  "link_act board (Host_write m ns) s =
     (if host_message m \<and> \<not> tx_stalled (host s)
      then map_option (\<lambda>(e, h, p). s\<lparr>host := h, fd := p, host_sent := host_sent s @ [m]\<rparr>)
             (uart_try_write None m (host s) ((fd s)\<lparr>write_results := map Some ns\<rparr>))
      else None)"
| "link_act board Host_read s =
     map_option (\<lambda>(r, h, p). s\<lparr>host := h, fd := p,
         host_got := host_got s @ (case r of Read_msg m \<Rightarrow> [m] | _ \<Rightarrow> [])\<rparr>)
       (uart_try_read Read_data (\<lambda>_. None) 0 (host s) ((fd s)\<lparr>write_results := []\<rparr>))"
| "link_act board (To_device k) s = Some
      (s\<lparr>fd := (fd s)\<lparr>written := drop k (written (fd s))\<rparr>,
         dev := (dev s)\<lparr>rx_fifo := rx_fifo (dev s) @ take k (written (fd s))\<rparr>\<rparr>)"
| "link_act board (To_host k) s = Some
      (s\<lparr>dev := (dev s)\<lparr>sent := drop k (sent (dev s))\<rparr>,
         fd := (fd s)\<lparr>unread := unread (fd s) @ take k (sent (dev s))\<rparr>\<rparr>)"
| "link_act board Dev_irq s = map_option (\<lambda>d. s\<lparr>dev := d\<rparr>) (uart_irq board 0 (dev s))"
| "link_act board Dev_take s =
     (if handling s \<or> SerialRxTimeout (dev s) \<noteq> 0 then None
      else (case SerialGetCommand board 0 (dev s) of
              (True, d) \<Rightarrow> Some (s\<lparr>dev := d, handling := True, dev_got := dev_got s @ [message d]\<rparr>)
            | (False, d) \<Rightarrow> None))"
| "link_act board Dev_done s =
     (if handling s
      then Some (s\<lparr>dev := (SerialSendRxRdy (dev s))\<lparr>SerialRxPending := False\<rparr>, handling := False\<rparr>) else None)"
| "link_act board (Dev_send m) s =
     (if device_message m \<and> \<not> SerialTxStalled (dev s) \<and> SerialRxTimeout (dev s) = 0
      then (case m of
              c # l # b \<Rightarrow> map_option (\<lambda>d. s\<lparr>dev := d, dev_sent := dev_sent s @ [m]\<rparr>)
                (MAC_Message_UART True board [(0, id)] 0 c l b (dev s))
            | _ \<Rightarrow> None)
      else None)"

lemma no_time_passed:
  "\<not> time_cmp (get_rx_time_passed None h) rx_timeout > 0" "\<not> time_cmp (get_tx_time_passed None h) ack_timeout > 0"
  by (simp_all add: get_rx_time_passed_def get_tx_time_passed_def time_cmp_def rx_timeout_def ack_timeout_def)

lemma link_act_step: "link_act board a s = Some s' \<Longrightarrow> link_step board s s'"
proof (cases a)
  case (Host_write m ns)
  assume a: "link_act board a s = Some s'"
  then have "uart_write_isready None (host s) = (CA_ERROR_SUCCESS, host s)"
    using Host_write by (auto simp: uart_write_isready_def split: if_splits)
  then show ?thesis
    using a Host_write no_time_passed(2) by (auto split: if_splits intro!: host_write [of m "map Some ns" None s "host s" None])
next
  case Host_read
  assume "link_act board a s = Some s'"
  then show ?thesis using Host_read no_time_passed(1) by (auto intro!: host_read [of Read_data "\<lambda>_. None" 0])
next
  case Dev_take
  assume "link_act board a s = Some s'"
  then show ?thesis using Dev_take by (auto split: if_splits prod.splits bool.splits intro!: dev_take [of s board 0])
next
  case (Dev_send m)
  assume "link_act board a s = Some s'"
  then show ?thesis using Dev_send by (auto split: if_splits list.splits intro!: dev_send [of _ _ _ s 0 board 0])
next
  case Dev_irq
  assume "link_act board a s = Some s'"
  then show ?thesis using Dev_irq by (auto intro!: dev_irq [of board 0])
qed (auto intro: link_step.intros split: if_splits)

fun link_acts :: "board_type \<Rightarrow> link_action list \<Rightarrow> link \<Rightarrow> link option" where
  "link_acts board [] s = Some s"
| "link_acts board (a # as) s = (case link_act board a s of None \<Rightarrow> None | Some s \<Rightarrow> link_acts board as s)"

lemma link_acts_reach: "link_acts board as s = Some s' \<Longrightarrow> (link_step board)\<^sup>*\<^sup>* s s'"
  by (induction as arbitrary: s) (auto split: option.splits dest!: link_act_step intro: converse_rtranclp_into_rtranclp)



text \<open>A command of two octets, cut up on its way, and the confirm that answers it.\<close>

definition command_run :: "link_action list" where
  "command_run = [Host_write [0x45, 2, 7, 8] [0, 1, 2], To_device 2, Dev_irq, To_device 2, Dev_irq, To_device 9, Dev_irq, Dev_irq,
     Dev_take, Dev_send [0x68, 1, 9], Dev_done, To_host 3, Host_read, To_host 9, Host_read, Host_read]"


end
