(* ===== verification/UartFaults.thy ===== *)
theory UartFaults
  imports UartDelivery
begin

text \<open>
  What happens on the serial link when something goes wrong: refused frames, frames that are too long
  for a buffer, and the host's time-out of a frame.
\<close>

text \<open>
  C31: When the device refuses a frame, the host does not send it again: it accepts the refusal, and
  then sends a frame with command 0 and no data, an empty data request. The copy of the message is
  taken after the message was sent, when nothing of it is left to copy.
\<close>

theorem uart_refused_frame_is_lost:
  assumes "tlv m" "None \<notin> set (write_results p)" "tx_buf h = replicate 256 0" "rx_buf h = []"
    and w: "uart_try_write now m h p = Some (e, h1, p1)"
    and r: "uart_try_read Read_data clock stale h1
              (p1\<lparr>unread := UART_SOM # [EVBME_RXFAIL, 0], write_results := []\<rparr>) = Some (r, h2, p2)"
  shows "written p2 = written p @ (UART_SOM # m) @ (UART_SOM # [EVBME_RXRDY, 0]) @ (UART_SOM # [0, 0]) \<and>
    r = Read_none \<and> tx_stalled h2"
proof -
  obtain rs prev where p1: "h1 = h\<lparr>tx_stalled := True, prev_send := prev\<rparr>"
    "p1 = p\<lparr>written := written p @ UART_SOM # m, write_results := rs\<rparr>"
    using uart_try_write_frame [OF assms(2,1), of now h] w by auto
  let ?p = "p1\<lparr>unread := [], write_results := [], written := written p1 @ ack_frame True\<rparr>"
  obtain h3 where h3: "h3 = h1\<lparr>rx_start := (case clock 0 of Some t \<Rightarrow> t | None \<Rightarrow> rx_start h1)\<rparr>" by blast
  have rc: "uart_receive Read_data clock h1 (p1\<lparr>unread := UART_SOM # [EVBME_RXFAIL, 0], write_results := []\<rparr>) =
      (h3\<lparr>rx_buf := UART_SOM # [EVBME_RXFAIL, 0]\<rparr>, p1\<lparr>unread := [], write_results := []\<rparr>)"
    by (simp add: uart_receive_def Let_def assms(4) p1(1) h3 cong: option.case_cong)
  have t: "tlv [0, 0]" by (simp add: tlv_def)
  obtain rs2 prev2 where w2: "uart_try_write (clock 2) [0, 0] (h3\<lparr>rx_buf := []\<rparr>) ?p =
      Some (CA_ERROR_SUCCESS, (h3\<lparr>rx_buf := []\<rparr>)\<lparr>tx_stalled := True, prev_send := prev2\<rparr>,
            ?p\<lparr>written := written ?p @ UART_SOM # [0, 0], write_results := rs2\<rparr>)"
    using uart_try_write_frame [of ?p "[0, 0]" "clock 2" "h3\<lparr>rx_buf := []\<rparr>"] t by auto
  have tb: "take (unat (tx_buf h3 ! 1) + 2) (tx_buf h3) = [0, 0]"
    using assms(3) p1(1) h3 by (simp add: numeral_2_eq_2)
  have "uart_try_read Read_data clock stale h1 (p1\<lparr>unread := UART_SOM # [EVBME_RXFAIL, 0], write_results := []\<rparr>) =
      Some (Read_none, (h3\<lparr>rx_buf := []\<rparr>)\<lparr>tx_stalled := True, prev_send := prev2\<rparr>,
            ?p\<lparr>written := written ?p @ UART_SOM # [0, 0], write_results := rs2\<rparr>)"
    using w2 tb by (simp add: uart_try_read_def rc uart_process_frame_def Let_def send_ack_all)
  with r have "r = Read_none" "p2 = ?p\<lparr>written := written ?p @ UART_SOM # [0, 0], write_results := rs2\<rparr>"
    "h2 = (h3\<lparr>rx_buf := []\<rparr>)\<lparr>tx_stalled := True, prev_send := prev2\<rparr>" by simp_all
  then show ?thesis by (simp_all add: p1(2) ack_frame_def)
qed

theorem uart_refused_frame_is_lost_witness:
  "case uart_try_write None [0x4A, 1, 5] (host link_start) (fd link_start) of
     None \<Rightarrow> False
   | Some (e, h1, p1) \<Rightarrow>
       (case uart_try_read Read_data (\<lambda>_. None) 0 h1 (p1\<lparr>unread := [UART_SOM, EVBME_RXFAIL, 0], write_results := []\<rparr>) of
          None \<Rightarrow> False
        | Some (r, h2, p2) \<Rightarrow> written p2 = [UART_SOM, 0x4A, 1, 5, UART_SOM, EVBME_RXRDY, 0, UART_SOM, 0, 0])"
proof -
  have "map_option (\<lambda>_. ()) (uart_try_write None [0x4A, 1, 5] (host link_start) (fd link_start)) = Some ()"
    by code_simp
  then obtain e h1 p1 where w: "uart_try_write None [0x4A, 1, 5] (host link_start) (fd link_start) = Some (e, h1, p1)" by auto
  have "map_option (\<lambda>_. ()) (case uart_try_write None [0x4A, 1, 5] (host link_start) (fd link_start) of
      None \<Rightarrow> None | Some (e, h1, p1) \<Rightarrow>
        uart_try_read Read_data (\<lambda>_. None) 0 h1 (p1\<lparr>unread := [UART_SOM, EVBME_RXFAIL, 0], write_results := []\<rparr>)) = Some ()"
    by code_simp
  then obtain r h2 p2 where r: "uart_try_read Read_data (\<lambda>_. None) 0 h1
      (p1\<lparr>unread := [UART_SOM, EVBME_RXFAIL, 0], write_results := []\<rparr>) = Some (r, h2, p2)"
    by (auto simp: w)
  have t: "tlv [0x4A, 1, 5]" "None \<notin> set (write_results (fd link_start))" "tx_buf (host link_start) = replicate 256 0"
    "rx_buf (host link_start) = []" by (simp_all add: tlv_def link_start_def)
  have "written (fd link_start) = []" by (simp add: link_start_def)
  with uart_refused_frame_is_lost [OF t w r] show ?thesis by (simp add: w r)
qed

lemma receive_long:
  assumes "length (rx_buf h) \<le> 256" "rx_buf h @ unread p = UART_SOM # x" "uart_receive st clock h p = (h', p')"
  shows "length (rx_buf h') \<le> 256 \<and> rx_buf h' @ unread p' = UART_SOM # x"
proof -
  define new where "new = (if st = Read_data then take (256 - length (rx_buf h)) (unread p) else [])"
  define rest where "rest = (if st = Read_data then drop (256 - length (rx_buf h)) (unread p) else unread p)"
  have u: "unread p = new @ rest" by (simp add: new_def rest_def)
  have "(rx_buf h @ new) @ rest = UART_SOM # x" using assms(2) u by simp
  then have "rx_buf h @ new = [] \<or> hd (rx_buf h @ new) = UART_SOM" by (auto simp: append_eq_Cons_conv)
  then have c: "catch_som_errors (rx_buf h @ new) = rx_buf h @ new" by (rule catch_som_id)
  have "rx_buf h' = rx_buf h @ new \<and> unread p' = rest"
    using assms(3) c unfolding uart_receive_def Let_def new_def [symmetric] rest_def [symmetric]
    by (auto split: if_splits)
  then show ?thesis using assms(1,2) u by (auto simp: new_def)
qed

lemma overrun_chili:
  assumes "\<not> handshake c 255" "length d = 255"
  shows "Serial_ReadInterface Chili now (serial_start\<lparr>rx_fifo := UART_SOM # c # 255 # d\<rparr>) = None"
  using assms
  by (auto simp: Serial_ReadInterface_def serial_start_def SerialFindStart_def read_1 read_cmdid_def read_cmdlen_def
      SerialReceivedRxRdy_def SerialReceivedRxFail_def read_data_def BSP_SerialRead_def store_data_def Let_def)

lemma overrun_chili2:
  assumes "\<not> handshake c 255" "length d = 255"
  shows "case uart_irq Chili2 now (serial_start\<lparr>rx_fifo := UART_SOM # c # 255 # d\<rparr>) of
        None \<Rightarrow> False | Some s \<Rightarrow> uart_irq Chili2 now s = None"
  using assms
  by (auto simp: uart_irq_def uart_dma_def Serial_ReadInterface_def serial_start_def SerialFindStart_def read_1 read_cmdid_def read_cmdlen_def
      SerialReceivedRxRdy_def SerialReceivedRxFail_def read_data_def BSP_SerialRead_def store_data_def Let_def)

text \<open>
  C32: The two buffers of the link are too small for the longest frames. A frame with 254 octets of
  data, which the device can send, is never given to the host's exchange; and a frame with length octet
  255 makes the device write one octet behind its receive buffer, with either board.
\<close>

theorem serial_length_limits:
  assumes "length (rx_buf h) \<le> 256" "rx_buf h @ unread p = UART_SOM # c # l # x" "254 \<le> unat l" "length d = 255"
  shows "(case uart_try_read st clock stale h p of None \<Rightarrow> True | Some (r, h', p') \<Rightarrow> \<forall>m. r \<noteq> Read_msg m) \<and>
    Serial_ReadInterface Chili now (serial_start\<lparr>rx_fifo := UART_SOM # c # 255 # d\<rparr>) = None \<and>
    (case uart_irq Chili2 now (serial_start\<lparr>rx_fifo := UART_SOM # c # 255 # d\<rparr>) of
       None \<Rightarrow> False | Some s \<Rightarrow> uart_irq Chili2 now s = None)"
proof -
  obtain h1 p1 where rc: "uart_receive st clock h p = (h1, p1)" by fastforce
  from receive_long [OF assms(1,2) rc] have b: "length (rx_buf h1) \<le> 256" "rx_buf h1 @ unread p1 = UART_SOM # c # l # x" by blast+
  have "\<not> unat (rx_buf h1 ! 2) + 3 \<le> length (rx_buf h1)" if "3 \<le> length (rx_buf h1)"
  proof -
    have "rx_buf h1 ! 2 = l" using arg_cong [OF b(2), of "\<lambda>z. z ! 2"] that by (simp add: nth_append)
    then show ?thesis using b(1) assms(3) by simp
  qed
  then have "case uart_try_read st clock stale h p of None \<Rightarrow> True | Some (r, h', p') \<Rightarrow> \<forall>m. r \<noteq> Read_msg m"
    using rc by (auto simp: uart_try_read_def)
  moreover have "\<not> handshake c 255" by (simp add: handshake_def)
  ultimately show ?thesis using overrun_chili overrun_chili2 assms(4) by blast
qed

theorem serial_length_limits_witness:
  "case uart_try_read Read_data (\<lambda>_. None) 0 (host link_start)
      ((fd link_start)\<lparr>unread := UART_SOM # 0xA0 # 254 # replicate 254 0x41\<rparr>) of
     None \<Rightarrow> True | Some (r, h', p') \<Rightarrow> \<forall>m. r \<noteq> Read_msg m"
  using serial_length_limits [of "host link_start" "(fd link_start)\<lparr>unread := UART_SOM # 0xA0 # 254 # replicate 254 0x41\<rparr>"
      "0xA0" 254 "replicate 254 0x41" "replicate 255 0" Read_data "\<lambda>_. None" 0]
  by (simp add: link_start_def)

text \<open>
  The host times a frame from the first octet that it put in its empty buffer. When the octets of
  a next frame have arrived behind a complete one, the next frame is timed from the start of the first:
  if the first started more than 0.2 s ago the next one is refused and thrown away, however recently
  it began.
\<close>

theorem uart_next_frame_timed_from_first:
  assumes m: "device_message m" and part: "rx_buf h = UART_SOM # m @ [UART_SOM]" and io: "write_results p = []" "unread p = []"
    and late: "time_cmp (time_sub now (rx_start h)) rx_timeout > 0"
  shows "case uart_try_read Read_again clock stale h p of
     None \<Rightarrow> False
   | Some (r, h', p') \<Rightarrow> r = Read_msg m \<and> rx_buf h' = [UART_SOM] \<and>
       (\<forall>clock'. clock' 1 = Some now \<longrightarrow>
          (case uart_try_read Read_again clock' stale h' p' of
             None \<Rightarrow> False
           | Some (r, h2, p2) \<Rightarrow> r = Read_none \<and> rx_buf h2 = [] \<and>
               written p2 = written p' @ [UART_SOM, EVBME_RXFAIL, 0]))"
proof -
  have t: "length m = unat (m ! 1) + 2" "2 \<le> length m" using m by (simp_all add: device_message_def tlv_def)
  then have l: "rx_buf h ! 2 = m ! 1" by (simp add: part nth_append)
  have f: "take (unat (rx_buf h ! 2) + 2) (drop 1 (rx_buf h)) = m" "drop (unat (rx_buf h ! 2) + 3) (rx_buf h) = [UART_SOM]"
  proof -
    have e: "unat (m ! 1) + 2 = length m" "unat (m ! 1) + 3 = length (UART_SOM # m)" using t by simp_all
    show "take (unat (rx_buf h ! 2) + 2) (drop 1 (rx_buf h)) = m" unfolding l e by (simp add: part)
    show "drop (unat (rx_buf h ! 2) + 3) (rx_buf h) = [UART_SOM]" unfolding l e by (simp add: part)
  qed
  have c: "uart_receive Read_again clock h p = (h, p)"
    by (simp add: uart_receive_def Let_def part)
  let ?p = "p\<lparr>written := written p @ UART_SOM # [EVBME_RXRDY, 0]\<rparr>"
  have 1: "uart_try_read Read_again clock stale h p = Some (Read_msg m, h\<lparr>rx_buf := [UART_SOM]\<rparr>, ?p)"
    using t l part device_message_not_ack [OF m]
      uart_process_frame_message [of m p h clock stale, OF _ io(1) f(1)] m f(2)
    by (simp add: uart_try_read_def c Let_def)
  have 2: "uart_try_read Read_again clock' stale (h\<lparr>rx_buf := [UART_SOM]\<rparr>) ?p =
      Some (Read_none, h\<lparr>rx_buf := []\<rparr>, ?p\<lparr>written := written ?p @ [UART_SOM, EVBME_RXFAIL, 0]\<rparr>)"
    if "clock' 1 = Some now" for clock'
    using that late io by (simp add: uart_try_read_def uart_receive_def get_rx_time_passed_def send_ack_all ack_frame_def)
  show ?thesis using 2 by (simp add: 1)
qed

theorem uart_next_frame_timed_from_first_witness:
  "case uart_try_read Read_again (\<lambda>_. None) 0
      ((host link_start)\<lparr>rx_buf := UART_SOM # [0x20, 1, 7] @ [UART_SOM]\<rparr>) (fd link_start) of
     None \<Rightarrow> False | Some (r, h', p') \<Rightarrow> r = Read_msg [0x20, 1, 7]"
  using uart_next_frame_timed_from_first [where m = "[0x20, 1, 7]" and
      h = "(host link_start)\<lparr>rx_buf := UART_SOM # [0x20, 1, 7] @ [UART_SOM]\<rparr>" and
      p = "fd link_start" and now = "\<lparr>tv_sec = 1, tv_nsec = 0\<rparr>" and clock = "\<lambda>_. None" and stale = 0]
  by (auto simp: device_message_def tlv_def link_start_def time_sub_def time_cmp_def rx_timeout_def split: option.splits)

end
