(* ===== verification/UartPath.thy ===== *)
theory UartPath
  imports Uart
begin

text \<open>
  Finding and opening serial devices on the host (\<^verbatim>\<open>uart-exchange.c\<close>): the list of devices and
  rates in a path or in the environment, the rates, and the set-up and removal of an exchange.
\<close>

subsection \<open>Strings of the C library\<close>

text \<open>\<^verbatim>\<open>strtok_r\<close> with one delimiter: the token and what is behind it.\<close>

definition strtok :: "char \<Rightarrow> string \<Rightarrow> (string \<times> string) option" where
  "strtok d s =
     (case dropWhile (\<lambda>c. c = d) s of
        [] \<Rightarrow> None
      | c # cs \<Rightarrow> Some (takeWhile (\<lambda>c. c \<noteq> d) (c # cs), drop 1 (dropWhile (\<lambda>c. c \<noteq> d) (c # cs))))"

lemma strtok_shorter:
  assumes "strtok d s = Some (t, r)"
  shows "length r < length s"
proof -
  obtain c cs where c: "dropWhile (\<lambda>c. c = d) s = c # cs"
    using assms by (cases "dropWhile (\<lambda>c. c = d) s") (auto simp: strtok_def)
  then have "length (c # cs) \<le> length s" using length_dropWhile_le by metis
  moreover have "length (dropWhile (\<lambda>c. c \<noteq> d) (c # cs)) \<le> length (c # cs)" by (rule length_dropWhile_le)
  moreover have "r = drop 1 (dropWhile (\<lambda>c. c \<noteq> d) (c # cs))" using assms by (simp add: strtok_def c)
  ultimately show ?thesis by (cases "dropWhile (\<lambda>c. c \<noteq> d) (c # cs)") auto
qed

definition digit_value :: "char \<Rightarrow> int" where
  "digit_value c = of_char c - 48"

definition is_digit :: "char \<Rightarrow> bool" where
  "is_digit c \<longleftrightarrow> 0 \<le> digit_value c \<and> digit_value c \<le> 9"

definition is_space :: "char \<Rightarrow> bool" where
  "is_space c \<longleftrightarrow> c = CHR '' '' \<or> 9 \<le> (of_char c :: int) \<and> (of_char c :: int) \<le> 13"

text \<open>Numbers outside the range of an \<^verbatim>\<open>int\<close>, whose result C leaves open, keep their value.\<close>

definition atoi :: "string \<Rightarrow> int" where
  "atoi s =
     (let s = dropWhile is_space s;
          neg = (s \<noteq> [] \<and> hd s = CHR ''-'');
          s = (if s \<noteq> [] \<and> (hd s = CHR ''-'' \<or> hd s = CHR ''+'') then tl s else s);
          n = foldl (\<lambda>n c. 10 * n + digit_value c) 0 (takeWhile is_digit s)
      in if neg then - n else n)"

text \<open>The conversion \<^verbatim>\<open>%d\<close>.\<close>

fun print_nat :: "nat \<Rightarrow> string" where
  "print_nat n = (if n < 10 then [''0123456789'' ! n] else print_nat (n div 10) @ [''0123456789'' ! (n mod 10)])"

declare print_nat.simps [simp del]

definition print_int :: "int \<Rightarrow> string" where
  "print_int i = (if i < 0 then CHR ''-'' # print_nat (nat (- i)) else print_nat (nat i))"

subsection \<open>Devices\<close>

record uart_device =
  device :: string
  baud :: int

function parse_uartdevs :: "string \<Rightarrow> uart_device list" where
  "parse_uartdevs pathstr =
     (case strtok (CHR '':'') pathstr of
        None \<Rightarrow> []
      | Some (majorStr, rest) \<Rightarrow>
          (case strtok (CHR '','') majorStr of
             None \<Rightarrow> parse_uartdevs rest
           | Some (dev, others) \<Rightarrow>
               (case strtok (CHR '','') others of
                  None \<Rightarrow> parse_uartdevs rest
                | Some (baudstr, _) \<Rightarrow> \<lparr>device = dev, baud = atoi baudstr\<rparr> # parse_uartdevs rest)))"
  by pat_completeness auto
termination
proof (relation "measure length", goal_cases)
  case 1
  then show ?case by simp
qed (auto dest: strtok_shorter)

declare parse_uartdevs.simps [simp del]

definition fill_uartdev_ll :: "uart_device list \<Rightarrow> string \<Rightarrow> ca_error \<times> uart_device list" where
  "fill_uartdev_ll head pathstr =
     (case parse_uartdevs pathstr of
        [] \<Rightarrow> (CA_ERROR_NOT_FOUND, head)
      | d # ds \<Rightarrow> (CA_ERROR_SUCCESS, d # ds))"

text \<open>The rates that have a code, where the system defines the fast ones.\<close>

definition get_baud_code :: "int \<Rightarrow> int option" where
  "get_baud_code baudrate =
     (if baudrate \<in> set [9600, 19200, 38400, 57600, 115200, 230400, 460800, 500000, 576000, 921600, 1000000,
                        1152000, 1500000, 2000000, 2500000, 3000000, 3500000, 4000000]
      then Some baudrate else None)"

text \<open>\<open>getattr\<close> and \<open>setattr\<close>: the terminal's attributes can be read and written; a speed without a
  code is refused.\<close>

definition setup_port :: "bool \<Rightarrow> bool \<Rightarrow> int \<Rightarrow> ca_error" where
  "setup_port getattr setattr baudrate =
     (if \<not> getattr then CA_ERROR_INVALID
      else if get_baud_code baudrate = None then CA_ERROR_INVALID_ARGS
      else if \<not> setattr then CA_ERROR_INVALID
      else CA_ERROR_SUCCESS)"

record uart_statics =
  s_devcount :: int
  s_initialised :: bool
  s_uart_device_head :: "uart_device list"

definition uart_statics_start :: uart_statics where
  "uart_statics_start = \<lparr>s_devcount = 0, s_initialised = False, s_uart_device_head = []\<rparr>"

text \<open>\<open>env\<close> is the variable \<^verbatim>\<open>CASCODA_UART\<close>.\<close>

definition init_statics :: "string option \<Rightarrow> uart_statics \<Rightarrow> ca_error \<times> uart_statics" where
  "init_statics env g =
     (if s_initialised g then (CA_ERROR_SUCCESS, g)
      else
        let g = g\<lparr>s_initialised := True\<rparr> in
        (case env of
           None \<Rightarrow> (CA_ERROR_NOT_FOUND, g)
         | Some v \<Rightarrow>
             (case fill_uartdev_ll (s_uart_device_head g) v of
                (error, devs) \<Rightarrow> (error, g\<lparr>s_uart_device_head := devs\<rparr>))))"

definition deinit_statics :: "uart_statics \<Rightarrow> uart_statics" where
  "deinit_statics g = g\<lparr>s_initialised := False, s_uart_device_head := []\<rparr>"

text \<open>
  \<open>present\<close>: the device has an exchange; \<open>opens\<close>: a device of the list can be opened and locked, and
  what its terminal attributes allow; \<open>started\<close>: the generic part of the exchange could be started. The
  result has the device that was opened.
\<close>

definition uart_exchange_init ::
  "string option \<Rightarrow> string option \<Rightarrow> bool \<Rightarrow> (string \<Rightarrow> bool \<times> bool \<times> bool) \<Rightarrow> bool \<Rightarrow> uart_statics \<Rightarrow>
     ca_error \<times> uart_device option \<times> uart_statics" where
  "uart_exchange_init env path present opens started g =
     (case init_statics env g of
        (error, g) \<Rightarrow>
          if error \<noteq> CA_ERROR_SUCCESS then (error, None, g)
          else if present then (CA_ERROR_ALREADY, None, g)
          else
            let (error, devs) = (case path of None \<Rightarrow> (CA_ERROR_SUCCESS, s_uart_device_head g) | Some p \<Rightarrow> fill_uartdev_ll [] p);
                usable = (\<lambda>d. case opens (device d) of (opened, getattr, setattr) \<Rightarrow>
                            opened \<and> setup_port getattr setattr (baud d) = CA_ERROR_SUCCESS);
                found = (if error \<noteq> CA_ERROR_SUCCESS then None else List.find usable devs);
                error = (if error \<noteq> CA_ERROR_SUCCESS then error
                         else if found = None \<or> \<not> started then CA_ERROR_NOT_FOUND else CA_ERROR_SUCCESS);
                g = (if error = CA_ERROR_SUCCESS then g\<lparr>s_devcount := s_devcount g + 1\<rparr> else g)
            in (error, if error = CA_ERROR_SUCCESS then found else None,
                if s_devcount g = 0 then deinit_statics g else g))"

definition uart_exchange_deinit :: "uart_statics \<Rightarrow> uart_statics" where
  "uart_exchange_deinit g =
     (let g = g\<lparr>s_devcount := s_devcount g - 1\<rparr> in if s_devcount g = 0 then deinit_statics g else g)"

definition device_path :: "uart_device \<Rightarrow> string" where
  "device_path d = device d @ '','' @ print_int (baud d)"

text \<open>The paths that the callback is given.\<close>

definition uart_exchange_enumerate :: "string option \<Rightarrow> uart_statics \<Rightarrow> ca_error \<times> string list \<times> uart_statics" where
  "uart_exchange_enumerate env g =
     (case init_statics env g of
        (status, g) \<Rightarrow>
          if status \<noteq> CA_ERROR_SUCCESS then (status, [], g)
          else (status, map device_path (s_uart_device_head g), if s_devcount g = 0 then deinit_statics g else g))"

subsection \<open>Paths that are printed are read\<close>

lemma digit_char:
  assumes "d < 10"
  shows "digit_value (''0123456789'' ! d) = int d" "is_digit (''0123456789'' ! d)"
proof -
  have "list_all (\<lambda>d. digit_value (''0123456789'' ! d) = int d \<and> is_digit (''0123456789'' ! d)) [0..<10]"
    by code_simp
  then show "digit_value (''0123456789'' ! d) = int d" "is_digit (''0123456789'' ! d)"
    using assms by (simp_all add: list_all_iff)
qed

lemma print_nat_digits: "\<forall>c \<in> set (print_nat n). is_digit c"
proof (induction n rule: print_nat.induct)
  case (1 n)
  then show ?case by (subst print_nat.simps) (auto intro: digit_char(2))
qed

lemma print_nat_value: "foldl (\<lambda>n c. 10 * n + digit_value c) 0 (print_nat n) = int n"
proof (induction n rule: print_nat.induct)
  case (1 n)
  show ?case
  proof (cases "n < 10")
    case True
    then show ?thesis by (subst print_nat.simps) (simp add: digit_char(1))
  next
    case False
    then have "foldl (\<lambda>n c. 10 * n + digit_value c) 0 (print_nat n) = 10 * int (n div 10) + int (n mod 10)"
      using 1 by (subst print_nat.simps) (simp add: digit_char(1) del: of_nat_div of_nat_mod)
    then show ?thesis by (metis mult_div_mod_eq of_nat_add of_nat_mult of_nat_numeral)
  qed
qed

lemma print_nat_hd: "print_nat n \<noteq> []" 
  by (subst print_nat.simps) simp

lemma digit_not: "is_digit c \<Longrightarrow> \<not> is_space c" "is_digit c \<Longrightarrow> c \<noteq> CHR ''-''" "is_digit c \<Longrightarrow> c \<noteq> CHR ''+''"
   "is_digit c \<Longrightarrow> c \<noteq> CHR '',''" "is_digit c \<Longrightarrow> c \<noteq> CHR '':''"
  by (auto simp: is_digit_def is_space_def digit_value_def)

lemma atoi_print_int: "atoi (print_int i) = i"
proof -
  have digits: "takeWhile is_digit (print_nat n) = print_nat n" for n
    using print_nat_digits by (simp add: takeWhile_eq_all_conv)
  have head: "dropWhile is_space (print_nat n) = print_nat n \<and> hd (print_nat n) \<noteq> CHR ''-'' \<and> hd (print_nat n) \<noteq> CHR ''+''" for n
    using print_nat_digits [of n] print_nat_hd [of n] digit_not by (cases "print_nat n") auto
  have "\<not> is_space (CHR ''-'')" by (simp add: is_space_def)
  then show ?thesis
    using head [of "nat i"] head [of "nat (- i)"] by (simp add: atoi_def print_int_def digits print_nat_value Let_def)
qed

lemma print_int_chars: "c \<in> set (print_int i) \<Longrightarrow> c \<noteq> CHR '','' \<and> c \<noteq> CHR '':''" "print_int i \<noteq> []"
  using print_nat_digits digit_not(4,5) print_nat_hd by (auto simp: print_int_def split: if_splits)

lemma strtok_token:
  assumes "t \<noteq> []" "d \<notin> set t"
  shows "strtok d (t @ d # r) = Some (t, r)" "strtok d t = Some (t, [])"
proof -
  obtain c cs where t: "t = c # cs" "c \<noteq> d" using assms by (cases t) auto
  have *: "takeWhile (\<lambda>c. c \<noteq> d) (t @ x) = t @ takeWhile (\<lambda>c. c \<noteq> d) x" "dropWhile (\<lambda>c. c \<noteq> d) (t @ x) = dropWhile (\<lambda>c. c \<noteq> d) x" for x
    using assms(2) by (subst takeWhile_append2, auto) (subst dropWhile_append2, auto)
  have w: "dropWhile (\<lambda>c. c \<noteq> d) cs = []" "takeWhile (\<lambda>c. c \<noteq> d) cs = cs"
    using t assms(2) by (auto simp: takeWhile_eq_all_conv)
  show "strtok d (t @ d # r) = Some (t, r)" "strtok d t = Some (t, [])"
    using * [of "d # r"] t by (simp_all add: strtok_def w del: dropWhile_eq_Nil_conv)
qed

definition name_ok :: "string \<Rightarrow> bool" where
  "name_ok s \<longleftrightarrow> s \<noteq> [] \<and> CHR '','' \<notin> set s \<and> CHR '':'' \<notin> set s"

fun join_paths :: "uart_device list \<Rightarrow> string" where
  "join_paths [] = []"
| "join_paths [d] = device_path d"
| "join_paths (d # ds) = device_path d @ '':'' @ join_paths ds"

lemma device_path_parts:
  assumes "name_ok (device d)"
  shows "device_path d \<noteq> []" "CHR '':'' \<notin> set (device_path d)"
    "strtok (CHR '','') (device_path d) = Some (device d, print_int (baud d))"
    "strtok (CHR '','') (print_int (baud d)) = Some (print_int (baud d), [])"
  using assms strtok_token(1) [of "device d" "CHR '',''" "print_int (baud d)"]
    strtok_token(2) [of "print_int (baud d)" "CHR '',''"] print_int_chars [where i = "baud d"]
  by (auto simp: device_path_def name_ok_def)

lemma parse_join:
  assumes "\<forall>d \<in> set ds. name_ok (device d)"
  shows "parse_uartdevs (join_paths ds) = (ds :: uart_device list)"
  using assms
proof (induction ds rule: join_paths.induct)
  case 1
  then show ?case by (simp add: parse_uartdevs.simps strtok_def)
next
  case (2 d)
  then have d: "name_ok (device d)" by simp
  note p = device_path_parts [OF d]
  have e: "parse_uartdevs [] = []" by (simp add: parse_uartdevs.simps strtok_def)
  show ?case
    using strtok_token(2) [OF p(1,2)]
    by (subst parse_uartdevs.simps) (simp add: p(3,4) atoi_print_int e)
next
  case (3 d d' ds)
  then have d: "name_ok (device d)" by simp
  note p = device_path_parts [OF d]
  show ?case
    using strtok_token(1) [OF p(1,2), of "join_paths (d' # ds)"] 3
    by (subst parse_uartdevs.simps) (simp add: p(3,4) atoi_print_int)
qed

text \<open>
  C35: The paths that the enumeration prints, one or several separated by colons, are read back as the
  devices and rates they came from, and opening one of them opens that device.
\<close>

theorem uart_paths_round_trip:
  assumes "ds \<noteq> []" "\<forall>d \<in> set ds. name_ok (device d)"
  shows "fill_uartdev_ll head (join_paths ds) = (CA_ERROR_SUCCESS, ds) \<and>
    (\<forall>d \<in> set ds. fst (init_statics env g) = CA_ERROR_SUCCESS \<longrightarrow> opens (device d) = (True, True, True) \<longrightarrow>
      get_baud_code (baud d) \<noteq> None \<longrightarrow>
      (case uart_exchange_init env (Some (device_path d)) False opens True g of
         (error, found, g') \<Rightarrow> error = CA_ERROR_SUCCESS \<and> found = Some d))"
proof -
  have 1: "fill_uartdev_ll head (join_paths ds) = (CA_ERROR_SUCCESS, ds)"
    using assms by (cases ds) (simp_all add: fill_uartdev_ll_def parse_join)
  have 2: "case uart_exchange_init env (Some (device_path d)) False opens True g of
      (error, found, g') \<Rightarrow> error = CA_ERROR_SUCCESS \<and> found = Some d"
    if d: "d \<in> set ds" "fst (init_statics env g) = CA_ERROR_SUCCESS" "opens (device d) = (True, True, True)"
      "get_baud_code (baud d) \<noteq> None" for d
  proof -
    have "parse_uartdevs (device_path d) = [d]" using parse_join [of "[d]"] assms d(1) by simp
    then have f: "fill_uartdev_ll [] (device_path d) = (CA_ERROR_SUCCESS, [d])" by (simp add: fill_uartdev_ll_def)
    obtain g1 where i: "init_statics env g = (CA_ERROR_SUCCESS, g1)" using d(2) by (cases "init_statics env g") simp
    show ?thesis using d(3,4) by (simp add: uart_exchange_init_def i f setup_port_def Let_def)
  qed
  show ?thesis by (intro conjI ballI impI) (rule 1, rule 2)
qed

theorem uart_paths_round_trip_witness:
  "fill_uartdev_ll [] ''/dev/ttyS0,115200:/dev/ttyS1,9600'' =
     (CA_ERROR_SUCCESS, [\<lparr>device = ''/dev/ttyS0'', baud = 115200\<rparr>, \<lparr>device = ''/dev/ttyS1'', baud = 9600\<rparr>])"
proof -
  let ?ds = "[\<lparr>device = ''/dev/ttyS0'', baud = 115200\<rparr>, \<lparr>device = ''/dev/ttyS1'', baud = 9600\<rparr>]"
  have j: "join_paths ?ds = ''/dev/ttyS0,115200:/dev/ttyS1,9600''"
    by (simp add: device_path_def print_int_def print_nat.simps)
  have "\<forall>d \<in> set ?ds. name_ok (device d)" by (simp add: name_ok_def)
  from uart_paths_round_trip [OF _ this, of "[]"] show ?thesis unfolding j by simp
qed

text \<open>A path does not open when the variable is not set, except at the second attempt.\<close>

lemma path_needs_variable:
  fixes d :: uart_device
  assumes "parse_uartdevs path = [d]" "opens (device d) = (True, True, True)" "get_baud_code (baud d) \<noteq> None"
  shows "case uart_exchange_init None (Some path) False opens True uart_statics_start of (error, found, g) \<Rightarrow>
     error = CA_ERROR_NOT_FOUND \<and> fst (uart_exchange_init None (Some path) False opens True g) = CA_ERROR_SUCCESS"
proof -
  have i: "init_statics None uart_statics_start = (CA_ERROR_NOT_FOUND, uart_statics_start\<lparr>s_initialised := True\<rparr>)"
    "init_statics None (uart_statics_start\<lparr>s_initialised := True\<rparr>) = (CA_ERROR_SUCCESS, uart_statics_start\<lparr>s_initialised := True\<rparr>)"
    by (simp_all add: init_statics_def uart_statics_start_def)
  have f: "fill_uartdev_ll [] path = (CA_ERROR_SUCCESS, [d])" by (simp add: fill_uartdev_ll_def assms(1))
  show ?thesis using assms(2,3) by (simp add: uart_exchange_init_def i f setup_port_def Let_def)
qed

end
