(* ===== verification/ExtFlash.thy ===== *)
theory ExtFlash
  imports CaError Hash
begin

text \<open>
  The external flash chip of the Chili 2 board: its driver
  (\<^verbatim>\<open>cascoda_bsp_w25q80dlsnig.c\<close>) and the procedures that erase, write and check it in the
  background (\<^verbatim>\<open>cascoda_external_flash.c\<close>), each step of which is a callback that the driver
  runs when the chip is free. The chip is a parameter: what an instruction answers and does.
\<close>

unbundle bit_operations_syntax

abbreviation WRITE_ENABLE :: u8 where "WRITE_ENABLE \<equiv> 0x06"
abbreviation WRITE_DISABLE :: u8 where "WRITE_DISABLE \<equiv> 0x04"
abbreviation READ_STATUS_REGISTER_1 :: u8 where "READ_STATUS_REGISTER_1 \<equiv> 0x05"
abbreviation PAGE_PROGRAM :: u8 where "PAGE_PROGRAM \<equiv> 0x02"
abbreviation SECTOR_ERASE_4KB :: u8 where "SECTOR_ERASE_4KB \<equiv> 0x20"
abbreviation BLOCK_ERASE_32KB :: u8 where "BLOCK_ERASE_32KB \<equiv> 0x52"
abbreviation BLOCK_ERASE_64KB :: u8 where "BLOCK_ERASE_64KB \<equiv> 0xD8"
abbreviation CHIP_ERASE :: u8 where "CHIP_ERASE \<equiv> 0xC7"
abbreviation POWER_DOWN :: u8 where "POWER_DOWN \<equiv> 0xB9"
abbreviation READ_DATA :: u8 where "READ_DATA \<equiv> 0x03"
abbreviation RELEASE_POWERDOWN_ID :: u8 where "RELEASE_POWERDOWN_ID \<equiv> 0xAB"
abbreviation DUMMY_BYTE :: u8 where "DUMMY_BYTE \<equiv> 0xFF"
abbreviation DONT_CARE_BYTE :: u8 where "DONT_CARE_BYTE \<equiv> 0x00"

abbreviation NUM_OF_BYTES_IN_A_PAGE :: nat where "NUM_OF_BYTES_IN_A_PAGE \<equiv> 256"
abbreviation PAGE_PROGRAM_MAX_BYTES_ACTUAL :: nat where "PAGE_PROGRAM_MAX_BYTES_ACTUAL \<equiv> 128"
abbreviation READ_DATA_MAX_BYTES_ACTUAL :: nat where "READ_DATA_MAX_BYTES_ACTUAL \<equiv> 128"

subsection \<open>State\<close>

text \<open>What can be scheduled: the steps of the three procedures; an application's callback has a number.\<close>

datatype ext_callback = Erase_helper | Write_helper | Check_helper | User_callback nat

record ExtFlashEraseInfo =
  e_startAddress :: u32
  e_eraseLength :: u32
  e_endAddress :: u32
  e_otaCallback :: bool
  e_upstreamCallback :: bool

record ExtFlashWriteInfo =
  w_startAddress :: u32
  w_writeLength :: u32
  w_writeLimit :: u32
  w_pageSize :: u16
  w_otaCallback :: bool
  w_upstreamCallback :: bool
  w_data :: bytes

record ExtFlashCheckInfo =
  c_startAddress :: u32
  c_checklen :: u32
  c_checksum :: u32
  c_readLimit :: u32
  c_upstreamCallback :: bool

text \<open>
  The variables of both files; \<open>bus_busy\<close> says of the next attempts to take the SPI bus from the radio
  that they fail, after which they succeed; the two tasklets hold the delay they were scheduled with;
  \<open>upstream\<close> and \<open>ota\<close> are the results that were reported. An exchange on the bus comes to its end.
\<close>

record 'c extflash =
  chip :: 'c
  bus_busy :: "bool list"
  rxbuf :: bytes
  cycleInProgress :: bool
  postInstructionWaitTasklet :: "nat option"
  callbackSchedulingTasklet :: "nat option"
  nextCallbackToRun :: "ext_callback option"
  isCalledWithinCallback :: bool
  eraseInfo :: ExtFlashEraseInfo
  writeInfo :: ExtFlashWriteInfo
  checkInfo :: ExtFlashCheckInfo
  crc :: u32
  upstream :: "ca_error list"
  ota :: nat
  user_called :: "nat list"

text \<open>An instruction with the octets sent: those received, and the chip after it.\<close>

type_synonym 'c chip_exec = "bytes \<Rightarrow> 'c \<Rightarrow> bytes \<times> 'c"

subsection \<open>Instructions\<close>

definition W25Q80DLSNIG_SendSPIInstruction ::
  "'c chip_exec \<Rightarrow> bytes \<Rightarrow> nat \<Rightarrow> 'c extflash \<Rightarrow> ca_error \<times> 'c extflash" where
  "W25Q80DLSNIG_SendSPIInstruction exec TxBuf RxLen s =
     (case bus_busy s of
        True # bs \<Rightarrow> (CA_ERROR_BUSY, s\<lparr>bus_busy := bs\<rparr>)
      | bs \<Rightarrow>
          (case exec TxBuf (chip s) of
             (rx, c) \<Rightarrow>
               (CA_ERROR_SUCCESS,
                s\<lparr>bus_busy := drop 1 bs, chip := c, rxbuf := take RxLen rx @ drop RxLen (rxbuf s)\<rparr>)))"

definition address_octets :: "u32 \<Rightarrow> bytes" where
  "address_octets a = [ucast (drop_bit 16 a), ucast (drop_bit 8 a AND 0xFF), ucast (a AND 0xFF)]"

definition W25Q80DLSNIG_WriteEnable :: "'c chip_exec \<Rightarrow> 'c extflash \<Rightarrow> ca_error \<times> 'c extflash" where
  "W25Q80DLSNIG_WriteEnable exec = W25Q80DLSNIG_SendSPIInstruction exec [WRITE_ENABLE] 0"

definition W25Q80DLSNIG_WriteDisable :: "'c chip_exec \<Rightarrow> 'c extflash \<Rightarrow> ca_error \<times> 'c extflash" where
  "W25Q80DLSNIG_WriteDisable exec = W25Q80DLSNIG_SendSPIInstruction exec [WRITE_DISABLE] 0"

definition W25Q80DLSNIG_ReadStatusRegister1 ::
  "'c chip_exec \<Rightarrow> 'c extflash \<Rightarrow> ca_error \<times> u8 \<times> 'c extflash" where
  "W25Q80DLSNIG_ReadStatusRegister1 exec s =
     (case W25Q80DLSNIG_SendSPIInstruction exec [READ_STATUS_REGISTER_1, DONT_CARE_BYTE] 2 s of
        (status, s) \<Rightarrow> (status, rxbuf s ! 1, s))"

definition W25Q80DLSNIG_ReadData ::
  "'c chip_exec \<Rightarrow> u32 \<Rightarrow> nat \<Rightarrow> 'c extflash \<Rightarrow> ca_error \<times> bytes \<times> 'c extflash" where
  "W25Q80DLSNIG_ReadData exec startAddress numOfBytes s =
     (case W25Q80DLSNIG_SendSPIInstruction exec
             (READ_DATA # address_octets startAddress @ replicate numOfBytes DONT_CARE_BYTE) (numOfBytes + 4) s of
        (status, s) \<Rightarrow> (status, take numOfBytes (drop 4 (rxbuf s)), s))"

text \<open>An instruction that starts a cycle of the chip; a tasklet that is queued stays as it is.\<close>

definition start_cycle :: "'c chip_exec \<Rightarrow> bytes \<Rightarrow> nat \<Rightarrow> 'c extflash \<Rightarrow> ca_error \<times> 'c extflash" where
  "start_cycle exec txbuf time s =
     (case W25Q80DLSNIG_SendSPIInstruction exec txbuf 0 s of
        (status, s) \<Rightarrow>
          (status, s\<lparr>cycleInProgress := True,
                     postInstructionWaitTasklet :=
                       (case postInstructionWaitTasklet s of None \<Rightarrow> Some time | Some t \<Rightarrow> Some t)\<rparr>))"

definition W25Q80DLSNIG_PageProgram ::
  "'c chip_exec \<Rightarrow> u32 \<Rightarrow> bytes \<Rightarrow> 'c extflash \<Rightarrow> ca_error \<times> 'c extflash" where
  "W25Q80DLSNIG_PageProgram exec startAddress programData =
     start_cycle exec (PAGE_PROGRAM # address_octets startAddress @ programData) 4"

definition W25Q80DLSNIG_ChipErase :: "'c chip_exec \<Rightarrow> 'c extflash \<Rightarrow> ca_error \<times> 'c extflash" where
  "W25Q80DLSNIG_ChipErase exec = start_cycle exec [CHIP_ERASE] 6000"

definition W25Q80DLSNIG_SectorErase :: "'c chip_exec \<Rightarrow> u32 \<Rightarrow> 'c extflash \<Rightarrow> ca_error \<times> 'c extflash" where
  "W25Q80DLSNIG_SectorErase exec a = start_cycle exec (SECTOR_ERASE_4KB # address_octets a) 300"

definition W25Q80DLSNIG_BlockErase32KB :: "'c chip_exec \<Rightarrow> u32 \<Rightarrow> 'c extflash \<Rightarrow> ca_error \<times> 'c extflash" where
  "W25Q80DLSNIG_BlockErase32KB exec a = start_cycle exec (BLOCK_ERASE_32KB # address_octets a) 800"

definition W25Q80DLSNIG_BlockErase64KB :: "'c chip_exec \<Rightarrow> u32 \<Rightarrow> 'c extflash \<Rightarrow> ca_error \<times> 'c extflash" where
  "W25Q80DLSNIG_BlockErase64KB exec a = start_cycle exec (BLOCK_ERASE_64KB # address_octets a) 1000"

definition W25Q80DLSNIG_PowerDown :: "'c chip_exec \<Rightarrow> 'c extflash \<Rightarrow> ca_error \<times> 'c extflash" where
  "W25Q80DLSNIG_PowerDown exec = W25Q80DLSNIG_SendSPIInstruction exec [POWER_DOWN] 0"

definition W25Q80DLSNIG_GetDeviceId :: "'c chip_exec \<Rightarrow> 'c extflash \<Rightarrow> ca_error \<times> u8 \<times> 'c extflash" where
  "W25Q80DLSNIG_GetDeviceId exec s =
     (case W25Q80DLSNIG_SendSPIInstruction exec
             [RELEASE_POWERDOWN_ID, DUMMY_BYTE, DUMMY_BYTE, DUMMY_BYTE, DONT_CARE_BYTE] 5 s of
        (status, s) \<Rightarrow> (status, rxbuf s ! 4, s))"

definition W25Q80DLSNIG_ReleasePowerDown :: "'c chip_exec \<Rightarrow> 'c extflash \<Rightarrow> ca_error \<times> 'c extflash" where
  "W25Q80DLSNIG_ReleasePowerDown exec = W25Q80DLSNIG_SendSPIInstruction exec [RELEASE_POWERDOWN_ID] 0"

text \<open>\<^verbatim>\<open>while (f() != CA_ERROR_SUCCESS);\<close>: at most one attempt more than the bus is refused.\<close>

primrec retry :: "nat \<Rightarrow> ('c extflash \<Rightarrow> ca_error \<times> 'c extflash) \<Rightarrow> 'c extflash \<Rightarrow> 'c extflash" where
  "retry 0 f s = snd (f s)"
| "retry (Suc n) f s = (case f s of (status, s') \<Rightarrow> if status \<noteq> CA_ERROR_SUCCESS then retry n f s' else s')"

definition until_success :: "('c extflash \<Rightarrow> ca_error \<times> 'c extflash) \<Rightarrow> 'c extflash \<Rightarrow> 'c extflash" where
  "until_success f s = retry (length (bus_busy s)) f s"

subsection \<open>The driver's interface\<close>

definition BSP_ExternalFlashInit :: "'c chip_exec \<Rightarrow> 'c extflash \<Rightarrow> 'c extflash" where
  "BSP_ExternalFlashInit exec s =
     until_success (W25Q80DLSNIG_PowerDown exec)
       (s\<lparr>postInstructionWaitTasklet := None, callbackSchedulingTasklet := None,
          rxbuf := replicate (length (rxbuf s)) 0xFF\<rparr>)"

definition pageOverflow :: "u32 \<Rightarrow> nat \<Rightarrow> bool" where
  "pageOverflow startAddress numOfBytes \<longleftrightarrow>
     int NUM_OF_BYTES_IN_A_PAGE - int (unat (startAddress mod 256)) - int numOfBytes < 0"

definition BSP_ExternalFlashProgram :: "'c chip_exec \<Rightarrow> u32 \<Rightarrow> bytes \<Rightarrow> 'c extflash \<Rightarrow> ca_error \<times> 'c extflash" where
  "BSP_ExternalFlashProgram exec aStartAddress aTxData s =
     (let aNumOfBytes = length aTxData in
      if \<not> isCalledWithinCallback s then (CA_ERROR_NO_ACCESS, s)
      else if aStartAddress > 0xFFFFF \<or> aNumOfBytes = 0 \<or> aNumOfBytes > PAGE_PROGRAM_MAX_BYTES_ACTUAL \<or>
              pageOverflow aStartAddress aNumOfBytes
      then (CA_ERROR_INVALID_ARGS, s)
      else
        let s = until_success (W25Q80DLSNIG_ReleasePowerDown exec) s;
            s = until_success (W25Q80DLSNIG_WriteEnable exec) s;
            s = until_success (W25Q80DLSNIG_PageProgram exec aStartAddress aTxData) s;
            s = until_success (W25Q80DLSNIG_PowerDown exec) s
        in (CA_ERROR_SUCCESS, s\<lparr>isCalledWithinCallback := False\<rparr>))"

text \<open>The bound is compared as an \<^verbatim>\<open>int\<close>: an address with the top bit set is negative.\<close>

definition BSP_ExternalFlashReadData ::
  "'c chip_exec \<Rightarrow> u32 \<Rightarrow> nat \<Rightarrow> 'c extflash \<Rightarrow> ca_error \<times> bytes \<times> 'c extflash" where
  "BSP_ExternalFlashReadData exec aStartAddress aNumOfBytes s =
     (if \<not> isCalledWithinCallback s then (CA_ERROR_NO_ACCESS, [], s)
      else if sint aStartAddress > 0x100000 - int aNumOfBytes \<or> aNumOfBytes = 0 \<or> aNumOfBytes > READ_DATA_MAX_BYTES_ACTUAL
      then (CA_ERROR_INVALID_ARGS, [], s)
      else
        let s = until_success (W25Q80DLSNIG_ReleasePowerDown exec) s;
            s = until_success (\<lambda>s. case W25Q80DLSNIG_ReadData exec aStartAddress aNumOfBytes s of (e, _, s) \<Rightarrow> (e, s)) s;
            aRxData = take aNumOfBytes (drop 4 (rxbuf s));
            s = until_success (W25Q80DLSNIG_PowerDown exec) s
        in (CA_ERROR_SUCCESS, aRxData, s\<lparr>isCalledWithinCallback := False\<rparr>))"

datatype ExternalFlashPartialEraseType = SECTOR_4KB | BLOCK_32KB | BLOCK_64KB

definition BSP_ExternalFlashPartialErase ::
  "'c chip_exec \<Rightarrow> ExternalFlashPartialEraseType \<Rightarrow> u32 \<Rightarrow> 'c extflash \<Rightarrow> ca_error \<times> 'c extflash" where
  "BSP_ExternalFlashPartialErase exec aEraseType aAddress s =
     (if \<not> isCalledWithinCallback s then (CA_ERROR_NO_ACCESS, s)
      else if aAddress > 0xFFFFF then (CA_ERROR_INVALID_ARGS, s)
      else
        let s = until_success (W25Q80DLSNIG_ReleasePowerDown exec) s;
            s = until_success (W25Q80DLSNIG_WriteEnable exec) s;
            s = until_success (case aEraseType of
                  SECTOR_4KB \<Rightarrow> W25Q80DLSNIG_SectorErase exec aAddress
                | BLOCK_32KB \<Rightarrow> W25Q80DLSNIG_BlockErase32KB exec aAddress
                | BLOCK_64KB \<Rightarrow> W25Q80DLSNIG_BlockErase64KB exec aAddress) s;
            s = until_success (W25Q80DLSNIG_PowerDown exec) s
        in (CA_ERROR_SUCCESS, s\<lparr>isCalledWithinCallback := False\<rparr>))"

definition BSP_ExternalFlashChipErase :: "'c chip_exec \<Rightarrow> 'c extflash \<Rightarrow> ca_error \<times> 'c extflash" where
  "BSP_ExternalFlashChipErase exec s =
     (if \<not> isCalledWithinCallback s then (CA_ERROR_NO_ACCESS, s)
      else
        let s = until_success (W25Q80DLSNIG_ReleasePowerDown exec) s;
            s = until_success (W25Q80DLSNIG_WriteEnable exec) s;
            s = until_success (W25Q80DLSNIG_ChipErase exec) s;
            s = until_success (W25Q80DLSNIG_PowerDown exec) s
        in (CA_ERROR_SUCCESS, s\<lparr>isCalledWithinCallback := False\<rparr>))"

definition BSP_ExternalFlashGetDeviceId :: "'c chip_exec \<Rightarrow> 'c extflash \<Rightarrow> ca_error \<times> u8 option \<times> 'c extflash" where
  "BSP_ExternalFlashGetDeviceId exec s =
     (if \<not> isCalledWithinCallback s then (CA_ERROR_NO_ACCESS, None, s)
      else
        let s = until_success (\<lambda>s. case W25Q80DLSNIG_GetDeviceId exec s of (e, _, s) \<Rightarrow> (e, s)) s;
            aId = rxbuf s ! 4;
            s = until_success (W25Q80DLSNIG_PowerDown exec) s
        in (CA_ERROR_SUCCESS, Some aId, s\<lparr>isCalledWithinCallback := False\<rparr>))"

text \<open>The status is the write-enable bit.\<close>

definition BSP_ExternalFlashGetStatus :: "'c chip_exec \<Rightarrow> 'c extflash \<Rightarrow> ca_error \<times> bool option \<times> 'c extflash" where
  "BSP_ExternalFlashGetStatus exec s =
     (if \<not> isCalledWithinCallback s then (CA_ERROR_NO_ACCESS, None, s)
      else
        let s = until_success (W25Q80DLSNIG_ReleasePowerDown exec) s;
            s = until_success (\<lambda>s. case W25Q80DLSNIG_ReadStatusRegister1 exec s of (e, _, s) \<Rightarrow> (e, s)) s;
            statusRegister = rxbuf s ! 1;
            s = until_success (W25Q80DLSNIG_PowerDown exec) s
        in (CA_ERROR_SUCCESS, Some (statusRegister AND 0x02 \<noteq> 0), s\<lparr>isCalledWithinCallback := False\<rparr>))"

definition BSP_ExternalFlashScheduleCallback :: "ext_callback \<Rightarrow> 'c extflash \<Rightarrow> ca_error \<times> 'c extflash" where
  "BSP_ExternalFlashScheduleCallback aCallback s =
     (if nextCallbackToRun s \<noteq> None then (CA_ERROR_ALREADY, s)
      else
        let s = s\<lparr>nextCallbackToRun := Some aCallback\<rparr> in
        if \<not> cycleInProgress s
        then (if callbackSchedulingTasklet s = None
              then (CA_ERROR_SUCCESS, s\<lparr>callbackSchedulingTasklet := Some 0\<rparr>)
              else (CA_ERROR_ALREADY, s))
        else (CA_ERROR_BUSY, s))"

subsection \<open>Erasing\<close>

datatype ExternalEraseType = ERASE_CHIP | ERASE_64KB | ERASE_32KB | ERASE_4KB

abbreviation MAX_ADDRESS :: u32 where "MAX_ADDRESS \<equiv> 0xFFFFF"
abbreviation PAGE_SIZE :: u32 where "PAGE_SIZE \<equiv> 0x100"
abbreviation HEX_64KB :: u32 where "HEX_64KB \<equiv> 0x10000"
abbreviation HEX_32KB :: u32 where "HEX_32KB \<equiv> 0x8000"
abbreviation HEX_4KB :: u32 where "HEX_4KB \<equiv> 0x1000"
abbreviation mask_64kb :: u32 where "mask_64kb \<equiv> 0x1F0000"
abbreviation mask_32kb :: u32 where "mask_32kb \<equiv> 0x1F8000"
abbreviation mask_4kb :: u32 where "mask_4kb \<equiv> 0x1FF000"

definition should_erase_chip :: "u32 \<Rightarrow> u32 \<Rightarrow> bool" where
  "should_erase_chip aStartAddress aEndAddress \<longleftrightarrow>
     aStartAddress < HEX_4KB \<and> aEndAddress > MAX_ADDRESS - HEX_4KB + 1"

definition should_erase_64kb :: "u32 \<Rightarrow> u32 \<Rightarrow> bool" where
  "should_erase_64kb aStartAddress aEndAddress \<longleftrightarrow>
     aStartAddress mod HEX_64KB < HEX_4KB \<and> aEndAddress > (aStartAddress AND mask_32kb) + HEX_64KB - HEX_4KB"

definition should_erase_32kb :: "u32 \<Rightarrow> u32 \<Rightarrow> bool" where
  "should_erase_32kb aStartAddress aEndAddress \<longleftrightarrow>
     aStartAddress mod HEX_32KB < HEX_4KB \<and> aEndAddress > (aStartAddress AND mask_32kb) + HEX_32KB - HEX_4KB"

definition get_new_start :: "ExternalEraseType \<Rightarrow> u32 \<Rightarrow> u32 \<Rightarrow> u32" where
  "get_new_start aT aStartAddress aEndAddress =
     (case aT of
        ERASE_CHIP \<Rightarrow> aEndAddress
      | ERASE_64KB \<Rightarrow> min aEndAddress ((aStartAddress + HEX_64KB) AND mask_64kb)
      | ERASE_32KB \<Rightarrow> min aEndAddress ((aStartAddress + HEX_32KB) AND mask_32kb)
      | ERASE_4KB \<Rightarrow> min aEndAddress ((aStartAddress + HEX_4KB) AND mask_4kb))"

definition update_erase_info :: "ExternalEraseType \<Rightarrow> ExtFlashEraseInfo \<Rightarrow> ExtFlashEraseInfo" where
  "update_erase_info aT aInfo =
     (let start = get_new_start aT (e_startAddress aInfo) (e_endAddress aInfo)
      in aInfo\<lparr>e_startAddress := start, e_eraseLength := e_endAddress aInfo - start\<rparr>)"

definition erase_helper :: "'c chip_exec \<Rightarrow> ExternalEraseType \<Rightarrow> 'c extflash \<Rightarrow> ca_error \<times> 'c extflash" where
  "erase_helper exec aT s =
     (let start = e_startAddress (eraseInfo s);
          (status, s) = (case aT of
             ERASE_CHIP \<Rightarrow> BSP_ExternalFlashChipErase exec s
           | ERASE_64KB \<Rightarrow> BSP_ExternalFlashPartialErase exec BLOCK_64KB start s
           | ERASE_32KB \<Rightarrow> BSP_ExternalFlashPartialErase exec BLOCK_32KB start s
           | ERASE_4KB \<Rightarrow> BSP_ExternalFlashPartialErase exec SECTOR_4KB start s)
      in
      if status \<noteq> CA_ERROR_SUCCESS then (status, s)
      else BSP_ExternalFlashScheduleCallback Erase_helper (s\<lparr>eraseInfo := update_erase_info aT (eraseInfo s)\<rparr>))"

definition erase_type :: "u32 \<Rightarrow> u32 \<Rightarrow> ExternalEraseType" where
  "erase_type start end_addr =
     (if should_erase_chip start end_addr then ERASE_CHIP
      else if should_erase_64kb start end_addr then ERASE_64KB
      else if should_erase_32kb start end_addr then ERASE_32KB
      else ERASE_4KB)"

definition erase_and_reschedule :: "'c chip_exec \<Rightarrow> 'c extflash \<Rightarrow> ca_error \<times> 'c extflash" where
  "erase_and_reschedule exec s =
     erase_helper exec (erase_type (e_startAddress (eraseInfo s)) (e_endAddress (eraseInfo s))) s"

text \<open>How a step ends: it reports, unless it goes on.\<close>

definition report :: "bool \<Rightarrow> bool \<Rightarrow> ca_error \<Rightarrow> 'c extflash \<Rightarrow> 'c extflash" where
  "report up ota_cb cmd_status s =
     (if cmd_status = CA_ERROR_BUSY then s
      else
        let s = (if up then s\<lparr>upstream := upstream s @ [cmd_status]\<rparr> else s)
        in if cmd_status = CA_ERROR_SUCCESS \<and> ota_cb then s\<lparr>ota := ota s + 1\<rparr> else s)"

definition external_flash_erase_helper :: "'c chip_exec \<Rightarrow> 'c extflash \<Rightarrow> 'c extflash" where
  "external_flash_erase_helper exec s =
     (let (cmd_status, s) =
        (if e_eraseLength (eraseInfo s) \<noteq> 0
         then (case erase_and_reschedule exec s of
                 (e, s) \<Rightarrow> (if e = CA_ERROR_SUCCESS then CA_ERROR_BUSY else e, s))
         else (CA_ERROR_SUCCESS, s))
      in report (e_upstreamCallback (eraseInfo s)) (e_otaCallback (eraseInfo s)) cmd_status s)"

subsection \<open>Writing\<close>

text \<open>The length is an octet: 256 octets are none.\<close>

definition write_and_reschedule :: "'c chip_exec \<Rightarrow> u8 \<Rightarrow> 'c extflash \<Rightarrow> ca_error \<times> 'c extflash" where
  "write_and_reschedule exec aExtFlashWriteLen s =
     (let n = unat aExtFlashWriteLen; i = writeInfo s in
      case BSP_ExternalFlashProgram exec (w_startAddress i) (take n (w_data i)) s of
        (status, s) \<Rightarrow>
          if status \<noteq> CA_ERROR_SUCCESS then (status, s)
          else
            let i = writeInfo s;
                i = i\<lparr>w_startAddress := w_startAddress i + of_nat n, w_data := drop n (w_data i),
                      w_writeLength := w_writeLength i - of_nat n\<rparr>
            in BSP_ExternalFlashScheduleCallback Write_helper (s\<lparr>writeInfo := i\<rparr>))"

definition external_flash_write_helper :: "'c chip_exec \<Rightarrow> 'c extflash \<Rightarrow> 'c extflash" where
  "external_flash_write_helper exec s =
     (let i = writeInfo s;
          (cmd_status, s) =
        (if w_writeLength i > 0
         then (let bytesLeftInPage = ucast (w_pageSize i) - w_startAddress i mod ucast (w_pageSize i);
                   extFlashWriteLen = ucast (min (min (w_writeLength i) (w_writeLimit i)) bytesLeftInPage)
               in case write_and_reschedule exec extFlashWriteLen s of
                    (e, s) \<Rightarrow> (if e = CA_ERROR_SUCCESS then CA_ERROR_BUSY else e, s))
         else (CA_ERROR_SUCCESS, s))
      in report (w_upstreamCallback i) (w_otaCallback i) cmd_status s)"

subsection \<open>Checking\<close>

definition read_and_reschedule :: "'c chip_exec \<Rightarrow> u8 \<Rightarrow> 'c extflash \<Rightarrow> ca_error \<times> 'c extflash" where
  "read_and_reschedule exec aExtFlashReadLen s =
     (let n = unat aExtFlashReadLen; i = checkInfo s in
      case BSP_ExternalFlashReadData exec (c_startAddress i) n s of
        (status, rxBuf, s) \<Rightarrow>
          if status \<noteq> CA_ERROR_SUCCESS then (status, s)
          else
            let s = s\<lparr>crc := HASH_CRC32_stream rxBuf (crc s)\<rparr>;
                i = checkInfo s;
                i = i\<lparr>c_startAddress := c_startAddress i + of_nat n, c_checklen := c_checklen i - of_nat n\<rparr>
            in BSP_ExternalFlashScheduleCallback Check_helper (s\<lparr>checkInfo := i\<rparr>))"

definition external_flash_check_helper :: "'c chip_exec \<Rightarrow> 'c extflash \<Rightarrow> 'c extflash" where
  "external_flash_check_helper exec s =
     (let i = checkInfo s;
          (cmd_status, s) =
        (if c_checklen i > PAGE_SIZE then (CA_ERROR_INVALID_ARGS, s)
         else if c_checklen i > 0
         then (case read_and_reschedule exec (ucast (min (c_checklen i) (c_readLimit i))) s of
                 (e, s) \<Rightarrow> (if e = CA_ERROR_SUCCESS then CA_ERROR_BUSY else e, s))
         else (if NOT (crc s) = c_checksum i then CA_ERROR_SUCCESS else CA_ERROR_FAIL, s\<lparr>crc := 0xFFFFFFFF\<rparr>))
      in report (c_upstreamCallback i) False cmd_status s)"

subsection \<open>The tasklets\<close>

definition run_callback :: "'c chip_exec \<Rightarrow> ext_callback \<Rightarrow> 'c extflash \<Rightarrow> 'c extflash" where
  "run_callback exec cb s =
     (case cb of
        Erase_helper \<Rightarrow> external_flash_erase_helper exec s
      | Write_helper \<Rightarrow> external_flash_write_helper exec s
      | Check_helper \<Rightarrow> external_flash_check_helper exec s
      | User_callback n \<Rightarrow> s\<lparr>user_called := user_called s @ [n]\<rparr>)"

definition external_flash_schedule :: "'c chip_exec \<Rightarrow> 'c extflash \<Rightarrow> 'c extflash" where
  "external_flash_schedule exec s =
     (let s = s\<lparr>isCalledWithinCallback := True\<rparr>;
          s = (case nextCallbackToRun s of None \<Rightarrow> s | Some cb \<Rightarrow> run_callback exec cb (s\<lparr>nextCallbackToRun := None\<rparr>))
      in s\<lparr>isCalledWithinCallback := False\<rparr>)"

definition handlePostInstructionWaiting :: "'c chip_exec \<Rightarrow> 'c extflash \<Rightarrow> 'c extflash" where
  "handlePostInstructionWaiting exec s = external_flash_schedule exec (s\<lparr>cycleInProgress := False\<rparr>)"

text \<open>The scheduler runs the tasklet that is due first, and takes it off its queue before.\<close>

definition tasklet_step :: "'c chip_exec \<Rightarrow> 'c extflash \<Rightarrow> 'c extflash option" where
  "tasklet_step exec s =
     (if callbackSchedulingTasklet s \<noteq> None
      then Some (external_flash_schedule exec (s\<lparr>callbackSchedulingTasklet := None\<rparr>))
      else if postInstructionWaitTasklet s \<noteq> None
      then Some (handlePostInstructionWaiting exec (s\<lparr>postInstructionWaitTasklet := None\<rparr>))
      else None)"

fun tasklet_steps :: "nat \<Rightarrow> 'c chip_exec \<Rightarrow> 'c extflash \<Rightarrow> 'c extflash" where
  "tasklet_steps 0 exec s = s"
| "tasklet_steps (Suc n) exec s = (case tasklet_step exec s of None \<Rightarrow> s | Some s \<Rightarrow> tasklet_steps n exec s)"

end
