(* ===== verification/ExtFlashChip.thy ===== *)
theory ExtFlashChip
  imports ExtFlash
begin

text \<open>
  The driver of the external flash for a chip that behaves as the driver's comments say: every
  instruction reaches it once, however often the bus is refused, and each operation does to the
  stored octets what it is asked.
\<close>

unbundle bit_operations_syntax

subsection \<open>The chip\<close>

text \<open>
  What the driver relies on: \<open>mem\<close> is what is stored, \<open>awake\<close> and \<open>wel\<close> the power state and the write
  enable latch. A power-down that comes while the chip is at work may be ignored.
\<close>

definition flash_size :: nat where "flash_size = 0x100000"

definition erased :: "nat \<Rightarrow> nat \<Rightarrow> (nat \<Rightarrow> u8) \<Rightarrow> nat \<Rightarrow> u8" where
  "erased lo n m x = (if lo \<le> x \<and> x < lo + n then 0xFF else m x)"

definition programmed :: "nat \<Rightarrow> bytes \<Rightarrow> (nat \<Rightarrow> u8) \<Rightarrow> nat \<Rightarrow> u8" where
  "programmed a d m x = (if a \<le> x \<and> x < a + length d then m x AND d ! (x - a) else m x)"

definition stored :: "(nat \<Rightarrow> u8) \<Rightarrow> nat \<Rightarrow> nat \<Rightarrow> bytes" where
  "stored m a n = map m [a..<a + n]"

definition chip_laws :: "'c chip_exec \<Rightarrow> ('c \<Rightarrow> nat \<Rightarrow> u8) \<Rightarrow> ('c \<Rightarrow> bool) \<Rightarrow> ('c \<Rightarrow> bool) \<Rightarrow> bool" where
  "chip_laws exec mem awake wel \<longleftrightarrow>
     (\<forall>c. let c' = snd (exec [RELEASE_POWERDOWN_ID] c) in awake c' \<and> mem c' = mem c) \<and>
     (\<forall>c. mem (snd (exec [POWER_DOWN] c)) = mem c) \<and>
     (\<forall>c. awake c \<longrightarrow> (let c' = snd (exec [WRITE_ENABLE] c) in awake c' \<and> wel c' \<and> mem c' = mem c)) \<and>
     (\<forall>c. awake c \<longrightarrow> wel c \<longrightarrow> mem (snd (exec [CHIP_ERASE] c)) = erased 0 flash_size (mem c)) \<and>
     (\<forall>c op size a. (op, size) \<in> {(SECTOR_ERASE_4KB, 0x1000), (BLOCK_ERASE_32KB, 0x8000), (BLOCK_ERASE_64KB, 0x10000)} \<longrightarrow>
        awake c \<longrightarrow> wel c \<longrightarrow> unat a < flash_size \<longrightarrow>
        mem (snd (exec (op # address_octets a) c)) = erased (unat a div size * size) size (mem c)) \<and>
     (\<forall>c a d. awake c \<longrightarrow> wel c \<longrightarrow> unat a < flash_size \<longrightarrow> unat a mod 256 + length d \<le> 256 \<longrightarrow>
        mem (snd (exec (PAGE_PROGRAM # address_octets a @ d) c)) = programmed (unat a) d (mem c)) \<and>
     (\<forall>c a n. awake c \<longrightarrow> unat a + n \<le> flash_size \<longrightarrow>
        (case exec (READ_DATA # address_octets a @ replicate n DONT_CARE_BYTE) c of
           (rx, c') \<Rightarrow> length rx = n + 4 \<and> drop 4 rx = stored (mem c) (unat a) n \<and> mem c' = mem c))"

subsection \<open>Instructions are sent once\<close>

lemma until_send:
  "\<exists>bs. until_success (W25Q80DLSNIG_SendSPIInstruction exec tx n) s =
     s\<lparr>bus_busy := bs, chip := snd (exec tx (chip s)), rxbuf := take n (fst (exec tx (chip s))) @ drop n (rxbuf s)\<rparr>"
proof -
  have "\<exists>bs. retry m (W25Q80DLSNIG_SendSPIInstruction exec tx n) s =
     s\<lparr>bus_busy := bs, chip := snd (exec tx (chip s)), rxbuf := take n (fst (exec tx (chip s))) @ drop n (rxbuf s)\<rparr>"
    if "length (bus_busy s) \<le> m" for m and s :: "'a extflash"
    using that
  proof (induction m arbitrary: s)
    case 0
    then show ?case
      by (cases "exec tx (chip s)") (auto simp: W25Q80DLSNIG_SendSPIInstruction_def)
  next
    case (Suc m)
    show ?case
    proof (cases "\<exists>bs. bus_busy s = True # bs")
      case True
      then obtain bs where b: "bus_busy s = True # bs" by blast
      then have "retry (Suc m) (W25Q80DLSNIG_SendSPIInstruction exec tx n) s =
          retry m (W25Q80DLSNIG_SendSPIInstruction exec tx n) (s\<lparr>bus_busy := bs\<rparr>)"
        by (simp add: W25Q80DLSNIG_SendSPIInstruction_def)
      then show ?thesis using Suc.IH [of "s\<lparr>bus_busy := bs\<rparr>"] Suc.prems b by simp
    next
      case False
      then have "W25Q80DLSNIG_SendSPIInstruction exec tx n s =
          (CA_ERROR_SUCCESS, s\<lparr>bus_busy := drop 1 (bus_busy s), chip := snd (exec tx (chip s)),
             rxbuf := take n (fst (exec tx (chip s))) @ drop n (rxbuf s)\<rparr>)"
        by (cases "exec tx (chip s)"; cases "bus_busy s"; cases "hd (bus_busy s)")
          (auto simp: W25Q80DLSNIG_SendSPIInstruction_def)
      then show ?thesis by auto
    qed
  qed
  then show ?thesis by (simp add: until_success_def)
qed

lemma until_cycle:
  "\<exists>bs w. until_success (start_cycle exec tx t) s =
     s\<lparr>bus_busy := bs, chip := snd (exec tx (chip s)), cycleInProgress := True, postInstructionWaitTasklet := Some w\<rparr>"
proof -
  have "\<exists>bs w. retry m (start_cycle exec tx t) s =
     s\<lparr>bus_busy := bs, chip := snd (exec tx (chip s)), cycleInProgress := True, postInstructionWaitTasklet := Some w\<rparr>"
    if "length (bus_busy s) \<le> m" for m and s :: "'a extflash"
    using that
  proof (induction m arbitrary: s)
    case 0
    then show ?case
      by (cases "exec tx (chip s)") (auto simp: start_cycle_def W25Q80DLSNIG_SendSPIInstruction_def split: option.splits)
  next
    case (Suc m)
    show ?case
    proof (cases "\<exists>bs. bus_busy s = True # bs")
      case True
      then obtain bs where b: "bus_busy s = True # bs" by blast
      let ?s = "s\<lparr>bus_busy := bs, cycleInProgress := True,
          postInstructionWaitTasklet := (case postInstructionWaitTasklet s of None \<Rightarrow> Some t | Some x \<Rightarrow> Some x)\<rparr>"
      have "retry (Suc m) (start_cycle exec tx t) s = retry m (start_cycle exec tx t) ?s"
        by (simp add: start_cycle_def W25Q80DLSNIG_SendSPIInstruction_def b)
      then show ?thesis using Suc.IH [of ?s] Suc.prems b by simp
    next
      case False
      then have "start_cycle exec tx t s =
          (CA_ERROR_SUCCESS, s\<lparr>bus_busy := drop 1 (bus_busy s), chip := snd (exec tx (chip s)), cycleInProgress := True,
             postInstructionWaitTasklet := (case postInstructionWaitTasklet s of None \<Rightarrow> Some t | Some x \<Rightarrow> Some x)\<rparr>)"
        by (cases "exec tx (chip s)"; cases "bus_busy s"; cases "hd (bus_busy s)")
          (auto simp: start_cycle_def W25Q80DLSNIG_SendSPIInstruction_def)
      then show ?thesis by (cases "postInstructionWaitTasklet s") auto
    qed
  qed
  then show ?thesis by (simp add: until_success_def)
qed

subsection \<open>A cycle of the chip\<close>

text \<open>What an instruction with a cycle leaves alone.\<close>

definition ran :: "'c extflash \<Rightarrow> 'c extflash \<Rightarrow> bool" where
  "ran s s' \<longleftrightarrow> eraseInfo s' = eraseInfo s \<and> writeInfo s' = writeInfo s \<and> checkInfo s' = checkInfo s \<and> crc s' = crc s \<and>
     upstream s' = upstream s \<and> ota s' = ota s \<and> user_called s' = user_called s \<and>
     nextCallbackToRun s' = nextCallbackToRun s \<and> callbackSchedulingTasklet s' = callbackSchedulingTasklet s"

definition cycle_ops :: "'c chip_exec \<Rightarrow> ('c extflash \<Rightarrow> ca_error \<times> 'c extflash) \<Rightarrow> 'c extflash \<Rightarrow> 'c extflash" where
  "cycle_ops exec f s =
     until_success (W25Q80DLSNIG_PowerDown exec) (until_success f
       (until_success (W25Q80DLSNIG_WriteEnable exec) (until_success (W25Q80DLSNIG_ReleasePowerDown exec) s)))"

lemma cycle_ops_runs:
  assumes "chip_laws exec mem awake wel"
  shows "\<exists>c. awake c \<and> wel c \<and> mem c = mem (chip s) \<and>
     (let s' = cycle_ops exec (start_cycle exec tx t) s in
      ran s s' \<and> cycleInProgress s' \<and> postInstructionWaitTasklet s' \<noteq> None \<and> mem (chip s') = mem (snd (exec tx c)))"
proof -
  let ?c1 = "snd (exec [RELEASE_POWERDOWN_ID] (chip s))"
  let ?c2 = "snd (exec [WRITE_ENABLE] ?c1)"
  have l: "awake ?c1" "mem ?c1 = mem (chip s)" "\<And>c. mem (snd (exec [POWER_DOWN] c)) = mem c"
    using assms by (simp_all add: chip_laws_def Let_def)
  have l2: "awake ?c2" "wel ?c2" "mem ?c2 = mem ?c1"
    using assms l(1) by (simp_all add: chip_laws_def Let_def)
  obtain b1 where 1: "until_success (W25Q80DLSNIG_ReleasePowerDown exec) s = s\<lparr>bus_busy := b1, chip := ?c1\<rparr>"
    using until_send [of exec "[RELEASE_POWERDOWN_ID]" 0 s] by (auto simp: W25Q80DLSNIG_ReleasePowerDown_def)
  obtain b2 where 2: "until_success (W25Q80DLSNIG_WriteEnable exec) (s\<lparr>bus_busy := b1, chip := ?c1\<rparr>) = s\<lparr>bus_busy := b2, chip := ?c2\<rparr>"
    using until_send [of exec "[WRITE_ENABLE]" 0 "s\<lparr>bus_busy := b1, chip := ?c1\<rparr>"] by (auto simp: W25Q80DLSNIG_WriteEnable_def)
  obtain b3 w where 3: "until_success (start_cycle exec tx t) (s\<lparr>bus_busy := b2, chip := ?c2\<rparr>) =
      s\<lparr>bus_busy := b3, chip := snd (exec tx ?c2), cycleInProgress := True, postInstructionWaitTasklet := Some w\<rparr>"
    using until_cycle [of exec tx t "s\<lparr>bus_busy := b2, chip := ?c2\<rparr>"] by auto
  let ?s3 = "s\<lparr>bus_busy := b3, chip := snd (exec tx ?c2), cycleInProgress := True, postInstructionWaitTasklet := Some w\<rparr>"
  obtain b4 where 4: "until_success (W25Q80DLSNIG_PowerDown exec) ?s3 =
      ?s3\<lparr>bus_busy := b4, chip := snd (exec [POWER_DOWN] (chip ?s3))\<rparr>"
    using until_send [of exec "[POWER_DOWN]" 0 ?s3] by (auto simp: W25Q80DLSNIG_PowerDown_def)
  show ?thesis
    using l l2 by (intro exI [of _ ?c2]) (simp add: cycle_ops_def 1 2 3 4 Let_def ran_def)
qed

end
