(* ===== verification/ExtFlashErase.thy ===== *)
theory ExtFlashErase
  imports ExtFlashChip
begin

text \<open>
  The background erase: each step erases the largest block that covers no sector outside the range, and
  the whole clears the sectors that meet the range, and no other.
\<close>

unbundle bit_operations_syntax

subsection \<open>What a step erases\<close>

lemma mask_range:
  fixes x :: u32
  assumes "unat x < 0x200000"
  shows "unat (x AND 0x1F0000) = unat x div 0x10000 * 0x10000"
    "unat (x AND 0x1F8000) = unat x div 0x8000 * 0x8000"
    "unat (x AND 0x1FF000) = unat x div 0x1000 * 0x1000"
proof -
  have x: "x AND mask 21 = x"
  proof -
    have "unat (take_bit 21 x) = unat x" using assms by (simp add: unsigned_take_bit_eq take_bit_nat_eq_self)
    then have "take_bit 21 x = x" by (simp only: word_unat_eq_iff)
    then show ?thesis by (simp flip: take_bit_eq_mask)
  qed
  have m: "(0x1F0000 :: u32) = mask 21 AND NOT (mask 16)" "(0x1F8000 :: u32) = mask 21 AND NOT (mask 15)"
    "(0x1FF000 :: u32) = mask 21 AND NOT (mask 12)"
    by (simp_all add: mask_eq_exp_minus_1)
  have *: "unat (x AND NOT (mask n)) = unat x div 2 ^ n * 2 ^ n" if n: "n < 32" for n
  proof -
    have "x AND NOT (mask n) = push_bit n (drop_bit n x)" by (auto simp: bit_eq_iff bit_simps)
    also have "\<dots> = x div 2 ^ n * 2 ^ n" by (simp add: push_bit_eq_mult drop_bit_eq_div)
    finally have e: "x AND NOT (mask n) = x div 2 ^ n * 2 ^ n" .
    have p: "unat (2 ^ n :: u32) = 2 ^ n"
      using n unat_of_nat [of "2 ^ n", where 'a = 32] power_strict_increasing [of n 32 "2::nat"] by simp
    have "unat x div 2 ^ n * 2 ^ n \<le> unat x" by (rule div_times_less_eq_dividend)
    also have "unat x < 2 ^ LENGTH(32)" using unat_u32_less [of x] by simp
    finally have "unat (x div 2 ^ n) * unat (2 ^ n :: u32) < 2 ^ LENGTH(32)" by (simp only: unat_div p)
    then have "unat (x div 2 ^ n * 2 ^ n) = unat (x div 2 ^ n) * unat (2 ^ n :: u32)"
      using unat_mult_lem by blast
    then show ?thesis by (simp only: e unat_div p)
  qed
  have "x AND (mask 21 AND NOT (mask n)) = x AND NOT (mask n)" for n
    using x by (metis and.assoc)
  then show "unat (x AND 0x1F0000) = unat x div 0x10000 * 0x10000"
    "unat (x AND 0x1F8000) = unat x div 0x8000 * 0x8000"
    "unat (x AND 0x1FF000) = unat x div 0x1000 * 0x1000"
    unfolding m by (simp_all add: *)
qed


text \<open>A step erases whole sectors, from the sector of its start up to where the next one begins.\<close>

definition sector_floor :: "nat \<Rightarrow> nat" where "sector_floor x = x div 0x1000 * 0x1000"
definition sector_ceil :: "nat \<Rightarrow> nat" where "sector_ceil x = (x + 0xFFF) div 0x1000 * 0x1000"

lemma sector_aligned [simp]: "sector_floor (m * 0x1000) = m * 0x1000" "sector_ceil (m * 0x1000) = m * 0x1000"
proof -
  have "(m * 0x1000 + 0xFFF) div 0x1000 = m" by (rule div_nat_eqI) auto
  then show "sector_floor (m * 0x1000) = m * 0x1000" "sector_ceil (m * 0x1000) = m * 0x1000"
    by (simp_all add: sector_floor_def sector_ceil_def)
qed

lemma block_step_nat:
  fixes s e k :: nat
  defines "b \<equiv> k * 0x1000"
  assumes "s < e" "0 < k" "k = 1 \<or> s mod b < 0x1000 \<and> s div b * b + b - 0x1000 < e"
  shows "s div b * b = sector_floor s" "sector_ceil (min e (s div b * b + b)) = s div b * b + b"
    "s < min e (s div b * b + b)" "min e (s div b * b + b) = e \<or> sector_floor (min e (s div b * b + b)) = min e (s div b * b + b)"
proof -
  define q where "q = s div b"
  have b: "0 < b" using assms by simp
  have s: "s = q * b + s mod b" "s mod b < b" using b by (simp_all add: q_def)
  have f: "s div 0x1000 = q * k"
  proof (cases "k = 1")
    case True
    then show ?thesis by (simp add: q_def b_def)
  next
    case False
    then have "s mod b < 0x1000" using assms by blast
    then show ?thesis using s(1) by (intro div_nat_eqI) (auto simp: b_def algebra_simps)
  qed
  then show "s div b * b = sector_floor s" unfolding q_def [symmetric] sector_floor_def by (simp add: b_def)
  have al: "s div b * b + b = (q * k + k) * 0x1000" unfolding q_def [symmetric] by (simp add: b_def algebra_simps)
  have "s < q * b + b" using s by linarith
  then show lt: "s < min e (s div b * b + b)" using assms(2) by (simp add: q_def)
  show "min e (s div b * b + b) = e \<or> sector_floor (min e (s div b * b + b)) = min e (s div b * b + b)"
    unfolding al using sector_aligned(1) [of "q * k + k"] by (cases "e \<le> (q * k + k) * 0x1000") (simp_all only: min_def if_True if_False simp_thms)
  show "sector_ceil (min e (s div b * b + b)) = s div b * b + b"
  proof (cases "(q * k + k) * 0x1000 \<le> e")
    case True
    then show ?thesis unfolding al using sector_aligned(2) [of "q * k + k"] by (simp only: min_absorb2)
  next
    case False
    have lo: "(q * k + k) * 0x1000 < e + 0x1000"
    proof (cases "k = 1")
      case True
      have "q * 0x1000 \<le> s" using s True by (simp add: b_def)
      then show ?thesis using True assms(2) by simp
    next
      case False
      then have "s div b * b + b - 0x1000 < e" using assms by blast
      then show ?thesis unfolding al using \<open>0 < k\<close> by (simp add: algebra_simps)
    qed
    have "(e + 0xFFF) div 0x1000 = q * k + k" using False lo by (intro div_nat_eqI) (auto simp: algebra_simps)
    then show ?thesis unfolding al using False by (simp add: min_def sector_ceil_def)
  qed
qed

lemma word_cmp:
  fixes x y :: u32
  shows "x < y \<longleftrightarrow> unat x < unat y" "unat (x mod y) = unat x mod unat y"
  by (simp_all add: word_less_nat_alt unat_mod)

lemma unat_min: "unat (min (a :: u32) b) = min (unat a) (unat b)"
  by (simp add: min_def word_le_nat_alt)

lemma plus_no_wrap:
  fixes x y :: u32
  shows "unat x + unat y < 4294967296 \<Longrightarrow> unat (x + y) = unat x + unat y"
  by (simp add: unat_word_ariths)

lemma plus_minus_no_wrap:
  fixes x y z :: u32
  shows "unat x + unat y < 4294967296 \<Longrightarrow> unat z \<le> unat x + unat y \<Longrightarrow> unat (x + y - z) = unat x + unat y - unat z"
  by (simp add: unat_sub_if' plus_no_wrap word_le_nat_alt)

text \<open>The size of a block in sectors, and the conditions for it in numbers.\<close>

definition sectors :: "ExternalEraseType \<Rightarrow> nat" where
  "sectors t = (case t of ERASE_CHIP \<Rightarrow> 256 | ERASE_64KB \<Rightarrow> 16 | ERASE_32KB \<Rightarrow> 8 | ERASE_4KB \<Rightarrow> 1)"

lemma half_block:
  fixes s :: nat
  assumes "s mod 0x10000 < 0x1000"
  shows "s div 0x8000 * 0x8000 = s div 0x10000 * 0x10000"
proof -
  define q r where "q = s div 0x10000" and "r = s mod 0x10000"
  have s: "s = q * 0x10000 + r" "r < 0x1000" using assms by (simp_all add: q_def r_def)
  then have "s div 0x8000 = 2 * q" by (intro div_nat_eqI) simp_all
  then show ?thesis by (simp add: q_def [symmetric])
qed

text \<open>The step in numbers: \<open>k\<close> sectors from the block of the start.\<close>

definition erases :: "nat \<Rightarrow> nat \<Rightarrow> nat \<Rightarrow> nat \<Rightarrow> bool" where
  "erases s e k n \<longleftrightarrow>
     s < n \<and> n \<le> e \<and> (n = e \<or> sector_floor n = n) \<and> s div (k * 0x1000) * (k * 0x1000) = sector_floor s \<and>
     sector_ceil n = sector_floor s + k * 0x1000"

lemma erases_block:
  assumes "s < e" "0 < k" "k = 1 \<or> s mod (k * 0x1000) < 0x1000 \<and> s div (k * 0x1000) * (k * 0x1000) + k * 0x1000 - 0x1000 < e"
    and n: "n = min e (s div (k * 0x1000) * (k * 0x1000) + k * 0x1000)"
  shows "erases s e k n"
  using block_step_nat [OF assms(1,2,3)] unfolding erases_def n by simp

lemma new_start:
  assumes "unat start < 0x100000"
  shows "unat (get_new_start ERASE_64KB start e) = min (unat e) (unat start div 0x10000 * 0x10000 + 0x10000)"
    "unat (get_new_start ERASE_32KB start e) = min (unat e) (unat start div 0x8000 * 0x8000 + 0x8000)"
    "unat (get_new_start ERASE_4KB start e) = min (unat e) (unat start div 0x1000 * 0x1000 + 0x1000)"
proof -
  have p: "unat (start + HEX_64KB) = unat start + 0x10000" "unat (start + HEX_32KB) = unat start + 0x8000"
    "unat (start + HEX_4KB) = unat start + 0x1000"
    using assms by (simp_all add: plus_no_wrap)
  show "unat (get_new_start ERASE_64KB start e) = min (unat e) (unat start div 0x10000 * 0x10000 + 0x10000)"
    using mask_range(1) [of "start + HEX_64KB"] assms by (simp add: get_new_start_def unat_min p div_add_self2)
  show "unat (get_new_start ERASE_32KB start e) = min (unat e) (unat start div 0x8000 * 0x8000 + 0x8000)"
    using mask_range(2) [of "start + HEX_32KB"] assms by (simp add: get_new_start_def unat_min p div_add_self2)
  show "unat (get_new_start ERASE_4KB start e) = min (unat e) (unat start div 0x1000 * 0x1000 + 0x1000)"
    using mask_range(3) [of "start + HEX_4KB"] assms by (simp add: get_new_start_def unat_min p div_add_self2)
qed

lemma should_64:
  assumes "unat start < 0x100000" "should_erase_64kb start e"
  shows "unat start mod 0x10000 < 0x1000" "unat start div 0x10000 * 0x10000 + 0x10000 - 0x1000 < unat e"
proof -
  show m: "unat start mod 0x10000 < 0x1000" using assms(2) by (simp add: should_erase_64kb_def word_cmp)
  have a: "unat (start AND mask_32kb) = unat start div 0x10000 * 0x10000"
    using assms(1) mask_range(2) [of start] half_block [OF m] by simp
  have "unat start div 0x10000 * 0x10000 \<le> unat start" by (rule div_times_less_eq_dividend)
  then have "unat ((start AND mask_32kb) + HEX_64KB - HEX_4KB) = unat start div 0x10000 * 0x10000 + 0x10000 - 0x1000"
    using assms(1) by (subst plus_minus_no_wrap) (simp_all add: a)
  then show "unat start div 0x10000 * 0x10000 + 0x10000 - 0x1000 < unat e"
    using assms(2) by (simp add: should_erase_64kb_def word_cmp)
qed

lemma should_32:
  assumes "unat start < 0x100000" "should_erase_32kb start e"
  shows "unat start mod 0x8000 < 0x1000" "unat start div 0x8000 * 0x8000 + 0x8000 - 0x1000 < unat e"
proof -
  show m: "unat start mod 0x8000 < 0x1000" using assms(2) by (simp add: should_erase_32kb_def word_cmp)
  have a: "unat (start AND mask_32kb) = unat start div 0x8000 * 0x8000" using assms(1) mask_range(2) [of start] by simp
  have "unat start div 0x8000 * 0x8000 \<le> unat start" by (rule div_times_less_eq_dividend)
  then have "unat ((start AND mask_32kb) + HEX_32KB - HEX_4KB) = unat start div 0x8000 * 0x8000 + 0x8000 - 0x1000"
    using assms(1) by (subst plus_minus_no_wrap) (simp_all add: a)
  then show "unat start div 0x8000 * 0x8000 + 0x8000 - 0x1000 < unat e"
    using assms(2) by (simp add: should_erase_32kb_def word_cmp)
qed

lemma erase_block:
  assumes "unat start < unat e" "unat e \<le> 0x100000"
  shows "erases (unat start) (unat e) (sectors (erase_type start e)) (unat (get_new_start (erase_type start e) start e))"
proof -
  have s: "unat start < 0x100000" using assms by simp
  consider (c) "erase_type start e = ERASE_CHIP" "should_erase_chip start e"
    | (b64) "erase_type start e = ERASE_64KB" "should_erase_64kb start e"
    | (b32) "erase_type start e = ERASE_32KB" "should_erase_32kb start e"
    | (b4) "erase_type start e = ERASE_4KB"
    unfolding erase_type_def by (metis (full_types))
  then show ?thesis
  proof cases
    case c
    then have c': "unat start < 0x1000" "0xFF000 < unat e" by (auto simp: should_erase_chip_def word_cmp)
    have "(unat e + 0xFFF) div 0x1000 = 0x100" using c' assms(2) by (intro div_nat_eqI) auto
    then have "sector_ceil (unat e) = 0x100000" by (simp add: sector_ceil_def)
    moreover have "get_new_start ERASE_CHIP start e = e" by (simp add: get_new_start_def)
    ultimately show ?thesis using c'(1) assms(1) s by (simp add: c(1) erases_def sectors_def sector_floor_def)
  next
    case b64
    show ?thesis unfolding b64(1)
      by (rule erases_block [OF assms(1)]) (use should_64 [OF s b64(2)] new_start(1) [OF s] in \<open>simp_all add: sectors_def\<close>)
  next
    case b32
    show ?thesis unfolding b32(1)
      by (rule erases_block [OF assms(1)]) (use should_32 [OF s b32(2)] new_start(2) [OF s] in \<open>simp_all add: sectors_def\<close>)
  next
    case b4
    show ?thesis unfolding b4
      by (rule erases_block [OF assms(1)]) (use new_start(3) [OF s] in \<open>simp_all add: sectors_def\<close>)
  qed
qed

subsection \<open>The erase instructions\<close>

lemma partial_erase_ops:
  "BSP_ExternalFlashPartialErase exec ty a s =
     (if \<not> isCalledWithinCallback s then (CA_ERROR_NO_ACCESS, s)
      else if a > 0xFFFFF then (CA_ERROR_INVALID_ARGS, s)
      else (CA_ERROR_SUCCESS, (cycle_ops exec (case ty of
                  SECTOR_4KB \<Rightarrow> start_cycle exec (SECTOR_ERASE_4KB # address_octets a) 300
                | BLOCK_32KB \<Rightarrow> start_cycle exec (BLOCK_ERASE_32KB # address_octets a) 800
                | BLOCK_64KB \<Rightarrow> start_cycle exec (BLOCK_ERASE_64KB # address_octets a) 1000) s)\<lparr>isCalledWithinCallback := False\<rparr>))"
  by (cases ty) (simp_all add: BSP_ExternalFlashPartialErase_def Let_def cycle_ops_def W25Q80DLSNIG_SectorErase_def
      W25Q80DLSNIG_BlockErase32KB_def W25Q80DLSNIG_BlockErase64KB_def)

lemma chip_erase_ops:
  "BSP_ExternalFlashChipErase exec s =
     (if \<not> isCalledWithinCallback s then (CA_ERROR_NO_ACCESS, s)
      else (CA_ERROR_SUCCESS, (cycle_ops exec (start_cycle exec [CHIP_ERASE] 6000) s)\<lparr>isCalledWithinCallback := False\<rparr>))"
  by (simp add: BSP_ExternalFlashChipErase_def Let_def cycle_ops_def W25Q80DLSNIG_ChipErase_def)

text \<open>One erase, of whatever size.\<close>

definition erase_op :: "'c chip_exec \<Rightarrow> ExternalEraseType \<Rightarrow> u32 \<Rightarrow> 'c extflash \<Rightarrow> ca_error \<times> 'c extflash" where
  "erase_op exec t start s = (case t of
             ERASE_CHIP \<Rightarrow> BSP_ExternalFlashChipErase exec s
           | ERASE_64KB \<Rightarrow> BSP_ExternalFlashPartialErase exec BLOCK_64KB start s
           | ERASE_32KB \<Rightarrow> BSP_ExternalFlashPartialErase exec BLOCK_32KB start s
           | ERASE_4KB \<Rightarrow> BSP_ExternalFlashPartialErase exec SECTOR_4KB start s)"

lemma erase_op_erases:
  assumes laws: "chip_laws exec mem awake wel" and s: "isCalledWithinCallback s" "unat start < 0x100000"
  shows "\<exists>s'. erase_op exec t start s = (CA_ERROR_SUCCESS, s') \<and> ran s s' \<and> cycleInProgress s' \<and>
     postInstructionWaitTasklet s' \<noteq> None \<and> \<not> isCalledWithinCallback s' \<and>
     mem (chip s') = erased (unat start div (sectors t * 0x1000) * (sectors t * 0x1000)) (sectors t * 0x1000) (mem (chip s))"
proof -
  have a: "\<not> start > 0xFFFFF" using s(2) by (simp add: word_less_nat_alt)
  define tx :: bytes and ti :: nat where "tx = (case t of ERASE_CHIP \<Rightarrow> [CHIP_ERASE]
      | ERASE_64KB \<Rightarrow> BLOCK_ERASE_64KB # address_octets start | ERASE_32KB \<Rightarrow> BLOCK_ERASE_32KB # address_octets start
      | ERASE_4KB \<Rightarrow> SECTOR_ERASE_4KB # address_octets start)"
    and "ti = (case t of ERASE_CHIP \<Rightarrow> 6000 | ERASE_64KB \<Rightarrow> 1000 | ERASE_32KB \<Rightarrow> 800 | ERASE_4KB \<Rightarrow> 300)"
  have op: "erase_op exec t start s = (CA_ERROR_SUCCESS, (cycle_ops exec (start_cycle exec tx ti) s)\<lparr>isCalledWithinCallback := False\<rparr>)"
    using s(1) a by (cases t) (simp_all add: erase_op_def chip_erase_ops partial_erase_ops tx_def ti_def)
  have e: "mem (snd (exec tx c)) = erased (unat start div (sectors t * 0x1000) * (sectors t * 0x1000)) (sectors t * 0x1000) (mem c)"
    if c: "awake c" "wel c" for c
  proof -
    have part: "mem (snd (exec (opc # address_octets start) c)) = erased (unat start div size * size) size (mem c)"
      if "(opc, size) \<in> {(SECTOR_ERASE_4KB, 0x1000), (BLOCK_ERASE_32KB, 0x8000), (BLOCK_ERASE_64KB, 0x10000)}" for opc size
      using laws c s(2) that unfolding chip_laws_def flash_size_def by blast
    have whole: "mem (snd (exec [CHIP_ERASE] c)) = erased 0 0x100000 (mem c)"
      using laws c unfolding chip_laws_def flash_size_def by blast
    show ?thesis
      using part [of SECTOR_ERASE_4KB "0x1000"] part [of BLOCK_ERASE_32KB "0x8000"] part [of BLOCK_ERASE_64KB "0x10000"] whole s(2)
      by (cases t) (simp_all add: tx_def sectors_def)
  qed
  obtain c where c: "awake c" "wel c" "mem c = mem (chip s)"
    "ran s (cycle_ops exec (start_cycle exec tx ti) s)" "cycleInProgress (cycle_ops exec (start_cycle exec tx ti) s)"
    "postInstructionWaitTasklet (cycle_ops exec (start_cycle exec tx ti) s) \<noteq> None"
    "mem (chip (cycle_ops exec (start_cycle exec tx ti) s)) = mem (snd (exec tx c))"
    using cycle_ops_runs [OF laws, of s tx ti] by (auto simp: Let_def)
  show ?thesis
    using op c(4,5,6) by (intro exI [of _ "(cycle_ops exec (start_cycle exec tx ti) s)\<lparr>isCalledWithinCallback := False\<rparr>"])
      (simp add: ran_def c(7) e [OF c(1,2)] c(3))
qed

subsection \<open>Steps of a procedure\<close>

definition idle :: "'c extflash \<Rightarrow> bool" where
  "idle s \<longleftrightarrow> nextCallbackToRun s = None \<and> callbackSchedulingTasklet s = None \<and> postInstructionWaitTasklet s = None \<and>
     \<not> cycleInProgress s"

text \<open>A callback that waits for the scheduler, or for the end of a cycle.\<close>

definition due :: "ext_callback \<Rightarrow> 'c extflash \<Rightarrow> bool" where
  "due cb s \<longleftrightarrow> nextCallbackToRun s = Some cb \<and>
     (callbackSchedulingTasklet s \<noteq> None \<and> postInstructionWaitTasklet s = None \<and> \<not> cycleInProgress s \<or>
      callbackSchedulingTasklet s = None \<and> postInstructionWaitTasklet s \<noteq> None)"

definition fired :: "'c extflash \<Rightarrow> 'c extflash" where
  "fired s = s\<lparr>cycleInProgress := False, postInstructionWaitTasklet := None, callbackSchedulingTasklet := None,
     nextCallbackToRun := None, isCalledWithinCallback := True\<rparr>"

lemma due_step:
  assumes "due cb s"
  shows "tasklet_step exec s = Some ((run_callback exec cb (fired s))\<lparr>isCalledWithinCallback := False\<rparr>)"
proof -
  have [simp]: "s\<lparr>postInstructionWaitTasklet := None\<rparr> = s" if "postInstructionWaitTasklet s = None" for s :: "'a extflash"
    using that by (cases s) simp
  have [simp]: "s\<lparr>cycleInProgress := False\<rparr> = s" if "\<not> cycleInProgress s" for s :: "'a extflash"
    using that by (cases s) simp
  have [simp]: "s\<lparr>callbackSchedulingTasklet := None\<rparr> = s" if "callbackSchedulingTasklet s = None" for s :: "'a extflash"
    using that by (cases s) simp
  consider "callbackSchedulingTasklet s \<noteq> None" "postInstructionWaitTasklet s = None" "\<not> cycleInProgress s" "nextCallbackToRun s = Some cb"
    | "callbackSchedulingTasklet s = None" "postInstructionWaitTasklet s \<noteq> None" "nextCallbackToRun s = Some cb"
    using assms by (auto simp: due_def)
  then show ?thesis
  proof cases
    case 1
    then have "fired s = s\<lparr>callbackSchedulingTasklet := None, isCalledWithinCallback := True, nextCallbackToRun := None\<rparr>"
      by (cases s) (simp add: fired_def)
    with 1 show ?thesis by (simp add: tasklet_step_def external_flash_schedule_def Let_def)
  next
    case 2
    then have "fired s = s\<lparr>postInstructionWaitTasklet := None, cycleInProgress := False, isCalledWithinCallback := True, nextCallbackToRun := None\<rparr>"
      by (cases s) (simp add: fired_def)
    with 2 show ?thesis by (simp add: tasklet_step_def handlePostInstructionWaiting_def external_flash_schedule_def Let_def)
  qed
qed

lemma due_scheduled:
  assumes "idle s"
  shows "BSP_ExternalFlashScheduleCallback cb s =
       (CA_ERROR_SUCCESS, s\<lparr>nextCallbackToRun := Some cb, callbackSchedulingTasklet := Some 0\<rparr>)"
    "due cb (s\<lparr>nextCallbackToRun := Some cb, callbackSchedulingTasklet := Some 0\<rparr>)"
  using assms by (simp_all add: idle_def due_def BSP_ExternalFlashScheduleCallback_def Let_def)

text \<open>A result that is handed to whoever asked for it.\<close>

lemma report_keeps [simp]:
  "idle (report up o' e s) = idle s" "chip (report up o' e s) = chip s" "eraseInfo (report up o' e s) = eraseInfo s"
  "writeInfo (report up o' e s) = writeInfo s" "checkInfo (report up o' e s) = checkInfo s" "crc (report up o' e s) = crc s"
  "user_called (report up o' e s) = user_called s"
  by (simp_all add: report_def idle_def Let_def)

lemma report_result:
  assumes "e \<noteq> CA_ERROR_BUSY"
  shows "upstream (report up o' e s) = upstream s @ (if up then [e] else [])"
    "ota (report up o' e s) = ota s + (if e = CA_ERROR_SUCCESS \<and> o' then 1 else 0)"
  using assms by (simp_all add: report_def Let_def)

subsection \<open>The whole erase\<close>

definition erase_range :: "nat \<Rightarrow> nat \<Rightarrow> (nat \<Rightarrow> u8) \<Rightarrow> nat \<Rightarrow> u8" where
  "erase_range a e m x = (if a < e \<and> sector_floor a \<le> x \<and> x < sector_ceil e then 0xFF else m x)"

definition erase_ready :: "ExtFlashEraseInfo \<Rightarrow> bool" where
  "erase_ready i \<longleftrightarrow> unat (e_startAddress i) \<le> unat (e_endAddress i) \<and> unat (e_endAddress i) \<le> flash_size \<and>
     e_eraseLength i = e_endAddress i - e_startAddress i"

text \<open>What none of the steps touches.\<close>

definition erase_frame :: "'c extflash \<Rightarrow> 'c extflash \<Rightarrow> bool" where
  "erase_frame s s' \<longleftrightarrow> writeInfo s' = writeInfo s \<and> checkInfo s' = checkInfo s \<and> crc s' = crc s \<and> user_called s' = user_called s"

lemma erase_step_more:
  assumes laws: "chip_laws exec mem awake wel" and d: "due Erase_helper s" and r: "erase_ready (eraseInfo s)"
    and more_left: "unat (e_startAddress (eraseInfo s)) < unat (e_endAddress (eraseInfo s))"
  defines "a \<equiv> unat (e_startAddress (eraseInfo s))" and "z \<equiv> unat (e_endAddress (eraseInfo s))"
  shows "\<exists>s' k n. tasklet_step exec s = Some s' \<and> due Erase_helper s' \<and> erase_ready (eraseInfo s') \<and>
     erases a z k n \<and> unat (e_startAddress (eraseInfo s')) = n \<and> unat (e_endAddress (eraseInfo s')) = z \<and>
     e_otaCallback (eraseInfo s') = e_otaCallback (eraseInfo s) \<and>
     e_upstreamCallback (eraseInfo s') = e_upstreamCallback (eraseInfo s) \<and>
     mem (chip s') = erased (sector_floor a) (k * 0x1000) (mem (chip s)) \<and>
     upstream s' = upstream s \<and> ota s' = ota s \<and> erase_frame s s'"
proof -
  let ?i = "eraseInfo s" let ?a = "e_startAddress ?i" let ?z = "e_endAddress ?i" let ?t = "erase_type ?a ?z"
  have z: "unat ?z \<le> 0x100000" "unat ?a < 0x100000" using r more_left by (simp_all add: erase_ready_def flash_size_def)
  have b: "erases a z (sectors ?t) (unat (get_new_start ?t ?a ?z))"
    unfolding a_def z_def using erase_block [OF more_left z(1)] .
  have len: "e_eraseLength ?i \<noteq> 0" using r more_left by (auto simp: erase_ready_def)
  obtain s1 where s1: "erase_op exec ?t ?a (fired s) = (CA_ERROR_SUCCESS, s1)" "ran (fired s) s1" "cycleInProgress s1"
    "postInstructionWaitTasklet s1 \<noteq> None" "\<not> isCalledWithinCallback s1"
    "mem (chip s1) = erased (unat ?a div (sectors ?t * 0x1000) * (sectors ?t * 0x1000)) (sectors ?t * 0x1000) (mem (chip s))"
    using erase_op_erases [OF laws, of "fired s" ?a ?t] z(2) by (auto simp: fired_def)
  define s2 where "s2 = s1\<lparr>eraseInfo := update_erase_info ?t ?i, nextCallbackToRun := Some Erase_helper\<rparr>"
  have i1: "eraseInfo s1 = ?i" "nextCallbackToRun s1 = None" using s1(2) by (simp_all add: ran_def fired_def)
  have fi: "eraseInfo (fired s) = ?i" by (simp add: fired_def)
  have "erase_helper exec ?t (fired s) = (CA_ERROR_BUSY, s2)"
    using s1(1,3) i1 unfolding erase_op_def erase_helper_def fi
    by (simp add: BSP_ExternalFlashScheduleCallback_def Let_def s2_def)
  then have "external_flash_erase_helper exec (fired s) = s2"
    using len by (simp add: external_flash_erase_helper_def erase_and_reschedule_def fi report_def)
  then have st: "tasklet_step exec s = Some (s2\<lparr>isCalledWithinCallback := False\<rparr>)"
    using due_step [OF d, of exec] by (simp add: run_callback_def)
  have n: "unat (get_new_start ?t ?a ?z) \<le> unat ?z" using b by (simp add: erases_def z_def)
  have "unat ?a div (sectors ?t * 0x1000) * (sectors ?t * 0x1000) = sector_floor a" using b by (simp add: erases_def a_def)
  then have mem: "mem (chip s1) = erased (sector_floor a) (sectors ?t * 0x1000) (mem (chip s))" using s1(6) by simp
  have c: "callbackSchedulingTasklet s1 = None" using s1(2) by (simp add: ran_def fired_def)
  show ?thesis
    using st b n mem s1 c i1 r
    by (intro exI [of _ "s2\<lparr>isCalledWithinCallback := False\<rparr>"] exI [of _ "sectors ?t"] exI [of _ "unat (get_new_start ?t ?a ?z)"])
      (simp add: s2_def due_def erase_ready_def update_erase_info_def Let_def z_def erase_frame_def ran_def fired_def)
qed

lemma erase_step_last:
  assumes d: "due Erase_helper s" and r: "erase_ready (eraseInfo s)"
    and done_: "e_startAddress (eraseInfo s) = e_endAddress (eraseInfo s)"
  shows "\<exists>s'. tasklet_step exec s = Some s' \<and> idle s' \<and> chip s' = chip s \<and> erase_frame s s' \<and>
     upstream s' = upstream s @ (if e_upstreamCallback (eraseInfo s) then [CA_ERROR_SUCCESS] else []) \<and>
     ota s' = ota s + (if e_otaCallback (eraseInfo s) then 1 else 0)"
proof -
  let ?r = "report (e_upstreamCallback (eraseInfo s)) (e_otaCallback (eraseInfo s)) CA_ERROR_SUCCESS (fired s)"
  have "external_flash_erase_helper exec (fired s) = ?r"
    using r done_ by (simp add: external_flash_erase_helper_def erase_ready_def fired_def)
  then have "tasklet_step exec s = Some (?r\<lparr>isCalledWithinCallback := False\<rparr>)"
    using due_step [OF d, of exec] by (simp add: run_callback_def)
  moreover have "idle (?r\<lparr>isCalledWithinCallback := False\<rparr>)"
    by (simp add: idle_def report_def Let_def fired_def)
  ultimately show ?thesis
    by (simp add: report_result erase_frame_def) (simp add: fired_def)
qed


lemma sector_ceil_ge: "n \<le> sector_ceil n" "sector_ceil n < n + 0x1000" and sector_floor_le: "sector_floor n \<le> n" "n < sector_floor n + 0x1000"
proof -
  have "(n + 0xFFF) div 0x1000 * 0x1000 + (n + 0xFFF) mod 0x1000 = n + 0xFFF" by (rule div_mult_mod_eq)
  moreover have "(n + 0xFFF) mod 0x1000 < 0x1000" by simp
  ultimately show "n \<le> sector_ceil n" "sector_ceil n < n + 0x1000" unfolding sector_ceil_def by linarith+
  have "n div 0x1000 * 0x1000 + n mod 0x1000 = n" by (rule div_mult_mod_eq)
  moreover have "n mod 0x1000 < 0x1000" by simp
  ultimately show "sector_floor n \<le> n" "n < sector_floor n + 0x1000" unfolding sector_floor_def by linarith+
qed

lemma sector_ceil_mono: "n \<le> z \<Longrightarrow> sector_ceil n \<le> sector_ceil z"
  by (simp add: sector_ceil_def div_le_mono)

text \<open>Blocks of erased sectors make up the range.\<close>

lemma erase_range_step:
  assumes "erases a z k n"
  shows "erase_range n z (erased (sector_floor a) (k * 0x1000) m) = erase_range a z m"
proof
  fix x
  have e: "a < n" "n \<le> z" "n = z \<or> sector_floor n = n" and c: "sector_floor a + k * 0x1000 = sector_ceil n"
    using assms by (simp_all add: erases_def)
  have 1: "sector_floor a \<le> n" using sector_floor_le(1) [of a] e(1) by simp
  have 2: "sector_ceil n = n" if "sector_floor n = n"
    using that sector_aligned(2) [of "n div 0x1000"] by (simp add: sector_floor_def)
  show "erase_range n z (erased (sector_floor a) (k * 0x1000) m) x = erase_range a z m x"
  proof (cases "n = z")
    case True
    then show ?thesis using e(1) by (simp add: erase_range_def erased_def c)
  next
    case False
    then have n: "sector_floor n = n" "sector_ceil n = n" "n < z" using e 2 by simp_all
    have "n \<le> sector_ceil z" using sector_ceil_ge(1) [of z] n(3) by simp
    then show ?thesis using n 1 e(1) by (auto simp: erase_range_def erased_def c)
  qed
qed

lemma erase_runs:
  assumes laws: "chip_laws exec mem awake wel" and "due Erase_helper s" "erase_ready (eraseInfo s)"
  defines "i \<equiv> eraseInfo s"
  shows "\<exists>n \<le> Suc (unat (e_endAddress i) - unat (e_startAddress i)). let s' = tasklet_steps n exec s in
     idle s' \<and> mem (chip s') = erase_range (unat (e_startAddress i)) (unat (e_endAddress i)) (mem (chip s)) \<and> erase_frame s s' \<and>
     upstream s' = upstream s @ (if e_upstreamCallback i then [CA_ERROR_SUCCESS] else []) \<and>
     ota s' = ota s + (if e_otaCallback i then 1 else 0)"
  using assms(2,3) unfolding i_def
proof (induction "unat (e_endAddress (eraseInfo s)) - unat (e_startAddress (eraseInfo s))" arbitrary: s rule: less_induct)
  case less
  let ?i = "eraseInfo s"
  show ?case
  proof (cases "e_startAddress ?i = e_endAddress ?i")
    case True
    then show ?thesis
      using erase_step_last [OF less.prems True, of exec]
      by (intro exI [of _ 1]) (auto simp: erase_range_def Let_def)
  next
    case False
    then have "unat (e_startAddress ?i) < unat (e_endAddress ?i)"
      using less.prems(2) by (auto simp: erase_ready_def word_unat_eq_iff)
    then obtain s' k n where s': "tasklet_step exec s = Some s'" "due Erase_helper s'" "erase_ready (eraseInfo s')"
      "erases (unat (e_startAddress ?i)) (unat (e_endAddress ?i)) k n" "unat (e_startAddress (eraseInfo s')) = n"
      "unat (e_endAddress (eraseInfo s')) = unat (e_endAddress ?i)"
      "e_otaCallback (eraseInfo s') = e_otaCallback ?i" "e_upstreamCallback (eraseInfo s') = e_upstreamCallback ?i"
      "mem (chip s') = erased (sector_floor (unat (e_startAddress ?i))) (k * 0x1000) (mem (chip s))"
      "upstream s' = upstream s" "ota s' = ota s" "erase_frame s s'"
      using erase_step_more [OF laws less.prems] by blast
    have "unat (e_startAddress ?i) < n" "n \<le> unat (e_endAddress ?i)" using s'(4) by (simp_all add: erases_def)
    then have lt: "unat (e_endAddress (eraseInfo s')) - unat (e_startAddress (eraseInfo s'))
        < unat (e_endAddress ?i) - unat (e_startAddress ?i)"
      unfolding s'(5,6) by linarith
    obtain j where j: "j \<le> Suc (unat (e_endAddress (eraseInfo s')) - unat (e_startAddress (eraseInfo s')))"
      "let s'' = tasklet_steps j exec s' in idle s'' \<and>
         mem (chip s'') = erase_range (unat (e_startAddress (eraseInfo s'))) (unat (e_endAddress (eraseInfo s'))) (mem (chip s')) \<and>
         erase_frame s' s'' \<and> upstream s'' = upstream s' @ (if e_upstreamCallback (eraseInfo s') then [CA_ERROR_SUCCESS] else []) \<and>
         ota s'' = ota s' + (if e_otaCallback (eraseInfo s') then 1 else 0)"
      using less.hyps [OF lt s'(2,3)] by blast
    have "erase_frame s (tasklet_steps j exec s')" using s'(12) j(2) by (simp add: erase_frame_def Let_def)
    then show ?thesis
      using j lt s'(1,5-11) erase_range_step [OF s'(4)]
      by (intro exI [of _ "Suc j"]) (simp add: Let_def)
  qed
qed

lemma idle_rests: "idle s \<Longrightarrow> tasklet_step exec s = None"
  by (simp add: idle_def tasklet_step_def)

lemma tasklet_steps_rest: "tasklet_step exec (tasklet_steps n exec s) = None \<Longrightarrow> n \<le> m \<Longrightarrow> tasklet_steps m exec s = tasklet_steps n exec s"
proof (induction n arbitrary: m s)
  case 0
  then show ?case by (cases m) simp_all
next
  case (Suc n)
  then obtain m' where m: "m = Suc m'" "n \<le> m'" by (cases m) auto
  show ?case
  proof (cases "tasklet_step exec s")
    case (Some s')
    then show ?thesis using Suc.IH [of s' m'] Suc.prems(1) m by simp
  qed (simp add: m)
qed

lemma erase_rests:
  assumes "chip_laws exec mem awake wel" "idle s" "erase_ready (eraseInfo s)"
    and "n > unat (e_endAddress (eraseInfo s)) - unat (e_startAddress (eraseInfo s))"
  shows "let s' = tasklet_steps n exec (snd (BSP_ExternalFlashScheduleCallback Erase_helper s)) in
     tasklet_step exec s' = None \<and> idle s' \<and>
     mem (chip s') = erase_range (unat (e_startAddress (eraseInfo s))) (unat (e_endAddress (eraseInfo s))) (mem (chip s)) \<and>
     upstream s' = upstream s @ (if e_upstreamCallback (eraseInfo s) then [CA_ERROR_SUCCESS] else []) \<and>
     ota s' = ota s + (if e_otaCallback (eraseInfo s) then 1 else 0) \<and> crc s' = crc s \<and> writeInfo s' = writeInfo s \<and> checkInfo s' = checkInfo s"
proof -
  let ?s = "s\<lparr>nextCallbackToRun := Some Erase_helper, callbackSchedulingTasklet := Some 0\<rparr>"
  have "erase_ready (eraseInfo ?s)" using assms(3) by simp
  then obtain k where "k \<le> Suc (unat (e_endAddress (eraseInfo s)) - unat (e_startAddress (eraseInfo s)))"
    and k: "let s' = tasklet_steps k exec ?s in
     idle s' \<and> mem (chip s') = erase_range (unat (e_startAddress (eraseInfo s))) (unat (e_endAddress (eraseInfo s))) (mem (chip s)) \<and>
     erase_frame ?s s' \<and> upstream s' = upstream s @ (if e_upstreamCallback (eraseInfo s) then [CA_ERROR_SUCCESS] else []) \<and>
     ota s' = ota s + (if e_otaCallback (eraseInfo s) then 1 else 0)"
    using erase_runs [OF assms(1) due_scheduled(2) [OF assms(2), of Erase_helper]] by auto
  then have "k \<le> n" using assms(4) by simp
  then have "tasklet_steps n exec ?s = tasklet_steps k exec ?s"
    using k idle_rests by (intro tasklet_steps_rest) (auto simp: Let_def)
  then show ?thesis
    using k due_scheduled(1) [OF assms(2), of Erase_helper] by (simp add: Let_def idle_rests erase_frame_def)
qed

end
