(* ===== verification/ExtFlashWrite.thy ===== *)
theory ExtFlashWrite
  imports ExtFlashErase
begin

text \<open>
  The background write and check: the write stores its data in pieces that stay within a page and
  within the driver's limit, the check compares the CRC of what is stored.
\<close>

unbundle bit_operations_syntax

subsection \<open>One piece\<close>

lemma program_ops:
  "BSP_ExternalFlashProgram exec a d s =
     (if \<not> isCalledWithinCallback s then (CA_ERROR_NO_ACCESS, s)
      else if a > 0xFFFFF \<or> d = [] \<or> length d > 128 \<or> pageOverflow a (length d) then (CA_ERROR_INVALID_ARGS, s)
      else (CA_ERROR_SUCCESS,
        (cycle_ops exec (start_cycle exec (PAGE_PROGRAM # address_octets a @ d) 4) s)\<lparr>isCalledWithinCallback := False\<rparr>))"
  by (simp add: BSP_ExternalFlashProgram_def Let_def cycle_ops_def W25Q80DLSNIG_PageProgram_def)

lemma program_programs:
  assumes laws: "chip_laws exec mem awake wel" and s: "isCalledWithinCallback s" "unat a < 0x100000"
    and d: "d \<noteq> []" "length d \<le> 128" "unat a mod 256 + length d \<le> 256"
  shows "\<exists>s'. BSP_ExternalFlashProgram exec a d s = (CA_ERROR_SUCCESS, s') \<and> ran s s' \<and> cycleInProgress s' \<and>
     postInstructionWaitTasklet s' \<noteq> None \<and> \<not> isCalledWithinCallback s' \<and>
     mem (chip s') = programmed (unat a) d (mem (chip s))"
proof -
  let ?tx = "PAGE_PROGRAM # address_octets a @ d"
  let ?s = "cycle_ops exec (start_cycle exec ?tx 4) s"
  have "\<not> a > 0xFFFFF" using s(2) by (simp add: word_less_nat_alt)
  moreover have "\<not> pageOverflow a (length d)" using d(3) by (simp add: pageOverflow_def unat_mod)
  ultimately have op: "BSP_ExternalFlashProgram exec a d s = (CA_ERROR_SUCCESS, ?s\<lparr>isCalledWithinCallback := False\<rparr>)"
    using s(1) d by (simp add: program_ops)
  obtain c where c: "awake c" "wel c" "mem c = mem (chip s)" "ran s ?s" "cycleInProgress ?s"
    "postInstructionWaitTasklet ?s \<noteq> None" "mem (chip ?s) = mem (snd (exec ?tx c))"
    using cycle_ops_runs [OF laws, of s ?tx 4] by (auto simp: Let_def)
  have e: "mem (snd (exec ?tx c)) = programmed (unat a) d (mem c)"
    using laws c(1,2) s(2) d(3) unfolding chip_laws_def flash_size_def by blast
  show ?thesis
    using op c by (intro exI [of _ "?s\<lparr>isCalledWithinCallback := False\<rparr>"]) (simp add: ran_def e)
qed

lemma programmed_parts:
  assumes "n \<le> length d"
  shows "programmed (a + n) (drop n d) (programmed a (take n d) m) = programmed a d m"
  using assms by (auto simp: programmed_def fun_eq_iff add.commute)

subsection \<open>The whole write\<close>

definition write_ready :: "ExtFlashWriteInfo \<Rightarrow> bool" where
  "write_ready i \<longleftrightarrow> w_pageSize i = 256 \<and> 0 < w_writeLimit i \<and> w_writeLimit i \<le> 128 \<and>
     unat (w_startAddress i) + unat (w_writeLength i) \<le> flash_size \<and> unat (w_writeLength i) \<le> length (w_data i)"

definition write_frame :: "'c extflash \<Rightarrow> 'c extflash \<Rightarrow> bool" where
  "write_frame s s' \<longleftrightarrow> eraseInfo s' = eraseInfo s \<and> checkInfo s' = checkInfo s \<and> crc s' = crc s \<and> user_called s' = user_called s"

definition piece :: "ExtFlashWriteInfo \<Rightarrow> u8" where
  "piece i = ucast (min (min (w_writeLength i) (w_writeLimit i))
       (ucast (w_pageSize i) - w_startAddress i mod ucast (w_pageSize i)))"

lemma piece_nat:
  assumes "write_ready i"
  shows "unat (piece i) = min (min (unat (w_writeLength i)) (unat (w_writeLimit i))) (256 - unat (w_startAddress i) mod 256)"
proof -
  have m: "unat (0x100 - w_startAddress i mod 0x100) = 256 - unat (w_startAddress i) mod 256"
    by (subst unat_sub) (simp_all add: word_le_nat_alt unat_mod)
  have l: "unat (w_writeLimit i) \<le> 128" using assms by (simp add: write_ready_def word_le_nat_alt)
  then have "unat (min (min (w_writeLength i) (w_writeLimit i)) (0x100 - w_startAddress i mod 0x100)) < 256"
    by (simp add: unat_min)
  then show ?thesis
    using assms m by (simp add: piece_def write_ready_def unsigned_ucast_eq take_bit_eq_mod unat_min)
qed

lemma write_step_more:
  assumes laws: "chip_laws exec mem awake wel" and d: "due Write_helper s" and r: "write_ready (writeInfo s)"
    and more_left: "w_writeLength (writeInfo s) \<noteq> 0"
  defines "i \<equiv> writeInfo s" and "n \<equiv> unat (piece (writeInfo s))"
  shows "\<exists>s'. tasklet_step exec s = Some s' \<and> due Write_helper s' \<and> write_ready (writeInfo s') \<and> 0 < n \<and> n \<le> unat (w_writeLength i) \<and>
     unat (w_startAddress (writeInfo s')) = unat (w_startAddress i) + n \<and>
     unat (w_writeLength (writeInfo s')) = unat (w_writeLength i) - n \<and> w_data (writeInfo s') = drop n (w_data i) \<and>
     w_otaCallback (writeInfo s') = w_otaCallback i \<and> w_upstreamCallback (writeInfo s') = w_upstreamCallback i \<and>
     mem (chip s') = programmed (unat (w_startAddress i)) (take n (w_data i)) (mem (chip s)) \<and>
     upstream s' = upstream s \<and> ota s' = ota s \<and> write_frame s s'"
proof -
  have len: "0 < unat (w_writeLength i)" using more_left by (simp add: i_def unat_gt_0)
  have lim: "0 < unat (w_writeLimit i)" "unat (w_writeLimit i) \<le> 128"
    using r by (auto simp: write_ready_def i_def word_less_nat_alt word_le_nat_alt)
  have n: "n = min (min (unat (w_writeLength i)) (unat (w_writeLimit i))) (256 - unat (w_startAddress i) mod 256)"
    unfolding n_def i_def by (rule piece_nat [OF r])
  have n0: "0 < n" "n \<le> 128" "n \<le> unat (w_writeLength i)" using n len lim by simp_all
  have np: "unat (w_startAddress i) mod 256 + n \<le> 256" using n by simp
  have fit: "unat (w_startAddress i) + unat (w_writeLength i) \<le> 0x100000" "unat (w_writeLength i) \<le> length (w_data i)"
    using r by (simp_all add: write_ready_def flash_size_def i_def)
  have tk: "length (take n (w_data i)) = n" "take n (w_data i) \<noteq> []" using n0 fit by auto
  have fi: "writeInfo (fired s) = i" by (simp add: fired_def i_def)
  obtain s1 where s1: "BSP_ExternalFlashProgram exec (w_startAddress i) (take n (w_data i)) (fired s) = (CA_ERROR_SUCCESS, s1)"
    "ran (fired s) s1" "cycleInProgress s1" "postInstructionWaitTasklet s1 \<noteq> None" "\<not> isCalledWithinCallback s1"
    "mem (chip s1) = programmed (unat (w_startAddress i)) (take n (w_data i)) (mem (chip s))"
    using program_programs [OF laws, of "fired s" "w_startAddress i" "take n (w_data i)"] fit n0 np tk by (auto simp: fired_def)
  define j where "j = i\<lparr>w_startAddress := w_startAddress i + of_nat n, w_data := drop n (w_data i),
       w_writeLength := w_writeLength i - of_nat n\<rparr>"
  define s2 where "s2 = s1\<lparr>writeInfo := j, nextCallbackToRun := Some Write_helper\<rparr>"
  have i1: "writeInfo s1 = i" "nextCallbackToRun s1 = None" "callbackSchedulingTasklet s1 = None"
    using s1(2) by (simp_all add: ran_def fired_def i_def)
  have w: "write_and_reschedule exec (piece i) (fired s) = (CA_ERROR_BUSY, s2)"
    using s1(1,3) i1 unfolding write_and_reschedule_def fi n_def [folded i_def, symmetric] Let_def
    by (simp add: BSP_ExternalFlashScheduleCallback_def Let_def s2_def j_def)
  have "external_flash_write_helper exec (fired s) = s2"
    using w more_left by (simp add: external_flash_write_helper_def fi Let_def piece_def i_def word_neq_0_conv report_def)
  then have st: "tasklet_step exec s = Some (s2\<lparr>isCalledWithinCallback := False\<rparr>)"
    using due_step [OF d, of exec] by (simp add: run_callback_def)
  have u: "unat (of_nat n :: u32) = n" using n0 by (simp add: unat_of_nat)
  have j: "unat (w_startAddress j) = unat (w_startAddress i) + n" "unat (w_writeLength j) = unat (w_writeLength i) - n"
    "w_data j = drop n (w_data i)" "w_pageSize j = w_pageSize i" "w_writeLimit j = w_writeLimit i"
    "w_otaCallback j = w_otaCallback i" "w_upstreamCallback j = w_upstreamCallback i"
    using fit n0 by (simp_all add: j_def plus_no_wrap u unat_sub word_le_nat_alt)
  then have "write_ready j" using r fit n0 by (simp add: write_ready_def flash_size_def i_def diff_le_mono)
  then show ?thesis
    using st n0 j s1 i1
    by (intro exI [of _ "s2\<lparr>isCalledWithinCallback := False\<rparr>"])
      (simp add: s2_def due_def write_frame_def ran_def fired_def)
qed

lemma write_step_last:
  assumes d: "due Write_helper s" and done_: "w_writeLength (writeInfo s) = 0"
  shows "\<exists>s'. tasklet_step exec s = Some s' \<and> idle s' \<and> chip s' = chip s \<and> write_frame s s' \<and>
     upstream s' = upstream s @ (if w_upstreamCallback (writeInfo s) then [CA_ERROR_SUCCESS] else []) \<and>
     ota s' = ota s + (if w_otaCallback (writeInfo s) then 1 else 0)"
proof -
  let ?r = "report (w_upstreamCallback (writeInfo s)) (w_otaCallback (writeInfo s)) CA_ERROR_SUCCESS (fired s)"
  have "external_flash_write_helper exec (fired s) = ?r"
    using done_ by (simp add: external_flash_write_helper_def fired_def Let_def)
  then have "tasklet_step exec s = Some (?r\<lparr>isCalledWithinCallback := False\<rparr>)"
    using due_step [OF d, of exec] by (simp add: run_callback_def)
  moreover have "idle (?r\<lparr>isCalledWithinCallback := False\<rparr>)"
    by (simp add: idle_def report_def Let_def fired_def)
  ultimately show ?thesis
    by (simp add: report_result write_frame_def) (simp add: fired_def)
qed

lemma write_runs:
  assumes laws: "chip_laws exec mem awake wel" and "due Write_helper s" "write_ready (writeInfo s)"
  defines "i \<equiv> writeInfo s"
  shows "\<exists>n \<le> Suc (unat (w_writeLength i)). let s' = tasklet_steps n exec s in
     idle s' \<and> mem (chip s') = programmed (unat (w_startAddress i)) (take (unat (w_writeLength i)) (w_data i)) (mem (chip s)) \<and>
     write_frame s s' \<and> upstream s' = upstream s @ (if w_upstreamCallback i then [CA_ERROR_SUCCESS] else []) \<and>
     ota s' = ota s + (if w_otaCallback i then 1 else 0)"
  using assms(2,3) unfolding i_def
proof (induction "unat (w_writeLength (writeInfo s))" arbitrary: s rule: less_induct)
  case less
  let ?i = "writeInfo s"
  show ?case
  proof (cases "w_writeLength ?i = 0")
    case True
    then show ?thesis
      using write_step_last [OF less.prems(1) True, of exec]
      by (intro exI [of _ 1]) (auto simp: programmed_def fun_eq_iff Let_def)
  next
    case False
    define n where "n = unat (piece ?i)"
    obtain s' where s': "tasklet_step exec s = Some s'" "due Write_helper s'" "write_ready (writeInfo s')" "0 < n" "n \<le> unat (w_writeLength ?i)"
     "unat (w_startAddress (writeInfo s')) = unat (w_startAddress ?i) + n"
     "unat (w_writeLength (writeInfo s')) = unat (w_writeLength ?i) - n" "w_data (writeInfo s') = drop n (w_data ?i)"
     "w_otaCallback (writeInfo s') = w_otaCallback ?i" "w_upstreamCallback (writeInfo s') = w_upstreamCallback ?i"
     "mem (chip s') = programmed (unat (w_startAddress ?i)) (take n (w_data ?i)) (mem (chip s))"
     "upstream s' = upstream s" "ota s' = ota s" "write_frame s s'"
      using write_step_more [OF laws less.prems False] unfolding n_def by blast
    have lt: "unat (w_writeLength (writeInfo s')) < unat (w_writeLength ?i)" using s'(4,5,7) by simp
    obtain j where j: "j \<le> Suc (unat (w_writeLength (writeInfo s')))"
      "let s'' = tasklet_steps j exec s' in idle s'' \<and>
         mem (chip s'') = programmed (unat (w_startAddress (writeInfo s'))) (take (unat (w_writeLength (writeInfo s'))) (w_data (writeInfo s'))) (mem (chip s')) \<and>
         write_frame s' s'' \<and> upstream s'' = upstream s' @ (if w_upstreamCallback (writeInfo s') then [CA_ERROR_SUCCESS] else []) \<and>
         ota s'' = ota s' + (if w_otaCallback (writeInfo s') then 1 else 0)"
      using less.hyps [OF lt s'(2,3)] by blast
    define D where "D = take (unat (w_writeLength ?i)) (w_data ?i)"
    have D: "take n (w_data ?i) = take n D" "take (unat (w_writeLength ?i) - n) (drop n (w_data ?i)) = drop n D"
      using s'(5) by (simp_all add: D_def drop_take)
    have nD: "n \<le> length D" using s'(5) less.prems(2) by (simp add: D_def write_ready_def)
    have "write_frame s (tasklet_steps j exec s')" using s'(14) j(2) by (simp add: write_frame_def Let_def)
    moreover have "mem (chip (tasklet_steps j exec s')) = programmed (unat (w_startAddress ?i)) D (mem (chip s))"
      using j(2) programmed_parts [OF nD] unfolding s'(6,7,8,11) D by (simp add: Let_def)
    ultimately show ?thesis
      using j lt s'(1,9,10,12,13) unfolding D_def
      by (intro exI [of _ "Suc j"]) (simp add: Let_def)
  qed
qed

lemma write_rests:
  assumes "chip_laws exec mem awake wel" "idle s" "write_ready (writeInfo s)" "n > unat (w_writeLength (writeInfo s))"
  shows "let s' = tasklet_steps n exec (snd (BSP_ExternalFlashScheduleCallback Write_helper s)); i = writeInfo s in
     tasklet_step exec s' = None \<and> idle s' \<and>
     mem (chip s') = programmed (unat (w_startAddress i)) (take (unat (w_writeLength i)) (w_data i)) (mem (chip s)) \<and>
     upstream s' = upstream s @ (if w_upstreamCallback i then [CA_ERROR_SUCCESS] else []) \<and>
     ota s' = ota s + (if w_otaCallback i then 1 else 0) \<and> crc s' = crc s \<and> checkInfo s' = checkInfo s"
proof -
  let ?s = "s\<lparr>nextCallbackToRun := Some Write_helper, callbackSchedulingTasklet := Some 0\<rparr>" let ?i = "writeInfo s"
  have "write_ready (writeInfo ?s)" using assms(3) by simp
  then obtain k where "k \<le> Suc (unat (w_writeLength ?i))"
    and k: "let s' = tasklet_steps k exec ?s in
     idle s' \<and> mem (chip s') = programmed (unat (w_startAddress ?i)) (take (unat (w_writeLength ?i)) (w_data ?i)) (mem (chip s)) \<and>
     write_frame ?s s' \<and> upstream s' = upstream s @ (if w_upstreamCallback ?i then [CA_ERROR_SUCCESS] else []) \<and>
     ota s' = ota s + (if w_otaCallback ?i then 1 else 0)"
    using write_runs [OF assms(1) due_scheduled(2) [OF assms(2), of Write_helper]] by auto
  then have "k \<le> n" using assms(4) by simp
  then have "tasklet_steps n exec ?s = tasklet_steps k exec ?s"
    using k idle_rests by (intro tasklet_steps_rest) (auto simp: Let_def)
  then show ?thesis
    using k due_scheduled(1) [OF assms(2), of Write_helper] by (simp add: Let_def idle_rests write_frame_def)
qed

end
