(* ===== verification/ExtFlashCheck.thy ===== *)
theory ExtFlashCheck
  imports ExtFlashWrite
begin

text \<open>
  The background check, and the three procedures one after the other: what is erased, written and
  checked is found to be right.
\<close>

unbundle bit_operations_syntax

subsection \<open>One piece\<close>

lemma sint_small:
  fixes a :: u32
  assumes "unat a < 0x80000000"
  shows "sint a = int (unat a)"
proof -
  have b: "int (unat a) < 2147483648" using assms by linarith
  have c: "- 2147483648 \<le> int (unat a)" by (rule order_trans [OF _ of_nat_0_le_iff]) simp
  have "signed_take_bit (LENGTH(32) - Suc 0) (int (unat a)) = int (unat a)"
    by (rule signed_take_bit_int_eq_self) (use b c in simp_all)
  then show ?thesis by (simp only: sint_uint uint_nat)
qed

lemma chip_reads:
  assumes laws: "chip_laws exec mem awake wel" and "awake c" "unat a + n \<le> 0x100000"
    and e: "exec (READ_DATA # address_octets a @ replicate n DONT_CARE_BYTE) c = (rx, c')"
  shows "length rx = n + 4 \<and> drop 4 rx = stored (mem c) (unat a) n \<and> mem c' = mem c"
proof -
  have "\<forall>c a n. awake c \<longrightarrow> unat a + n \<le> flash_size \<longrightarrow>
        (case exec (READ_DATA # address_octets a @ replicate n DONT_CARE_BYTE) c of
           (rx, c') \<Rightarrow> length rx = n + 4 \<and> drop 4 rx = stored (mem c) (unat a) n \<and> mem c' = mem c)"
    using laws unfolding chip_laws_def by (elim conjE)
  from this [rule_format, of c a n] show ?thesis using assms(2,3) by (simp only: e prod.case flash_size_def simp_thms)
qed

lemma read_reads:
  assumes laws: "chip_laws exec mem awake wel" and s: "isCalledWithinCallback s"
    and n: "0 < n" "n \<le> 128" "unat a + n \<le> 0x100000"
  shows "\<exists>s'. BSP_ExternalFlashReadData exec a n s = (CA_ERROR_SUCCESS, stored (mem (chip s)) (unat a) n, s') \<and> ran s s' \<and>
     cycleInProgress s' = cycleInProgress s \<and> postInstructionWaitTasklet s' = postInstructionWaitTasklet s \<and>
     \<not> isCalledWithinCallback s' \<and> mem (chip s') = mem (chip s)"
proof -
  define tx where "tx = READ_DATA # address_octets a @ replicate n DONT_CARE_BYTE"
  define c1 where "c1 = snd (exec [RELEASE_POWERDOWN_ID] (chip s))"
  have l: "awake c1" "mem c1 = mem (chip s)" "\<And>c. mem (snd (exec [POWER_DOWN] c)) = mem c"
    using laws by (simp_all add: chip_laws_def Let_def c1_def)
  obtain rx c2 where c2: "exec tx c1 = (rx, c2)" by (cases "exec tx c1")
  have rd: "length rx = n + 4" "drop 4 rx = stored (mem (chip s)) (unat a) n" "mem c2 = mem (chip s)"
    using chip_reads [OF laws l(1) n(3) c2 [unfolded tx_def]] by (simp_all add: l(2))
  obtain b1 where 1: "until_success (W25Q80DLSNIG_ReleasePowerDown exec) s = s\<lparr>bus_busy := b1, chip := c1\<rparr>"
    using until_send [of exec "[RELEASE_POWERDOWN_ID]" 0 s] by (auto simp: W25Q80DLSNIG_ReleasePowerDown_def c1_def)
  have f: "(\<lambda>s. case W25Q80DLSNIG_ReadData exec a n s of (e, _, s) \<Rightarrow> (e, s)) = W25Q80DLSNIG_SendSPIInstruction exec tx (n + 4)"
    by (simp add: fun_eq_iff W25Q80DLSNIG_ReadData_def tx_def split: prod.split)
  define s1 where "s1 = s\<lparr>bus_busy := b1, chip := c1\<rparr>"
  obtain b2 where "until_success (W25Q80DLSNIG_SendSPIInstruction exec tx (n + 4)) s1 =
      s1\<lparr>bus_busy := b2, chip := snd (exec tx (chip s1)), rxbuf := take (n + 4) (fst (exec tx (chip s1))) @ drop (n + 4) (rxbuf s1)\<rparr>"
    using until_send [of exec tx "n + 4" s1] by blast
  moreover have "chip s1 = c1" "rxbuf s1 = rxbuf s" by (simp_all add: s1_def)
  moreover have "take (n + 4) rx = rx" using rd(1) by (simp only: take_all order_refl)
  ultimately have 2: "until_success (W25Q80DLSNIG_SendSPIInstruction exec tx (n + 4)) s1 =
      s1\<lparr>bus_busy := b2, chip := c2, rxbuf := rx @ drop (n + 4) (rxbuf s)\<rparr>"
    by (simp only: c2 fst_conv snd_conv)
  define s2 where "s2 = s1\<lparr>bus_busy := b2, chip := c2, rxbuf := rx @ drop (n + 4) (rxbuf s)\<rparr>"
  have c: "chip s2 = c2" by (simp add: s2_def)
  obtain b3 where 3: "until_success (W25Q80DLSNIG_PowerDown exec) s2 =
      s2\<lparr>bus_busy := b3, chip := snd (exec [POWER_DOWN] c2)\<rparr>"
    using until_send [of exec "[POWER_DOWN]" 0 s2] by (auto simp: W25Q80DLSNIG_PowerDown_def c)
  have d: "take n (drop 4 (rxbuf s2)) = stored (mem (chip s)) (unat a) n"
    using rd(1) by (simp add: s2_def flip: rd(2))
  have "int (unat a) + int n \<le> 0x100000" using n(3) by linarith
  moreover have "sint a = int (unat a)" using n by (intro sint_small) simp
  ultimately have "\<not> sint a > 0x100000 - int n" by linarith
  then have "BSP_ExternalFlashReadData exec a n s = (CA_ERROR_SUCCESS, stored (mem (chip s)) (unat a) n,
      s2\<lparr>bus_busy := b3, chip := snd (exec [POWER_DOWN] c2), isCalledWithinCallback := False\<rparr>)"
    using s n d unfolding BSP_ExternalFlashReadData_def f 1 s1_def [symmetric] Let_def 2 s2_def [symmetric] 3 by simp
  then show ?thesis by (simp add: ran_def l(3) rd(3) s2_def s1_def)
qed

lemma stored_parts: "n \<le> l \<Longrightarrow> stored m a l = stored m a n @ stored m (a + n) (l - n)"
  using upt_add_eq_append [of a "a + n" "l - n"] by (simp add: stored_def map_append [symmetric] del: map_append)

subsection \<open>The whole check\<close>

definition check_ready :: "ExtFlashCheckInfo \<Rightarrow> bool" where
  "check_ready i \<longleftrightarrow> 0 < c_readLimit i \<and> c_readLimit i \<le> 128 \<and> c_checklen i \<le> 256 \<and>
     unat (c_startAddress i) + unat (c_checklen i) \<le> flash_size"

definition check_frame :: "'c extflash \<Rightarrow> 'c extflash \<Rightarrow> bool" where
  "check_frame s s' \<longleftrightarrow> eraseInfo s' = eraseInfo s \<and> writeInfo s' = writeInfo s \<and> user_called s' = user_called s \<and> ota s' = ota s"

lemma check_step_piece:
  fixes mem :: "'c \<Rightarrow> nat \<Rightarrow> u8" and s :: "'c extflash"
  assumes laws: "chip_laws exec mem awake wel" and d: "due Check_helper s" 
    and r: "0 < c_readLimit (checkInfo s)" "c_readLimit (checkInfo s) \<le> 128" "c_checklen (checkInfo s) \<le> 256"
    and more_left: "c_checklen (checkInfo s) \<noteq> 0"
    and fits: "unat (c_startAddress (checkInfo s)) + min (unat (c_checklen (checkInfo s))) (unat (c_readLimit (checkInfo s))) \<le> flash_size"
  defines "i \<equiv> checkInfo s" and "n \<equiv> min (unat (c_checklen (checkInfo s))) (unat (c_readLimit (checkInfo s)))"
  shows "\<exists>s'. tasklet_step exec s = Some s' \<and> due Check_helper s' \<and> c_readLimit (checkInfo s') = c_readLimit i \<and>
     unat (c_startAddress (checkInfo s')) = unat (c_startAddress i) + n \<and>
     unat (c_checklen (checkInfo s')) = unat (c_checklen i) - n \<and> c_checksum (checkInfo s') = c_checksum i \<and>
     c_upstreamCallback (checkInfo s') = c_upstreamCallback i \<and>
     crc s' = HASH_CRC32_stream (stored (mem (chip s)) (unat (c_startAddress i)) n) (crc s) \<and>
     mem (chip s') = mem (chip s) \<and> upstream s' = upstream s \<and> check_frame s s'"
proof -
  let ?w = "ucast (min (c_checklen i) (c_readLimit i)) :: u8" let ?n = "unat ?w"
  have len: "0 < unat (c_checklen i)" using more_left by (simp add: i_def unat_gt_0)
  have lim: "0 < unat (c_readLimit i)" "unat (c_readLimit i) \<le> 128" "unat (c_checklen i) \<le> 256"
    using r by (auto simp: i_def word_less_nat_alt word_le_nat_alt)
  have n: "?n = min (unat (c_checklen i)) (unat (c_readLimit i))"
    using lim by (simp add: unsigned_ucast_eq take_bit_eq_mod unat_min)
  have n0: "0 < ?n" "?n \<le> 128" "?n \<le> unat (c_checklen i)" using n len lim by simp_all
  have fit: "unat (c_startAddress i) + ?n \<le> 0x100000" using fits unfolding n by (simp add: flash_size_def i_def)
  have fi: "checkInfo (fired s) = i" by (simp add: fired_def i_def)
  obtain s1 where s1: "BSP_ExternalFlashReadData exec (c_startAddress i) ?n (fired s) =
      (CA_ERROR_SUCCESS, stored (mem (chip s)) (unat (c_startAddress i)) ?n, s1)"
    "ran (fired s) s1" "\<not> cycleInProgress s1" "postInstructionWaitTasklet s1 = None" "\<not> isCalledWithinCallback s1"
    "mem (chip s1) = mem (chip s)"
    using read_reads [OF laws, of "fired s" ?n "c_startAddress i"] n0 fit by (auto simp: fired_def)
  let ?c = "HASH_CRC32_stream (stored (mem (chip s)) (unat (c_startAddress i)) ?n) (crc s)"
  define j where "j = i\<lparr>c_startAddress := c_startAddress i + of_nat ?n, c_checklen := c_checklen i - of_nat ?n\<rparr>"
  define s2 where "s2 = s1\<lparr>crc := ?c, checkInfo := j, nextCallbackToRun := Some Check_helper, callbackSchedulingTasklet := Some 0\<rparr>"
  have i1: "checkInfo s1 = i" "nextCallbackToRun s1 = None" "callbackSchedulingTasklet s1 = None" "crc s1 = crc s"
    using s1(2) by (simp_all add: ran_def fired_def i_def)
  have w: "read_and_reschedule exec ?w (fired s) = (CA_ERROR_SUCCESS, s2)"
    using s1(1,3) i1 unfolding read_and_reschedule_def fi Let_def
    by (simp add: BSP_ExternalFlashScheduleCallback_def Let_def s2_def j_def)
  have le: "\<not> c_checklen i > PAGE_SIZE" using r(3) by (simp add: i_def not_less)
  have "external_flash_check_helper exec (fired s) = s2"
    using w le more_left by (simp add: external_flash_check_helper_def fi Let_def i_def word_neq_0_conv report_def)
  then have st: "tasklet_step exec s = Some (s2\<lparr>isCalledWithinCallback := False\<rparr>)"
    using due_step [OF d, of exec] by (simp add: run_callback_def)
  have u: "unat (of_nat n' :: u32) = n'" if "n' \<le> 128" for n' using that by (simp add: unat_of_nat)
  have j: "unat (c_startAddress j) = unat (c_startAddress i) + ?n" "unat (c_checklen j) = unat (c_checklen i) - ?n"
    "c_readLimit j = c_readLimit i" "c_checksum j = c_checksum i" "c_upstreamCallback j = c_upstreamCallback i"
    using fit n0 u [OF n0(2)] unfolding j_def by (simp_all add: plus_no_wrap unat_sub word_le_nat_alt del: of_nat_unat)
  have nn: "n = ?n" unfolding n by (simp add: n_def i_def)
  show ?thesis unfolding nn
    using st n0 j s1 i1
    by (intro exI [of _ "s2\<lparr>isCalledWithinCallback := False\<rparr>"])
      (simp add: s2_def due_def check_frame_def ran_def fired_def)
qed

lemma check_step_more:
  assumes laws: "chip_laws exec mem awake wel" and d: "due Check_helper s" and r: "check_ready (checkInfo s)"
    and more_left: "c_checklen (checkInfo s) \<noteq> 0"
  defines "i \<equiv> checkInfo s"
  shows "\<exists>s' n. tasklet_step exec s = Some s' \<and> due Check_helper s' \<and> check_ready (checkInfo s') \<and> 0 < n \<and> n \<le> unat (c_checklen i) \<and>
     unat (c_startAddress (checkInfo s')) = unat (c_startAddress i) + n \<and>
     unat (c_checklen (checkInfo s')) = unat (c_checklen i) - n \<and> c_checksum (checkInfo s') = c_checksum i \<and>
     c_upstreamCallback (checkInfo s') = c_upstreamCallback i \<and>
     crc s' = HASH_CRC32_stream (stored (mem (chip s)) (unat (c_startAddress i)) n) (crc s) \<and>
     mem (chip s') = mem (chip s) \<and> upstream s' = upstream s \<and> check_frame s s'"
proof -
  define n where "n = min (unat (c_checklen i)) (unat (c_readLimit i))"
  have r': "0 < c_readLimit i" "c_readLimit i \<le> 128" "c_checklen i \<le> 256" "unat (c_startAddress i) + unat (c_checklen i) \<le> flash_size"
    using r by (simp_all add: check_ready_def i_def)
  then have fits: "unat (c_startAddress i) + n \<le> flash_size" unfolding n_def by linarith
  have n0: "0 < n" "n \<le> unat (c_checklen i)"
    using r'(1) more_left by (simp_all add: n_def i_def unat_gt_0 word_less_nat_alt)
  obtain s' where s': "tasklet_step exec s = Some s'" "due Check_helper s'" "c_readLimit (checkInfo s') = c_readLimit i"
    "unat (c_startAddress (checkInfo s')) = unat (c_startAddress i) + n"
    "unat (c_checklen (checkInfo s')) = unat (c_checklen i) - n" "c_checksum (checkInfo s') = c_checksum i"
    "c_upstreamCallback (checkInfo s') = c_upstreamCallback i"
    "crc s' = HASH_CRC32_stream (stored (mem (chip s)) (unat (c_startAddress i)) n) (crc s)"
    "mem (chip s') = mem (chip s)" "upstream s' = upstream s" "check_frame s s'"
    using check_step_piece [OF laws d r'(1-3) [unfolded i_def] more_left fits [unfolded n_def i_def]]
    unfolding n_def i_def by blast
  have "check_ready (checkInfo s')"
    using r' n0 s'(3-5) by (simp add: check_ready_def word_le_nat_alt le_trans [OF diff_le_self])
  then show ?thesis using s' n0 by blast
qed

definition check_status :: "u32 \<Rightarrow> u32 \<Rightarrow> ca_error" where
  "check_status c checksum = (if NOT c = checksum then CA_ERROR_SUCCESS else CA_ERROR_FAIL)"

lemma check_step_last:
  assumes d: "due Check_helper s" and done_: "c_checklen (checkInfo s) = 0"
  shows "\<exists>s'. tasklet_step exec s = Some s' \<and> idle s' \<and> chip s' = chip s \<and> check_frame s s' \<and> crc s' = 0xFFFFFFFF \<and>
     upstream s' = upstream s @ (if c_upstreamCallback (checkInfo s) then [check_status (crc s) (c_checksum (checkInfo s))] else [])"
proof -
  let ?e = "check_status (crc s) (c_checksum (checkInfo s))"
  let ?r = "report (c_upstreamCallback (checkInfo s)) False ?e ((fired s)\<lparr>crc := 0xFFFFFFFF\<rparr>)"
  have "external_flash_check_helper exec (fired s) = ?r"
    using done_ by (simp add: external_flash_check_helper_def fired_def Let_def check_status_def)
  then have st: "tasklet_step exec s = Some (?r\<lparr>isCalledWithinCallback := False\<rparr>)"
    using due_step [OF d, of exec] by (simp add: run_callback_def)
  have b: "?e \<noteq> CA_ERROR_BUSY" by (simp add: check_status_def)
  have "idle (?r\<lparr>isCalledWithinCallback := False\<rparr>)"
    by (simp add: idle_def report_def Let_def fired_def)
  with st show ?thesis
    by (simp add: report_result [OF b] check_frame_def) (simp add: fired_def)
qed

lemma check_runs:
  assumes laws: "chip_laws exec mem awake wel" and "due Check_helper s" "check_ready (checkInfo s)"
  defines "i \<equiv> checkInfo s"
  shows "\<exists>n \<le> Suc (unat (c_checklen i)). let s' = tasklet_steps n exec s in
     idle s' \<and> mem (chip s') = mem (chip s) \<and> check_frame s s' \<and> crc s' = 0xFFFFFFFF \<and>
     upstream s' = upstream s @ (if c_upstreamCallback i
       then [check_status (HASH_CRC32_stream (stored (mem (chip s)) (unat (c_startAddress i)) (unat (c_checklen i))) (crc s)) (c_checksum i)]
       else [])"
  using assms(2,3) unfolding i_def
proof (induction "unat (c_checklen (checkInfo s))" arbitrary: s rule: less_induct)
  case less
  let ?i = "checkInfo s"
  show ?case
  proof (cases "c_checklen ?i = 0")
    case True
    then show ?thesis
      using check_step_last [OF less.prems(1) True, of exec]
      by (intro exI [of _ 1]) (auto simp: stored_def Let_def)
  next
    case False
    obtain s' n where s': "tasklet_step exec s = Some s'" "due Check_helper s'" "check_ready (checkInfo s')" "0 < n" "n \<le> unat (c_checklen ?i)"
     "unat (c_startAddress (checkInfo s')) = unat (c_startAddress ?i) + n"
     "unat (c_checklen (checkInfo s')) = unat (c_checklen ?i) - n" "c_checksum (checkInfo s') = c_checksum ?i"
     "c_upstreamCallback (checkInfo s') = c_upstreamCallback ?i"
     "crc s' = HASH_CRC32_stream (stored (mem (chip s)) (unat (c_startAddress ?i)) n) (crc s)"
     "mem (chip s') = mem (chip s)" "upstream s' = upstream s" "check_frame s s'"
      using check_step_more [OF laws less.prems False] by blast
    have lt: "unat (c_checklen (checkInfo s')) < unat (c_checklen ?i)" using s'(4,5,7) by simp
    obtain j where j: "j \<le> Suc (unat (c_checklen (checkInfo s')))"
      "let s'' = tasklet_steps j exec s' in idle s'' \<and> mem (chip s'') = mem (chip s') \<and> check_frame s' s'' \<and> crc s'' = 0xFFFFFFFF \<and>
         upstream s'' = upstream s' @ (if c_upstreamCallback (checkInfo s')
           then [check_status (HASH_CRC32_stream (stored (mem (chip s')) (unat (c_startAddress (checkInfo s')))
              (unat (c_checklen (checkInfo s')))) (crc s')) (c_checksum (checkInfo s'))] else [])"
      using less.hyps [OF lt s'(2,3)] by blast
    have "check_frame s (tasklet_steps j exec s')" using s'(13) j(2) by (simp add: check_frame_def Let_def)
    moreover have "HASH_CRC32_stream (stored (mem (chip s)) (unat (c_startAddress ?i) + n) (unat (c_checklen ?i) - n))
        (HASH_CRC32_stream (stored (mem (chip s)) (unat (c_startAddress ?i)) n) (crc s)) =
        HASH_CRC32_stream (stored (mem (chip s)) (unat (c_startAddress ?i)) (unat (c_checklen ?i))) (crc s)"
      using stored_parts [OF s'(5)] by (simp add: crc_stream_append)
    ultimately show ?thesis
      using j lt s'(1) unfolding s'(6-12)
      by (intro exI [of _ "Suc j"]) (simp add: Let_def)
  qed
qed

lemma check_rests:
  assumes "chip_laws exec mem awake wel" "idle s" "check_ready (checkInfo s)" "n > unat (c_checklen (checkInfo s))"
  defines "i \<equiv> checkInfo s"
  shows "let s' = tasklet_steps n exec (snd (BSP_ExternalFlashScheduleCallback Check_helper s)) in
     idle s' \<and> mem (chip s') = mem (chip s) \<and> ota s' = ota s \<and> crc s' = 0xFFFFFFFF \<and>
     upstream s' = upstream s @ (if c_upstreamCallback i
       then [check_status (HASH_CRC32_stream (stored (mem (chip s)) (unat (c_startAddress i)) (unat (c_checklen i))) (crc s)) (c_checksum i)]
       else [])"
proof -
  let ?s = "s\<lparr>nextCallbackToRun := Some Check_helper, callbackSchedulingTasklet := Some 0\<rparr>"
  have "check_ready (checkInfo ?s)" using assms(3) by simp
  then have "\<exists>k \<le> Suc (unat (c_checklen i)). let s' = tasklet_steps k exec ?s in
     idle s' \<and> mem (chip s') = mem (chip s) \<and> check_frame ?s s' \<and> crc s' = 0xFFFFFFFF \<and>
     upstream s' = upstream s @ (if c_upstreamCallback i
       then [check_status (HASH_CRC32_stream (stored (mem (chip s)) (unat (c_startAddress i)) (unat (c_checklen i))) (crc s)) (c_checksum i)]
       else [])"
    using check_runs [OF assms(1) due_scheduled(2) [OF assms(2), of Check_helper]]
    unfolding i_def by (simp cong: if_cong split del: if_split)
  then obtain k where "k \<le> Suc (unat (c_checklen i))"
    and k: "let s' = tasklet_steps k exec ?s in
     idle s' \<and> mem (chip s') = mem (chip s) \<and> check_frame ?s s' \<and> crc s' = 0xFFFFFFFF \<and>
     upstream s' = upstream s @ (if c_upstreamCallback i
       then [check_status (HASH_CRC32_stream (stored (mem (chip s)) (unat (c_startAddress i)) (unat (c_checklen i))) (crc s)) (c_checksum i)]
       else [])"
    by blast
  then have "k \<le> n" using assms(4) by (simp add: i_def)
  then have "tasklet_steps n exec ?s = tasklet_steps k exec ?s"
    using k idle_rests by (intro tasklet_steps_rest) (auto simp: Let_def)
  then show ?thesis
    using k due_scheduled(1) [OF assms(2), of Check_helper] by (simp add: Let_def check_frame_def)
qed

end
