(* ===== verification/ExtFlashUpdate.thy ===== *)
theory ExtFlashUpdate
  imports ExtFlashCheck
begin

text \<open>
  The three procedures one after the other, as a firmware update uses them: an area is erased, an image
  is written to it, and the image is checked; and what a check that fails leaves to the next one.
\<close>

unbundle bit_operations_syntax

text \<open>A procedure is scheduled and the scheduler runs.\<close>

definition perform :: "'c chip_exec \<Rightarrow> nat \<Rightarrow> ext_callback \<Rightarrow> 'c extflash \<Rightarrow> 'c extflash" where
  "perform exec n cb s = tasklet_steps n exec (snd (BSP_ExternalFlashScheduleCallback cb s))"

lemma check_status_crc32:
  "check_status (HASH_CRC32_stream d 0xFFFFFFFF) c = (if HASH_CRC32 d = c then CA_ERROR_SUCCESS else CA_ERROR_FAIL)"
  by (simp add: check_status_def HASH_CRC32_def)

lemma stored_programmed:
  assumes "\<And>x. a \<le> x \<Longrightarrow> x < a + length d \<Longrightarrow> m x = 0xFF"
  shows "stored (programmed a d m) a (length d) = d"
proof -
  have "(0xFF :: u8) AND y = y" for y
  proof -
    have "(0xFF :: u8) = - 1" by simp
    then show ?thesis by (simp only: and.left_neutral)
  qed
  then show ?thesis using assms by (intro nth_equalityI) (simp_all add: stored_def programmed_def)
qed

lemma stored_within: "stored m (a + i) n = take n (drop i (stored m a l))" if "i + n \<le> l"
  using that by (intro nth_equalityI) (simp_all add: stored_def add.assoc)

lemma erase_perform:
  assumes "chip_laws exec mem awake wel" "idle s" "erase_ready i" "n > flash_size" "e_upstreamCallback i"
  defines "s' \<equiv> perform exec n Erase_helper (s\<lparr>eraseInfo := i\<rparr>)"
  shows "idle s'" "mem (chip s') = erase_range (unat (e_startAddress i)) (unat (e_endAddress i)) (mem (chip s))"
    "upstream s' = upstream s @ [CA_ERROR_SUCCESS]" "crc s' = crc s"
proof -
  have n: "n > unat (e_endAddress i) - unat (e_startAddress i)" using assms(3,4) unfolding erase_ready_def by linarith
  have i: "idle (s\<lparr>eraseInfo := i\<rparr>)" using assms(2) by (simp add: idle_def)
  show "idle s'" "mem (chip s') = erase_range (unat (e_startAddress i)) (unat (e_endAddress i)) (mem (chip s))"
    "upstream s' = upstream s @ [CA_ERROR_SUCCESS]" "crc s' = crc s"
    using erase_rests [OF assms(1) i, of n] assms(3,5) n by (simp_all add: Let_def s'_def perform_def)
qed

lemma write_perform:
  assumes "chip_laws exec mem awake wel" "idle s" "write_ready i" "n > flash_size" "w_upstreamCallback i"
  defines "s' \<equiv> perform exec n Write_helper (s\<lparr>writeInfo := i\<rparr>)"
  shows "idle s'" "mem (chip s') = programmed (unat (w_startAddress i)) (take (unat (w_writeLength i)) (w_data i)) (mem (chip s))"
    "upstream s' = upstream s @ [CA_ERROR_SUCCESS]" "crc s' = crc s"
proof -
  have n: "n > unat (w_writeLength i)" using assms(3,4) by (simp add: write_ready_def)
  have i: "idle (s\<lparr>writeInfo := i\<rparr>)" using assms(2) by (simp add: idle_def)
  show "idle s'" "mem (chip s') = programmed (unat (w_startAddress i)) (take (unat (w_writeLength i)) (w_data i)) (mem (chip s))"
    "upstream s' = upstream s @ [CA_ERROR_SUCCESS]" "crc s' = crc s"
    using write_rests [OF assms(1) i, of n] assms(3,5) n by (simp_all add: Let_def s'_def perform_def)
qed

lemma check_perform:
  assumes "chip_laws exec mem awake wel" "idle s" "check_ready i" "n > flash_size" "c_upstreamCallback i"
  defines "s' \<equiv> perform exec n Check_helper (s\<lparr>checkInfo := i\<rparr>)"
  shows "idle s'" "mem (chip s') = mem (chip s)" "crc s' = 0xFFFFFFFF"
    "upstream s' = upstream s @
       [check_status (HASH_CRC32_stream (stored (mem (chip s)) (unat (c_startAddress i)) (unat (c_checklen i))) (crc s)) (c_checksum i)]"
proof -
  have n: "n > unat (c_checklen i)" using assms(3,4) by (simp add: check_ready_def)
  have i: "idle (s\<lparr>checkInfo := i\<rparr>)" using assms(2) by (simp add: idle_def)
  show "idle s'" "mem (chip s') = mem (chip s)" "crc s' = 0xFFFFFFFF"
    "upstream s' = upstream s @
       [check_status (HASH_CRC32_stream (stored (mem (chip s)) (unat (c_startAddress i)) (unat (c_checklen i))) (crc s)) (c_checksum i)]"
    using check_rests [OF assms(1) i, of n] assms(3,5) n by (simp_all add: Let_def s'_def perform_def)
qed

subsection \<open>A chip\<close>

text \<open>A concrete chip that keeps the laws: its octets, its power state and its write enable latch.\<close>

type_synonym sample_chip = "(nat \<Rightarrow> u8) \<times> bool \<times> bool"

definition address_of :: "u8 \<Rightarrow> u8 \<Rightarrow> u8 \<Rightarrow> nat" where
  "address_of a b c = unat a * 0x10000 + unat b * 0x100 + unat c"

definition sample_exec :: "sample_chip chip_exec" where
  "sample_exec tx s = (case s of (m, on, wel) \<Rightarrow>
     if tx = [RELEASE_POWERDOWN_ID] then ([], m, True, wel)
     else if \<not> on then ([], m, on, wel)
     else if tx = [POWER_DOWN] then ([], m, False, wel)
     else if tx = [WRITE_ENABLE] then ([], m, True, True)
     else if tx = [CHIP_ERASE] then ([], if wel then erased 0 flash_size m else m, True, False)
     else case tx of
       i # a # b # c # d \<Rightarrow>
         (let x = address_of a b c;
              erase = (\<lambda>n. if wel then erased (x div n * n) n m else m) in
          if i = SECTOR_ERASE_4KB then ([], erase 0x1000, True, False)
          else if i = BLOCK_ERASE_32KB then ([], erase 0x8000, True, False)
          else if i = BLOCK_ERASE_64KB then ([], erase 0x10000, True, False)
          else if i = PAGE_PROGRAM then ([], if wel then programmed x d m else m, True, False)
          else if i = READ_DATA then (replicate 4 0 @ stored m x (length d), m, True, wel)
          else ([], m, on, wel))
     | _ \<Rightarrow> ([], m, on, wel))"

lemma address_of_octets:
  fixes a :: u32
  assumes "unat a < 0x1000000"
  shows "address_of (ucast (drop_bit 16 a)) (ucast (drop_bit 8 a AND 0xFF)) (ucast (a AND 0xFF)) = unat a"
proof -
  have f: "unat (y AND 0xFF) = unat y mod 256" for y :: u32
  proof -
    have "y AND 0xFF = take_bit 8 y" by (simp add: take_bit_eq_mask mask_eq_exp_minus_1)
    then show ?thesis by (simp add: take_bit_eq_mod unat_mod)
  qed
  have "unat (drop_bit 16 a) = unat a div 65536" "unat (drop_bit 8 a) = unat a div 256"
    by (simp_all add: drop_bit_eq_div unat_div)
  moreover have "unat a div 65536 < 256" using assms by (simp add: less_mult_imp_div_less)
  ultimately have "unat (ucast (drop_bit 16 a) :: u8) = unat a div 65536"
    "unat (ucast (drop_bit 8 a AND 0xFF) :: u8) = unat a div 256 mod 256" "unat (ucast (a AND 0xFF) :: u8) = unat a mod 256"
    by (simp_all add: unsigned_ucast_eq take_bit_eq_mod f)
  moreover have "unat a div 65536 = unat a div 256 div 256" by (simp add: div_mult2_eq [symmetric])
  ultimately show ?thesis
    using div_mult_mod_eq [of "unat a div 256" 256] div_mult_mod_eq [of "unat a" 256] unfolding address_of_def by linarith
qed

lemma sample_chip_laws: "chip_laws sample_exec fst (\<lambda>c. fst (snd c)) (\<lambda>c. snd (snd c))"
proof -
  have ad: "address_of (ucast (drop_bit 16 a)) (ucast (drop_bit 8 a AND 0xFF)) (ucast (a AND 0xFF)) = unat a"
    if "unat a \<le> flash_size" for a :: u32
    by (rule address_of_octets) (use that in \<open>simp add: flash_size_def\<close>)
  have "unat a + n \<le> flash_size \<Longrightarrow> unat a \<le> flash_size" "unat a < flash_size \<Longrightarrow> unat a \<le> flash_size" for a :: u32 and n
    by simp_all
  note ad = ad [OF this(1)] ad [OF this(2)]
  show ?thesis
    unfolding chip_laws_def sample_exec_def address_octets_def
    by (intro conjI allI impI) (auto simp: ad Let_def stored_def)
qed

subsection \<open>Erase, write, check\<close>

text \<open>A driver at rest, with a chip whose octets are all 0x55, and requests of it.\<close>

definition sample_flash :: "sample_chip extflash" where
  "sample_flash = \<lparr>chip = (\<lambda>_. 0x55, False, False), bus_busy = [True, False, True], rxbuf = replicate 132 0,
     cycleInProgress = False, postInstructionWaitTasklet = None, callbackSchedulingTasklet = None,
     nextCallbackToRun = None, isCalledWithinCallback = False,
     eraseInfo = \<lparr>e_startAddress = 0x1F00, e_eraseLength = 0x1000, e_endAddress = 0x2F00, e_otaCallback = False, e_upstreamCallback = True\<rparr>,
     writeInfo = \<lparr>w_startAddress = 0x20FE, w_writeLength = 3, w_writeLimit = 128, w_pageSize = 256,
        w_otaCallback = False, w_upstreamCallback = True, w_data = [1, 2, 3]\<rparr>,
     checkInfo = \<lparr>c_startAddress = 0x20FF, c_checklen = 2, c_checksum = HASH_CRC32 [2, 3], c_readLimit = 128, c_upstreamCallback = True\<rparr>,
     crc = 0xFFFFFFFF, upstream = [], ota = 0, user_called = []\<rparr>"

lemma sample_flash_ready:
  "idle sample_flash" "crc sample_flash = 0xFFFFFFFF" "erase_ready (eraseInfo sample_flash)" "write_ready (writeInfo sample_flash)"
  "check_ready (checkInfo sample_flash)" "upstream sample_flash = []"
  by (simp_all add: sample_flash_def idle_def erase_ready_def write_ready_def check_ready_def flash_size_def)





subsection \<open>A check after a failed one\<close>

lemma read_refused:
  assumes "isCalledWithinCallback s" "0 < n" "n \<le> 128" "unat a \<le> 0x100000" "unat a + n > 0x100000"
  shows "BSP_ExternalFlashReadData exec a n s = (CA_ERROR_INVALID_ARGS, [], s)"
proof -
  have "int (unat a) + int n > 0x100000" using assms(5) by linarith
  moreover have "sint a = int (unat a)" using assms by (intro sint_small) simp
  ultimately have "sint a > 0x100000 - int n" by linarith
  then show ?thesis using assms(1) by (simp add: BSP_ExternalFlashReadData_def)
qed

lemma check_step_refused:
  assumes d: "due Check_helper s" and r: "0 < c_readLimit i" "c_readLimit i \<le> 128" "c_checklen i \<le> 256" "c_checklen i \<noteq> 0"
    and i: "checkInfo s = i" "unat (c_startAddress i) \<le> 0x100000"
    "unat (c_startAddress i) + min (unat (c_checklen i)) (unat (c_readLimit i)) > 0x100000" "c_upstreamCallback i"
  shows "\<exists>s'. tasklet_step exec s = Some s' \<and> idle s' \<and> chip s' = chip s \<and> crc s' = crc s \<and>
     upstream s' = upstream s @ [CA_ERROR_INVALID_ARGS]"
proof -
  let ?w = "ucast (min (c_checklen i) (c_readLimit i)) :: u8"
  have len: "0 < unat (c_checklen i)" using r(4) by (simp add: unat_gt_0)
  have lim: "0 < unat (c_readLimit i)" "unat (c_readLimit i) \<le> 128" "unat (c_checklen i) \<le> 256"
    using r by (auto simp: word_less_nat_alt word_le_nat_alt)
  have n: "unat ?w = min (unat (c_checklen i)) (unat (c_readLimit i))"
    using lim by (simp add: unsigned_ucast_eq take_bit_eq_mod unat_min)
  have "BSP_ExternalFlashReadData exec (c_startAddress i) (unat ?w) (fired s) = (CA_ERROR_INVALID_ARGS, [], fired s)"
    unfolding n using len lim i by (intro read_refused) (auto simp: fired_def)
  moreover have fi: "checkInfo (fired s) = i" using i(1) by (simp add: fired_def)
  ultimately have w: "read_and_reschedule exec ?w (fired s) = (CA_ERROR_INVALID_ARGS, fired s)"
    unfolding read_and_reschedule_def fi Let_def by simp
  have le: "\<not> c_checklen i > PAGE_SIZE" using r(3) by (simp add: not_less)
  let ?r = "report True False CA_ERROR_INVALID_ARGS (fired s)"
  have "external_flash_check_helper exec (fired s) = ?r"
    using w le r(4) i(4) by (simp add: external_flash_check_helper_def fi Let_def word_neq_0_conv)
  then have st: "tasklet_step exec s = Some (?r\<lparr>isCalledWithinCallback := False\<rparr>)"
    using due_step [OF d, of exec] by (simp add: run_callback_def)
  have "idle (?r\<lparr>isCalledWithinCallback := False\<rparr>)" by (simp add: idle_def report_def Let_def fired_def)
  with st show ?thesis by (simp add: report_result) (simp add: fired_def)
qed

lemma check_refused_second:
  assumes laws: "chip_laws exec mem awake wel" and s: "idle s" and i: "0 < c_readLimit i" "c_readLimit i \<le> 128" "c_checklen i \<le> 256"
    "unat (c_startAddress i) + unat (c_readLimit i) \<le> flash_size"
    "flash_size < unat (c_startAddress i) + unat (c_checklen i)" "unat (c_checklen i) \<le> 2 * unat (c_readLimit i)"
    and up: "c_upstreamCallback i" and n: "n > 1"
  defines "s' \<equiv> perform exec n Check_helper (s\<lparr>checkInfo := i\<rparr>)"
  shows "idle s' \<and> mem (chip s') = mem (chip s) \<and> upstream s' = upstream s @ [CA_ERROR_INVALID_ARGS] \<and>
     crc s' = HASH_CRC32_stream (stored (mem (chip s)) (unat (c_startAddress i)) (unat (c_readLimit i))) (crc s)"
proof -
  define t where "t = s\<lparr>checkInfo := i, nextCallbackToRun := Some Check_helper, callbackSchedulingTasklet := Some 0\<rparr>"
  have id: "idle (s\<lparr>checkInfo := i\<rparr>)" using s by (simp add: idle_def)
  have t: "due Check_helper t" "checkInfo t = i" "chip t = chip s" "upstream t = upstream s" "crc t = crc s"
    using due_scheduled(2) [OF id, of Check_helper] by (simp_all add: t_def)
  have lim: "unat (c_readLimit i) \<le> 128" "unat (c_checklen i) \<le> 256" using i(2,3) by (simp_all add: word_le_nat_alt)
  have mn: "min (unat (c_checklen i)) (unat (c_readLimit i)) = unat (c_readLimit i)" using i(4,5) by linarith
  have nz: "c_checklen i \<noteq> 0" using i(4,5) by auto
  obtain t1 where t1: "tasklet_step exec t = Some t1" "due Check_helper t1" "c_readLimit (checkInfo t1) = c_readLimit i"
    "unat (c_startAddress (checkInfo t1)) = unat (c_startAddress i) + unat (c_readLimit i)"
    "unat (c_checklen (checkInfo t1)) = unat (c_checklen i) - unat (c_readLimit i)"
    "c_upstreamCallback (checkInfo t1) = c_upstreamCallback i"
    "crc t1 = HASH_CRC32_stream (stored (mem (chip s)) (unat (c_startAddress i)) (unat (c_readLimit i))) (crc s)"
    "mem (chip t1) = mem (chip s)" "upstream t1 = upstream s"
    using check_step_piece [OF laws t(1), unfolded t mn] i(1-4) nz by auto
  have l1: "unat (c_checklen (checkInfo t1)) > 0" "unat (c_checklen (checkInfo t1)) \<le> unat (c_readLimit i)"
    using i(4-6) unfolding t1(5) by linarith+
  have a1: "unat (c_startAddress (checkInfo t1)) \<le> 0x100000"
    "unat (c_startAddress (checkInfo t1)) + min (unat (c_checklen (checkInfo t1))) (unat (c_readLimit (checkInfo t1))) > 0x100000"
    using i(4,5) l1 t1(5) unfolding t1(3,4) flash_size_def by linarith+
  have w1: "c_checklen (checkInfo t1) \<le> 256" "c_checklen (checkInfo t1) \<noteq> 0"
    using l1 lim by (auto simp: word_le_nat_alt)
  obtain t2 where t2: "tasklet_step exec t1 = Some t2" "idle t2" "chip t2 = chip t1" "crc t2 = crc t1"
    "upstream t2 = upstream t1 @ [CA_ERROR_INVALID_ARGS]"
    using check_step_refused [OF t1(2) i(1,2) [folded t1(3)] w1 refl a1] up t1(6) by auto
  have two: "tasklet_steps 2 exec t = t2" using t1(1) t2(1) by (simp add: eval_nat_numeral)
  then have "tasklet_steps n exec t = t2"
    using tasklet_steps_rest [of exec 2 t n] idle_rests [OF t2(2)] n by simp
  moreover have "s' = tasklet_steps n exec t"
    using due_scheduled(1) [OF id, of Check_helper] by (simp add: s'_def perform_def t_def)
  ultimately show ?thesis using t1 t2 by simp
qed

text \<open>
  C36: A check whose second piece lies behind the end of the chip is refused, but what it had summed up
  stays: the next check, of a range that is in order, reports success exactly when its checksum is
  that of the first piece of the refused check followed by its own range.
\<close>
theorem check_after_refused_check:
  assumes "chip_laws exec mem awake wel" "idle s" "crc s = 0xFFFFFFFF" "n > flash_size"
    and "0 < c_readLimit i" "c_readLimit i \<le> 128" "c_checklen i \<le> 256"
    and "unat (c_startAddress i) + unat (c_readLimit i) \<le> flash_size"
    and "flash_size < unat (c_startAddress i) + unat (c_checklen i)" "unat (c_checklen i) \<le> 2 * unat (c_readLimit i)"
    and "c_upstreamCallback i" "check_ready c" "c_upstreamCallback c"
  shows "let s1 = perform exec n Check_helper (s\<lparr>checkInfo := i\<rparr>);
       s2 = perform exec n Check_helper (s1\<lparr>checkInfo := c\<rparr>);
       left = stored (mem (chip s)) (unat (c_startAddress i)) (unat (c_readLimit i));
       own = stored (mem (chip s)) (unat (c_startAddress c)) (unat (c_checklen c))
     in upstream s2 = upstream s @
       [CA_ERROR_INVALID_ARGS, if HASH_CRC32 (left @ own) = c_checksum c then CA_ERROR_SUCCESS else CA_ERROR_FAIL]"
proof -
  define s1 where "s1 = perform exec n Check_helper (s\<lparr>checkInfo := i\<rparr>)"
  have n: "n > 1" using assms(4) by (simp add: flash_size_def)
  have s1: "idle s1" "mem (chip s1) = mem (chip s)" "upstream s1 = upstream s @ [CA_ERROR_INVALID_ARGS]"
    "crc s1 = HASH_CRC32_stream (stored (mem (chip s)) (unat (c_startAddress i)) (unat (c_readLimit i))) 0xFFFFFFFF"
    using check_refused_second [OF assms(1,2,5-11) n] assms(3) by (simp_all add: s1_def)
  show ?thesis
    unfolding Let_def s1_def [symmetric] check_perform(4) [OF assms(1) s1(1) assms(12,4,13)] s1(2-4)
      crc_stream_append [symmetric] check_status_crc32 by simp
qed

theorem check_after_refused_check_witness:
  "let i = \<lparr>c_startAddress = 0xFFFFE, c_checklen = 4, c_checksum = 0, c_readLimit = 2, c_upstreamCallback = True\<rparr>;
       c = (checkInfo sample_flash)\<lparr>c_checksum := HASH_CRC32 [0x55, 0x55]\<rparr>;
       s1 = perform sample_exec 0x100001 Check_helper (sample_flash\<lparr>checkInfo := i\<rparr>);
       s2 = perform sample_exec 0x100001 Check_helper (s1\<lparr>checkInfo := c\<rparr>)
     in stored (fst (chip sample_flash)) (unat (c_startAddress c)) (unat (c_checklen c)) = [0x55, 0x55] \<and>
       upstream s2 = [CA_ERROR_INVALID_ARGS, CA_ERROR_FAIL]"
proof -
  let ?i = "\<lparr>c_startAddress = 0xFFFFE, c_checklen = 4, c_checksum = 0, c_readLimit = 2, c_upstreamCallback = True\<rparr>"
  let ?c = "(checkInfo sample_flash)\<lparr>c_checksum := HASH_CRC32 [0x55, 0x55]\<rparr>"
  have n: "flash_size < 0x100001" by (simp add: flash_size_def)
  have c: "check_ready ?c" "c_upstreamCallback ?c" "unat (c_startAddress (checkInfo sample_flash)) = 0x20FF" "unat (c_checklen (checkInfo sample_flash)) = 2"
    by (simp_all add: sample_flash_def check_ready_def flash_size_def)
  have st: "stored (fst (chip sample_flash)) 0x20FF 2 = [0x55, 0x55]" "stored (fst (chip sample_flash)) 0xFFFFE 2 = [0x55, 0x55]"
    by (simp_all add: stored_def sample_flash_def upt_rec)
  have h: "HASH_CRC32 ([0x55, 0x55] @ [0x55, 0x55]) \<noteq> HASH_CRC32 [0x55, 0x55]" by code_simp
  show ?thesis
    using check_after_refused_check [OF sample_chip_laws sample_flash_ready(1,2) n, of ?i ?c] c(1,2) sample_flash_ready(6) st h
    by (simp add: Let_def flash_size_def c(3,4))
qed

end
