(* ===== verification/Usb.thy ===== *)
theory Usb
  imports Uart
begin

text \<open>
  The USB link between a host and a device: the host's exchange
  (\<^verbatim>\<open>posix/ca821x-posix/source/usb-exchange/usb-exchange.c\<close>), the device's framing
  (\<^verbatim>\<open>cascoda_serial_usb.c\<close>) and the rings of packets between it and the USB interrupt
  (\<^verbatim>\<open>cascoda_usb_m2351.c\<close>). Messages travel in packets of 64 octets: a control octet with the number
  of octets and marks for the first and the last packet of a message, then the octets. The library
  below (hidapi, the board's USB library) is a parameter: the results of its calls and what an
  endpoint holds.
\<close>

unbundle bit_operations_syntax

abbreviation MAX_FRAG_SIZE :: nat where "MAX_FRAG_SIZE \<equiv> 64"
abbreviation FRAG_LEN_MASK :: u8 where "FRAG_LEN_MASK \<equiv> 0x3F"
abbreviation FRAG_FIRST_MASK :: u8 where "FRAG_FIRST_MASK \<equiv> 0x40"
abbreviation FRAG_LAST_MASK :: u8 where "FRAG_LAST_MASK \<equiv> 0x80"

text \<open>\<^verbatim>\<open>memcpy\<close> to a place in a buffer; octets behind its end make the list longer.\<close>

definition put :: "bytes \<Rightarrow> nat \<Rightarrow> bytes \<Rightarrow> bytes" where
  "put buf off d = take off buf @ d @ drop (off + length d) buf"

subsection \<open>The host\<close>

text \<open>\<open>None\<close> is a failed assertion. The result says whether more packets follow.\<close>

definition get_next_frag :: "bytes \<Rightarrow> u8 \<Rightarrow> bytes \<Rightarrow> u8 \<Rightarrow> (bool \<times> bytes \<times> u8) option" where
  "get_next_frag buf_in len_in frag_out offset =
     (let end_offset = uint offset + int MAX_FRAG_SIZE - 1;
          is_first = (offset = 0);
          is_last = (end_offset \<ge> uint len_in);
          end_offset = (if is_last then uint len_in else end_offset);
          frag_len = word_of_int (end_offset - uint offset) :: u8
      in if frag_len AND FRAG_LEN_MASK \<noteq> frag_len then None
         else
           let control = frag_len OR (if is_first then FRAG_FIRST_MASK else 0) OR (if is_last then FRAG_LAST_MASK else 0);
               frag_out = put (frag_out[0 := 0, 1 := control]) 2 (take (unat frag_len) (drop (unat offset) buf_in))
           in Some (\<not> is_last, frag_out, if is_last then 0 else word_of_int end_offset))"

text \<open>The result says whether the message goes on; then the buffer, its length and the offset.\<close>

definition assemble_frags :: "bytes \<Rightarrow> bytes \<Rightarrow> u8 \<Rightarrow> u8 \<Rightarrow> bool \<times> bytes \<times> u8 \<times> u8" where
  "assemble_frags frag_in buf_out len_out offset =
     (let frag_len = frag_in ! 0 AND FRAG_LEN_MASK;
          is_last = (frag_in ! 0 AND FRAG_LAST_MASK \<noteq> 0);
          is_first = (frag_in ! 0 AND FRAG_FIRST_MASK \<noteq> 0);
          missed = (is_first \<noteq> (offset = 0))
      in if missed \<and> \<not> is_first then (False, buf_out, 0, 0)
         else
           let offset = (if missed then 0 else offset);
               buf_out = put buf_out (unat offset) (take (unat frag_len) (drop 1 frag_in));
               offset = offset + frag_len
           in (\<not> is_last, buf_out, offset, if is_last then 0 else offset))"

text \<open>
  The device as hidapi shows it: what the next reads give, which of the next writes fail, the packets
  written, and whether the next attempts to open the device again succeed.
\<close>

datatype hid_read = Hid_frag bytes | Hid_none | Hid_error

record hid =
  hid_reads :: "hid_read list"
  hid_write_fails :: "bool list"
  hid_written :: "bytes list"
  hid_reloads :: "bool list"

definition dhid_write :: "bytes \<Rightarrow> hid \<Rightarrow> bool \<times> hid" where
  "dhid_write frag h =
     (case hid_write_fails h of
        True # fs \<Rightarrow> (False, h\<lparr>hid_write_fails := fs\<rparr>)
      | fs \<Rightarrow> (True, h\<lparr>hid_write_fails := drop 1 fs, hid_written := hid_written h @ [drop 1 frag]\<rparr>))"

definition hid_reload :: "hid \<Rightarrow> bool \<times> hid" where
  "hid_reload h = (case hid_reloads h of True # rs \<Rightarrow> (True, h\<lparr>hid_reloads := rs\<rparr>) | rs \<Rightarrow> (False, h\<lparr>hid_reloads := drop 1 rs\<rparr>))"

abbreviation err_usb :: int where "err_usb \<equiv> 1"
abbreviation err_ca821x :: int where "err_ca821x \<equiv> 2"

text \<open>
  The packets of one message. Without a packet the first read gives up, and any later one waits
  (\<open>None\<close>). The results are that of the last read, the buffer, the length and what was not read.
\<close>

fun read_frags :: "bool \<Rightarrow> hid_read list \<Rightarrow> bytes \<Rightarrow> u8 \<Rightarrow> u8 \<Rightarrow> (int \<times> bytes \<times> u8 \<times> hid_read list) option" where
  "read_frags first [] buf len offset = (if first then Some (0, buf, len, []) else None)"
| "read_frags first (Hid_none # rs) buf len offset = Some (0, buf, len, rs)"
| "read_frags first (Hid_error # rs) buf len offset = Some (-1, buf, len, rs)"
| "read_frags first (Hid_frag f # rs) buf len offset =
     (case assemble_frags f buf len offset of
        (go_on, buf, len, offset) \<Rightarrow>
          if go_on then read_frags False rs buf len offset else Some (int (length f), buf, len, rs))"

definition usb_try_read :: "bytes \<Rightarrow> hid \<Rightarrow> (int \<times> bytes \<times> hid) option" where
  "usb_try_read buf h =
     (case read_frags True (hid_reads h) buf 0 0 of
        None \<Rightarrow> None
      | Some (error, buf, len, rs) \<Rightarrow>
          let h = h\<lparr>hid_reads := rs\<rparr>;
              (error, len, h) =
                (if error < 0
                 then (case hid_reload h of (ok, h) \<Rightarrow> if ok then (0, 0, h) else (- err_usb, len, h))
                 else (error, len, h));
              error = (if buf ! 0 = 0xF0 \<and> len \<noteq> 0 \<and> buf ! 3 \<noteq> 0 then - err_ca821x else error)
          in Some (if error \<le> 0 then error else uint len, buf, h))"

text \<open>Fifty-one attempts for every packet.\<close>

primrec write_retry :: "nat \<Rightarrow> bytes \<Rightarrow> hid \<Rightarrow> bool \<times> hid" where
  "write_retry 0 frag h = dhid_write frag h"
| "write_retry (Suc n) frag h =
     (case dhid_write frag h of (ok, h) \<Rightarrow> if ok then (True, h) else write_retry n frag h)"

lemma dhid_write_reloads [simp]: "hid_reloads (snd (dhid_write frag h)) = hid_reloads h"
  by (auto simp: dhid_write_def split: list.split bool.split)

lemma write_retry_reloads [simp]: "hid_reloads (snd (write_retry n frag h)) = hid_reloads h"
proof (induction n arbitrary: h)
  case (Suc n)
  then show ?case using dhid_write_reloads [of frag h] by (cases "dhid_write frag h") simp
qed simp

function send_frags :: "bytes \<Rightarrow> u8 \<Rightarrow> bytes \<Rightarrow> u8 \<Rightarrow> hid \<Rightarrow> (bool \<times> hid) option" where
  "send_frags buf len frag_buf offset h =
     (case get_next_frag buf len frag_buf offset of
        None \<Rightarrow> None
      | Some (rval, frag_buf, offset) \<Rightarrow>
          (case write_retry 50 frag_buf h of
             (ok, h) \<Rightarrow> if rval \<and> ok then send_frags buf len frag_buf offset h else Some (ok, h)))"
  by pat_completeness auto

lemma get_next_frag_offset:
  assumes "get_next_frag buf len frag offset = Some (True, frag', offset')"
  shows "unat offset' = unat offset + 63" "unat offset + 63 < unat len"
proof -
  have l: "uint offset + 63 < uint len" and o: "offset' = word_of_int (uint offset + 63)"
    using assms by (auto simp: get_next_frag_def Let_def not_le split: if_splits)
  from l have "int (unat offset + 63) < int (unat len)" by simp
  then show "unat offset + 63 < unat len" by linarith
  then have "unat offset + 63 < 256" using unat_u8_less [of len] by linarith
  then show "unat offset' = unat offset + 63"
    by (simp add: o unat_word_ariths wi_hom_add [symmetric])
qed

termination send_frags
proof (relation "measure (\<lambda>(buf, len, frag, offset, h). unat len - unat offset)", goal_cases)
  case (2 buf len frag offset h x rval y frag1 off1 ok h1)
  then have "get_next_frag buf len frag offset = Some (True, frag1, off1)" by (cases x) auto
  then show ?case using get_next_frag_offset [of buf len frag offset frag1 off1] by simp
qed simp

declare send_frags.simps [simp del]

lemma send_frags_reloads: "send_frags buf len frag offset h = Some (ok, h') \<Longrightarrow> hid_reloads h' = hid_reloads h"
proof (induction buf len frag offset h rule: send_frags.induct)
  case (1 buf len frag offset h)
  show ?case
  proof (cases "get_next_frag buf len frag offset")
    case None
    then show ?thesis using "1.prems" by (subst (asm) send_frags.simps) simp
  next
    case (Some r)
    obtain rval frag1 off1 where r: "r = (rval, frag1, off1)" by (cases r)
    obtain ok1 h1 where w: "write_retry 50 frag1 h = (ok1, h1)" by (cases "write_retry 50 frag1 h")
    have "hid_reloads h1 = hid_reloads h" using write_retry_reloads [of 50 frag1 h] by (simp add: w)
    then show ?thesis
      using "1.prems" "1.IH" [OF Some r [symmetric] refl w [symmetric]] Some r w
      by (subst (asm) send_frags.simps) (auto split: if_splits)
  qed
qed

text \<open>After a packet that could not be written the message is sent again if the device comes back.\<close>

function usb_try_write :: "bytes \<Rightarrow> nat \<Rightarrow> bytes \<Rightarrow> hid \<Rightarrow> (ca_error \<times> hid) option" where
  "usb_try_write buffer len frag_buf h =
     (case send_frags buffer (of_nat len) frag_buf 0 h of
        None \<Rightarrow> None
      | Some (True, h) \<Rightarrow> Some (CA_ERROR_SUCCESS, h)
      | Some (False, h) \<Rightarrow>
          (case hid_reload h of
             (True, h) \<Rightarrow> usb_try_write buffer len frag_buf h
           | (False, h) \<Rightarrow> Some (CA_ERROR_FAIL, h)))"
  by pat_completeness auto
termination
proof (relation "measure (\<lambda>(buffer, len, frag, h). length (hid_reloads h))", goal_cases)
  case prems: (2 buffer len frag h x ok h1 y2 h2)
  show ?case using prems by (auto dest!: send_frags_reloads simp: hid_reload_def split: list.splits bool.splits)
qed simp

declare usb_try_write.simps [simp del]

definition flush_unread_usb :: "hid \<Rightarrow> hid" where
  "flush_unread_usb h = h\<lparr>hid_reads := drop 1 (dropWhile (\<lambda>r. case r of Hid_frag f \<Rightarrow> f \<noteq> [] | _ \<Rightarrow> False) (hid_reads h))\<rparr>"

subsection \<open>The device's rings\<close>

abbreviation TBUFFS :: nat where "TBUFFS \<equiv> 8"
abbreviation RBUFFS :: nat where "RBUFFS \<equiv> 8"

text \<open>
  \<open>ep2\<close> is the packet that waits for the host to fetch it, \<open>ep3\<close> what the host sent last and
  \<open>ep3_ready\<close> says whether the endpoint takes another packet; \<open>behind_rx\<close> is the memory behind the receive
  ring. The counts are octets.
\<close>

record usb_rings =
  Connected :: bool
  TxStalled :: bool
  RxStalled :: bool
  TransmitBuffer :: "bytes list"
  ReceiveBuffer :: "bytes list"
  NextTransmitBufferToGo :: nat
  NextTransmitBufferToFill :: nat
  FullTransmitBuffers :: u8
  NextReceiveBufferToGo :: nat
  NextReceiveBufferToFill :: nat
  FullReceiveBuffers :: u8
  ep2 :: "bytes option"
  ep3 :: bytes
  ep3_ready :: bool
  behind_rx :: bytes

definition USB_SetInReport :: "usb_rings \<Rightarrow> usb_rings" where
  "USB_SetInReport s =
     (if FullTransmitBuffers s = 0 then s\<lparr>TxStalled := True\<rparr>
      else
        let go = NextTransmitBufferToGo s + 1
        in s\<lparr>TxStalled := False, NextTransmitBufferToGo := (if go \<ge> TBUFFS then 0 else go),
             FullTransmitBuffers := FullTransmitBuffers s - 1, ep2 := Some (TransmitBuffer s ! NextTransmitBufferToGo s)\<rparr>)"

definition USB_GetOutReport :: "bytes \<Rightarrow> usb_rings \<Rightarrow> usb_rings" where
  "USB_GetOutReport pu8EpBuf s =
     (if FullReceiveBuffers s \<ge> 8 then s\<lparr>RxStalled := True\<rparr>
      else
        let fill = NextReceiveBufferToFill s + 1
        in s\<lparr>Connected := True, RxStalled := False,
             ReceiveBuffer := (ReceiveBuffer s)[NextReceiveBufferToFill s := pu8EpBuf],
             NextReceiveBufferToFill := (if fill \<ge> RBUFFS then 0 else fill),
             FullReceiveBuffers := FullReceiveBuffers s + 1, ep3_ready := True\<rparr>)"

definition USB_EP2_Handler :: "usb_rings \<Rightarrow> usb_rings" where
  "USB_EP2_Handler = USB_SetInReport"

definition USB_EP3_Handler :: "usb_rings \<Rightarrow> usb_rings" where
  "USB_EP3_Handler s = USB_GetOutReport (ep3 s) s"

definition USB_Transmit :: "bytes \<Rightarrow> usb_rings \<Rightarrow> bool \<times> usb_rings" where
  "USB_Transmit pBuffer s =
     (if FullTransmitBuffers s \<ge> 8 then (\<not> Connected s, s)
      else
        let fill = NextTransmitBufferToFill s + 1;
            s = s\<lparr>TransmitBuffer := (TransmitBuffer s)[NextTransmitBufferToFill s := pBuffer],
                  NextTransmitBufferToFill := (if fill \<ge> TBUFFS then 0 else fill),
                  FullTransmitBuffers := FullTransmitBuffers s + 1\<rparr>
        in (True, if Connected s \<and> TxStalled s then USB_SetInReport s else s))"

definition BSP_USBSerialRxPeek :: "usb_rings \<Rightarrow> bytes option" where
  "BSP_USBSerialRxPeek s = (if FullReceiveBuffers s = 0 then None else Some (ReceiveBuffer s ! NextReceiveBufferToGo s))"

definition BSP_USBSerialRxDequeue :: "usb_rings \<Rightarrow> usb_rings" where
  "BSP_USBSerialRxDequeue s =
     (let go = NextReceiveBufferToGo s + 1;
          s = s\<lparr>NextReceiveBufferToGo := (if go \<ge> RBUFFS then 0 else go),
                FullReceiveBuffers := FullReceiveBuffers s - 1\<rparr>;
          s = (if RxStalled s then USB_EP3_Handler s else s)
      in if Connected s \<and> TxStalled s then USB_SetInReport s else s)"

definition USB_SetConnectedFlag :: "bool \<Rightarrow> usb_rings \<Rightarrow> usb_rings" where
  "USB_SetConnectedFlag is_connected s = s\<lparr>Connected := is_connected\<rparr>"

abbreviation USB_TX_RETRIES :: nat where "USB_TX_RETRIES \<equiv> 100"

text \<open>\<open>waits\<close> is what happens while the driver waits, \<open>n\<close> the waits that are left.\<close>

primrec write_loop :: "(nat \<Rightarrow> usb_rings \<Rightarrow> usb_rings) \<Rightarrow> nat \<Rightarrow> bytes \<Rightarrow> usb_rings \<Rightarrow> usb_rings" where
  "write_loop waits 0 pBuffer s =
     (case USB_Transmit pBuffer s of (done, s) \<Rightarrow> if done then s else USB_SetConnectedFlag False (waits 0 s))"
| "write_loop waits (Suc n) pBuffer s =
     (case USB_Transmit pBuffer s of (done, s) \<Rightarrow> if done then s else write_loop waits n pBuffer (waits (Suc n) s))"

definition BSP_USBSerialWrite :: "bool \<Rightarrow> (nat \<Rightarrow> usb_rings \<Rightarrow> usb_rings) \<Rightarrow> bytes \<Rightarrow> usb_rings \<Rightarrow> usb_rings" where
  "BSP_USBSerialWrite present waits pBuffer s = (if present then write_loop waits (USB_TX_RETRIES + 1) pBuffer s else s)"

subsection \<open>The device's framing\<close>

abbreviation USB_FRAG_SIZE :: nat where "USB_FRAG_SIZE \<equiv> 64"

text \<open>The packets of a message, each in what the one before left in the buffer.\<close>

function usb_fragments :: "bool \<Rightarrow> u8 \<Rightarrow> bytes \<Rightarrow> bytes \<Rightarrow> bytes list \<times> bytes" where
  "usb_fragments first len pBuffer UsbTxFrag =
     (if len = 0 then ([], UsbTxFrag)
      else
        let FragOffset = (if first then 3 else 1);
            SizeLeft = USB_FRAG_SIZE - FragOffset;
            FragSize = min (unat len) SizeLeft;
            UsbTxFrag = put UsbTxFrag FragOffset (take FragSize pBuffer @ replicate (SizeLeft - FragSize) 0);
            len = len - of_nat FragSize;
            FragType = (if first then FRAG_FIRST_MASK else 0) OR of_nat (FragSize + FragOffset - 1) OR
              (if len = 0 then FRAG_LAST_MASK else 0);
            UsbTxFrag = UsbTxFrag[0 := FragType]
        in (case usb_fragments False len (drop FragSize pBuffer) UsbTxFrag of
              (fs, tx) \<Rightarrow> (UsbTxFrag # fs, tx)))"
  by pat_completeness auto
termination
proof (relation "measure (\<lambda>(first, len, p, tx). unat len)", goal_cases)
  case (2 first len p tx FragOffset SizeLeft FragSize tx' len')
  have "FragSize \<le> unat len" "0 < FragSize" using 2 by (auto simp: unat_gt_0)
  then have "unat len' = unat len - FragSize"
    using 2 unat_u8_less [of len] by (simp add: unat_sub word_le_nat_alt unat_of_nat)
  then show ?case using \<open>FragSize \<le> unat len\<close> \<open>0 < FragSize\<close> by simp
qed simp

declare usb_fragments.simps [simp del]

record usb_serial =
  UsbTxFrag :: bytes
  usb_SerialRxBuffer :: serial_buffer
  usb_SerialRxPending :: bool
  usb_SerialCount :: u8
  rings :: usb_rings

definition SerialUSBSend ::
  "bool \<Rightarrow> (nat \<Rightarrow> nat \<Rightarrow> usb_rings \<Rightarrow> usb_rings) \<Rightarrow> u8 \<Rightarrow> bytes \<Rightarrow> u8 \<Rightarrow> usb_serial \<Rightarrow> usb_serial" where
  "SerialUSBSend present waits Command pBuffer len s =
     (case usb_fragments True len pBuffer ((UsbTxFrag s)[1 := Command, 2 := len]) of
        (fs, tx) \<Rightarrow>
          s\<lparr>UsbTxFrag := tx,
            rings := fold (\<lambda>(i, f). BSP_USBSerialWrite present (waits i) f) (enumerate 0 fs) (rings s)\<rparr>)"

definition MAC_Message_USB ::
  "bool \<Rightarrow> bool \<Rightarrow> (nat \<Rightarrow> nat \<Rightarrow> usb_rings \<Rightarrow> usb_rings) \<Rightarrow> u8 \<Rightarrow> u8 \<Rightarrow> bytes \<Rightarrow> usb_serial \<Rightarrow> usb_serial" where
  "MAC_Message_USB enabled present waits Command Count pBuffer s =
     (if \<not> enabled then s else SerialUSBSend present waits Command pBuffer Count s)"

definition EVBME_Message_USB ::
  "bool \<Rightarrow> bool \<Rightarrow> (nat \<Rightarrow> nat \<Rightarrow> usb_rings \<Rightarrow> usb_rings) \<Rightarrow> u8 \<Rightarrow> bytes \<Rightarrow> nat \<Rightarrow> usb_serial \<Rightarrow> usb_serial" where
  "EVBME_Message_USB enabled present waits Serial_Stdout pBuffer Count s =
     (if \<not> enabled then s else SerialUSBSend present waits Serial_Stdout pBuffer (of_nat Count) s)"

text \<open>Octets of the oldest packet, and what is behind them in the ring.\<close>

definition frag_octets :: "usb_rings \<Rightarrow> nat \<Rightarrow> nat \<Rightarrow> bytes" where
  "frag_octets s off n =
     take n (drop off (concat (drop (NextReceiveBufferToGo s) (ReceiveBuffer s))) @ behind_rx s)"

text \<open>One turn of the loop: the value to return, if it ends.\<close>

definition get_command_turn :: "usb_serial \<Rightarrow> bool option \<times> usb_serial" where
  "get_command_turn s =
     (case BSP_USBSerialRxPeek (rings s) of
        None \<Rightarrow> (Some False, s)
      | Some UsbRxFrag \<Rightarrow>
          let ControlByte = UsbRxFrag ! 0;
              Count = ControlByte AND 0x3F;
              b = usb_SerialRxBuffer s;
              first = (ControlByte AND FRAG_FIRST_MASK \<noteq> 0)
          in if \<not> first \<and> unat (usb_SerialCount s) + unat Count > SERIAL_MAC_RX_LEN then (Some False, s)
             else
               let n = Count - 2;
                   s = (if first
                        then s\<lparr>usb_SerialRxBuffer := \<lparr>CmdId = UsbRxFrag ! 1, CmdLen = UsbRxFrag ! 2,
                                 Data = put (Data b) 0 (frag_octets (rings s) 3 (unat n))\<rparr>,
                               usb_SerialCount := n\<rparr>
                        else s\<lparr>usb_SerialRxBuffer := b\<lparr>Data :=
                                 put (Data b) (unat (usb_SerialCount s)) (frag_octets (rings s) 1 (unat Count))\<rparr>,
                               usb_SerialCount := usb_SerialCount s + Count\<rparr>);
                   s = s\<lparr>rings := BSP_USBSerialRxDequeue (rings s)\<rparr>
               in if ControlByte AND FRAG_LAST_MASK \<noteq> 0
                  then (Some True, s\<lparr>usb_SerialRxPending := True, usb_SerialCount := 0\<rparr>)
                  else (None, s))"

function get_command_loop :: "usb_serial \<Rightarrow> bool \<times> usb_serial" where
  "get_command_loop s =
     (case get_command_turn s of
        (Some r, s) \<Rightarrow> (r, s)
      | (None, s) \<Rightarrow> get_command_loop s)"
  by pat_completeness auto

definition waiting :: "usb_rings \<Rightarrow> nat" where
  "waiting s = unat (FullReceiveBuffers s) + of_bool (RxStalled s)"

lemma set_in_report_rx [simp]:
  "FullReceiveBuffers (USB_SetInReport s) = FullReceiveBuffers s" "RxStalled (USB_SetInReport s) = RxStalled s"
  by (simp_all add: USB_SetInReport_def Let_def)

lemma dequeue_waiting:
  assumes "FullReceiveBuffers s \<noteq> 0"
  shows "waiting (BSP_USBSerialRxDequeue s) < waiting s"
proof -
  have u: "unat (FullReceiveBuffers s - 1) = unat (FullReceiveBuffers s) - 1" "0 < unat (FullReceiveBuffers s)"
    using assms by (simp_all add: unat_minus_one unat_gt_0)
  then show ?thesis
    by (auto simp: waiting_def BSP_USBSerialRxDequeue_def Let_def USB_EP3_Handler_def USB_GetOutReport_def)
qed

lemma turn_rings: "get_command_turn s = (None, s') \<Longrightarrow> FullReceiveBuffers (rings s) \<noteq> 0 \<and> rings s' = BSP_USBSerialRxDequeue (rings s)"
  by (auto simp: get_command_turn_def BSP_USBSerialRxPeek_def Let_def split: if_splits)

termination get_command_loop
proof (relation "measure (\<lambda>s. waiting (rings s))", goal_cases)
  case 2
  then show ?case using dequeue_waiting turn_rings by (metis in_measure)
qed simp

declare get_command_loop.simps [simp del]

definition SerialGetCommand_USB :: "usb_serial \<Rightarrow> bool \<times> usb_serial" where
  "SerialGetCommand_USB s = (if usb_SerialRxPending s then (True, s) else get_command_loop s)"

end
