(* ===== verification/UsbLink.thy ===== *)
theory UsbLink
  imports Usb
begin

text \<open>
  Packets and rings of the USB link: what a sequence of packets carries, that both ends cut and join
  messages alike, and that the rings are queues which lose nothing.
\<close>

unbundle bit_operations_syntax

subsection \<open>Packets\<close>

definition control :: "bool \<Rightarrow> bool \<Rightarrow> nat \<Rightarrow> u8" where
  "control first fin n = of_nat n OR (if first then FRAG_FIRST_MASK else 0) OR (if fin then FRAG_LAST_MASK else 0)"

lemma control_bits:
  assumes "n \<le> 63"
  shows "control first fin n AND 0x3F = of_nat n" "control first fin n AND FRAG_FIRST_MASK \<noteq> 0 \<longleftrightarrow> first"
    "control first fin n AND FRAG_LAST_MASK \<noteq> 0 \<longleftrightarrow> fin"
proof -
  have "list_all (\<lambda>n. \<forall>first \<in> {True, False}. \<forall>fin \<in> {True, False}. control first fin n AND 0x3F = of_nat n \<and>
      (control first fin n AND FRAG_FIRST_MASK \<noteq> 0 \<longleftrightarrow> first) \<and> (control first fin n AND FRAG_LAST_MASK \<noteq> 0 \<longleftrightarrow> fin)) [0..<64]"
    by code_simp
  then have "\<forall>first \<in> {True, False}. \<forall>fin \<in> {True, False}. control first fin n AND 0x3F = of_nat n \<and>
      (control first fin n AND FRAG_FIRST_MASK \<noteq> 0 \<longleftrightarrow> first) \<and> (control first fin n AND FRAG_LAST_MASK \<noteq> 0 \<longleftrightarrow> fin)"
    using assms by (simp add: list_all_iff)
  then show "control first fin n AND 0x3F = of_nat n" "control first fin n AND FRAG_FIRST_MASK \<noteq> 0 \<longleftrightarrow> first"
    "control first fin n AND FRAG_LAST_MASK \<noteq> 0 \<longleftrightarrow> fin"
    by (cases first; cases fin; simp)+
qed

text \<open>The packets that carry the octets of a message, up to what fills them.\<close>

fun carries :: "bool \<Rightarrow> bytes \<Rightarrow> bytes list \<Rightarrow> bool" where
  "carries first m [] = False"
| "carries first m (f # fs) \<longleftrightarrow>
     length f = MAX_FRAG_SIZE \<and> f ! 0 = control first (length m \<le> 63) (min 63 (length m)) \<and>
     take (min 63 (length m)) (drop 1 f) = take 63 m \<and>
     (if length m \<le> 63 then fs = [] else carries False (drop 63 m) fs)"

lemma put_length [simp]: "off + length d \<le> length buf \<Longrightarrow> length (put buf off d) = length buf"
  by (simp add: put_def)

lemma put_take: "off \<le> length buf \<Longrightarrow> take (off + length d) (put buf off d) = take off buf @ d"
  by (simp add: put_def)

lemma put_put:
  assumes "off + length d \<le> length buf"
  shows "put (put buf off d) (off + length d) e = put buf off (d @ e)"
  using assms by (simp add: put_def ac_simps)

lemma frag_chunk:
  assumes "n \<le> 63" "length f = 64" "take n (drop 1 f) = c"
  shows "length c = n"
  using assms by auto

subsection \<open>The host cuts\<close>

lemma get_next_frag_carries:
  assumes len: "length buf \<le> 255" and o: "unat off \<le> length buf" "off \<noteq> 0 \<longrightarrow> unat off < length buf" and fr: "length frag = 65"
  defines "n \<equiv> min 63 (length buf - unat off)" and "l \<equiv> length buf - unat off \<le> 63"
  shows "\<exists>frag'. get_next_frag buf (of_nat (length buf)) frag off = Some (\<not> l, frag', if l then 0 else of_nat (unat off + 63)) \<and>
     length frag' = 65 \<and> length (drop 1 frag') = MAX_FRAG_SIZE \<and> drop 1 frag' ! 0 = control (off = 0) l n \<and>
     take n (drop 1 (drop 1 frag')) = take n (drop (unat off) buf)"
proof -
  have u: "unat (of_nat (length buf) :: u8) = length buf" using len by (simp add: unat_of_nat)
  have ui: "uint (of_nat (length buf) :: u8) = int (length buf)" unfolding uint_nat u by simp
  have uo: "uint off = int (unat off)" by simp
  have fin: "uint off + int MAX_FRAG_SIZE - 1 \<ge> uint (of_nat (length buf) :: u8) \<longleftrightarrow> l"
    unfolding ui uo l_def using o(1) by linarith
  have e: "(if l then uint (of_nat (length buf) :: u8) else uint off + int MAX_FRAG_SIZE - 1) - uint off = int n"
    unfolding ui uo l_def n_def using o(1) by auto
  have n63: "n \<le> 63" by (simp add: n_def)
  have m: "(of_nat n :: u8) AND FRAG_LEN_MASK = of_nat n" using control_bits(1) [OF n63, of False False] by (simp add: control_def)
  have un: "unat (of_nat n :: u8) = n" using n63 by (simp add: unat_of_nat)
  let ?f = "put (frag[0 := 0, 1 := control (off = 0) l n]) 2 (take n (drop (unat off) buf))"
  have "get_next_frag buf (of_nat (length buf)) frag off = Some (\<not> l, ?f, if l then 0 else of_nat (unat off + 63))"
  proof -
    have w: "word_of_int (uint off + int MAX_FRAG_SIZE - 1) = (of_nat (unat off + 63) :: u8)" by simp
    have k: "word_of_int (int n) = (of_nat n :: u8)" by (rule of_int_of_nat_eq)
    show ?thesis
      unfolding get_next_frag_def Let_def fin e k m un w control_def by (cases l) simp_all
  qed
  moreover have "length ?f = 65" using fr n63 by (subst put_length) auto
  moreover have "length (take n (drop (unat off) buf)) = n" by (simp add: n_def)
  then have "drop 1 ?f ! 0 = control (off = 0) l n" "take n (drop 1 (drop 1 ?f)) = take n (drop (unat off) buf)"
    using fr by (simp_all add: put_def nth_append)
  ultimately show ?thesis by (intro exI [of _ ?f]) simp
qed

lemma write_retry_writes:
  "write_retry n frag h = (True, h') \<Longrightarrow> hid_written h' = hid_written h @ [drop 1 frag] \<and> hid_reads h' = hid_reads h"
proof (induction n arbitrary: h)
  case 0
  then show ?case by (auto simp: dhid_write_def split: list.splits bool.splits)
next
  case (Suc n)
  obtain ok h1 where w: "dhid_write frag h = (ok, h1)" by (cases "dhid_write frag h")
  then have "if ok then hid_written h1 = hid_written h @ [drop 1 frag] \<and> hid_reads h1 = hid_reads h
      else hid_written h1 = hid_written h \<and> hid_reads h1 = hid_reads h"
    by (auto simp: dhid_write_def split: list.splits bool.splits)
  then show ?case using Suc w by (cases ok) auto
qed

lemma send_frags_carries:
  assumes "send_frags buf (of_nat (length buf)) frag off h = Some (True, h')" "length buf \<le> 255" "length frag = 65"
    and "unat off \<le> length buf" "off \<noteq> 0 \<longrightarrow> unat off < length buf"
  shows "\<exists>fs. hid_written h' = hid_written h @ fs \<and> hid_reads h' = hid_reads h \<and> carries (off = 0) (drop (unat off) buf) fs"
  using assms
proof (induction "length buf - unat off" arbitrary: frag off h rule: less_induct)
  case less
  define n l where "n = min 63 (length buf - unat off)" and "l \<longleftrightarrow> length buf - unat off \<le> 63"
  obtain frag' where g: "get_next_frag buf (of_nat (length buf)) frag off = Some (\<not> l, frag', if l then 0 else of_nat (unat off + 63))"
    "length frag' = 65" "length (drop 1 frag') = MAX_FRAG_SIZE" "drop 1 frag' ! 0 = control (off = 0) l n"
    "take n (drop 1 (drop 1 frag')) = take n (drop (unat off) buf)"
    using get_next_frag_carries [OF less.prems(2,4,5,3)] unfolding n_def l_def by blast
  obtain ok h1 where w: "write_retry 50 frag' h = (ok, h1)" by (cases "write_retry 50 frag' h")
  have r: "(if \<not> l \<and> ok then send_frags buf (of_nat (length buf)) frag' (if l then 0 else of_nat (unat off + 63)) h1
      else Some (ok, h1)) = Some (True, h')"
    using less.prems(1) unfolding send_frags.simps [of buf "of_nat (length buf)" frag off h] g(1) by (simp add: w)
  then have ok: ok by (cases ok) auto
  note wr = write_retry_writes [OF w [unfolded eqTrueI [OF ok]]]
  have c1: "take (min 63 (length (drop (unat off) buf))) (drop 1 (drop 1 frag')) = take 63 (drop (unat off) buf)"
  proof -
    have "take (min 63 (length xs)) xs = take 63 xs" for xs :: bytes by (simp add: min_def)
    from this [of "drop (unat off) buf"] g(5) show ?thesis unfolding n_def length_drop by (rule trans [rotated])
  qed
  show ?case
  proof (cases l)
    case True
    then have "carries (off = 0) (drop (unat off) buf) [drop 1 frag']"
      using g(3,4) c1 by (simp add: l_def n_def)
    moreover have "length buf - unat off \<le> 63" using True by (simp add: l_def)
    ultimately show ?thesis using r ok True wr by (intro exI [of _ "[drop 1 frag']"]) simp
  next
    case False
    define off' :: u8 where "off' = of_nat (unat off + 63)"
    have lt: "unat off + 63 < length buf" using False by (simp add: l_def)
    then have u: "unat off' = unat off + 63" using less.prems(2) by (simp add: off'_def unat_word_ariths)
    then have nz: "off' \<noteq> 0" by auto
    have lt2: "length buf - unat off' < length buf - unat off" unfolding u using lt by linarith
    have "send_frags buf (of_nat (length buf)) frag' off' h1 = Some (True, h')"
      using r False ok by (simp add: off'_def)
    then obtain fs where fs: "hid_written h' = hid_written h1 @ fs" "hid_reads h' = hid_reads h1"
      "carries (off' = 0) (drop (unat off') buf) fs"
      using less.hyps [OF lt2] less.prems(2) g(2) u lt nz by auto
    have "carries False (drop 63 (drop (unat off) buf)) fs" using fs(3) nz u by (simp add: add.commute)
    moreover have "\<not> length (drop (unat off) buf) \<le> 63" using False by (simp add: l_def)
    ultimately have A: "carries (off = 0) (drop (unat off) buf) (drop 1 frag' # fs)"
      using g(3,4) c1 False unfolding carries.simps l_def n_def by simp
    show ?thesis by (rule exI [of _ "drop 1 frag' # fs"], intro conjI A) (use wr fs in simp_all)
  qed
qed

lemma usb_try_write_carries:
  assumes "usb_try_write m (length m) frag h = Some (CA_ERROR_SUCCESS, h')" "hid_reloads h = []" "length m \<le> 255" "length frag = 65"
  shows "\<exists>fs. hid_written h' = hid_written h @ fs \<and> hid_reads h' = hid_reads h \<and> carries True m fs"
proof -
  obtain ok h1 where s: "send_frags m (of_nat (length m)) frag 0 h = Some (ok, h1)"
    using assms(1) by (subst (asm) usb_try_write.simps) (auto split: option.splits prod.splits)
  have "hid_reloads h1 = []" using send_frags_reloads [OF s] assms(2) by simp
  then have ok "h1 = h'"
    using assms(1) s by (subst (asm) usb_try_write.simps; auto simp: hid_reload_def split: bool.splits)+
  then show ?thesis using send_frags_carries [OF s [unfolded eqTrueI [OF \<open>ok\<close>]] assms(3,4)] by auto
qed

subsection \<open>The host joins\<close>

lemma assemble_frags_carries:
  assumes f: "carries first m (f # fs)" "first = (off = 0)"
  shows "assemble_frags f buf len off = (63 < length m, put buf (unat off) (take 63 m), off + of_nat (min 63 (length m)),
     if length m \<le> 63 then 0 else off + of_nat 63)"
proof -
  let ?n = "min 63 (length m)"
  have n: "?n \<le> 63" by simp
  have c: "f ! 0 = control first (length m \<le> 63) ?n" using f(1) by simp
  have u: "unat (of_nat ?n :: u8) = ?n" by (simp add: unat_of_nat)
  have t: "take ?n (drop 1 f) = take 63 m" using f(1) by simp
  show ?thesis
    unfolding assemble_frags_def Let_def c control_bits [OF n] using f(2) t u by (auto simp: min_def)
qed

text \<open>The last packet has to begin at an offset that fits in an octet.\<close>

definition begins_within :: "u8 \<Rightarrow> bytes \<Rightarrow> bool" where
  "begins_within off m \<longleftrightarrow> unat off + (length m - 1) div 63 * 63 \<le> 255"

lemma begins_within_all: "unat off + length m \<le> 255 \<Longrightarrow> begins_within off m"
  using div_times_less_eq_dividend [of "length m - 1" 63] unfolding begins_within_def by linarith

lemma begins_within_drop:
  assumes "begins_within off m" "\<not> length m \<le> 63"
  shows "unat (off + of_nat 63) = unat off + 63" "begins_within (off + of_nat 63) (drop 63 m)" "unat off + 63 \<le> 255"
proof -
  obtain k where k: "length m - 1 = 63 + k"
  proof -
    have "length m - 1 = 63 + (length m - 64)" using assms(2) by linarith
    then show ?thesis by (rule that)
  qed
  have b: "unat off + (1 + k div 63) * 63 \<le> 255" using assms(1) unfolding begins_within_def k by (simp add: div_add_self1)
  then show 1: "unat off + 63 \<le> 255" by simp
  then show u: "unat (off + of_nat 63) = unat off + 63" by (simp add: unat_word_ariths)
  have "length (drop 63 m) - 1 = k" using k by simp
  then show "begins_within (off + of_nat 63) (drop 63 m)" using b unfolding begins_within_def u by simp
qed

lemma read_frags_carries:
  assumes "carries first m fs" "first = (off = 0)" "begins_within off m" "length buf = 256"
  shows "read_frags x (map Hid_frag fs @ rest) buf len off = Some (int MAX_FRAG_SIZE, put buf (unat off) m, off + of_nat (length m), rest)"
  using assms
proof (induction fs arbitrary: first m off buf len x)
  case (Cons f fs)
  have a: "assemble_frags f buf len off = (63 < length m, put buf (unat off) (take 63 m), off + of_nat (min 63 (length m)),
     if length m \<le> 63 then 0 else off + of_nat 63)"
    by (rule assemble_frags_carries [OF Cons.prems(1,2)])
  have f: "length f = MAX_FRAG_SIZE" using Cons.prems(1) by simp
  show ?case
  proof (cases "length m \<le> 63")
    case True
    then have "fs = []" using Cons.prems(1) by simp
    then show ?thesis using True a f by (simp add: min_absorb2)
  next
    case False
    have c: "carries False (drop 63 m) fs" using Cons.prems(1) False by simp
    note u = begins_within_drop [OF Cons.prems(3) False]
    have nz: "(False) = (off + of_nat 63 = 0)" using u(1) by auto
    have pl: "length (put buf (unat off) (take 63 m)) = 256" using u(3) Cons.prems(4) by simp
    have "read_frags False (map Hid_frag fs @ rest) (put buf (unat off) (take 63 m)) (off + of_nat 63) (off + of_nat 63) =
        Some (int MAX_FRAG_SIZE, put (put buf (unat off) (take 63 m)) (unat (off + of_nat 63)) (drop 63 m),
          off + of_nat 63 + of_nat (length (drop 63 m)), rest)"
      by (rule Cons.IH [OF c nz u(2) pl])
    moreover have "put (put buf (unat off) (take 63 m)) (unat (off + of_nat 63)) (drop 63 m) = put buf (unat off) m"
      using put_put [of "unat off" "take 63 m" buf "drop 63 m"] u(3) Cons.prems(4) False by (simp add: u(1) [simplified] min_absorb2)
    moreover have "off + of_nat 63 + of_nat (length (drop 63 m)) = off + (of_nat (length m) :: u8)"
    proof -
      have "length m = 63 + length (drop 63 m)" using False by simp
      then have "(of_nat (length m) :: u8) = of_nat 63 + of_nat (length (drop 63 m))" by (metis of_nat_add)
      then show ?thesis by (simp only: add.assoc)
    qed
    ultimately show ?thesis using a False by simp
  qed
qed simp

text \<open>A message arrives with a packet of its last octets, or the read waits for more.\<close>

lemma carries_not_nil: "carries first m fs \<Longrightarrow> fs \<noteq> []"
  by (cases fs) auto

lemma read_frags_waits:
  assumes "carries first m (fs @ gs)" "gs \<noteq> []" "fs \<noteq> [] \<or> \<not> x" "first = (off = 0)" "begins_within off m" "length buf = 256"
  shows "read_frags x (map Hid_frag fs) buf len off = None"
  using assms
proof (induction fs arbitrary: first m off buf len x)
  case (Cons f fs)
  have a: "assemble_frags f buf len off = (63 < length m, put buf (unat off) (take 63 m), off + of_nat (min 63 (length m)),
     if length m \<le> 63 then 0 else off + of_nat 63)"
    by (rule assemble_frags_carries [where fs = "fs @ gs", OF _ Cons.prems(4)]) (use Cons.prems(1) in simp)
  have big: "\<not> length m \<le> 63" using Cons.prems(1,2) by auto
  then have c: "carries False (drop 63 m) (fs @ gs)" using Cons.prems(1) by simp
  note u = begins_within_drop [OF Cons.prems(5) big]
  have nz: "(False) = (off + of_nat 63 = 0)" using u(1) by auto
  have pl: "length (put buf (unat off) (take 63 m)) = 256" using u(3) Cons.prems(6) by simp
  have "read_frags False (map Hid_frag fs) (put buf (unat off) (take 63 m)) (off + of_nat 63) (off + of_nat 63) = None"
    by (rule Cons.IH [OF c Cons.prems(2) disjI2 nz u(2) pl]) simp
  then show ?case using a big by simp
qed simp

end
