(* ===== verification/UsbRing.thy ===== *)
theory UsbRing
  imports UsbLink SpiSound
begin

text \<open>
  The device's end of the USB link: the packets of a message it sends, its rings as queues, and one turn
  of its reading loop.
\<close>

unbundle bit_operations_syntax

subsection \<open>The device cuts\<close>

lemma usb_fragments_carries:
  assumes "usb_fragments first len p tx = (fs, tx')" "length p = unat len" "len \<noteq> 0" "length tx = 64"
    and "m = (if first then [tx ! 1, tx ! 2] @ p else p)"
  shows "carries first m fs"
  using assms
proof (induction "unat len" arbitrary: first len p tx fs tx' m rule: less_induct)
  case less
  define off where "off = (if first then 3 else 1 :: nat)"
  define n where "n = min (unat len) (64 - off)"
  define len1 where "len1 = len - of_nat n"
  define tx0 where "tx0 = put tx off (take n p @ replicate (64 - off - n) 0)"
  define ty :: u8 where "ty = (if first then FRAG_FIRST_MASK else 0) OR of_nat (n + off - 1) OR (if len1 = 0 then FRAG_LAST_MASK else 0)"
  define tx1 where "tx1 = tx0[0 := ty]"
  have off: "1 \<le> off" "off \<le> 3" by (simp_all add: off_def)
  have n: "0 < n" "n \<le> unat len" using less.prems(3) off by (simp_all add: n_def unat_gt_0)
  have u1: "unat len1 = unat len - n"
  proof -
    have "n < 256" using n unat_u8_less [of len] by linarith
    then show ?thesis using n by (simp add: len1_def unat_sub word_le_nat_alt unat_of_nat)
  qed
  have ln: "length (take n p) = n" using n less.prems(2) by simp
  have m: "length m = unat len + off - 1" using less.prems(2,5) by (simp add: off_def)
  have fin: "len1 = 0 \<longleftrightarrow> length m \<le> 63"
  proof -
    have "len1 = 0 \<longleftrightarrow> unat len = n" using u1 n unat_eq_0 [of len1] by auto
    also have "\<dots> \<longleftrightarrow> length m \<le> 63" unfolding m n_def using off by auto
    finally show ?thesis .
  qed
  have mn: "n + off - 1 = min 63 (length m)" unfolding m n_def using off by auto
  have ty: "ty = control first (length m \<le> 63) (min 63 (length m))"
    unfolding ty_def control_def fin mn by (simp add: or.commute or.left_commute)
  have l0: "length tx0 = 64" unfolding tx0_def using less.prems(4) ln n off by (subst put_length) (auto simp: n_def)
  then have l1: "length tx1 = 64" by (simp add: tx1_def)
  have "take (min 63 (length m)) (drop 1 tx1) = take 63 m"
  proof (cases first)
    case True
    obtain a b c t where t: "tx = a # b # c # t" "length t = 61"
      using less.prems(4) by (cases tx; cases "tl tx"; cases "tl (tl tx)") auto
    have "tx1 = ty # b # c # take n p @ replicate (61 - n) 0"
      using t True ln n by (simp add: tx1_def tx0_def put_def off_def n_def)
    then show ?thesis using True less.prems(5) t mn ln by (simp add: off_def min_def)
      (auto simp: n_def min_def off_def less.prems(2) split: if_splits)
  next
    case False
    obtain a t where t: "tx = a # t" "length t = 63" using less.prems(4) by (cases tx) auto
    have "tx1 = ty # take n p @ replicate (63 - n) 0"
      using t False ln n by (simp add: tx1_def tx0_def put_def off_def n_def)
    then show ?thesis using False less.prems(5) mn ln by (simp add: off_def min_def)
  qed
  then have head: "length tx1 = MAX_FRAG_SIZE \<and> tx1 ! 0 = control first (length m \<le> 63) (min 63 (length m)) \<and>
     take (min 63 (length m)) (drop 1 tx1) = take 63 m"
    using l1 l0 ty by (simp add: tx1_def)
  obtain gs tx2 where g: "usb_fragments False len1 (drop n p) tx1 = (gs, tx2)"
    by (cases "usb_fragments False len1 (drop n p) tx1")
  have fs: "fs = tx1 # gs"
    using less.prems(1,3) g
    by (subst (asm) usb_fragments.simps) (simp add: Let_def off_def n_def len1_def tx0_def ty_def tx1_def split: if_splits)
  show ?case
  proof (cases "len1 = 0")
    case True
    then have "gs = []" using g by (subst (asm) usb_fragments.simps) simp
    then show ?thesis unfolding fs using head True fin by simp
  next
    case False
    have "carries False (drop n p) gs"
      using less.hyps [OF _ g] False u1 n l1 less.prems(2) by auto
    moreover have "drop n p = drop 63 m"
    proof -
      have "n = 64 - off" using False fin m mn off by (auto simp: min_def split: if_splits)
      then show ?thesis using less.prems(5) by (auto simp: off_def)
    qed
    ultimately show ?thesis unfolding fs using head False fin by simp
  qed
qed

lemma usb_fragments_length:
  "usb_fragments first len p tx = (fs, tx') \<Longrightarrow> length p = unat len \<Longrightarrow> length tx = 64 \<Longrightarrow> length tx' = 64"
proof (induction "unat len" arbitrary: first len p tx fs tx' rule: less_induct)
  case less
  show ?case
  proof (cases "len = 0")
    case True
    then show ?thesis using less.prems by (subst (asm) usb_fragments.simps) simp
  next
    case False
    define off where "off = (if first then 3 else 1 :: nat)"
    define n where "n = min (unat len) (64 - off)"
    define len1 where "len1 = len - of_nat n"
    define ty :: u8 where "ty = (if first then FRAG_FIRST_MASK else 0) OR of_nat (n + off - 1) OR (if len1 = 0 then FRAG_LAST_MASK else 0)"
    define tx1 where "tx1 = (put tx off (take n p @ replicate (64 - off - n) 0))[0 := ty]"
    obtain gs tx2 where g: "usb_fragments False len1 (drop n p) tx1 = (gs, tx2)"
      by (cases "usb_fragments False len1 (drop n p) tx1")
    have t: "tx' = tx2"
      using less.prems(1) False g
      by (subst (asm) usb_fragments.simps) (simp add: Let_def off_def n_def len1_def ty_def tx1_def split: if_splits)
    have n: "0 < n" "n \<le> unat len" "n < 256"
      using False unat_u8_less [of len] by (auto simp: n_def off_def unat_gt_0 min_def)
    then have u1: "unat len1 = unat len - n" by (simp add: len1_def unat_sub word_le_nat_alt unat_of_nat)
    have "length tx1 = 64" unfolding tx1_def using less.prems(2,3) n by (auto simp: n_def off_def)
    then show ?thesis using less.hyps [OF _ g] less.prems(2) u1 n t by simp
  qed
qed

subsection \<open>Rings\<close>

definition ring :: "'a list \<Rightarrow> nat \<Rightarrow> nat \<Rightarrow> 'a list" where
  "ring buf go n = map (\<lambda>i. buf ! ((go + i) mod 8)) [0..<n]"

lemma ring_length [simp]: "length (ring buf go n) = n"
  by (simp add: ring_def)

lemma ring_add:
  assumes "length buf = 8" "n < 8"
  shows "ring (buf[(go + n) mod 8 := x]) go (Suc n) = ring buf go n @ [x]"
proof -
  have "(go + n) mod 8 \<noteq> (go + i) mod 8" if "i < n" for i
  proof
    assume "(go + n) mod 8 = (go + i) mod 8"
    then have "(go + n - (go + i)) mod 8 = 0" by (intro mod_eq_dvd_iff_nat [THEN iffD1, THEN dvd_imp_mod_0]) (use that in auto)
    then show False using that assms(2) by simp
  qed
  then show ?thesis using assms by (simp add: ring_def)
qed

lemma ring_take:
  assumes "0 < n" "go < 8"
  shows "ring buf go n = buf ! go # ring buf ((go + 1) mod 8) (n - 1)"
proof (rule nth_equalityI)
  fix i assume "i < length (ring buf go n)"
  then show "ring buf go n ! i = (buf ! go # ring buf ((go + 1) mod 8) (n - 1)) ! i"
    using assms by (cases i) (simp_all add: ring_def mod_add_left_eq)
qed (use assms in simp)

lemma wrap8: "k < 8 \<Longrightarrow> (if k + 1 \<ge> 8 then 0 else k + 1) = (k + 1) mod (8 :: nat)"
  by (cases "k = 7") auto

lemma wrap: "k < 8 \<Longrightarrow> (if 7 \<le> k then 0 else Suc k) = Suc k mod 8" "k < 8 \<Longrightarrow> (if 7 \<le> k then 0 else k + 1) = Suc k mod 8"
  by (cases "k = 7"; simp)+

definition tx_items :: "usb_rings \<Rightarrow> bytes list" where
  "tx_items s = ring (TransmitBuffer s) (NextTransmitBufferToGo s) (unat (FullTransmitBuffers s))"

definition rx_items :: "usb_rings \<Rightarrow> bytes list" where
  "rx_items s = ring (ReceiveBuffer s) (NextReceiveBufferToGo s) (unat (FullReceiveBuffers s))"

text \<open>What is on its way to the host, and to the framing.\<close>

definition outward :: "usb_rings \<Rightarrow> bytes list" where
  "outward s = (case ep2 s of None \<Rightarrow> [] | Some f \<Rightarrow> [f]) @ tx_items s"

definition inward :: "usb_rings \<Rightarrow> bytes list" where
  "inward s = rx_items s @ (if RxStalled s then [ep3 s] else [])"

definition tx_ok :: "usb_rings \<Rightarrow> bool" where
  "tx_ok s \<longleftrightarrow> length (TransmitBuffer s) = 8 \<and> NextTransmitBufferToGo s < 8 \<and> unat (FullTransmitBuffers s) \<le> 8 \<and>
     NextTransmitBufferToFill s = (NextTransmitBufferToGo s + unat (FullTransmitBuffers s)) mod 8"

definition rx_ok :: "usb_rings \<Rightarrow> bool" where
  "rx_ok s \<longleftrightarrow> length (ReceiveBuffer s) = 8 \<and> NextReceiveBufferToGo s < 8 \<and> unat (FullReceiveBuffers s) \<le> 8 \<and>
     NextReceiveBufferToFill s = (NextReceiveBufferToGo s + unat (FullReceiveBuffers s)) mod 8 \<and>
     (RxStalled s \<longleftrightarrow> \<not> ep3_ready s) \<and> (RxStalled s \<longrightarrow> FullReceiveBuffers s = 8)"

definition rings_ok :: "usb_rings \<Rightarrow> bool" where
  "rings_ok s \<longleftrightarrow> tx_ok s \<and> rx_ok s \<and> (TxStalled s \<longleftrightarrow> ep2 s = None) \<and>
     (Connected s \<and> TxStalled s \<longrightarrow> FullTransmitBuffers s = 0)"

lemma unat_dec: "x \<noteq> 0 \<Longrightarrow> unat (x - 1) = unat (x :: u8) - 1"
  by (simp add: unat_minus_one)

lemma unat_inc: "unat x < 8 \<Longrightarrow> unat (x + 1) = unat (x :: u8) + 1"
  by (simp add: unat_word_ariths)

lemma ge8: "x \<ge> 8 \<longleftrightarrow> unat (x :: u8) \<ge> 8"
  by (simp add: word_le_nat_alt)

lemma set_in_report:
  assumes "tx_ok s" "ep2 s = None"
  shows "tx_ok (USB_SetInReport s)" "outward (USB_SetInReport s) = tx_items s"
    "TxStalled (USB_SetInReport s) \<longleftrightarrow> ep2 (USB_SetInReport s) = None"
    "TxStalled (USB_SetInReport s) \<longrightarrow> FullTransmitBuffers (USB_SetInReport s) = 0"
    "Connected (USB_SetInReport s) = Connected s"
    "inward (USB_SetInReport s) = inward s" "rx_items (USB_SetInReport s) = rx_items s" "rx_ok (USB_SetInReport s) = rx_ok s"
proof -
  show "Connected (USB_SetInReport s) = Connected s"
    "inward (USB_SetInReport s) = inward s" "rx_items (USB_SetInReport s) = rx_items s" "rx_ok (USB_SetInReport s) = rx_ok s"
    by (simp_all add: USB_SetInReport_def Let_def inward_def rx_items_def rx_ok_def)
  show "TxStalled (USB_SetInReport s) \<longleftrightarrow> ep2 (USB_SetInReport s) = None"
    "TxStalled (USB_SetInReport s) \<longrightarrow> FullTransmitBuffers (USB_SetInReport s) = 0"
    using assms(2) by (simp_all add: USB_SetInReport_def Let_def)
  have g: "NextTransmitBufferToGo s < 8" using assms(1) by (simp add: tx_ok_def)
  show "tx_ok (USB_SetInReport s)"
  proof (cases "FullTransmitBuffers s = 0")
    case True
    then show ?thesis using assms(1) by (simp add: USB_SetInReport_def tx_ok_def)
  next
    case False
    then obtain k where "unat (FullTransmitBuffers s) = Suc k" using unat_gt_0 [of "FullTransmitBuffers s"] by (cases "unat (FullTransmitBuffers s)") auto
    then show ?thesis
      using assms(1) False by (simp add: USB_SetInReport_def Let_def tx_ok_def unat_dec mod_add_left_eq wrap [OF g] split del: if_split)
  qed
  show "outward (USB_SetInReport s) = tx_items s"
  proof (cases "FullTransmitBuffers s = 0")
    case True
    then show ?thesis using assms by (simp add: USB_SetInReport_def outward_def tx_items_def)
  next
    case False
    then have "0 < unat (FullTransmitBuffers s)" by (simp add: unat_gt_0)
    from ring_take [OF this g, of "TransmitBuffer s"] show ?thesis
      using False by (simp add: USB_SetInReport_def Let_def outward_def tx_items_def unat_dec wrap [OF g])
  qed
qed

lemma outward_connected [simp]:
  "outward (s\<lparr>FullReceiveBuffers := a\<rparr>) = outward s" "outward (s\<lparr>NextReceiveBufferToGo := b\<rparr>) = outward s"
  by (simp_all add: outward_def tx_items_def)

text \<open>The host has fetched a packet.\<close>

lemma ep2_fetched:
  assumes "rings_ok s" "ep2 s = Some f"
  defines "s' \<equiv> USB_EP2_Handler (s\<lparr>ep2 := None\<rparr>)"
  shows "rings_ok s'" "outward s = f # outward s'" "inward s' = inward s" "Connected s' = Connected s" "rx_items s' = rx_items s"
proof -
  have t: "tx_ok (s\<lparr>ep2 := None\<rparr>)" "rx_ok (s\<lparr>ep2 := None\<rparr>)" "ep2 (s\<lparr>ep2 := None\<rparr>) = None"
    using assms(1) by (simp_all add: rings_ok_def tx_ok_def rx_ok_def)
  note r = set_in_report [OF t(1,3)]
  show "rings_ok s'" using r(1,3,4,8) t(2) by (simp add: rings_ok_def s'_def USB_EP2_Handler_def)
  show "outward s = f # outward s'" using r(2) assms(2) by (simp add: s'_def USB_EP2_Handler_def outward_def tx_items_def)
  show "inward s' = inward s" "Connected s' = Connected s" "rx_items s' = rx_items s"
    using r(5,6,7) by (simp_all add: s'_def USB_EP2_Handler_def inward_def rx_items_def)
qed

lemma transmit:
  assumes "rings_ok s" "Connected s" "USB_Transmit f s = (True, s')"
  shows "rings_ok s'" "outward s' = outward s @ [f]" "inward s' = inward s" "Connected s'" "rx_items s' = rx_items s"
proof -
  let ?n = "unat (FullTransmitBuffers s)"
  define s1 where "s1 = s\<lparr>TransmitBuffer := (TransmitBuffer s)[NextTransmitBufferToFill s := f],
      NextTransmitBufferToFill := (if NextTransmitBufferToFill s + 1 \<ge> TBUFFS then 0 else NextTransmitBufferToFill s + 1),
      FullTransmitBuffers := FullTransmitBuffers s + 1\<rparr>"
  have room: "?n < 8" and s': "s' = (if TxStalled s then USB_SetInReport s1 else s1)"
    using assms(2,3) by (auto simp: USB_Transmit_def Let_def ge8 s1_def not_le split: if_splits)
  have t: "tx_ok s" "rx_ok s" "TxStalled s \<longleftrightarrow> ep2 s = None" "TxStalled s \<longrightarrow> FullTransmitBuffers s = 0"
    using assms(1,2) by (simp_all add: rings_ok_def)
  have fill: "NextTransmitBufferToFill s = (NextTransmitBufferToGo s + ?n) mod 8" "length (TransmitBuffer s) = 8"
    "NextTransmitBufferToGo s < 8" using t(1) by (simp_all add: tx_ok_def)
  have fl: "NextTransmitBufferToFill s < 8" unfolding fill(1) by simp
  have ok1: "tx_ok s1"
    using fill room wrap8 [OF fl] unat_inc [OF room] by (simp add: s1_def tx_ok_def fill(1) mod_Suc_eq del: if_split)
  have it1: "tx_items s1 = tx_items s @ [f]"
    using ring_add [OF fill(2) room, of "NextTransmitBufferToGo s" f] unat_inc [OF room]
    by (simp add: s1_def tx_items_def fill(1))
  have e1: "ep2 s1 = ep2 s" "TxStalled s1 = TxStalled s" "inward s1 = inward s" "rx_ok s1 = rx_ok s" "Connected s1" "rx_items s1 = rx_items s"
    using assms(2) by (simp_all add: s1_def inward_def rx_ok_def rx_items_def)
  show "rings_ok s'" "outward s' = outward s @ [f]" "inward s' = inward s" "Connected s'" "rx_items s' = rx_items s"
  proof -
    show "inward s' = inward s" "Connected s'" "rx_items s' = rx_items s"
      using set_in_report [OF ok1] e1 t(3) by (cases "TxStalled s"; simp add: s')+
    show "rings_ok s'"
      using set_in_report [OF ok1] e1 t ok1 by (cases "ep2 s") (simp_all add: s' rings_ok_def)
    have z: "tx_items s = []" if "TxStalled s" using t(4) that by (simp add: tx_items_def ring_def)
    show "outward s' = outward s @ [f]"
      using set_in_report(2) [OF ok1] e1 t(3) it1 z by (cases "TxStalled s") (simp_all add: s' outward_def)
  qed
qed

text \<open>A packet from the host.\<close>

lemma get_out_report:
  fixes f :: bytes
  assumes "length (ReceiveBuffer s) = 8" "NextReceiveBufferToGo s < 8" "unat (FullReceiveBuffers s) < 8"
    "NextReceiveBufferToFill s = (NextReceiveBufferToGo s + unat (FullReceiveBuffers s)) mod 8"
  defines "s' \<equiv> USB_GetOutReport f s"
  shows "rx_ok s'" "rx_items s' = rx_items s @ [f]" "\<not> RxStalled s'" "Connected s'" "outward s' = outward s" "tx_ok s' = tx_ok s"
    "TxStalled s' = TxStalled s" "ep2 s' = ep2 s" "FullTransmitBuffers s' = FullTransmitBuffers s" "ep3_ready s'"
proof -
  have fl: "NextReceiveBufferToFill s < 8" unfolding assms(4) by simp
  have s': "s' = s\<lparr>Connected := True, RxStalled := False, ReceiveBuffer := (ReceiveBuffer s)[NextReceiveBufferToFill s := f],
      NextReceiveBufferToFill := (NextReceiveBufferToFill s + 1) mod 8, FullReceiveBuffers := FullReceiveBuffers s + 1, ep3_ready := True\<rparr>"
    using assms(3) by (simp add: s'_def USB_GetOutReport_def Let_def ge8 wrap [OF fl])
  show "\<not> RxStalled s'" "Connected s'" "outward s' = outward s" "tx_ok s' = tx_ok s"
    "TxStalled s' = TxStalled s" "ep2 s' = ep2 s" "FullTransmitBuffers s' = FullTransmitBuffers s" "ep3_ready s'"
    by (simp_all add: s' outward_def tx_items_def tx_ok_def)
  show "rx_items s' = rx_items s @ [f]"
    using ring_add [OF assms(1,3), of "NextReceiveBufferToGo s" f] unat_inc [OF assms(3)] by (simp add: s' rx_items_def assms(4))
  show "rx_ok s'" using assms(1-4) unat_inc [OF assms(3)] by (simp add: s' rx_ok_def mod_Suc_eq)
qed

lemma ep3_arrived:
  fixes f :: bytes
  assumes "rings_ok s" "ep3_ready s" "Connected s"
  defines "s' \<equiv> USB_EP3_Handler (s\<lparr>ep3 := f, ep3_ready := False\<rparr>)"
  shows "rings_ok s'" "inward s' = inward s @ [f]" "outward s' = outward s" "Connected s'"
proof -
  let ?s = "s\<lparr>ep3 := f, ep3_ready := False\<rparr>"
  have r: "rx_ok s" "tx_ok s" "\<not> RxStalled s" using assms(1,2) by (simp_all add: rings_ok_def rx_ok_def)
  have ou: "outward ?s = outward s" "tx_ok ?s = tx_ok s" "rx_items ?s = rx_items s" by (simp_all add: outward_def tx_items_def tx_ok_def rx_items_def)
  have "rings_ok s' \<and> inward s' = inward s @ [f] \<and> outward s' = outward s \<and> Connected s'"
  proof (cases "unat (FullReceiveBuffers s) < 8")
    case True
    have g: "length (ReceiveBuffer ?s) = 8" "NextReceiveBufferToGo ?s < 8" "unat (FullReceiveBuffers ?s) < 8"
      "NextReceiveBufferToFill ?s = (NextReceiveBufferToGo ?s + unat (FullReceiveBuffers ?s)) mod 8"
      using r(1) True by (simp_all add: rx_ok_def)
    have "s' = USB_GetOutReport f ?s" by (simp add: s'_def USB_EP3_Handler_def)
    with get_out_report [OF g, of f] show ?thesis
      using assms(1,3) r ou by (simp add: rings_ok_def inward_def)
  next
    case False
    then have "s' = ?s\<lparr>RxStalled := True\<rparr>" by (simp add: s'_def USB_EP3_Handler_def USB_GetOutReport_def ge8)
    moreover have "FullReceiveBuffers s = 8" using False r(1) by (simp add: rx_ok_def word_unat_eq_iff)
    ultimately show ?thesis
      using assms(1,3) r by (simp add: rings_ok_def inward_def outward_def tx_items_def rx_items_def tx_ok_def rx_ok_def)
  qed
  then show "rings_ok s'" "inward s' = inward s @ [f]" "outward s' = outward s" "Connected s'" by simp_all
qed

lemma dequeue:
  assumes "rings_ok s" "Connected s" "FullReceiveBuffers s \<noteq> 0"
  defines "s' \<equiv> BSP_USBSerialRxDequeue s"
  shows "rings_ok s'" "inward s = ReceiveBuffer s ! NextReceiveBufferToGo s # inward s'" "outward s' = outward s" "Connected s'"
proof -
  let ?n = "unat (FullReceiveBuffers s)"
  define s1 where "s1 = s\<lparr>NextReceiveBufferToGo := (NextReceiveBufferToGo s + 1) mod 8, FullReceiveBuffers := FullReceiveBuffers s - 1\<rparr>"
  have r: "rx_ok s" "tx_ok s" "TxStalled s \<longleftrightarrow> ep2 s = None" "TxStalled s \<longrightarrow> FullTransmitBuffers s = 0"
    using assms(1,2) by (simp_all add: rings_ok_def)
  have g: "NextReceiveBufferToGo s < 8" "length (ReceiveBuffer s) = 8" "?n \<le> 8" "RxStalled s \<longleftrightarrow> \<not> ep3_ready s"
    "NextReceiveBufferToFill s = (NextReceiveBufferToGo s + ?n) mod 8" using r(1) by (simp_all add: rx_ok_def)
  obtain k where k: "?n = Suc k" using assms(3) unat_gt_0 [of "FullReceiveBuffers s"] by (cases ?n) auto
  have k8: "k < 8" using g(3) k by simp
  have u1: "unat (FullReceiveBuffers s1) = k" using unat_dec [OF assms(3)] k by (simp add: s1_def)
  have it: "rx_items s = ReceiveBuffer s ! NextReceiveBufferToGo s # rx_items s1"
    using ring_take [OF _ g(1), of ?n "ReceiveBuffer s"] k u1 by (simp add: rx_items_def s1_def)
  have f1: "NextReceiveBufferToFill s1 = (NextReceiveBufferToGo s1 + unat (FullReceiveBuffers s1)) mod 8"
    using g(5) k u1 by (simp add: s1_def mod_add_left_eq)
  have e1: "tx_ok s1 = tx_ok s" "outward s1 = outward s" "TxStalled s1 = TxStalled s" "ep2 s1 = ep2 s" "Connected s1"
    "FullTransmitBuffers s1 = FullTransmitBuffers s" "RxStalled s1 = RxStalled s" "ep3_ready s1 = ep3_ready s" "ep3 s1 = ep3 s"
    using assms(2) by (simp_all add: s1_def tx_ok_def outward_def tx_items_def)
  define s2 where "s2 = (if RxStalled s then USB_EP3_Handler s1 else s1)"
  have s2: "rx_ok s2 \<and> tx_ok s2 \<and> inward s = ReceiveBuffer s ! NextReceiveBufferToGo s # inward s2 \<and> outward s2 = outward s \<and>
      Connected s2 \<and> TxStalled s2 = TxStalled s \<and> ep2 s2 = ep2 s \<and> FullTransmitBuffers s2 = FullTransmitBuffers s"
  proof (cases "RxStalled s")
    case True
    have "length (ReceiveBuffer s1) = 8" "NextReceiveBufferToGo s1 < 8" "unat (FullReceiveBuffers s1) < 8"
      using g(2) u1 k8 by (simp_all add: s1_def)
    from get_out_report [OF this f1, of "ep3 s1"] True show ?thesis
      using it e1 r by (simp add: s2_def USB_EP3_Handler_def inward_def)
  next
    case False
    then have "rx_ok s1" using g f1 u1 k8 e1 by (simp add: rx_ok_def) (simp add: s1_def)
    with False show ?thesis using it e1 r by (simp add: s2_def inward_def)
  qed
  have d: "s' = (if Connected s2 \<and> TxStalled s2 then USB_SetInReport s2 else s2)"
    unfolding s'_def BSP_USBSerialRxDequeue_def Let_def wrap8 [OF g(1)] s1_def [symmetric] s2_def e1(7) by simp
  have "rings_ok s' \<and> inward s = ReceiveBuffer s ! NextReceiveBufferToGo s # inward s' \<and> outward s' = outward s \<and> Connected s'"
  proof (cases "TxStalled s")
    case True
    have e2: "tx_ok s2" "ep2 s2 = None" using s2 True r(3) by auto
    have "outward s2 = tx_items s2" by (simp add: outward_def e2(2))
    then show ?thesis using set_in_report [OF e2] s2 True r by (simp add: d rings_ok_def)
  next
    case False
    then obtain y where "ep2 s = Some y" using r(3) by auto
    then show ?thesis using s2 r False by (simp add: d rings_ok_def)
  qed
  then show "rings_ok s'" "inward s = ReceiveBuffer s ! NextReceiveBufferToGo s # inward s'" "outward s' = outward s" "Connected s'"
    by simp_all
qed

text \<open>The ring of received packets, with the one that waits in the endpoint, is a queue.\<close>

definition usb_ok :: "usb_rings \<Rightarrow> bool" where
  "usb_ok s \<longleftrightarrow> rings_ok s \<and> Connected s"

lemma rx_empty: "rings_ok s \<Longrightarrow> FullReceiveBuffers s = 0 \<longleftrightarrow> inward s = []"
  using unat_eq_0 [of "FullReceiveBuffers s"] by (auto simp: inward_def rx_items_def ring_def rings_ok_def rx_ok_def)

interpretation usb_fifo: message_queue usb_ok inward BSP_USBSerialRxPeek BSP_USBSerialRxDequeue
proof
  fix s f
  assume s: "usb_ok s"
  then have r: "rings_ok s" "Connected s" by (simp_all add: usb_ok_def)
  show "inward s \<noteq> [] \<and> f = hd (inward s)" if "BSP_USBSerialRxPeek s = Some f"
    using that dequeue(2) [OF r] by (auto simp: BSP_USBSerialRxPeek_def split: if_splits)
  show "usb_ok (BSP_USBSerialRxDequeue s) \<and> inward (BSP_USBSerialRxDequeue s) = tl (inward s)" if "inward s \<noteq> []"
    using that dequeue [OF r] rx_empty [OF r(1)] by (auto simp: usb_ok_def)
qed

lemma peek_inward:
  assumes "usb_ok s"
  shows "BSP_USBSerialRxPeek s = (case inward s of [] \<Rightarrow> None | f # _ \<Rightarrow> Some f)"
  using dequeue(2) [of s] rx_empty [of s] assms
  by (cases "FullReceiveBuffers s = 0") (auto simp: BSP_USBSerialRxPeek_def usb_ok_def split: list.split)

subsection \<open>The device joins\<close>

lemma frag_octets_head:
  assumes "usb_ok s" "inward s = f # fs" "off + n \<le> length f"
  shows "frag_octets s off n = take n (drop off f)"
proof -
  have r: "rings_ok s" "Connected s" using assms(1) by (simp_all add: usb_ok_def)
  have "FullReceiveBuffers s \<noteq> 0" using rx_empty [OF r(1)] assms(2) by auto
  from dequeue(2) [OF r this] assms(2) have f: "f = ReceiveBuffer s ! NextReceiveBufferToGo s" by simp
  have "NextReceiveBufferToGo s < length (ReceiveBuffer s)" using r(1) by (simp add: rings_ok_def rx_ok_def)
  from Cons_nth_drop_Suc [OF this] have "drop (NextReceiveBufferToGo s) (ReceiveBuffer s) = f # drop (Suc (NextReceiveBufferToGo s)) (ReceiveBuffer s)"
    by (simp add: f)
  then show ?thesis using assms(3) by (simp add: frag_octets_def)
qed

definition usb_message :: "usb_serial \<Rightarrow> bytes" where
  "usb_message s = (let b = usb_SerialRxBuffer s in CmdId b # CmdLen b # take (unat (CmdLen b)) (Data b))"

text \<open>\<open>x\<close> is what was read of a message.\<close>

definition part_read :: "bytes \<Rightarrow> usb_serial \<Rightarrow> bool" where
  "part_read x s \<longleftrightarrow>
     (if x = [] then usb_SerialCount s = 0
      else 2 < length x \<and> CmdId (usb_SerialRxBuffer s) = x ! 0 \<and> CmdLen (usb_SerialRxBuffer s) = x ! 1 \<and>
        unat (usb_SerialCount s) = length x - 2 \<and> take (length x - 2) (Data (usb_SerialRxBuffer s)) = drop 2 x)"

lemma turn_reads:
  assumes ok: "usb_ok (rings s)" and inw: "inward (rings s) = f # fs" and c: "carries (x = []) r (f # gs)"
    and p: "part_read x s" and m: "m = x @ r" "2 \<le> length m" "length m \<le> 255" "m ! 1 = of_nat (length m - 2)"
    and b: "length (Data (usb_SerialRxBuffer s)) = SERIAL_MAC_RX_LEN"
  shows "\<exists>s'. get_command_turn s = (if length r \<le> 63 then Some True else None, s') \<and>
     rings s' = BSP_USBSerialRxDequeue (rings s) \<and> usb_SerialRxPending s' = (length r \<le> 63 \<or> usb_SerialRxPending s) \<and>
     length (Data (usb_SerialRxBuffer s')) = SERIAL_MAC_RX_LEN \<and>
     (if length r \<le> 63 then usb_message s' = m \<and> part_read [] s' else part_read (x @ take 63 r) s')"
proof -
  let ?n = "min 63 (length r)"
  define l where "l \<longleftrightarrow> length r \<le> 63"
  have n: "?n \<le> 63" by simp
  have f: "length f = 64" "f ! 0 = control (x = []) l ?n" "take ?n (drop 1 f) = take 63 r"
    using c by (simp_all add: l_def)
  note bits = control_bits [OF n, of "x = []" l]
  have peek: "BSP_USBSerialRxPeek (rings s) = Some f" using peek_inward [OF ok] inw by simp
  have un: "unat (of_nat ?n :: u8) = ?n" by (simp add: unat_of_nat)
  let ?b = "usb_SerialRxBuffer s"
  show ?thesis
  proof (cases "x = []")
    case True
    have rm: "r = m" using m(1) True by simp
    have m_ne: "m \<noteq> []" using m(2) by auto
    have n2: "2 \<le> ?n" using m(2) rm by simp
    have cnt: "of_nat ?n - 2 = (of_nat (?n - 2) :: u8)" using n2 by (simp add: of_nat_diff)
    have uc: "unat (of_nat (?n - 2) :: u8) = ?n - 2" by (simp add: unat_of_nat)
    have fo: "frag_octets (rings s) 3 (?n - 2) = drop 2 (take 63 m)"
    proof -
      have "frag_octets (rings s) 3 (?n - 2) = take (?n - 2) (drop 3 f)"
        by (rule frag_octets_head [OF ok inw]) (use f(1) n2 in simp)
      also have "\<dots> = drop 2 (take ?n (drop 1 f))" by (simp add: drop_take)
      finally show ?thesis using f(3) rm by simp
    qed
    have hd12: "f ! 1 = m ! 0" "f ! 2 = m ! 1"
    proof -
      have pos: "0 < ?n" "1 < ?n" using n2 by linarith+
      have A: "f ! 1 = take ?n (drop 1 f) ! 0" "f ! 2 = take ?n (drop 1 f) ! 1"
        using f(1) nth_take [OF pos(1), of "drop 1 f"] nth_take [OF pos(2), of "drop 1 f"] by (simp_all add: numeral_2_eq_2)
      show "f ! 1 = m ! 0" "f ! 2 = m ! 1" unfolding A unfolding f(3) unfolding rm using m(2) by simp_all
    qed
    define b' where "b' = \<lparr>CmdId = m ! 0, CmdLen = m ! 1, Data = put (Data ?b) 0 (drop 2 (take 63 m))\<rparr>"
    define s' where "s' = s\<lparr>usb_SerialRxBuffer := b', usb_SerialCount := of_nat (?n - 2), rings := BSP_USBSerialRxDequeue (rings s)\<rparr>"
    define s2 where "s2 = (if l then s'\<lparr>usb_SerialRxPending := True, usb_SerialCount := 0\<rparr> else s')"
    have t: "get_command_turn s = (if l then Some True else None, s2)"
      unfolding get_command_turn_def peek option.case Let_def f(2) bits
      using True by (simp add: cnt uc fo hd12 hd12(1) [unfolded One_nat_def] s2_def s'_def b'_def)
    have len63: "length (drop 2 (take 63 m)) = ?n - 2" by (simp add: rm min.commute)
    have lb: "length (Data b') = SERIAL_MAC_RX_LEN" unfolding b'_def using b len63 n by simp
    have tk: "take (?n - 2) (Data b') = drop 2 (take 63 m)"
      using put_take [of 0 "Data ?b" "drop 2 (take 63 m)"] by (simp add: b'_def min.commute rm)
    have msg: "usb_message s2 = m \<and> part_read [] s2" if l
    proof -
      have lm: "length m \<le> 63" using that by (simp add: l_def rm)
      then have "take (length m - 2) (Data b') = drop 2 m" using tk rm by simp
      moreover have "unat (m ! 1) = length m - 2" unfolding m(4) using m(3) by (simp add: unat_of_nat)
      moreover have "m = m ! 0 # m ! 1 # drop 2 m" using m(2) by (cases m; cases "tl m") auto
      ultimately have "usb_message s2 = m" using that by (simp add: usb_message_def Let_def s2_def s'_def b'_def)
      then show ?thesis using that by (simp add: part_read_def s2_def)
    qed
    have part: "part_read (x @ take 63 r) s2" if "\<not> l"
      using that m(2) m_ne tk uc True rm by (simp add: part_read_def s2_def s'_def b'_def l_def)
    show ?thesis using t msg part lb by (intro exI [of _ s2]) (simp add: l_def s2_def s'_def split: if_splits)
  next
    case False
    have p': "2 < length x" "CmdId ?b = x ! 0" "CmdLen ?b = x ! 1" "unat (usb_SerialCount s) = length x - 2"
      "take (length x - 2) (Data ?b) = drop 2 x" using p False by (simp_all add: part_read_def)
    have fit: "length x - 2 + ?n \<le> SERIAL_MAC_RX_LEN" using m(1,3) p'(1) by simp
    have fo: "frag_octets (rings s) 1 ?n = take 63 r"
      using frag_octets_head [OF ok inw, of 1 ?n] f(1,3) by simp
    define b' where "b' = ?b\<lparr>Data := put (Data ?b) (length x - 2) (take 63 r)\<rparr>"
    define s' where "s' = s\<lparr>usb_SerialRxBuffer := b', usb_SerialCount := usb_SerialCount s + of_nat ?n, rings := BSP_USBSerialRxDequeue (rings s)\<rparr>"
    define s2 where "s2 = (if l then s'\<lparr>usb_SerialRxPending := True, usb_SerialCount := 0\<rparr> else s')"
    have nf: "\<not> unat (usb_SerialCount s) + unat (of_nat ?n :: u8) > SERIAL_MAC_RX_LEN" using fit p'(4) un by simp
    have t: "get_command_turn s = (if l then Some True else None, s2)"
      unfolding get_command_turn_def peek option.case Let_def f(2) bits
      using False nf by (simp add: fo fo [unfolded One_nat_def] un p'(4) s2_def s'_def b'_def)
    have lr: "length (take 63 r) = ?n" by simp
    have lb: "length (Data b') = SERIAL_MAC_RX_LEN" unfolding b'_def using b fit by simp
    have tk: "take (length x - 2 + ?n) (Data b') = drop 2 (x @ take 63 r)"
      using put_take [of "length x - 2" "Data ?b" "take 63 r"] b fit p'(1,5) by (simp add: b'_def min.commute)
    have uc: "unat (usb_SerialCount s + of_nat ?n) = length x - 2 + ?n"
      using p'(4) un fit by (simp add: unat_word_ariths)
    have x01: "x ! 0 = m ! 0" "x ! 1 = m ! 1" using m(1) p'(1) False by (simp_all add: nth_append)
    have msg: "usb_message s2 = m \<and> part_read [] s2" if l
    proof -
      have "length x - 2 + ?n = length m - 2" "take 63 r = r" using that p'(1) m(1) by (simp_all add: l_def)
      then have "take (length m - 2) (Data b') = drop 2 m" using tk m(1) by simp
      moreover have "unat (m ! 1) = length m - 2" unfolding m(4) using m(3) by (simp add: unat_of_nat)
      moreover have "m = m ! 0 # m ! 1 # drop 2 m" using m(2) by (cases m; cases "tl m") auto
      ultimately have "usb_message s2 = m" using that p'(2,3) x01 by (simp add: usb_message_def Let_def s2_def s'_def b'_def)
      then show ?thesis using that by (simp add: part_read_def s2_def)
    qed
    have part: "part_read (x @ take 63 r) s2" if "\<not> l"
      using that tk uc p' False by (simp add: part_read_def s2_def s'_def b'_def nth_append min.commute)
    show ?thesis using t msg part lb by (intro exI [of _ s2]) (simp add: l_def s2_def s'_def split: if_splits)
  qed
qed

end
