(* ===== verification/UsbDelivery.thy ===== *)
theory UsbDelivery
  imports UsbRing "HOL-Library.Sublist"
begin

text \<open>
  The USB link as a transition system: host, bus, interrupts, the device's reading loop and its sending
  run in any order. Every message arrives once, in order and unchanged, in both directions, and no
  packet is lost however full the rings are.
\<close>

unbundle bit_operations_syntax

declare carries.simps [simp del]

subsection \<open>The link\<close>

definition usb_command :: "bytes \<Rightarrow> bool" where
  "usb_command m \<longleftrightarrow> 2 \<le> length m \<and> length m \<le> 255 \<and> m ! 1 = of_nat (length m - 2)"

text \<open>From the device: not empty, and not the notice that the radio has failed.\<close>

definition usb_indication :: "bytes \<Rightarrow> bool" where
  "usb_indication m \<longleftrightarrow> usb_command m \<and> 3 \<le> length m \<and> m ! 0 \<noteq> 0xF0"

text \<open>\<open>tx_pending\<close>: the packets that the device has still to put in its ring.\<close>

record usb_link =
  host :: hid
  dev :: usb_serial
  tx_pending :: "bytes list"
  host_sent :: "bytes list"
  dev_got :: "bytes list"
  dev_sent :: "bytes list"
  host_got :: "bytes list"

definition rings_start :: usb_rings where
  "rings_start = \<lparr>Connected = True, TxStalled = True, RxStalled = False, TransmitBuffer = replicate 8 (replicate 64 0),
     ReceiveBuffer = replicate 8 (replicate 64 0), NextTransmitBufferToGo = 0, NextTransmitBufferToFill = 0,
     FullTransmitBuffers = 0, NextReceiveBufferToGo = 0, NextReceiveBufferToFill = 0, FullReceiveBuffers = 0,
     ep2 = None, ep3 = [], ep3_ready = True, behind_rx = []\<rparr>"

definition usb_start :: usb_link where
  "usb_start = \<lparr>host = \<lparr>hid_reads = [], hid_write_fails = [], hid_written = [], hid_reloads = []\<rparr>,
     dev = \<lparr>UsbTxFrag = replicate 64 0, usb_SerialRxBuffer = \<lparr>CmdId = 0, CmdLen = 0, Data = replicate SERIAL_MAC_RX_LEN 0\<rparr>,
       usb_SerialRxPending = False, usb_SerialCount = 0, rings = rings_start\<rparr>,
     tx_pending = [], host_sent = [], dev_got = [], dev_sent = [], host_got = []\<rparr>"

text \<open>Steps that move messages on: the bus, the interrupts, the loops of both ends.\<close>

inductive transfer :: "usb_link \<Rightarrow> usb_link \<Rightarrow> bool" where
  to_device:
    "hid_written (host s) = f # fs \<Longrightarrow> ep3_ready (rings (dev s)) \<Longrightarrow>
     transfer s (s\<lparr>host := (host s)\<lparr>hid_written := fs\<rparr>,
       dev := (dev s)\<lparr>rings := USB_EP3_Handler ((rings (dev s))\<lparr>ep3 := f, ep3_ready := False\<rparr>)\<rparr>\<rparr>)"
| to_host:
    "ep2 (rings (dev s)) = Some f \<Longrightarrow>
     transfer s (s\<lparr>host := (host s)\<lparr>hid_reads := hid_reads (host s) @ [Hid_frag f]\<rparr>,
       dev := (dev s)\<lparr>rings := USB_EP2_Handler ((rings (dev s))\<lparr>ep2 := None\<rparr>)\<rparr>\<rparr>)"
| dev_read:
    "\<not> usb_SerialRxPending (dev s) \<Longrightarrow> BSP_USBSerialRxPeek (rings (dev s)) \<noteq> None \<Longrightarrow>
     get_command_turn (dev s) = (r, d) \<Longrightarrow> transfer s (s\<lparr>dev := d\<rparr>)"
| dev_take:
    "usb_SerialRxPending (dev s) \<Longrightarrow>
     transfer s (s\<lparr>dev := (dev s)\<lparr>usb_SerialRxPending := False\<rparr>, dev_got := dev_got s @ [usb_message (dev s)]\<rparr>)"
| dev_write:
    "tx_pending s = f # fs \<Longrightarrow> USB_Transmit f (rings (dev s)) = (True, rs) \<Longrightarrow>
     transfer s (s\<lparr>dev := (dev s)\<lparr>rings := rs\<rparr>, tx_pending := fs\<rparr>)"
| host_read:
    "hid_reads (host s) \<noteq> [] \<Longrightarrow> length buf = MAX_BUF_SIZE \<Longrightarrow> usb_try_read buf (host s) = Some (r, buf', h) \<Longrightarrow>
     transfer s (s\<lparr>host := h, host_got := host_got s @ (if r > 0 then [take (nat r) buf'] else [])\<rparr>)"

text \<open>A write of the host may be tried again for any packet; the device is not opened anew.\<close>

inductive usb_step :: "usb_link \<Rightarrow> usb_link \<Rightarrow> bool" where
  transfer: "transfer s s' \<Longrightarrow> usb_step s s'"
| host_send:
    "usb_command m \<Longrightarrow> length frag = 65 \<Longrightarrow>
     usb_try_write m (length m) frag ((host s)\<lparr>hid_write_fails := fails, hid_reloads := []\<rparr>) = Some (CA_ERROR_SUCCESS, h) \<Longrightarrow>
     usb_step s (s\<lparr>host := h, host_sent := host_sent s @ [m]\<rparr>)"
| dev_send:
    "usb_indication (c # l # p) \<Longrightarrow> tx_pending s = [] \<Longrightarrow>
     usb_fragments True l p ((UsbTxFrag (dev s))[1 := c, 2 := l]) = (fs, tx) \<Longrightarrow>
     usb_step s (s\<lparr>dev := (dev s)\<lparr>UsbTxFrag := tx\<rparr>, tx_pending := fs, dev_sent := dev_sent s @ [c # l # p]\<rparr>)"

definition usb_reachable :: "usb_link \<Rightarrow> bool" where
  "usb_reachable = usb_step\<^sup>*\<^sup>* usb_start"

subsection \<open>The invariant\<close>

text \<open>Packets that carry messages, and those that carry the rest of one of which \<open>x\<close> was read.\<close>

definition stream :: "bytes list \<Rightarrow> bytes list \<Rightarrow> bool" where
  "stream L D \<longleftrightarrow> (\<exists>fss. list_all2 (carries True) L fss \<and> D = concat fss)"

definition owed :: "bytes \<Rightarrow> bytes list \<Rightarrow> bytes list \<Rightarrow> bool" where
  "owed x M D \<longleftrightarrow>
     (if x = [] then stream M D
      else (\<exists>r gs L E. M = (x @ r) # L \<and> usb_command (x @ r) \<and> carries False r gs \<and> D = gs @ E \<and> stream L E))"

lemma stream_nil: "stream L [] \<longleftrightarrow> L = []"
proof
  assume "stream L []"
  then obtain fss where f: "list_all2 (carries True) L fss" "concat fss = []" by (auto simp: stream_def)
  show "L = []"
  proof (cases L)
    case (Cons m L')
    then obtain fs fss' where "fss = fs # fss'" "carries True m fs" using f(1) by (auto simp: list_all2_Cons1)
    then show ?thesis using f(2) carries_not_nil by auto
  qed
qed (simp add: stream_def)

lemma stream_cons:
  assumes "stream M (f # D)"
  shows "\<exists>m L gs E. M = m # L \<and> carries True m (f # gs) \<and> D = gs @ E \<and> stream L E"
proof -
  obtain fss where f: "list_all2 (carries True) M fss" "f # D = concat fss" using assms by (auto simp: stream_def)
  obtain fs fss' where s: "fss = fs # fss'" using f(2) by (cases fss) auto
  obtain m L where m: "M = m # L" "carries True m fs" "list_all2 (carries True) L fss'" using f(1) by (auto simp: s list_all2_Cons2)
  obtain gs where "fs = f # gs" using carries_not_nil [OF m(2)] f(2) by (cases fs) (auto simp: s)
  then show ?thesis using m f(2) by (intro exI [of _ m] exI [of _ L] exI [of _ gs] exI [of _ "concat fss'"]) (auto simp: s stream_def)
qed

lemma stream_snoc:
  assumes "stream L D" "carries True m fs"
  shows "stream (L @ [m]) (D @ fs)"
proof -
  obtain fss where "list_all2 (carries True) L fss" "D = concat fss" using assms(1) by (auto simp: stream_def)
  then show ?thesis using assms(2) unfolding stream_def by (intro exI [of _ "fss @ [fs]"]) (simp add: list_all2_appendI)
qed

lemma owed_snoc:
  assumes "owed x M D" "carries True m fs"
  shows "owed x (M @ [m]) (D @ fs)"
proof (cases "x = []")
  case True
  then show ?thesis using assms stream_snoc by (simp add: owed_def)
next
  case False
  then obtain r gs L E where o: "M = (x @ r) # L" "usb_command (x @ r)" "carries False r gs" "D = gs @ E" "stream L E"
    using assms(1) by (auto simp: owed_def)
  then show ?thesis
    using False stream_snoc [OF o(5) assms(2)] unfolding owed_def
    by (simp only: if_False) (intro exI [of _ r] exI [of _ gs] exI [of _ "L @ [m]"] exI [of _ "E @ fs"], simp)
qed

definition held :: "usb_serial \<Rightarrow> bytes list" where
  "held d = (if usb_SerialRxPending d then [usb_message d] else [])"

definition usb_inv :: "usb_link \<Rightarrow> bool" where
  "usb_inv s \<longleftrightarrow>
     (let d = dev s; D = inward (rings d) @ hid_written (host s) in
      usb_ok (rings d) \<and> length (Data (usb_SerialRxBuffer d)) = SERIAL_MAC_RX_LEN \<and> length (UsbTxFrag d) = 64 \<and>
      (\<exists>x M. part_read x d \<and> owed x M D \<and> (\<forall>m \<in> set M. usb_command m) \<and>
         (usb_SerialRxPending d \<longrightarrow> x = []) \<and> host_sent s = dev_got s @ held d @ M) \<and>
      (\<exists>L hr. hid_reads (host s) = map Hid_frag hr \<and> stream L (hr @ outward (rings d) @ tx_pending s) \<and>
         (\<forall>m \<in> set L. usb_indication m) \<and> dev_sent s = host_got s @ L))"

lemma usb_inv_start: "usb_inv usb_start"
proof -
  have "rings_ok rings_start"
    by (simp add: rings_start_def rings_ok_def tx_ok_def rx_ok_def)
  moreover have "inward rings_start = []" "outward rings_start = []" "Connected rings_start"
    by (simp_all add: inward_def outward_def rings_start_def rx_items_def tx_items_def ring_def)
  ultimately show ?thesis
    unfolding usb_inv_def Let_def
    by (intro conjI exI [of _ "[]"]) (simp_all add: usb_start_def usb_ok_def part_read_def owed_def stream_nil held_def)
qed

subsection \<open>Steps keep it\<close>

lemma part_read_fields [simp]:
  "part_read x (d\<lparr>rings := r\<rparr>) = part_read x d" "part_read x (d\<lparr>UsbTxFrag := t\<rparr>) = part_read x d"
  "part_read x (d\<lparr>usb_SerialRxPending := b\<rparr>) = part_read x d"
  "usb_message (d\<lparr>rings := r\<rparr>) = usb_message d" "usb_message (d\<lparr>UsbTxFrag := t\<rparr>) = usb_message d"
  "held (d\<lparr>rings := r\<rparr>) = held d" "held (d\<lparr>UsbTxFrag := t\<rparr>) = held d" "held (d\<lparr>usb_SerialRxPending := False\<rparr>) = []"
  by (simp_all add: part_read_def usb_message_def held_def cong: if_cong)

lemma inv_to_device:
  assumes inv: "usb_inv s" and "hid_written (host s) = f # fs" "ep3_ready (rings (dev s))"
  shows "usb_inv (s\<lparr>host := (host s)\<lparr>hid_written := fs\<rparr>,
       dev := (dev s)\<lparr>rings := USB_EP3_Handler ((rings (dev s))\<lparr>ep3 := f, ep3_ready := False\<rparr>)\<rparr>\<rparr>)"
proof -
  have ok: "rings_ok (rings (dev s))" "Connected (rings (dev s))" using inv by (simp_all add: usb_inv_def Let_def usb_ok_def)
  note a = ep3_arrived [OF ok(1) assms(3) ok(2), of f]
  show ?thesis using inv a assms(2) by (simp add: usb_inv_def Let_def usb_ok_def)
qed

lemma inv_to_host:
  assumes inv: "usb_inv s" and "ep2 (rings (dev s)) = Some f"
  shows "usb_inv (s\<lparr>host := (host s)\<lparr>hid_reads := hid_reads (host s) @ [Hid_frag f]\<rparr>,
       dev := (dev s)\<lparr>rings := USB_EP2_Handler ((rings (dev s))\<lparr>ep2 := None\<rparr>)\<rparr>\<rparr>)"
proof -
  have ok: "rings_ok (rings (dev s))" "Connected (rings (dev s))" using inv by (simp_all add: usb_inv_def Let_def usb_ok_def)
  note a = ep2_fetched [OF ok(1) assms(2)]
  obtain L hr where u: "hid_reads (host s) = map Hid_frag hr" "stream L (hr @ outward (rings (dev s)) @ tx_pending s)"
    "\<forall>m \<in> set L. usb_indication m" "dev_sent s = host_got s @ L" using inv by (auto simp: usb_inv_def Let_def)
  have "\<exists>L hr'. hid_reads (host s) @ [Hid_frag f] = map Hid_frag hr' \<and>
      stream L (hr' @ outward (USB_EP2_Handler ((rings (dev s))\<lparr>ep2 := None\<rparr>)) @ tx_pending s) \<and>
      (\<forall>m \<in> set L. usb_indication m) \<and> dev_sent s = host_got s @ L"
    by (rule exI [of _ L], rule exI [of _ "hr @ [f]"]) (use u a(2) in simp)
  then show ?thesis using inv a by (simp add: usb_inv_def Let_def usb_ok_def)
qed

lemma inv_dev_write:
  assumes inv: "usb_inv s" and "tx_pending s = f # fs" "USB_Transmit f (rings (dev s)) = (True, rs)"
  shows "usb_inv (s\<lparr>dev := (dev s)\<lparr>rings := rs\<rparr>, tx_pending := fs\<rparr>)"
proof -
  have ok: "rings_ok (rings (dev s))" "Connected (rings (dev s))" using inv by (simp_all add: usb_inv_def Let_def usb_ok_def)
  note a = transmit [OF ok assms(3)]
  show ?thesis using inv a assms(2) by (simp add: usb_inv_def Let_def usb_ok_def)
qed

lemma inv_dev_take:
  assumes inv: "usb_inv s" and "usb_SerialRxPending (dev s)"
  shows "usb_inv (s\<lparr>dev := (dev s)\<lparr>usb_SerialRxPending := False\<rparr>, dev_got := dev_got s @ [usb_message (dev s)]\<rparr>)"
proof -
  have h: "held (dev s) = [usb_message (dev s)]" using assms(2) by (simp add: held_def)
  show ?thesis using inv h assms(2) by (auto simp: usb_inv_def Let_def)
qed

lemma inv_dev_read:
  assumes inv: "usb_inv s" and n: "\<not> usb_SerialRxPending (dev s)" "BSP_USBSerialRxPeek (rings (dev s)) \<noteq> None"
    and t: "get_command_turn (dev s) = (r, d)"
  shows "usb_inv (s\<lparr>dev := d\<rparr>) \<and> rings d = BSP_USBSerialRxDequeue (rings (dev s)) \<and> r \<noteq> Some False"
proof -
  let ?d = "dev s"
  have ok: "usb_ok (rings ?d)" "rings_ok (rings ?d)" "Connected (rings ?d)" "length (Data (usb_SerialRxBuffer ?d)) = SERIAL_MAC_RX_LEN"
    using inv by (simp_all add: usb_inv_def Let_def usb_ok_def)
  obtain f fs where f: "inward (rings ?d) = f # fs" using n(2) peek_inward [OF ok(1)] by (auto split: list.splits)
  obtain x M where o: "part_read x ?d" "owed x M (f # fs @ hid_written (host s))" "\<forall>m \<in> set M. usb_command m" "host_sent s = dev_got s @ M"
    using inv n(1) f by (auto simp: usb_inv_def Let_def held_def)
  obtain q gs L E where c: "M = (x @ q) # L" "carries (x = []) q (f # gs)" "fs @ hid_written (host s) = gs @ E" "stream L E"
  proof (cases "x = []")
    case True
    then show ?thesis using o(2) stream_cons that by (fastforce simp: owed_def)
  next
    case False
    then obtain q gs L E where g: "M = (x @ q) # L" "carries False q gs" "f # fs @ hid_written (host s) = gs @ E" "stream L E"
      using o(2) by (auto simp: owed_def)
    moreover obtain gs' where "gs = f # gs'" using carries_not_nil [OF g(2)] g(3) by (cases gs) auto
    ultimately show ?thesis using that False by auto
  qed
  have m: "usb_command (x @ q)" using o(3) c(1) by simp
  from turn_reads [OF ok(1) f c(2) o(1) refl _ _ _ ok(4)] m t
  have d: "r = (if length q \<le> 63 then Some True else None)" "rings d = BSP_USBSerialRxDequeue (rings ?d)"
    "usb_SerialRxPending d = (length q \<le> 63 \<or> usb_SerialRxPending ?d)" "length (Data (usb_SerialRxBuffer d)) = SERIAL_MAC_RX_LEN"
    "if length q \<le> 63 then usb_message d = x @ q \<and> part_read [] d else part_read (x @ take 63 q) d"
    by (auto simp: usb_command_def)
  have tx: "UsbTxFrag d = UsbTxFrag ?d"
    using t by (auto simp: get_command_turn_def Let_def split: option.splits if_splits)
  have q: "usb_ok (rings d)" "inward (rings d) = fs" "outward (rings d) = outward (rings ?d)"
    using usb_fifo.dequeue_tail [OF ok(1)] f rx_empty [OF ok(2)] dequeue(3) [OF ok(2,3)] by (simp_all add: d(2))
  have "\<exists>x' M'. part_read x' d \<and> owed x' M' (fs @ hid_written (host s)) \<and> (\<forall>m \<in> set M'. usb_command m) \<and>
     (usb_SerialRxPending d \<longrightarrow> x' = []) \<and> host_sent s = dev_got s @ held d @ M'"
  proof (cases "length q \<le> 63")
    case True
    then have "gs = []" using c(2) by (simp add: carries.simps)
    then show ?thesis using True d(3,5) c o by (intro exI [of _ "[]"] exI [of _ L]) (simp add: owed_def held_def)
  next
    case False
    then have "carries False (drop 63 q) gs" using c(2) by (simp add: carries.simps)
    moreover have "x @ q = (x @ take 63 q) @ drop 63 q" by simp
    moreover have "x @ take 63 q \<noteq> []" using False by auto
    ultimately have "owed (x @ take 63 q) M (fs @ hid_written (host s))"
      using c m unfolding owed_def by (metis (no_types, lifting))
    then show ?thesis using False d(3,5) o n(1) by (intro exI [of _ "x @ take 63 q"] exI [of _ M]) (simp add: held_def)
  qed
  moreover have "\<exists>L hr. hid_reads (host s) = map Hid_frag hr \<and> stream L (hr @ outward (rings ?d) @ tx_pending s) \<and>
         (\<forall>m \<in> set L. usb_indication m) \<and> dev_sent s = host_got s @ L" "length (UsbTxFrag ?d) = 64"
    using inv by (simp_all add: usb_inv_def Let_def)
  ultimately show ?thesis using d(1,2,4) q tx by (simp add: usb_inv_def Let_def)
qed

lemma host_read_message:
  assumes "hid_reads h = map Hid_frag (fs @ rest)" "carries True m fs" "usb_indication m" "length buf = MAX_BUF_SIZE"
  shows "usb_try_read buf h = Some (int (length m), put buf 0 m, h\<lparr>hid_reads := map Hid_frag rest\<rparr>)"
proof -
  have m: "3 \<le> length m" "length m \<le> 255" "m ! 0 \<noteq> 0xF0" using assms(3) by (simp_all add: usb_indication_def usb_command_def)
  have r: "read_frags True (hid_reads h) buf 0 0 = Some (int MAX_FRAG_SIZE, put buf 0 m, of_nat (length m), map Hid_frag rest)"
    using read_frags_carries [OF assms(2), of 0 buf True "map Hid_frag rest" 0] m assms(1,4) begins_within_all [of 0 m] by simp
  have "uint (of_nat (length m) :: u8) = int (length m)" using m(2) by (simp add: uint_nat unat_of_nat del: of_nat_unat)
  moreover have "m \<noteq> []" using m(1) by auto
  then have "put buf 0 m ! 0 = m ! 0" by (simp add: put_def nth_append)
  ultimately show ?thesis using m(3) unfolding usb_try_read_def r by (simp add: Let_def)
qed

lemma usb_inv_host_read:
  assumes inv: "usb_inv s" and ne: "hid_reads (host s) \<noteq> []" and b: "length buf = MAX_BUF_SIZE"
  shows "case usb_try_read buf (host s) of
      None \<Rightarrow> outward (rings (dev s)) @ tx_pending s \<noteq> []
    | Some (r, buf', h) \<Rightarrow>
        usb_inv (s\<lparr>host := h, host_got := host_got s @ (if r > 0 then [take (nat r) buf'] else [])\<rparr>) \<and>
        hid_written h = hid_written (host s) \<and> length (hid_reads h) < length (hid_reads (host s))"
proof -
  obtain L hr where u: "hid_reads (host s) = map Hid_frag hr" "stream L (hr @ outward (rings (dev s)) @ tx_pending s)"
    "\<forall>m \<in> set L. usb_indication m" "dev_sent s = host_got s @ L" using inv by (auto simp: usb_inv_def Let_def)
  then obtain f hr' where hr: "hr = f # hr'" using ne by (cases hr) auto
  obtain m L' gs E where c: "L = m # L'" "carries True m (f # gs)" "hr' @ outward (rings (dev s)) @ tx_pending s = gs @ E" "stream L' E"
    using stream_cons u(2) unfolding hr by fastforce
  have m: "usb_indication m" using u(3) c(1) by simp
  show ?thesis
  proof (cases "length gs \<le> length hr'")
    case True
    then obtain rest where rest: "hr' = gs @ rest" "E = rest @ outward (rings (dev s)) @ tx_pending s"
      using c(3) by (auto simp: append_eq_append_conv2)
    have r: "usb_try_read buf (host s) = Some (int (length m), put buf 0 m, (host s)\<lparr>hid_reads := map Hid_frag rest\<rparr>)"
      using host_read_message [OF _ c(2) m b, of "host s" rest] u(1) by (simp add: hr rest)
    have m3: "3 \<le> length m" "length m \<le> 255" using m by (simp_all add: usb_indication_def usb_command_def)
    have tk: "take (length m) (put buf 0 m) = m" by (simp add: put_def)
    have "usb_inv (s\<lparr>host := (host s)\<lparr>hid_reads := map Hid_frag rest\<rparr>, host_got := host_got s @ [m]\<rparr>)"
    proof -
      have "\<exists>L hr. map Hid_frag rest = map Hid_frag hr \<and> stream L (hr @ outward (rings (dev s)) @ tx_pending s) \<and>
         (\<forall>m \<in> set L. usb_indication m) \<and> dev_sent s = (host_got s @ [m]) @ L"
        by (rule exI [of _ L'], rule exI [of _ rest]) (use u c rest in simp)
      then show ?thesis using inv unfolding usb_inv_def Let_def by simp
    qed
    moreover have "m \<noteq> []" using m3 by auto
    ultimately show ?thesis using r tk m3 u(1) by (simp add: hr rest)
  next
    case False
    define Y where "Y = outward (rings (dev s)) @ tx_pending s"
    have "hr' @ Y = gs @ E" using c(3) by (simp add: Y_def)
    then obtain gs' where "gs = hr' @ gs'" "Y = gs' @ E"
      using False by (auto simp: append_eq_append_conv2)
    with False have g: "gs = hr' @ gs'" "gs' \<noteq> []" "outward (rings (dev s)) @ tx_pending s = gs' @ E"
      by (auto simp: Y_def)
    have "begins_within 0 m" using m by (intro begins_within_all) (simp add: usb_indication_def usb_command_def)
    then have "read_frags True (map Hid_frag hr) buf 0 0 = None"
      using read_frags_waits [of True m hr gs' True 0 buf 0] c(2) g b by (simp add: hr)
    then have "usb_try_read buf (host s) = None" by (simp add: usb_try_read_def u(1))
    then show ?thesis using g by simp
  qed
qed

subsection \<open>Every message arrives\<close>

lemma transfer_inv:
  assumes "transfer s s'" "usb_inv s"
  shows "usb_inv s'"
  using assms
proof (cases rule: transfer.cases)
  case (host_read buf r buf' h)
  then show ?thesis using usb_inv_host_read [OF assms(2), of buf] by simp
qed (use inv_to_device inv_to_host inv_dev_read inv_dev_take inv_dev_write assms(2) in blast)+

lemma usb_step_inv:
  assumes "usb_step s s'" "usb_inv s"
  shows "usb_inv s'"
  using assms
proof (cases rule: usb_step.cases)
  case transfer
  then show ?thesis using transfer_inv assms(2) by blast
next
  case (host_send m frag fails h)
  have "length m \<le> 255" using host_send(2) by (simp add: usb_command_def)
  from usb_try_write_carries [OF host_send(4) _ this host_send(3)] obtain fs where
    fs: "hid_written h = hid_written (host s) @ fs" "hid_reads h = hid_reads (host s)" "carries True m fs" by auto
  obtain x M where o: "part_read x (dev s)" "owed x M (inward (rings (dev s)) @ hid_written (host s))" "\<forall>m \<in> set M. usb_command m"
    "usb_SerialRxPending (dev s) \<longrightarrow> x = []" "host_sent s = dev_got s @ held (dev s) @ M"
    using assms(2) by (auto simp: usb_inv_def Let_def)
  have "owed x (M @ [m]) (inward (rings (dev s)) @ hid_written h)"
    using owed_snoc [OF o(2) fs(3)] fs(1) by simp
  then have "\<exists>x M. part_read x (dev s) \<and> owed x M (inward (rings (dev s)) @ hid_written h) \<and> (\<forall>m \<in> set M. usb_command m) \<and>
      (usb_SerialRxPending (dev s) \<longrightarrow> x = []) \<and> host_sent s @ [m] = dev_got s @ held (dev s) @ M"
    using o host_send(2) by (intro exI [of _ x] exI [of _ "M @ [m]"]) simp
  then show ?thesis using assms(2) fs(2) unfolding host_send(1) by (simp add: usb_inv_def Let_def)
next
  case (dev_send c l p fs tx)
  let ?t = "(UsbTxFrag (dev s))[1 := c, 2 := l]"
  have m: "length p = unat l" "l \<noteq> 0" "length (c # l # p) \<le> 255"
  proof -
    have "3 \<le> length (c # l # p)" "length (c # l # p) \<le> 255" "l = of_nat (length p)"
      using dev_send(2) by (simp_all add: usb_indication_def usb_command_def)
    then show "length p = unat l" "l \<noteq> 0" "length (c # l # p) \<le> 255" by (auto simp: unat_of_nat unat_eq_0 [symmetric])
  qed
  have t: "length ?t = 64" "[?t ! 1, ?t ! 2] = [c, l]" using assms(2) by (simp_all add: usb_inv_def Let_def)
  have c: "carries True (c # l # p) fs"
    by (rule usb_fragments_carries [OF dev_send(4) m(1,2) t(1)]) (use t(2) in simp)
  have lt: "length tx = 64" using usb_fragments_length [OF dev_send(4) m(1) t(1)] .
  obtain L hr where u: "hid_reads (host s) = map Hid_frag hr" "stream L (hr @ outward (rings (dev s)) @ tx_pending s)"
    "\<forall>m \<in> set L. usb_indication m" "dev_sent s = host_got s @ L" using assms(2) by (auto simp: usb_inv_def Let_def)
  have "\<exists>L hr. hid_reads (host s) = map Hid_frag hr \<and> stream L (hr @ outward (rings (dev s)) @ fs) \<and>
      (\<forall>m \<in> set L. usb_indication m) \<and> dev_sent s @ [c # l # p] = host_got s @ L"
    using stream_snoc [OF u(2) c] u dev_send(2,3) by (intro exI [of _ "L @ [c # l # p]"] exI [of _ hr]) simp
  then show ?thesis using assms(2) lt unfolding dev_send(1) by (simp add: usb_inv_def Let_def)
qed

lemma usb_reachable_inv: "usb_reachable s \<Longrightarrow> usb_inv s"
  unfolding usb_reachable_def
proof (induction rule: rtranclp_induct)
  case base
  then show ?case by (rule usb_inv_start)
next
  case (step s s')
  then show ?case using usb_step_inv by blast
qed

text \<open>How much work the messages on their way still are.\<close>

definition work :: "usb_link \<Rightarrow> nat" where
  "work s = 3 * length (hid_written (host s)) + 2 * length (inward (rings (dev s))) + of_bool (usb_SerialRxPending (dev s)) +
     4 * length (tx_pending s) + 3 * length (outward (rings (dev s))) + length (hid_reads (host s))"

lemma transfer_work:
  assumes "transfer s s'" and inv: "usb_inv s"
  shows "work s' < work s"
proof -
  have ok: "usb_ok (rings (dev s))" "rings_ok (rings (dev s))" "Connected (rings (dev s))"
    using inv by (simp_all add: usb_inv_def Let_def usb_ok_def)
  show ?thesis
    using assms(1)
  proof (cases rule: transfer.cases)
    case (to_device f fs)
    then show ?thesis using ep3_arrived [OF ok(2) _ ok(3), of f] by (simp add: work_def)
  next
    case (to_host f)
    then show ?thesis using ep2_fetched [OF ok(2)] by (simp add: work_def)
  next
    case (dev_read r d)
    obtain f fs where "inward (rings (dev s)) = f # fs" using dev_read(3) peek_inward [OF ok(1)] by (auto split: list.splits)
    moreover have "rings d = BSP_USBSerialRxDequeue (rings (dev s))" using inv_dev_read [OF inv dev_read(2-4)] by simp
    ultimately show ?thesis
      using usb_fifo.dequeue_tail [OF ok(1)] rx_empty [OF ok(2)] dequeue(3) [OF ok(2,3)] dev_read(1,2) by (simp add: work_def)
  next
    case dev_take
    then show ?thesis by (simp add: work_def)
  next
    case (dev_write f fs rs)
    then show ?thesis using transmit [OF ok(2,3) dev_write(3)] by (simp add: work_def)
  next
    case (host_read buf r buf' h)
    then show ?thesis using usb_inv_host_read [OF inv host_read(2,3)] by (simp add: work_def)
  qed
qed

lemma no_transfer_all_arrived:
  assumes inv: "usb_inv s" and stop: "\<nexists>s'. transfer s s'"
  shows "dev_got s = host_sent s \<and> host_got s = dev_sent s"
proof -
  have ok: "usb_ok (rings (dev s))" "rings_ok (rings (dev s))" "Connected (rings (dev s))"
    using inv by (simp_all add: usb_inv_def Let_def usb_ok_def)
  have np: "\<not> usb_SerialRxPending (dev s)" using stop dev_take by blast
  have "inward (rings (dev s)) = []"
  proof (rule ccontr)
    assume "inward (rings (dev s)) \<noteq> []"
    then have "BSP_USBSerialRxPeek (rings (dev s)) \<noteq> None" using peek_inward [OF ok(1)] by (auto split: list.split)
    then show False using stop dev_read [OF np _ surjective_pairing] by blast
  qed
  moreover from this have "ep3_ready (rings (dev s))" using ok(2) by (auto simp: inward_def rings_ok_def rx_ok_def split: if_splits)
  then have "hid_written (host s) = []" using stop to_device by (cases "hid_written (host s)") blast+
  ultimately have down: "dev_got s = host_sent s"
  proof -
    assume a: "inward (rings (dev s)) = []" "hid_written (host s) = []"
    obtain x M where o: "owed x M []" "host_sent s = dev_got s @ M"
      using inv a np by (auto simp: usb_inv_def Let_def held_def)
    have "M = []" using o(1) carries_not_nil by (auto simp: owed_def stream_nil split: if_splits)
    with o(2) show ?thesis by simp
  qed
  have e2: "ep2 (rings (dev s)) = None" using stop to_host by (cases "ep2 (rings (dev s))") blast+
  then have f0: "FullTransmitBuffers (rings (dev s)) = 0" using ok(2,3) by (simp add: rings_ok_def)
  then have out: "outward (rings (dev s)) = []" using e2 by (simp add: outward_def tx_items_def ring_def)
  have tp: "tx_pending s = []"
  proof (cases "tx_pending s")
    case (Cons f fs)
    have "fst (USB_Transmit f (rings (dev s)))" using f0 by (simp add: USB_Transmit_def Let_def)
    then have "USB_Transmit f (rings (dev s)) = (True, snd (USB_Transmit f (rings (dev s))))" by (simp add: prod_eq_iff)
    then show ?thesis using stop dev_write [OF Cons] by blast
  qed
  have "hid_reads (host s) = []"
  proof (rule ccontr)
    assume ne: "hid_reads (host s) \<noteq> []"
    have b: "length (replicate MAX_BUF_SIZE (0 :: u8)) = MAX_BUF_SIZE" by simp
    obtain r buf' h where "usb_try_read (replicate MAX_BUF_SIZE 0) (host s) = Some (r, buf', h)"
      using usb_inv_host_read [OF inv ne b] out tp by (cases "usb_try_read (replicate MAX_BUF_SIZE 0) (host s)") auto
    then show False using stop host_read [OF ne b] by blast
  qed
  then have "host_got s = dev_sent s" using inv out tp by (auto simp: usb_inv_def Let_def stream_nil)
  with down show ?thesis by simp
qed


text \<open>A run: a message to the device.\<close>

lemma usb_run_example:
  defines "m \<equiv> [1, 2, 7, 8 :: u8]" and "f \<equiv> replicate 65 (0 :: u8)"
  shows "\<exists>s. usb_reachable s \<and> host_sent s = [m] \<and> dev_got s = [m]"
proof -
  define p where "p = [0xC4, 1, 2, 7, 8] @ replicate 59 (0 :: u8)"
  define h1 where "h1 = \<lparr>hid_reads = [], hid_write_fails = [], hid_written = [p], hid_reloads = []\<rparr>"
  have w: "usb_try_write m (length m) f ((host usb_start)\<lparr>hid_write_fails := [True, True], hid_reloads := []\<rparr>) = Some (CA_ERROR_SUCCESS, h1)"
    unfolding m_def f_def h1_def p_def by code_simp
  define s1 where "s1 = usb_start\<lparr>host := h1, host_sent := host_sent usb_start @ [m]\<rparr>"
  have st1: "usb_step usb_start s1" unfolding s1_def
    by (rule usb_step.host_send [OF _ _ w]) (simp_all add: m_def f_def usb_command_def)
  define s2 where "s2 = s1\<lparr>host := (host s1)\<lparr>hid_written := []\<rparr>,
       dev := (dev s1)\<lparr>rings := USB_EP3_Handler ((rings (dev s1))\<lparr>ep3 := p, ep3_ready := False\<rparr>)\<rparr>\<rparr>"
  have st2: "transfer s1 s2" unfolding s2_def
    by (rule transfer.to_device) (simp_all add: s1_def h1_def usb_start_def rings_start_def)
  define d3 where "d3 = snd (get_command_turn (dev s2))"
  define s3 where "s3 = s2\<lparr>dev := d3\<rparr>"
  have d2: "\<not> usb_SerialRxPending (dev s2)" "BSP_USBSerialRxPeek (rings (dev s2)) \<noteq> None"
    unfolding s2_def s1_def h1_def p_def m_def by code_simp+
  have st3: "transfer s2 s3" unfolding s3_def
    by (rule transfer.dev_read [OF d2, of "fst (get_command_turn (dev s2))"]) (simp add: d3_def)
  have d3: "usb_SerialRxPending (dev s3)" "usb_message (dev s3) = m"
    unfolding s3_def d3_def s2_def s1_def h1_def p_def m_def by code_simp+
  define s4 where "s4 = s3\<lparr>dev := (dev s3)\<lparr>usb_SerialRxPending := False\<rparr>, dev_got := dev_got s3 @ [usb_message (dev s3)]\<rparr>"
  have st4: "transfer s3 s4" unfolding s4_def by (rule transfer.dev_take [OF d3(1)])
  have "usb_reachable s4" unfolding usb_reachable_def
    using st1 usb_step.transfer [OF st2] usb_step.transfer [OF st3] usb_step.transfer [OF st4]
    by (meson rtranclp.rtrancl_into_rtrancl rtranclp.rtrancl_refl)
  moreover have "host_sent s4 = [m]" "dev_got s4 = [m]"
    by (simp_all add: s4_def d3(2)) (simp_all add: s3_def s2_def s1_def usb_start_def)
  ultimately show ?thesis by blast
qed


end
