(* ===== verification/UsbFaults.thy ===== *)
theory UsbFaults
  imports UsbDelivery
begin

text \<open>
  What the USB link does not carry: messages without data, messages of more octets than an octet counts;
  and a sequence of packets that stops the device's reading for good.
\<close>

unbundle bit_operations_syntax

lemma read_long:
  assumes "carries True m fs" "256 \<le> length m" "length m \<le> 257" "m ! 0 \<noteq> 0xF0" "length buf = MAX_BUF_SIZE"
  shows "usb_try_read buf (h\<lparr>hid_reads := map Hid_frag fs\<rparr>) = Some (int (length m) - 256, put buf 0 m, h\<lparr>hid_reads := []\<rparr>)"
proof -
  consider "length m = 256" | "length m = 257" using assms(2,3) by linarith
  then have b: "begins_within 0 m" and u: "uint (of_nat (length m) :: u8) = int (length m) - 256"
    by (cases; simp add: begins_within_def)+
  have r: "read_frags True (map Hid_frag fs) buf 0 0 = Some (int MAX_FRAG_SIZE, put buf 0 m, of_nat (length m), [])"
    using read_frags_carries [OF assms(1) _ b assms(5), of True "[]" 0] by simp
  have "m \<noteq> []" using assms(2) by auto
  then have "put buf 0 m ! 0 = m ! 0" by (simp add: put_def nth_append)
  then show ?thesis using assms(4) u unfolding usb_try_read_def by (simp add: r Let_def)
qed

text \<open>
  C34: Messages of the device at the limits of the length octet: without data no packet is sent at all;
  with 254 or 255 octets of data the host counts to 256 or 257 in an octet, and returns no octet
  or one of the message, having written 257 octets to a buffer of 256 for the longer one.
\<close>
theorem usb_length_limits:
  assumes "length p = unat l" "254 \<le> unat l" "usb_fragments True l p tx = (fs, tx')" "length tx = 64" "tx ! 1 \<noteq> 0xF0"
    and "length buf = MAX_BUF_SIZE"
  shows "usb_fragments True 0 q tx = ([], tx) \<and>
     (\<exists>buf'. usb_try_read buf (h\<lparr>hid_reads := map Hid_frag fs\<rparr>) = Some (int (unat l) - 254, buf', h\<lparr>hid_reads := []\<rparr>) \<and>
        length buf' = unat l + 2)"
proof -
  let ?m = "[tx ! 1, tx ! 2] @ p"
  have l0: "l \<noteq> 0" using assms(2) by auto
  have c: "carries True ?m fs" by (rule usb_fragments_carries [OF assms(3,1) l0 assms(4)]) simp
  have m: "256 \<le> length ?m" "length ?m \<le> 257" "?m ! 0 \<noteq> 0xF0" using assms(1,2,5) by simp_all
  have "length (put buf 0 ?m) = unat l + 2" using assms(1,2,6) by (simp add: put_def)
  moreover have "int (length ?m) - 256 = int (unat l) - 254" using assms(1) by simp
  ultimately show ?thesis
    using read_long [OF c m assms(6), of h] usb_fragments.simps [of True 0 q tx] by (intro conjI exI [of _ "put buf 0 ?m"]) simp_all
qed

theorem usb_length_limits_witness:
  "let tx = replicate 64 (1 :: u8); fs = fst (usb_fragments True 254 (replicate 254 7) tx);
     h = \<lparr>hid_reads = [], hid_write_fails = [], hid_written = [], hid_reloads = []\<rparr>
   in \<exists>buf'. usb_try_read (replicate 256 0) (h\<lparr>hid_reads := map Hid_frag fs\<rparr>) = Some (0, buf', h)"
proof -
  define tx where "tx = replicate 64 (1 :: u8)"
  let ?p = "replicate 254 (7 :: u8)" let ?h = "\<lparr>hid_reads = [], hid_write_fails = [], hid_written = [], hid_reloads = []\<rparr>"
  obtain fs tx' where f: "usb_fragments True 254 ?p tx = (fs, tx')" by (cases "usb_fragments True 254 ?p tx")
  have x: "length ?p = unat (254 :: u8)" "254 \<le> unat (254 :: u8)" "length tx = 64" "tx ! 1 \<noteq> 0xF0"
    "length (replicate 256 (0 :: u8)) = MAX_BUF_SIZE" by (simp_all add: tx_def)
  from usb_length_limits [OF x(1,2) f x(3,4,5), of "[]" ?h] show ?thesis
    unfolding Let_def tx_def [symmetric] f fst_conv by auto
qed

lemma turn_jammed:
  assumes "BSP_USBSerialRxPeek (rings s) = Some f" "f ! 0 AND FRAG_FIRST_MASK = 0"
    and "unat (usb_SerialCount s) + unat (f ! 0 AND 0x3F) > SERIAL_MAC_RX_LEN"
  shows "get_command_turn s = (Some False, s)"
  using assms by (simp add: get_command_turn_def Let_def)

text \<open>
  C33: When the last packet of a message is lost and the next message goes on where its packets do not
  fit, the packet is never taken from the queue: the device reads no command any more, however
  many packets come and however often it tries.
\<close>
theorem usb_reader_jams:
  assumes "\<not> usb_SerialRxPending s" "usb_ok (rings s)" "inward (rings s) = f # fs" "f ! 0 AND FRAG_FIRST_MASK = 0"
    and "unat (usb_SerialCount s) + unat (f ! 0 AND 0x3F) > SERIAL_MAC_RX_LEN"
  shows "SerialGetCommand_USB s = (False, s) \<and>
     (ep3_ready (rings s) \<longrightarrow>
       (let s' = s\<lparr>rings := USB_EP3_Handler ((rings s)\<lparr>ep3 := g, ep3_ready := False\<rparr>)\<rparr>
        in usb_ok (rings s') \<and> inward (rings s') = f # fs @ [g] \<and> SerialGetCommand_USB s' = (False, s')))"
proof -
  have j: "SerialGetCommand_USB t = (False, t)"
    if "\<not> usb_SerialRxPending t" "usb_ok (rings t)" "inward (rings t) = f # gs" "usb_SerialCount t = usb_SerialCount s" for t gs
  proof -
    have "BSP_USBSerialRxPeek (rings t) = Some f" using peek_inward [OF that(2)] that(3) by simp
    then have "get_command_turn t = (Some False, t)" using assms(4,5) that(4) by (intro turn_jammed) simp_all
    then show ?thesis using that(1) by (simp add: SerialGetCommand_USB_def get_command_loop.simps [of t])
  qed
  have ok: "rings_ok (rings s)" "Connected (rings s)" using assms(2) by (simp_all add: usb_ok_def)
  show ?thesis
    using j [OF assms(1-3)] ep3_arrived [OF ok(1) _ ok(2), of g] assms(1,3)
    by (auto simp: Let_def usb_ok_def intro!: j)
qed

theorem usb_reader_jams_witness:
  "\<exists>s. \<not> usb_SerialRxPending s \<and> usb_SerialCount s = 250 \<and> SerialGetCommand_USB s = (False, s) \<and> inward (rings s) \<noteq> []"
proof -
  let ?f = "63 # replicate 63 (0 :: u8)"
  define s where "s = (dev usb_start)\<lparr>usb_SerialCount := 250,
      rings := rings_start\<lparr>ReceiveBuffer := ?f # replicate 7 [], NextReceiveBufferToFill := 1, FullReceiveBuffers := 1\<rparr>\<rparr>"
  have ok: "usb_ok (rings s)"
    by (simp add: s_def usb_ok_def rings_ok_def tx_ok_def rx_ok_def rings_start_def)
  have i: "inward (rings s) = [?f]"
    by (simp add: s_def inward_def rx_items_def ring_def rings_start_def)
  have c: "\<not> usb_SerialRxPending s" "usb_SerialCount s = 250" by (simp_all add: s_def usb_start_def)
  show ?thesis using usb_reader_jams [OF c(1) ok i, of ?f] c i by (intro exI [of _ s]) simp
qed

end
