(* ===== verification/UsbHost.thy ===== *)
theory UsbHost
  imports Usb "HOL-Library.Multiset"
begin

text \<open>
  The devices that the host's USB exchange has opened: its table, claiming and releasing devices, and
  their serial numbers, which tell them apart. What hidapi enumerates and which devices it opens are
  parameters; strings are lists of characters.
\<close>

unbundle bit_operations_syntax

subsection \<open>State\<close>

record hid_device_info =
  hid_path :: string
  hid_serial :: string
  hid_product :: string

text \<open>An entry of the table is a reference to a device, with the serial number in its private data.\<close>

record usb_statics =
  s_devs :: "(nat \<times> string) option list"
  s_devcount :: int
  s_initialised :: bool

definition usb_statics_start :: usb_statics where
  "usb_statics_start = \<lparr>s_devs = [], s_devcount = 0, s_initialised = False\<rparr>"

text \<open>\<open>dlibs\<close> is the result of loading the library.\<close>

definition init_statics_usb :: "ca_error \<Rightarrow> usb_statics \<Rightarrow> ca_error \<times> usb_statics" where
  "init_statics_usb dlibs s =
     (if s_initialised s then (CA_ERROR_SUCCESS, s)
      else if dlibs \<noteq> CA_ERROR_SUCCESS then (dlibs, s)
      else (CA_ERROR_SUCCESS, s\<lparr>s_initialised := True\<rparr>))"

definition deinit_statics_usb :: "usb_statics \<Rightarrow> usb_statics" where
  "deinit_statics_usb s = s\<lparr>s_initialised := False\<rparr>"

primrec is_serialno_in_use :: "string \<Rightarrow> (nat \<times> string) option list \<Rightarrow> bool" where
  "is_serialno_in_use serial [] = False"
| "is_serialno_in_use serial (d # ds) =
     (case d of
        None \<Rightarrow> is_serialno_in_use serial ds
      | Some (_, cur) \<Rightarrow> if serial = cur then True else is_serialno_in_use serial ds)"

primrec first_free :: "nat \<times> string \<Rightarrow> (nat \<times> string) option list \<Rightarrow> (nat \<times> string) option list option" where
  "first_free d [] = None"
| "first_free d (e # es) = (if e = None then Some (Some d # es) else map_option ((#) e) (first_free d es))"

text \<open>\<open>room\<close> says that memory for a longer table is available.\<close>

definition add_sdev :: "bool \<Rightarrow> nat \<times> string \<Rightarrow> usb_statics \<Rightarrow> usb_statics" where
  "add_sdev room d s =
     (let s = s\<lparr>s_devcount := s_devcount s + 1\<rparr> in
      case first_free d (s_devs s) of
        Some ds \<Rightarrow> s\<lparr>s_devs := ds\<rparr>
      | None \<Rightarrow> if room then s\<lparr>s_devs := s_devs s @ Some d # replicate 9 None\<rparr> else s)"

primrec clear_first :: "nat \<Rightarrow> (nat \<times> string) option list \<Rightarrow> (nat \<times> string) option list" where
  "clear_first r [] = []"
| "clear_first r (e # es) =
     (case e of
        Some (r', _) \<Rightarrow> if r' = r then None # es else e # clear_first r es
      | None \<Rightarrow> e # clear_first r es)"

definition rm_sdev :: "nat \<Rightarrow> usb_statics \<Rightarrow> usb_statics" where
  "rm_sdev r s = s\<lparr>s_devcount := s_devcount s - 1, s_devs := clear_first r (s_devs s)\<rparr>"

fun get_next_hid :: "(nat \<times> string) option list \<Rightarrow> hid_device_info list \<Rightarrow> hid_device_info list" where
  "get_next_hid ds [] = []"
| "get_next_hid ds (i # is) = (if \<not> is_serialno_in_use (hid_serial i) ds then i # is else get_next_hid ds is)"

lemma get_next_hid_length: "length (get_next_hid ds is) \<le> length is"
  by (induction ds "is" rule: get_next_hid.induct) auto

subsection \<open>Claiming a device\<close>

text \<open>The device that was opened, if any, and whether one with the path was seen.\<close>

function claim_loop ::
  "(string \<Rightarrow> bool) \<Rightarrow> string option \<Rightarrow> string option \<Rightarrow> (nat \<times> string) option list \<Rightarrow> bool \<Rightarrow>
   hid_device_info list \<Rightarrow> hid_device_info option \<times> bool" where
  "claim_loop opens path serial_num ds path_found [] = (None, path_found)"
| "claim_loop opens path serial_num ds path_found (hid_cur # hid_next) =
     (if path \<noteq> None \<and> path \<noteq> Some (hid_path hid_cur)
      then claim_loop opens path serial_num ds path_found (get_next_hid ds hid_next)
      else if serial_num \<noteq> None \<and> serial_num \<noteq> Some (hid_serial hid_cur)
      then claim_loop opens path serial_num ds path_found (get_next_hid ds hid_next)
      else if opens (hid_path hid_cur) then (Some hid_cur, True)
      else claim_loop opens path serial_num ds True (get_next_hid ds hid_next))"
  by pat_completeness auto
termination
  by (relation "measure (\<lambda>(opens, path, serial, ds, found, is). length is)")
    (simp_all add: le_imp_less_Suc get_next_hid_length)

text \<open>\<open>used\<close>: the reference has private data already; \<open>generic\<close>: whether the shared part starts.\<close>

definition usb_exchange_init ::
  "ca_error \<Rightarrow> hid_device_info list \<Rightarrow> (string \<Rightarrow> bool) \<Rightarrow> bool \<Rightarrow> bool \<Rightarrow> string option \<Rightarrow> string option \<Rightarrow>
   nat \<Rightarrow> bool \<Rightarrow> usb_statics \<Rightarrow> ca_error \<times> hid_device_info option \<times> usb_statics" where
  "usb_exchange_init dlibs infos opens generic room path serial_num r used s =
     (case init_statics_usb dlibs s of
        (error, s) \<Rightarrow>
          if error \<noteq> CA_ERROR_SUCCESS then (error, None, s)
          else if used then (CA_ERROR_ALREADY, None, s)
          else
            let (error, d, s) =
              (case claim_loop opens path serial_num (s_devs s) False (get_next_hid (s_devs s) infos) of
                 (None, path_found) \<Rightarrow>
                   (if path \<noteq> None \<and> path_found then CA_ERROR_NO_ACCESS else CA_ERROR_NOT_FOUND, None, s)
               | (Some hid_cur, _) \<Rightarrow>
                   if \<not> generic then (CA_ERROR_NOT_FOUND, None, s)
                   else (CA_ERROR_SUCCESS, Some hid_cur, add_sdev room (r, hid_serial hid_cur) s))
            in (error, d, if s_devcount s = 0 then deinit_statics_usb s else s))"

definition usb_exchange_deinit :: "nat \<Rightarrow> usb_statics \<Rightarrow> usb_statics" where
  "usb_exchange_deinit r s =
     (let s = rm_sdev r s in if s_devcount s = 0 then deinit_statics_usb s else s)"

text \<open>A device that dropped off is looked for by its serial number.\<close>

primrec reload_loop :: "(string \<Rightarrow> bool) \<Rightarrow> string \<Rightarrow> hid_device_info list \<Rightarrow> hid_device_info option" where
  "reload_loop opens serial [] = None"
| "reload_loop opens serial (hid_cur # hid_next) =
     (if serial = hid_serial hid_cur \<and> opens (hid_path hid_cur) then Some hid_cur else reload_loop opens serial hid_next)"

definition reload_hid_device :: "hid_device_info list \<Rightarrow> (string \<Rightarrow> bool) \<Rightarrow> string \<Rightarrow> ca_error \<times> hid_device_info option" where
  "reload_hid_device infos opens serial =
     (case reload_loop opens serial infos of
        None \<Rightarrow> (CA_ERROR_NOT_FOUND, None)
      | Some d \<Rightarrow> (CA_ERROR_SUCCESS, Some d))"

text \<open>The product string holds the names of the device and, behind a colon, of its application.\<close>

record ca_device_info =
  di_path :: string
  di_device_name :: string
  di_serialno :: string
  di_app_name :: "string option"

definition device_info :: "hid_device_info \<Rightarrow> ca_device_info" where
  "device_info hid_cur =
     (let devname = take 99 (hid_product hid_cur);
          rest = dropWhile (\<lambda>c. c \<noteq> CHR '':'') devname
      in \<lparr>di_path = hid_path hid_cur, di_device_name = takeWhile (\<lambda>c. c \<noteq> CHR '':'') devname,
          di_serialno = take 99 (hid_serial hid_cur), di_app_name = (if rest = [] then None else Some (tl rest))\<rparr>)"

text \<open>The callback is called with each of the results in turn.\<close>

definition usb_exchange_enumerate ::
  "ca_error \<Rightarrow> hid_device_info list \<Rightarrow> usb_statics \<Rightarrow> ca_error \<times> ca_device_info list \<times> usb_statics" where
  "usb_exchange_enumerate dlibs infos s =
     (case init_statics_usb dlibs s of
        (status, s) \<Rightarrow>
          if status \<noteq> CA_ERROR_SUCCESS then (status, [], s)
          else
            let s = s\<lparr>s_devcount := s_devcount s + 1\<rparr>;
                found = map device_info infos;
                s = s\<lparr>s_devcount := s_devcount s - 1\<rparr>
            in (status, found, if s_devcount s = 0 then deinit_statics_usb s else s))"

subsection \<open>Serial numbers of the device\<close>

definition serial_digit :: "64 word \<Rightarrow> nat \<Rightarrow> u8" where
  "serial_digit uniqueID i =
     (let hex_symbol = ucast (drop_bit ((16 - i div 2) * 4) uniqueID AND 0xF) :: u8;
          ascii_shift = (if hex_symbol > 9 then 55 else 48)
      in hex_symbol + ascii_shift)"

text \<open>The string descriptor: its length, its type, and sixteen characters of two octets.\<close>

definition USB_PopulateSerial :: "64 word \<Rightarrow> bytes" where
  "USB_PopulateSerial uniqueID =
     fold (\<lambda>k USB_SERIAL. USB_SERIAL[2 * k := serial_digit uniqueID (2 * k)]) [1..<17] ([34, 3] @ replicate 32 0)"

definition USB_PopulateProduct :: "string \<Rightarrow> bytes" where
  "USB_PopulateProduct appName =
     (let product_string = ''Chili2:'' @ take (49 - 7) appName;
          len = length product_string
      in fold (\<lambda>k p. p[2 * k := of_char (product_string ! (k - 1))]) [1..<len + 1]
           ([of_nat (2 * len + 2), 3] @ replicate 98 0))"

subsection \<open>No device is claimed twice\<close>

definition tracked :: "(nat \<times> string) option list \<Rightarrow> (nat \<times> string) list" where
  "tracked ds = [d. Some d \<leftarrow> ds]"

lemma tracked_simps [simp]:
  "tracked [] = []" "tracked (None # ds) = tracked ds" "tracked (Some d # ds) = d # tracked ds" "tracked (xs @ ys) = tracked xs @ tracked ys"
  "tracked (replicate n None) = []"
  by (simp_all add: tracked_def)

lemma in_use_tracked: "is_serialno_in_use serial ds \<longleftrightarrow> serial \<in> snd ` set (tracked ds)"
  by (induction ds) (auto split: option.splits)

lemma first_free_tracked: "first_free d ds = Some es \<Longrightarrow> mset (tracked es) = add_mset d (mset (tracked ds))"
proof (induction ds arbitrary: es)
  case (Cons e ds)
  then show ?case by (cases e) auto
qed simp

lemma add_sdev_tracked: "mset (tracked (s_devs (add_sdev True d s))) = add_mset d (mset (tracked (s_devs s)))"
  by (auto simp: add_sdev_def Let_def first_free_tracked split: option.splits)

lemma clear_first_tracked:
  "distinct (map fst (tracked ds)) \<Longrightarrow> tracked (clear_first r ds) = filter (\<lambda>d. fst d \<noteq> r) (tracked ds)"
proof (induction ds)
  case (Cons e ds)
  then show ?case by (cases e) (auto simp: image_iff intro!: filter_True [symmetric])
qed simp

lemma length_without:
  "distinct (map f xs) \<Longrightarrow> r \<in> f ` set xs \<Longrightarrow> Suc (length (filter (\<lambda>x. f x \<noteq> r) xs)) = length xs"
proof (induction xs)
  case (Cons x xs)
  show ?case
  proof (cases "f x = r")
    case True
    then have "filter (\<lambda>x. f x \<noteq> r) xs = xs" using Cons.prems(1) by (intro filter_True) (auto simp: image_iff)
    then show ?thesis using True by simp
  next
    case False
    then show ?thesis using Cons by auto
  qed
qed simp

text \<open>A free device that was asked for.\<close>

definition wanted :: "string option \<Rightarrow> string option \<Rightarrow> (nat \<times> string) option list \<Rightarrow> hid_device_info \<Rightarrow> bool" where
  "wanted path serial_num ds i \<longleftrightarrow>
     (path = None \<or> path = Some (hid_path i)) \<and> (serial_num = None \<or> serial_num = Some (hid_serial i)) \<and>
     hid_serial i \<notin> snd ` set (tracked ds)"

lemma claim_loop_finds:
  "claim_loop opens path sn ds seen (get_next_hid ds is) =
     (find (\<lambda>i. wanted path sn ds i \<and> opens (hid_path i)) is, seen \<or> (\<exists>i \<in> set is. wanted path sn ds i))"
proof (induction "is" arbitrary: seen)
  case (Cons i "is")
  show ?case
  proof (cases "is_serialno_in_use (hid_serial i) ds")
    case True
    then have "\<not> wanted path sn ds i" by (simp add: wanted_def in_use_tracked)
    then show ?thesis using True Cons.IH by simp
  next
    case False
    then have "wanted path sn ds i \<longleftrightarrow> \<not> (path \<noteq> None \<and> path \<noteq> Some (hid_path i)) \<and> \<not> (sn \<noteq> None \<and> sn \<noteq> Some (hid_serial i))"
      by (auto simp: wanted_def in_use_tracked)
    then show ?thesis using False Cons.IH by auto
  qed
qed simp

definition hosts_ok :: "usb_statics \<Rightarrow> bool" where
  "hosts_ok s \<longleftrightarrow> distinct (map fst (tracked (s_devs s))) \<and> distinct (map snd (tracked (s_devs s))) \<and>
     s_devcount s = int (length (tracked (s_devs s))) \<and> (s_initialised s \<longleftrightarrow> s_devcount s \<noteq> 0)"

lemma hosts_ok_start: "hosts_ok usb_statics_start"
  by (simp add: hosts_ok_def usb_statics_start_def)

lemma distinct_add:
  assumes "mset xs = add_mset x (mset ys)" "distinct (map f ys)" "f x \<notin> f ` set ys"
  shows "distinct (map f xs)"
proof -
  have "mset (map f xs) = mset (f x # map f ys)" using assms(1) by simp
  then show ?thesis using assms(2,3) mset_eq_imp_distinct_iff by fastforce
qed

lemma deinit_ok:
  assumes "hosts_ok s" "r \<in> fst ` set (tracked (s_devs s))"
  shows "hosts_ok (usb_exchange_deinit r s)"
    "tracked (s_devs (usb_exchange_deinit r s)) = filter (\<lambda>d. fst d \<noteq> r) (tracked (s_devs s))"
proof -
  have d: "distinct (map fst (tracked (s_devs s)))" using assms(1) by (simp add: hosts_ok_def)
  note c = clear_first_tracked [OF d, of r]
  show t: "tracked (s_devs (usb_exchange_deinit r s)) = filter (\<lambda>d. fst d \<noteq> r) (tracked (s_devs s))"
    by (simp add: usb_exchange_deinit_def rm_sdev_def deinit_statics_usb_def Let_def c)
  have "Suc (length (filter (\<lambda>d. fst d \<noteq> r) (tracked (s_devs s)))) = length (tracked (s_devs s))"
    by (rule length_without [OF d assms(2)])
  then show "hosts_ok (usb_exchange_deinit r s)"
    using assms(1) by (auto simp: hosts_ok_def usb_exchange_deinit_def rm_sdev_def deinit_statics_usb_def Let_def c distinct_map_filter)
qed

lemma init_statics_ok:
  "init_statics_usb CA_ERROR_SUCCESS s = (CA_ERROR_SUCCESS, s\<lparr>s_initialised := True\<rparr>)"
  by (cases s) (auto simp: init_statics_usb_def)



text \<open>Serial numbers tell devices apart.\<close>

lemma serial_digit_inj:
  assumes "serial_digit a i = serial_digit b i"
  shows "drop_bit ((16 - i div 2) * 4) a AND 0xF = drop_bit ((16 - i div 2) * 4) b AND 0xF"
proof -
  have inj: "x = y" if "x + (if x > 9 then 55 else 48) = y + (if y > 9 then 55 else (48 :: u8))" "x < 16" "y < 16" for x y :: u8
  proof -
    have "list_all (\<lambda>x. list_all (\<lambda>y. (of_nat x :: u8) + (if of_nat x > (9 :: u8) then 55 else 48) =
        of_nat y + (if of_nat y > (9 :: u8) then 55 else 48) \<longrightarrow> x = y) [0..<16]) [0..<16]" by code_simp
    then have "\<forall>x < 16. \<forall>y < 16. (of_nat x :: u8) + (if of_nat x > (9 :: u8) then 55 else 48) =
        of_nat y + (if of_nat y > (9 :: u8) then 55 else 48) \<longrightarrow> x = y" by (simp add: list_all_iff)
    from this [rule_format, of "unat x" "unat y"] that show ?thesis by (simp add: word_less_nat_alt)
  qed
  let ?a = "drop_bit ((16 - i div 2) * 4) a AND 0xF" let ?b = "drop_bit ((16 - i div 2) * 4) b AND 0xF"
  have lt: "x AND 0xF < 16" for x :: "64 word"
  proof -
    have "x AND 0xF = take_bit 4 x" by (simp add: take_bit_eq_mask mask_eq_exp_minus_1)
    then show ?thesis using take_bit_nat_less_exp [of 4 "unat x"] by (simp add: word_less_nat_alt unsigned_take_bit_eq)
  qed
  have u: "unat (ucast ?a :: u8) = unat ?a" "unat (ucast ?b :: u8) = unat ?b"
    using lt [of "drop_bit ((16 - i div 2) * 4) a"] lt [of "drop_bit ((16 - i div 2) * 4) b"]
    by (simp_all add: unsigned_ucast_eq take_bit_nat_eq_self word_less_nat_alt)
  have "(ucast ?a :: u8) = ucast ?b"
    by (rule inj) (use assms lt u in \<open>simp_all add: serial_digit_def Let_def word_less_nat_alt\<close>)
  then have "unat ?a = unat ?b" using u by metis
  then show ?thesis by (simp only: word_unat_eq_iff)
qed

lemma USB_PopulateSerial_digits:
  "USB_PopulateSerial a = [34, 3] @ concat (map (\<lambda>k. [serial_digit a (2 * k), 0]) [1..<17])"
proof -
  have "[1..<17] = [1, 2, 3, 4, 5, 6, 7, 8, 9, 10, 11, 12, 13, 14, 15, 16 :: nat]" by (simp add: upt_rec)
  then show ?thesis by (simp add: USB_PopulateSerial_def numeral_eq_Suc)
qed

lemma USB_PopulateSerial_inj:
  assumes "USB_PopulateSerial a = USB_PopulateSerial b"
  shows "a = b"
proof (rule bit_eqI)
  have "[1..<17] = [1, 2, 3, 4, 5, 6, 7, 8, 9, 10, 11, 12, 13, 14, 15, 16 :: nat]" by (simp add: upt_rec)
  then have d: "serial_digit a (2 * k) = serial_digit b (2 * k)" if "k \<in> set [1..<17]" for k
    using assms that unfolding USB_PopulateSerial_digits by auto
  fix n :: nat
  assume "possible_bit TYPE(64 word) n"
  then have n: "n < 64" by simp
  define k where "k = 16 - n div 4"
  have k: "k \<in> set [1..<17]" "16 - 2 * k div 2 = n div 4" using n by (auto simp: k_def)
  have "drop_bit (n div 4 * 4) a AND 0xF = drop_bit (n div 4 * 4) b AND 0xF"
    using serial_digit_inj [OF d [OF k(1)]] unfolding k(2) .
  then have e: "bit (drop_bit (n div 4 * 4) a AND 0xF) (n mod 4) = bit (drop_bit (n div 4 * 4) b AND 0xF) (n mod 4)" by simp
  have f: "bit (0xF :: 64 word) (n mod 4)"
  proof -
    have "(0xF :: 64 word) = mask 4" by (simp add: mask_eq_exp_minus_1)
    moreover have "bit (mask 4 :: 64 word) (n mod 4)" by (simp only: bit_mask_iff possible_bit_word) (simp add: order.strict_trans [OF mod_less_divisor])
    ultimately show ?thesis by simp
  qed
  show "bit a n = bit b n"
    using e f by (simp add: bit_and_iff bit_drop_bit_eq)
qed

end
