(* ===== verification/Spec2Isabelle.thy ===== *)
theory Spec2Isabelle
  imports CaError CaTime Hash Endian Tasklet SettingsStore SettingsPower ApiScan ApiSound DispatchFlow ExchangeSound UartFaults UartPath ExtFlashUpdate UsbFaults UsbHost
begin

text \<open>
  Header.
\<close>

end

